(* ===== verification/Prelude.thy ===== *)
theory Prelude
  imports Main "HOL-Library.AList"
begin

text \<open>
  Shared ground of the BuddyNet development.

  \<^item> A Go \<^verbatim>\<open>string\<close> or \<^verbatim>\<open>[]byte\<close> is a list of bytes, and a byte is an HOL
    character, so source literals are written as string literals.
  \<^item> A Go \<^verbatim>\<open>map\<close> is an association list whose keys are distinct: \<open>mget\<close>, \<open>mput\<close>,
    \<open>mdel\<close> and \<open>length\<close> are indexing, assignment, \<^verbatim>\<open>delete\<close> and \<^verbatim>\<open>len\<close>. The list
    order stands for the iteration order, which Go leaves open; every theorem
    quantifies over the lists.
  \<^item> A \<^verbatim>\<open>time.Time\<close> is a number of nanoseconds and a \<^verbatim>\<open>time.Duration\<close> a difference
    of two such numbers; \<open>wrap64\<close> is the wrap-around of \<^verbatim>\<open>int64\<close>.

  The theory holds the collections the component proofs add to (\<open>gomap_simps\<close>,
  \<open>inv_intros\<close>), the lemmas on maps they share, and two interfaces: a transition
  system with an invariant, and a codec.
\<close>

type_synonym bytes = "char list"
type_synonym time = int
type_synonym duration = int
type_synonym ('k, 'v) gomap = "('k \<times> 'v) list"

named_theorems gomap_simps \<open>rewriting Go maps\<close>
named_theorems inv_intros \<open>preservation of component invariants\<close>

definition second :: duration where
  "second = 1000000000"

definition unix_seconds :: "time \<Rightarrow> int" where
  "unix_seconds t = t div second"

definition wrap64 :: "int \<Rightarrow> int" where
  "wrap64 x = (x + 2 ^ 63) mod 2 ^ 64 - 2 ^ 63"

definition int64 :: "int \<Rightarrow> bool" where
  "int64 x \<longleftrightarrow> - (2 ^ 63) \<le> x \<and> x < 2 ^ 63"

lemma wrap64_id: "int64 x \<Longrightarrow> wrap64 x = x"
  by (simp add: int64_def wrap64_def)

lemma int64_wrap64: "int64 (wrap64 x)"
proof -
  have "0 \<le> (x + 2 ^ 63) mod 2 ^ 64" "(x + 2 ^ 63) mod 2 ^ 64 < 2 ^ 64"
    by (rule pos_mod_sign pos_mod_bound, simp)+
  then show ?thesis
    by (simp add: int64_def wrap64_def)
qed

lemma wrap64_cong: "\<exists>k. wrap64 x = x + k * 2 ^ 64"
proof -
  have "(x + 2 ^ 63) mod 2 ^ 64 = x + 2 ^ 63 - (x + 2 ^ 63) div 2 ^ 64 * 2 ^ 64"
    by (rule minus_div_mult_eq_mod [symmetric])
  then have "wrap64 x = x + (- ((x + 2 ^ 63) div 2 ^ 64)) * 2 ^ 64"
    by (simp add: wrap64_def)
  then show ?thesis by blast
qed

section \<open>Go maps\<close>

abbreviation mget :: "('k, 'v) gomap \<Rightarrow> 'k \<Rightarrow> 'v option" where
  "mget m k \<equiv> map_of m k"

abbreviation mput :: "'k \<Rightarrow> 'v \<Rightarrow> ('k, 'v) gomap \<Rightarrow> ('k, 'v) gomap" where
  "mput k v m \<equiv> AList.update k v m"

abbreviation mdel :: "'k \<Rightarrow> ('k, 'v) gomap \<Rightarrow> ('k, 'v) gomap" where
  "mdel k m \<equiv> AList.delete k m"

abbreviation mkeys :: "('k, 'v) gomap \<Rightarrow> 'k set" where
  "mkeys m \<equiv> fst ` set m"

abbreviation gomap :: "('k, 'v) gomap \<Rightarrow> bool" where
  "gomap m \<equiv> distinct (map fst m)"

text \<open>Go reads a missing key of an integer map as 0.\<close>

definition mcount :: "('k, nat) gomap \<Rightarrow> 'k \<Rightarrow> nat" where
  "mcount m k = (case mget m k of None \<Rightarrow> 0 | Some n \<Rightarrow> n)"

lemma mget_mput [gomap_simps]: "mget (mput k v m) k' = (if k' = k then Some v else mget m k')"
  by (simp add: update_conv)

lemma mget_mdel [gomap_simps]: "mget (mdel k m) k' = (if k' = k then None else mget m k')"
  by (simp add: delete_conv)

lemma mkeys_mput [gomap_simps]: "mkeys (mput k v m) = insert k (mkeys m)"
  by (induction m) auto

lemma mkeys_mdel [gomap_simps]: "mkeys (mdel k m) = mkeys m - {k}"
  by (induction m) auto

lemma gomap_mput [gomap_simps]: "gomap m \<Longrightarrow> gomap (mput k v m)"
  by (rule distinct_update)

lemma gomap_mdel [gomap_simps]: "gomap m \<Longrightarrow> gomap (mdel k m)"
  by (rule distinct_delete)

lemma gomap_filter [gomap_simps]: "gomap m \<Longrightarrow> gomap (filter P m)"
  by (induction m) auto

lemma mkeys_filter_subset: "mkeys (filter P m) \<subseteq> mkeys m"
  by auto

lemma mget_None_iff: "mget m k = None \<longleftrightarrow> k \<notin> mkeys m"
  by (simp add: map_of_eq_None_iff)

lemma length_mput [gomap_simps]:
  "length (mput k v m) = (if k \<in> mkeys m then length m else Suc (length m))"
  by (induction m) auto

lemma length_mput_le: "length (mput k v m) \<le> Suc (length m)"
  by (simp add: length_mput)

lemma length_mdel_le [gomap_simps]: "length (mdel k m) \<le> length m"
  by (rule length_delete_le)

lemma mget_filter:
  "gomap m \<Longrightarrow> mget (filter P m) k =
     (case mget m k of None \<Rightarrow> None | Some v \<Rightarrow> if P (k, v) then Some v else None)"
proof (induction m)
  case (Cons a m)
  show ?case
  proof (cases "k = fst a")
    case True
    with Cons.prems have "mget (filter P m) k = None"
      by (auto simp: map_of_eq_None_iff)
    with True show ?thesis by (cases a) auto
  next
    case False
    with Cons show ?thesis by (cases a) auto
  qed
qed simp

lemma set_mput_cases: "(k', v') \<in> set (mput k v m) \<Longrightarrow> (k', v') = (k, v) \<or> (k', v') \<in> set m"
  by (induction m) (auto split: if_splits)

lemma ball_mput:
  "\<forall>x \<in> snd ` set m. P x \<Longrightarrow> P v \<Longrightarrow> \<forall>x \<in> snd ` set (mput k v m). P x"
  by (force dest: set_mput_cases)

lemma mget_in_set: "mget m k = Some v \<Longrightarrow> (k, v) \<in> set m"
  by (rule map_of_SomeD)

lemma set_mget: "gomap m \<Longrightarrow> (k, v) \<in> set m \<Longrightarrow> mget m k = Some v"
  by simp

section \<open>Transition systems with an invariant\<close>

text \<open>
  The servers are state machines: a step function consumes one event. The interface asks
  for the fact a component proves once, that a step on an event of the considered kind
  keeps the invariant, and gives back that every run on such events keeps it.
\<close>

locale stepwise =
  fixes step :: "'e \<Rightarrow> 's \<Rightarrow> 's"
    and inv :: "'s \<Rightarrow> bool"
    and ok :: "'e \<Rightarrow> bool"
  assumes inv_step: "inv s \<Longrightarrow> ok e \<Longrightarrow> inv (step e s)"
begin

lemma inv_run: "inv s \<Longrightarrow> \<forall>e \<in> set es. ok e \<Longrightarrow> inv (fold step es s)"
  by (induction es arbitrary: s) (simp_all add: inv_step)

end

section \<open>Codecs\<close>

text \<open>A printer and a parser that inverts it.\<close>

locale codec =
  fixes enc :: "'a \<Rightarrow> 'b"
    and dec :: "'b \<Rightarrow> 'a option"
    and dom_ok :: "'a \<Rightarrow> bool"
  assumes dec_enc: "dom_ok x \<Longrightarrow> dec (enc x) = Some x"
begin

lemma enc_inj: "dom_ok x \<Longrightarrow> dom_ok y \<Longrightarrow> enc x = enc y \<Longrightarrow> x = y"
  by (metis dec_enc option.inject)

lemma enc_canonical: "dec b = Some x \<Longrightarrow> dom_ok x \<Longrightarrow> dec (enc x) = dec b"
  by (simp add: dec_enc)

end

end
