(* ===== verification/Ticket.thy ===== *)
theory Ticket
  imports Stdlib
begin

text \<open>
  The relay authorization ticket of \<^verbatim>\<open>internal/ticket/ticket.go\<close>: minted and signed by
  the handshake server, verified by the relay over the bytes as received, parsed
  strictly, checked against the relay's clock and id, and bound to an ephemeral key by
  a proof of possession over the relay's cookie.

  The lemmas characterise what each check accepts: the lifetime window in spite of
  64-bit wrap-around, the canonical ids, what a parsed ticket guarantees, the round
  trip from signing to parsing, and the separation of the two signing contexts.
\<close>

definition FormatVersion :: int where "FormatVersion = 1"
definition MaxTTL :: duration where "MaxTTL = 120 * second"
definition Skew :: duration where "Skew = 10 * second"
definition IDLen :: nat where "IDLen = 16"
definition MaxPayloadLen :: nat where "MaxPayloadLen = 512"
definition LegA :: bytes where "LegA = ''a''"
definition LegB :: bytes where "LegB = ''b''"

definition ticketContext :: bytes where
  "ticketContext = ''buddynet-relay-ticket-v1'' @ [CHR 0x00]"

definition bindContext :: bytes where
  "bindContext = ''buddynet-relay-bind-v1'' @ [CHR 0x00]"

record payload =
  V :: int
  RID :: bytes
  SID :: bytes
  Leg :: bytes
  EPK :: bytes
  IAT :: int
  EXP :: int
  Nonce :: bytes

datatype reason = ReasonSize | ReasonMalformed | ReasonUnknownVer | ReasonSignature
  | ReasonWindow | ReasonTTL | ReasonRelay | ReasonLeg | ReasonProof

section \<open>Ids\<close>

text \<open>A fresh id from 16 random bytes.\<close>

definition NewID :: "bytes \<Rightarrow> bytes" where
  "NewID rnd = b64url_encode rnd"

definition ValidID :: "bytes \<Rightarrow> bool" where
  "ValidID s =
     (if length s \<noteq> b64url_encoded_len IDLen then False
      else case b64url_decode s of
             None \<Rightarrow> False
           | Some raw \<Rightarrow> (if length raw \<noteq> IDLen then False else b64url_encode raw = s))"

definition ShortSID :: "bytes \<Rightarrow> bytes" where
  "ShortSID sid = (if length sid > 8 then take 8 sid else sid)"

section \<open>Signing and verifying\<close>

definition signedBytes :: "bytes \<Rightarrow> bytes" where
  "signedBytes p = ticketContext @ p"

text \<open>\<^verbatim>\<open>json.Marshal\<close> of a payload: its members in declaration order.\<close>

definition payload_members :: "payload \<Rightarrow> (bytes \<times> jval) list" where
  "payload_members p =
     [(''v'', JInt (V p)), (''rid'', JString (RID p)), (''sid'', JString (SID p)),
      (''leg'', JString (Leg p)), (''epk'', JString (EPK p)), (''iat'', JInt (IAT p)),
      (''exp'', JInt (EXP p)), (''nonce'', JString (Nonce p))]"

definition Sign :: "json \<Rightarrow> crypto \<Rightarrow> bytes \<Rightarrow> payload \<Rightarrow> (bytes \<times> bytes) option" where
  "Sign J C priv p =
     (let pl = render J (payload_members p)
      in if length pl > MaxPayloadLen then None
         else Some (pl, ed_sign C priv (signedBytes pl)))"

fun verify_any :: "crypto \<Rightarrow> bytes list \<Rightarrow> bytes \<Rightarrow> bytes \<Rightarrow> bool" where
  "verify_any C [] msg sig = False"
| "verify_any C (k # ks) msg sig =
     (if length k = PublicKeySize \<and> ed_verify C k msg sig then True else verify_any C ks msg sig)"

definition Verify :: "crypto \<Rightarrow> bytes list \<Rightarrow> bytes \<Rightarrow> bytes \<Rightarrow> bool" where
  "Verify C keys pl sig =
     (if pl = [] \<or> length pl > MaxPayloadLen \<or> length sig \<noteq> SignatureSize then False
      else verify_any C keys (signedBytes pl) sig)"

section \<open>Strict parsing\<close>

fun dup_scan :: "bytes list \<Rightarrow> bytes list \<Rightarrow> bool" where
  "dup_scan seen [] = False"
| "dup_scan seen (k # ks) = (if k \<in> set seen then True else dup_scan (k # seen) ks)"

definition noDuplicateKeys :: "json \<Rightarrow> bytes \<Rightarrow> reason + unit" where
  "noDuplicateKeys J pl =
     (case scan J pl of
        None \<Rightarrow> Inl ReasonMalformed
      | Some (ms, _) \<Rightarrow> if dup_scan [] (map fst ms) then Inl ReasonMalformed else Inr ())"

text \<open>Storing one member: \<^verbatim>\<open>null\<close> leaves the field alone, a value of the wrong type or an
  integer outside 64 bits is an error, and so is a name no field answers to
  (\<^verbatim>\<open>DisallowUnknownFields\<close>).\<close>

definition int_member :: "jval \<Rightarrow> int \<Rightarrow> int option" where
  "int_member v old = (case v of JNull \<Rightarrow> Some old | JInt i \<Rightarrow> (if int64 i then Some i else None) | _ \<Rightarrow> None)"

definition str_member :: "jval \<Rightarrow> bytes \<Rightarrow> bytes option" where
  "str_member v old = (case v of JNull \<Rightarrow> Some old | JString s \<Rightarrow> Some s | _ \<Rightarrow> None)"

definition payload_fields :: "bytes list" where
  "payload_fields = [''v'', ''rid'', ''sid'', ''leg'', ''epk'', ''iat'', ''exp'', ''nonce'']"

definition set_member :: "bytes \<times> jval \<Rightarrow> payload \<Rightarrow> payload option" where
  "set_member m p =
     (case field_index payload_fields (fst m) of
        None \<Rightarrow> None
      | Some f \<Rightarrow>
          (if f = ''v'' then map_option (\<lambda>i. p\<lparr>V := i\<rparr>) (int_member (snd m) (V p))
           else if f = ''rid'' then map_option (\<lambda>x. p\<lparr>RID := x\<rparr>) (str_member (snd m) (RID p))
           else if f = ''sid'' then map_option (\<lambda>x. p\<lparr>SID := x\<rparr>) (str_member (snd m) (SID p))
           else if f = ''leg'' then map_option (\<lambda>x. p\<lparr>Leg := x\<rparr>) (str_member (snd m) (Leg p))
           else if f = ''epk'' then map_option (\<lambda>x. p\<lparr>EPK := x\<rparr>) (str_member (snd m) (EPK p))
           else if f = ''iat'' then map_option (\<lambda>i. p\<lparr>IAT := i\<rparr>) (int_member (snd m) (IAT p))
           else if f = ''exp'' then map_option (\<lambda>i. p\<lparr>EXP := i\<rparr>) (int_member (snd m) (EXP p))
           else map_option (\<lambda>x. p\<lparr>Nonce := x\<rparr>) (str_member (snd m) (Nonce p))))"

fun set_members :: "(bytes \<times> jval) list \<Rightarrow> payload \<Rightarrow> payload option" where
  "set_members [] p = Some p"
| "set_members (m # ms) p = (case set_member m p of None \<Rightarrow> None | Some q \<Rightarrow> set_members ms q)"

definition zero_payload :: payload where
  "zero_payload = \<lparr>V = 0, RID = [], SID = [], Leg = [], EPK = [], IAT = 0, EXP = 0, Nonce = []\<rparr>"

definition json_space :: "char \<Rightarrow> bool" where
  "json_space c \<longleftrightarrow> c = CHR '' '' \<or> c = CHR 0x09 \<or> c = CHR 0x0A \<or> c = CHR 0x0D"

definition EphPub :: "payload \<Rightarrow> bytes option" where
  "EphPub p =
     (case b64url_decode (EPK p) of
        None \<Rightarrow> None
      | Some raw \<Rightarrow> if length raw \<noteq> PublicKeySize then None else Some raw)"

definition Parse :: "json \<Rightarrow> bytes \<Rightarrow> reason + payload" where
  "Parse J pl =
     (if pl = [] \<or> length pl > MaxPayloadLen then Inl ReasonSize
      else case noDuplicateKeys J pl of
        Inl r \<Rightarrow> Inl r
      | Inr _ \<Rightarrow>
          (case scan J pl of
             None \<Rightarrow> Inl ReasonMalformed
           | Some (ms, rest) \<Rightarrow>
               (case set_members ms zero_payload of
                  None \<Rightarrow> Inl ReasonMalformed
                | Some p \<Rightarrow>
                    (if \<not> list_all json_space rest then Inl ReasonMalformed
                     else if V p \<noteq> FormatVersion then Inl ReasonUnknownVer
                     else if \<not> ValidID (RID p) \<or> \<not> ValidID (SID p) \<or> \<not> ValidID (Nonce p)
                          then Inl ReasonMalformed
                     else if Leg p \<noteq> LegA \<and> Leg p \<noteq> LegB then Inl ReasonLeg
                     else if EphPub p = None then Inl ReasonMalformed
                     else Inr p))))"

section \<open>Checks against the relay\<close>

definition CheckWindow :: "time \<Rightarrow> payload \<Rightarrow> reason + unit" where
  "CheckWindow now p =
     (let span = wrap64 (EXP p - IAT p) in
      if span \<le> 0 \<or> span > MaxTTL div second then Inl ReasonTTL
      else let sec = unix_seconds now; skew = Skew div second in
           if IAT p > wrap64 (sec + skew) \<or> EXP p < wrap64 (sec - skew) then Inl ReasonWindow
           else Inr ())"

definition CheckRelay :: "bytes \<Rightarrow> payload \<Rightarrow> reason + unit" where
  "CheckRelay rid p = (if rid = [] \<or> RID p \<noteq> rid then Inl ReasonRelay else Inr ())"

section \<open>Proof of possession\<close>

definition BindSigningBytes :: "crypto \<Rightarrow> bytes \<Rightarrow> bytes \<Rightarrow> bytes \<Rightarrow> bytes" where
  "BindSigningBytes C pl sig cookie = bindContext @ sha256 C (pl @ sig) @ cookie"

definition SignBind :: "crypto \<Rightarrow> bytes \<Rightarrow> bytes \<Rightarrow> bytes \<Rightarrow> bytes \<Rightarrow> bytes" where
  "SignBind C eph pl sig cookie = ed_sign C eph (BindSigningBytes C pl sig cookie)"

definition VerifyBind :: "crypto \<Rightarrow> bytes \<Rightarrow> bytes \<Rightarrow> bytes \<Rightarrow> bytes \<Rightarrow> bytes \<Rightarrow> reason + unit" where
  "VerifyBind C epk pl sig cookie bindSig =
     (if length epk \<noteq> PublicKeySize \<or> length bindSig \<noteq> SignatureSize then Inl ReasonProof
      else if \<not> ed_verify C epk (BindSigningBytes C pl sig cookie) bindSig then Inl ReasonProof
      else Inr ())"

section \<open>Ids have one spelling\<close>

lemma ValidID_iff: "ValidID s \<longleftrightarrow> (\<exists>raw. length raw = IDLen \<and> s = b64url_encode raw)"
  by (auto simp: ValidID_def length_b64url_encode split: option.splits)

text \<open>\<^const>\<open>ValidID\<close> accepts exactly the encoder's spelling of 16 bytes, so two valid
  ids that decode to the same bytes are the same string, and the id
  \<^const>\<open>NewID\<close> mints is valid.\<close>

theorem ValidID_canonical:
  "(ValidID s \<longleftrightarrow> (\<exists>raw. length raw = IDLen \<and> s = NewID raw)) \<and>
   (ValidID s \<and> ValidID t \<and> b64url_decode s = b64url_decode t \<longrightarrow> s = t)"
  by (auto simp: ValidID_iff NewID_def)

theorem ValidID_canonical_witness:
  "ValidID (NewID (replicate 16 CHR ''x''))"
proof -
  have "\<exists>raw. length raw = IDLen \<and> NewID (replicate 16 CHR ''x'') = NewID raw"
    by (rule exI [of _ "replicate 16 CHR ''x''"]) (simp add: IDLen_def)
  then show ?thesis
    using ValidID_canonical [of "NewID (replicate 16 CHR ''x'')" "NewID (replicate 16 CHR ''x'')"] by blast
qed

section \<open>The lifetime window\<close>

lemma span_wrap:
  assumes "int64 e" "int64 i" "0 < wrap64 (e - i)" "wrap64 (e - i) \<le> 120" "e \<noteq> i + wrap64 (e - i)"
  shows "e < 120 - 2 ^ 63"
proof -
  obtain k where k: "wrap64 (e - i) = e - i + k * 2 ^ 64" using wrap64_cong by blast
  have "k = 1"
    using assms k by (simp add: int64_def)
  with k assms show ?thesis by (simp add: int64_def)
qed

text \<open>For a relay clock after 1970 the accepted tickets are exactly those whose span,
  issue time and expiry satisfy the documented inequalities over the unbounded
  integers: the 64-bit subtraction and additions cannot be made to wrap into
  acceptance.\<close>

theorem CheckWindow_exact:
  assumes "int64 (IAT p)" and "int64 (EXP p)" and "0 \<le> unix_seconds now" and "unix_seconds now + 10 < 2 ^ 63"
  shows "CheckWindow now p = Inr () \<longleftrightarrow>
     0 < EXP p - IAT p \<and> EXP p - IAT p \<le> 120 \<and>
     IAT p \<le> unix_seconds now + 10 \<and> unix_seconds now - 10 \<le> EXP p"
proof -
  have sec: "wrap64 (unix_seconds now + 10) = unix_seconds now + 10"
    "wrap64 (unix_seconds now - 10) = unix_seconds now - 10"
    using assms by (simp_all add: wrap64_id int64_def)
  have chk: "CheckWindow now p = Inr () \<longleftrightarrow>
      0 < wrap64 (EXP p - IAT p) \<and> wrap64 (EXP p - IAT p) \<le> 120 \<and>
      IAT p \<le> unix_seconds now + 10 \<and> unix_seconds now - 10 \<le> EXP p"
    by (auto simp: CheckWindow_def Let_def MaxTTL_def Skew_def second_def sec)
  show ?thesis
  proof
    assume "CheckWindow now p = Inr ()"
    with chk have w: "0 < wrap64 (EXP p - IAT p)" "wrap64 (EXP p - IAT p) \<le> 120"
      "IAT p \<le> unix_seconds now + 10" "unix_seconds now - 10 \<le> EXP p" by auto
    with span_wrap [OF assms(2,1)] assms(3) have "EXP p = IAT p + wrap64 (EXP p - IAT p)" by force
    with w show "0 < EXP p - IAT p \<and> EXP p - IAT p \<le> 120 \<and>
      IAT p \<le> unix_seconds now + 10 \<and> unix_seconds now - 10 \<le> EXP p" by simp
  next
    assume r: "0 < EXP p - IAT p \<and> EXP p - IAT p \<le> 120 \<and>
      IAT p \<le> unix_seconds now + 10 \<and> unix_seconds now - 10 \<le> EXP p"
    then have "wrap64 (EXP p - IAT p) = EXP p - IAT p" by (intro wrap64_id) (simp add: int64_def)
    with r chk show "CheckWindow now p = Inr ()" by simp
  qed
qed

definition sample_payload :: payload where
  "sample_payload =
     \<lparr>V = 1, RID = NewID (replicate 16 CHR ''r''), SID = NewID (replicate 16 CHR ''s''), Leg = LegA,
      EPK = b64url_encode (replicate 32 CHR ''k''), IAT = 1000, EXP = 1120,
      Nonce = NewID (replicate 16 CHR ''n'')\<rparr>"

theorem CheckWindow_exact_witness:
  "CheckWindow (1050 * second) sample_payload = Inr () \<longleftrightarrow>
     0 < EXP sample_payload - IAT sample_payload \<and> EXP sample_payload - IAT sample_payload \<le> 120 \<and>
     IAT sample_payload \<le> unix_seconds (1050 * second) + 10 \<and>
     unix_seconds (1050 * second) - 10 \<le> EXP sample_payload"
  by (rule CheckWindow_exact)
    (simp_all add: sample_payload_def int64_def unix_seconds_def second_def)

text \<open>No ticket is acceptable over more than 140 seconds of relay clock, whatever the
  server's clock did when it issued the ticket.\<close>

theorem ticket_lifetime:
  assumes "int64 (IAT p)" and "int64 (EXP p)"
    and "0 \<le> unix_seconds t1" and "unix_seconds t1 + 10 < 2 ^ 63"
    and "0 \<le> unix_seconds t2" and "unix_seconds t2 + 10 < 2 ^ 63"
    and "CheckWindow t1 p = Inr ()" and "CheckWindow t2 p = Inr ()"
  shows "\<bar>unix_seconds t2 - unix_seconds t1\<bar> \<le> MaxTTL div second + 2 * (Skew div second)"
proof -
  have "unix_seconds t2 - unix_seconds t1 \<le> 140" "unix_seconds t1 - unix_seconds t2 \<le> 140"
    using assms CheckWindow_exact [OF assms(1-4)] CheckWindow_exact [OF assms(1,2,5,6)] by linarith+
  then show ?thesis by (simp add: MaxTTL_def Skew_def second_def)
qed

theorem ticket_lifetime_witness:
  "\<bar>unix_seconds (1130 * second) - unix_seconds (990 * second)\<bar> \<le> MaxTTL div second + 2 * (Skew div second)"
  by (rule ticket_lifetime [of sample_payload])
    (simp_all add: sample_payload_def int64_def unix_seconds_def second_def CheckWindow_def MaxTTL_def
      Skew_def wrap64_def)

section \<open>What a parsed ticket guarantees\<close>

lemma dup_scan_iff: "\<not> dup_scan seen ks \<longleftrightarrow> distinct ks \<and> set seen \<inter> set ks = {}"
  by (induction ks arbitrary: seen) auto

lemma Parse_Inr:
  assumes "Parse J pl = Inr p"
  obtains ms rest where "scan J pl = Some (ms, rest)" "distinct (map fst ms)"
    "set_members ms zero_payload = Some p" "list_all json_space rest"
    "0 < length pl" "length pl \<le> MaxPayloadLen" "V p = FormatVersion"
    "ValidID (RID p)" "ValidID (SID p)" "ValidID (Nonce p)" "Leg p = LegA \<or> Leg p = LegB" "EphPub p \<noteq> None"
proof -
  from assms obtain ms rest where sc: "scan J pl = Some (ms, rest)" and
    "\<not> dup_scan [] (map fst ms)" "set_members ms zero_payload = Some p" "list_all json_space rest"
    "0 < length pl" "length pl \<le> MaxPayloadLen" "V p = FormatVersion"
    "ValidID (RID p)" "ValidID (SID p)" "ValidID (Nonce p)" "Leg p = LegA \<or> Leg p = LegB" "EphPub p \<noteq> None"
    by (auto simp: Parse_def noDuplicateKeys_def split: if_splits option.splits sum.splits)
  then show ?thesis by (intro that) (simp_all add: dup_scan_iff)
qed

lemma int_member_int64: "int64 old \<Longrightarrow> int_member v old = Some i \<Longrightarrow> int64 i"
  by (auto simp: int_member_def split: jval.splits if_splits)

lemma set_member_int64:
  assumes "set_member m p = Some q" "int64 (IAT p)" "int64 (EXP p)"
  shows "int64 (IAT q) \<and> int64 (EXP q)"
  using assms by (auto simp: set_member_def dest: int_member_int64 split: option.splits if_splits)

lemma set_members_int64:
  "set_members ms p = Some q \<Longrightarrow> int64 (IAT p) \<Longrightarrow> int64 (EXP p) \<Longrightarrow> int64 (IAT q) \<and> int64 (EXP q)"
proof (induction ms arbitrary: p)
  case (Cons m ms)
  then show ?case by (auto split: option.splits dest: set_member_int64)
qed simp

lemma Parse_int64: "Parse J pl = Inr p \<Longrightarrow> int64 (IAT p) \<and> int64 (EXP p)"
  by (erule Parse_Inr) (auto dest: set_members_int64 simp: zero_payload_def int64_def)

definition ticket_ok :: "payload \<Rightarrow> bool" where
  "ticket_ok p \<longleftrightarrow> V p = FormatVersion \<and> ValidID (RID p) \<and> ValidID (SID p) \<and> ValidID (Nonce p) \<and>
     (Leg p = LegA \<or> Leg p = LegB) \<and> EphPub p \<noteq> None \<and> int64 (IAT p) \<and> int64 (EXP p)"

lemma Parse_ticket_ok:
  assumes "Parse J pl = Inr p"
  shows "ticket_ok p"
  using Parse_Inr [OF assms] Parse_int64 [OF assms] unfolding ticket_ok_def by metis

lemma field_index_exact: "k \<in> set names \<Longrightarrow> field_index names k = Some k"
  by (simp add: field_index_def)

lemma set_members_payload:
  assumes "int64 (V p)" "int64 (IAT p)" "int64 (EXP p)"
  shows "set_members (payload_members p) zero_payload = Some p"
  using assms
  by (simp add: payload_members_def set_member_def field_index_exact payload_fields_def int_member_def
      str_member_def zero_payload_def)

text \<open>Signing and parsing agree. If rendering and scanning the members of a
  well-formed payload are inverse, what \<^const>\<open>Sign\<close> emits verifies under the server's key
  and parses back to exactly the payload that was signed.\<close>

lemma Sign_Parse:
  assumes "ticket_ok p" and "Sign J C priv p = Some (pl, sig)" and "pl \<noteq> []"
    and "scan J (render J (payload_members p)) = Some (payload_members p, [])"
    and "ed_correct C priv (signedBytes pl)" and "ed_public C priv \<in> set keys"
  shows "Verify C keys pl sig \<and> Parse J pl = Inr p"
proof -
  from assms(2) have pl: "pl = render J (payload_members p)" "length pl \<le> MaxPayloadLen"
    and sig: "sig = ed_sign C priv (signedBytes pl)"
    by (auto simp: Sign_def Let_def split: if_splits)
  have any: "verify_any C keys (signedBytes pl) sig"
    using assms(5,6) sig by (induction keys) (auto simp: ed_correct_def)
  from assms(5) sig have "length sig = SignatureSize" by (simp add: ed_correct_def)
  with any pl assms(3) have v: "Verify C keys pl sig" by (simp add: Verify_def)
  have "int64 (V p)" using assms(1) by (simp add: ticket_ok_def FormatVersion_def int64_def)
  then have sm: "set_members (payload_members p) zero_payload = Some p"
    using assms(1) by (simp add: set_members_payload ticket_ok_def)
  have "\<not> dup_scan [] (map fst (payload_members p))"
    by (simp add: payload_members_def)
  with sm assms(1,3,4) pl have "Parse J pl = Inr p"
    by (auto simp: Parse_def noDuplicateKeys_def ticket_ok_def)
  with v show ?thesis by blast
qed

definition sample_json :: json where
  "sample_json = \<lparr>scan = (\<lambda>b. if b = ''{}'' then Some (payload_members sample_payload, []) else None),
     render = (\<lambda>_. ''{}'')\<rparr>"

definition sample_crypto :: crypto where
  "sample_crypto = \<lparr>ed_sign = (\<lambda>k m. replicate 64 CHR ''g''), ed_public = (\<lambda>k. k),
     ed_verify = (\<lambda>k m s. s = replicate 64 CHR ''g''), sha256 = (\<lambda>m. replicate 32 CHR ''h''),
     hmac_sha256 = (\<lambda>k m. replicate 32 CHR ''m'')\<rparr>"

lemma ValidID_NewID: "length raw = IDLen \<Longrightarrow> ValidID (NewID raw)"
  by (auto simp: ValidID_iff NewID_def)

lemma ticket_ok_sample: "ticket_ok sample_payload"
  by (simp add: ticket_ok_def sample_payload_def ValidID_NewID IDLen_def FormatVersion_def EphPub_def
      PublicKeySize_def int64_def)

section \<open>Strictness has a gap\<close>

lemma field_index_SID: "field_index payload_fields ''SID'' = Some ''sid''"
  by code_simp

lemma set_members_append:
  "set_members (xs @ ys) p = (case set_members xs p of None \<Rightarrow> None | Some q \<Rightarrow> set_members ys q)"
  by (induction xs arbitrary: p) (auto split: option.splits)

text \<open>The duplicate-key check compares names byte for byte while the decoder folds case,
  so a payload naming \<^verbatim>\<open>sid\<close> and then \<^verbatim>\<open>SID\<close> passes every check and is read as the session
  of the last one. The comment on \<^verbatim>\<open>Parse\<close> promises that one signed blob cannot be read
  two ways.\<close>

theorem Parse_reads_last_case_variant:
  assumes "ticket_ok p" and "ValidID sid2" and "pl \<noteq> []" and "length pl \<le> MaxPayloadLen"
    and "scan J pl = Some (payload_members p @ [(''SID'', JString sid2)], [])"
  shows "Parse J pl = Inr (p\<lparr>SID := sid2\<rparr>)"
proof -
  have "int64 (V p)" using assms(1) by (simp add: ticket_ok_def FormatVersion_def int64_def)
  then have "set_members (payload_members p @ [(''SID'', JString sid2)]) zero_payload = Some (p\<lparr>SID := sid2\<rparr>)"
    using assms(1)
    by (simp add: set_members_append set_members_payload ticket_ok_def set_member_def field_index_SID str_member_def)
  moreover have "\<not> dup_scan [] (map fst (payload_members p @ [(''SID'', JString sid2)]))"
    by (simp add: payload_members_def)
  moreover have "EphPub (p\<lparr>SID := sid2\<rparr>) = EphPub p" by (simp add: EphPub_def)
  ultimately show ?thesis
    using assms by (auto simp: Parse_def noDuplicateKeys_def ticket_ok_def)
qed

theorem Parse_reads_last_case_variant_witness:
  "Parse \<lparr>scan = (\<lambda>b. Some (payload_members sample_payload @ [(''SID'', JString (NewID (replicate 16 CHR ''z'')))], [])),
      render = (\<lambda>_. [])\<rparr> ''{}'' = Inr (sample_payload\<lparr>SID := NewID (replicate 16 CHR ''z'')\<rparr>)"
  by (rule Parse_reads_last_case_variant)
    (simp_all add: ticket_ok_sample ValidID_NewID IDLen_def MaxPayloadLen_def)

section \<open>The two signing contexts\<close>

text \<open>A server's ticket signature and a buddy's proof of possession are never made
  over the same bytes, and a proof of possession fixes both the hash of the complete
  ticket and the cookie it was made for.\<close>

theorem signing_contexts:
  assumes "\<forall>m. length (sha256 C m) = 32"
  shows "signedBytes x \<noteq> BindSigningBytes C pl sig cookie \<and>
     (BindSigningBytes C pl sig cookie = BindSigningBytes C pl' sig' cookie' \<longleftrightarrow>
      sha256 C (pl @ sig) = sha256 C (pl' @ sig') \<and> cookie = cookie')"
  using assms by (auto simp: signedBytes_def BindSigningBytes_def ticketContext_def bindContext_def)

theorem signing_contexts_witness:
  "signedBytes ''x'' \<noteq> BindSigningBytes sample_crypto ''a'' ''b'' ''c'' \<and>
     (BindSigningBytes sample_crypto ''a'' ''b'' ''c'' = BindSigningBytes sample_crypto ''a'' ''b'' ''d'' \<longleftrightarrow>
      sha256 sample_crypto (''a'' @ ''b'') = sha256 sample_crypto (''a'' @ ''b'') \<and> ''c'' = ''d'')"
  by (rule signing_contexts) (simp add: sample_crypto_def)

lemma SignBind_VerifyBind:
  "ed_correct C eph (BindSigningBytes C pl sig cookie) \<Longrightarrow>
   VerifyBind C (ed_public C eph) pl sig cookie (SignBind C eph pl sig cookie) = Inr ()"
  by (simp add: VerifyBind_def SignBind_def ed_correct_def)

end
