(* ===== verification/Netkey.thy ===== *)
theory Netkey
  imports Prelude
begin

text \<open>
  Source addresses: the accounting key of \<^verbatim>\<open>internal/netkey/netkey.go\<close> that every
  per-source budget charges, and the source allowlist shared by the relay and the
  handshake server.

  A \<^verbatim>\<open>net.IP\<close> is its byte slice. The key, a string in the code, is modelled by the data
  it prints: an exact IPv4 address, an IPv6 /64 prefix, or the raw slice of an address
  that is neither. The three print in disjoint shapes (dotted, with a slash, with a
  leading question mark or angle bracket).

  The lemmas show which addresses share a budget, and that the allowlist does not
  distinguish an IPv4 address from its IPv6-mapped form either.
\<close>

type_synonym ipaddr = bytes

record udpaddr =
  IP :: ipaddr
  Port :: nat

definition v4_in_v6_prefix :: bytes where
  "v4_in_v6_prefix = replicate 10 CHR 0x00 @ replicate 2 CHR 0xFF"

text \<open>\<^verbatim>\<open>net.IP.To16\<close>.\<close>

definition To16 :: "ipaddr \<Rightarrow> bytes" where
  "To16 a = (if length a = 4 then v4_in_v6_prefix @ a else if length a = 16 then a else [])"

text \<open>The address part and the port a \<^verbatim>\<open>net.UDPAddr\<close> prints: two addresses have the same
  string exactly if they agree here.\<close>

definition addr_string :: "udpaddr \<Rightarrow> bytes \<times> nat" where
  "addr_string a = (if To16 (IP a) = [] then IP a else To16 (IP a), Port a)"

definition V6Bits :: nat where "V6Bits = 64"

datatype acct = Acct4 bytes | Acct6 bytes | AcctRaw bytes

text \<open>\<^verbatim>\<open>netip.Addr.Unmap\<close> on the byte slice of a valid address.\<close>

definition Unmap :: "ipaddr \<Rightarrow> ipaddr" where
  "Unmap a = (if length a = 16 \<and> take 12 a = v4_in_v6_prefix then drop 12 a else a)"

definition FromNetipAddr :: "ipaddr \<Rightarrow> acct" where
  "FromNetipAddr a =
     (let a = Unmap a in
      if length a = 16 then Acct6 (take (V6Bits div 8) a) else Acct4 a)"

definition FromIP :: "ipaddr \<Rightarrow> acct" where
  "FromIP a = (if length a = 4 \<or> length a = 16 then FromNetipAddr a else AcctRaw a)"

section \<open>The source allowlist\<close>

record prefix =
  pfx_addr :: bytes
  pfx_bits :: nat

definition byte_bits :: "char \<Rightarrow> bool list" where
  "byte_bits c = map (\<lambda>i. odd ((of_char c :: nat) div 2 ^ i)) [7, 6, 5, 4, 3, 2, 1, 0]"

definition addr_bits :: "bytes \<Rightarrow> bool list" where
  "addr_bits a = concat (map byte_bits a)"

definition Contains :: "prefix \<Rightarrow> ipaddr \<Rightarrow> bool" where
  "Contains p a \<longleftrightarrow> length a = length (pfx_addr p) \<and> pfx_bits p \<le> 8 * length (pfx_addr p) \<and>
     take (pfx_bits p) (addr_bits a) = take (pfx_bits p) (addr_bits (pfx_addr p))"

definition cidrAllowed :: "prefix list \<Rightarrow> ipaddr \<Rightarrow> bool" where
  "cidrAllowed allowed a =
     (if allowed = [] then True
      else if \<not> (length a = 4 \<or> length a = 16) then False
      else (let a = Unmap a in list_ex (\<lambda>p. Contains p a) allowed))"

section \<open>Which addresses share a budget\<close>

definition valid_ip :: "ipaddr \<Rightarrow> bool" where
  "valid_ip a \<longleftrightarrow> length a = 4 \<or> length a = 16"

lemma Unmap_v4: "length a = 4 \<Longrightarrow> Unmap a = a"
  by (simp add: Unmap_def)

lemma Unmap_mapped: "length a = 4 \<Longrightarrow> Unmap (v4_in_v6_prefix @ a) = a"
  by (simp add: Unmap_def v4_in_v6_prefix_def)

lemma length_Unmap: "valid_ip a \<Longrightarrow> length (Unmap a) = 4 \<or> length (Unmap a) = 16"
  by (auto simp: Unmap_def valid_ip_def)

text \<open>Two source addresses are charged to the same budget exactly if they are the same
  IPv4 address, plain or IPv6-mapped, or two IPv6 addresses of one /64.\<close>

theorem FromIP_eq_iff:
  assumes "valid_ip a" and "valid_ip b"
  shows "FromIP a = FromIP b \<longleftrightarrow>
     (if length (Unmap a) = 16 then length (Unmap b) = 16 \<and> take 8 a = take 8 b
      else Unmap a = Unmap b)"
proof -
  have v6: "Unmap x = x" if "length (Unmap x) = 16" for x
    using that by (auto simp: Unmap_def split: if_splits)
  have key: "FromIP x = (if length (Unmap x) = 16 then Acct6 (take 8 x) else Acct4 (Unmap x))"
    if "valid_ip x" for x
    using that v6 [of x] by (auto simp: FromIP_def FromNetipAddr_def V6Bits_def valid_ip_def Let_def)
  show ?thesis using assms length_Unmap by (auto simp: key)
qed

theorem FromIP_eq_iff_witness:
  "FromIP (v4_in_v6_prefix @ ''abcd'') = FromIP ''abcd'' \<longleftrightarrow>
     (if length (Unmap (v4_in_v6_prefix @ ''abcd'')) = 16
      then length (Unmap ''abcd'') = 16 \<and> take 8 (v4_in_v6_prefix @ ''abcd'') = take 8 ''abcd''
      else Unmap (v4_in_v6_prefix @ ''abcd'') = Unmap ''abcd'')"
  by (rule FromIP_eq_iff) (simp_all add: valid_ip_def v4_in_v6_prefix_def)

lemma cidrAllowed_mapped:
  "length a = 4 \<Longrightarrow> cidrAllowed allowed (v4_in_v6_prefix @ a) = cidrAllowed allowed a"
  by (simp add: cidrAllowed_def Unmap_mapped Unmap_v4) (simp add: v4_in_v6_prefix_def)

lemma cidrAllowed_cons: "cidrAllowed (p # ps) a \<Longrightarrow> \<exists>q \<in> set (p # ps). Contains q (Unmap a)"
  by (auto simp: cidrAllowed_def list_ex_iff Let_def split: if_splits)

lemma addr_string_eq:
  "valid_ip (IP a) \<Longrightarrow> valid_ip (IP b) \<Longrightarrow>
   addr_string a = addr_string b \<longleftrightarrow> To16 (IP a) = To16 (IP b) \<and> Port a = Port b"
  by (auto simp: addr_string_def To16_def valid_ip_def v4_in_v6_prefix_def split: if_splits)

end
