(* ===== verification/RateLimit.thy ===== *)
theory RateLimit
  imports Prelude Complex_Main
begin

text \<open>
  The token-bucket limiter of \<^verbatim>\<open>internal/ratelimit/ratelimit.go\<close>, the admission
  gate of every public listener. A bucket refills with elapsed time up to its burst
  and pays one token per admitted packet; a limiter charges a bounded map of
  per-source buckets first and one global bucket second.

  The \<^verbatim>\<open>float64\<close> token count is modelled by an exact rational, and the clock reading
  \<^verbatim>\<open>time.Now()\<close> is an argument. The readings need not be ordered: each call reads
  the clock before it takes the mutex.

  The lemmas bound what a bucket admits in any span of time whatever the arrival
  pattern, bound the per-source map, and show that forgetting a refilled bucket is
  unobservable: the pruned map refines the specification that keeps a bucket for
  every source for ever.
\<close>

section \<open>Buckets\<close>

record bucket =
  tokens :: rat
  last :: time

definition seconds :: "duration \<Rightarrow> rat" where
  "seconds d = of_int d / 1000000000"

text \<open>What a bucket holds at a moment, after the refill and its cap.\<close>

definition refill :: "rat \<Rightarrow> rat \<Rightarrow> time \<Rightarrow> bucket \<Rightarrow> rat" where
  "refill rate burst now b = min burst (tokens b + seconds (now - last b) * rate)"

definition take_token :: "time \<Rightarrow> rat \<Rightarrow> rat \<Rightarrow> bucket \<Rightarrow> bool \<times> bucket" where
  "take_token now rate burst b =
     (let t = tokens b + seconds (now - last b) * rate;
          t = (if t > burst then burst else t)
      in if t \<ge> 1 then (True, \<lparr>tokens = t - 1, last = now\<rparr>)
         else (False, \<lparr>tokens = t, last = now\<rparr>))"

definition full :: "time \<Rightarrow> rat \<Rightarrow> rat \<Rightarrow> bucket \<Rightarrow> bool" where
  "full now rate burst b \<longleftrightarrow> tokens b + seconds (now - last b) * rate \<ge> burst"

section \<open>The limiter\<close>

record 'k limiter =
  globalRate :: rat
  globalBurst :: rat
  srcRate :: rat
  srcBurst :: rat
  maxSources :: nat
  global :: bucket
  perSrc :: "('k, bucket) gomap"

definition New :: "rat \<Rightarrow> rat \<Rightarrow> nat \<Rightarrow> time \<Rightarrow> 'k limiter" where
  "New gRate sRate maxSrc now =
     \<lparr>globalRate = gRate, globalBurst = 2 * gRate, srcRate = sRate, srcBurst = 2 * sRate,
      maxSources = maxSrc, global = \<lparr>tokens = 2 * gRate, last = now\<rparr>, perSrc = []\<rparr>"

definition NewGlobal :: "rat \<Rightarrow> time \<Rightarrow> 'k limiter" where
  "NewGlobal rate now =
     \<lparr>globalRate = rate, globalBurst = 2 * rate, srcRate = 0, srcBurst = 0,
      maxSources = 0, global = \<lparr>tokens = 2 * rate, last = now\<rparr>, perSrc = []\<rparr>"

definition AllowGlobal :: "time \<Rightarrow> 'k limiter \<Rightarrow> bool \<times> 'k limiter" where
  "AllowGlobal now l =
     (let (ok, g) = take_token now (globalRate l) (globalBurst l) (global l)
      in (ok, l\<lparr>global := g\<rparr>))"

definition pruneLocked :: "time \<Rightarrow> 'k limiter \<Rightarrow> 'k limiter" where
  "pruneLocked now l =
     l\<lparr>perSrc := filter (\<lambda>(src, b). \<not> full now (srcRate l) (srcBurst l) b) (perSrc l)\<rparr>"

text \<open>The two halves of \<^verbatim>\<open>Allow\<close>: finding or making room for the bucket of the source,
  and charging it.\<close>

definition admit_source :: "time \<Rightarrow> 'k \<Rightarrow> 'k limiter \<Rightarrow> 'k limiter \<times> bucket option" where
  "admit_source now src l =
     (case mget (perSrc l) src of
        Some b \<Rightarrow> (l, Some b)
      | None \<Rightarrow>
          (let l = (if length (perSrc l) \<ge> maxSources l then pruneLocked now l else l)
           in if length (perSrc l) \<ge> maxSources l then (l, None)
              else (l, Some \<lparr>tokens = srcBurst l, last = now\<rparr>)))"

definition Allow :: "time \<Rightarrow> 'k \<Rightarrow> 'k limiter \<Rightarrow> bool \<times> 'k limiter" where
  "Allow now src l =
     (case admit_source now src l of
        (l, None) \<Rightarrow> (False, l)
      | (l, Some b) \<Rightarrow>
          (let (ok, b') = take_token now (srcRate l) (srcBurst l) b;
               l = l\<lparr>perSrc := mput src b' (perSrc l)\<rparr>
           in if \<not> ok then (False, l) else AllowGlobal now l))"

section \<open>Well-formedness\<close>

definition lim_wf :: "'k limiter \<Rightarrow> bool" where
  "lim_wf l \<longleftrightarrow> gomap (perSrc l) \<and> length (perSrc l) \<le> maxSources l \<and>
     0 \<le> globalRate l \<and> 0 \<le> srcRate l \<and> tokens (global l) \<le> globalBurst l \<and>
     (\<forall>b \<in> snd ` set (perSrc l). tokens b \<le> srcBurst l)"

definition same_limits :: "'k limiter \<Rightarrow> 'k limiter \<Rightarrow> bool" where
  "same_limits l l' \<longleftrightarrow> globalRate l' = globalRate l \<and> globalBurst l' = globalBurst l \<and>
     srcRate l' = srcRate l \<and> srcBurst l' = srcBurst l \<and> maxSources l' = maxSources l"

lemma take_token_refill:
  "take_token now rate burst b =
     (let t = refill rate burst now b
      in if t \<ge> 1 then (True, \<lparr>tokens = t - 1, last = now\<rparr>) else (False, \<lparr>tokens = t, last = now\<rparr>))"
  by (simp add: take_token_def refill_def Let_def min_def)

lemma take_token_le_burst: "tokens (snd (take_token now rate burst b)) \<le> burst"
  by (auto simp: take_token_def Let_def)

lemma take_token_last: "last (snd (take_token now rate burst b)) = now"
  by (simp add: take_token_def Let_def)

lemma AllowGlobal_wf: "lim_wf l \<Longrightarrow> lim_wf (snd (AllowGlobal now l))"
  using take_token_le_burst [of now "globalRate l" "globalBurst l" "global l"]
  by (auto simp: AllowGlobal_def lim_wf_def split: prod.splits)

lemma pruneLocked_wf: "lim_wf l \<Longrightarrow> lim_wf (pruneLocked now l)"
  by (auto simp: lim_wf_def pruneLocked_def gomap_simps intro: order_trans [OF length_filter_le])

lemma admit_source_wf:
  assumes "lim_wf l" and "admit_source now src l = (l', ob)"
  shows "lim_wf l'" and "same_limits l l'"
    and "ob = Some b \<Longrightarrow> src \<notin> mkeys (perSrc l') \<Longrightarrow> length (perSrc l') < maxSources l'"
  using assms pruneLocked_wf [OF assms(1), of now]
  by (auto simp: admit_source_def Let_def same_limits_def pruneLocked_def gomap_simps
      split: option.splits if_splits)
     (metis mget_in_set image_eqI fst_conv)+

lemma Allow_wf:
  assumes "lim_wf l"
  shows "lim_wf (snd (Allow now src l))"
proof -
  obtain l' ob where adm: "admit_source now src l = (l', ob)"
    by (cases "admit_source now src l")
  note wf' = admit_source_wf [OF assms adm]
  show ?thesis
  proof (cases ob)
    case None
    with adm wf'(1) show ?thesis by (simp add: Allow_def)
  next
    case (Some b)
    obtain ok b' where tk: "take_token now (srcRate l') (srcBurst l') b = (ok, b')"
      by (cases "take_token now (srcRate l') (srcBurst l') b")
    have b': "tokens b' \<le> srcBurst l'"
      using take_token_le_burst [of now "srcRate l'" "srcBurst l'" b] tk by simp
    define m where "m = l'\<lparr>perSrc := mput src b' (perSrc l')\<rparr>"
    have vals: "\<forall>x \<in> snd ` set (perSrc l'). tokens x \<le> srcBurst l'"
      using wf'(1) unfolding lim_wf_def by blast
    have "lim_wf m"
      using wf'(1) wf'(3) [OF Some] ball_mput [OF vals b', of src]
      by (cases "src \<in> mkeys (perSrc l')") (simp_all add: lim_wf_def m_def gomap_simps)
    moreover have "snd (Allow now src l) = (if ok then snd (AllowGlobal now m) else m)"
      using adm Some tk by (simp add: Allow_def m_def)
    ultimately show ?thesis by (simp add: AllowGlobal_wf)
  qed
qed

section \<open>How much a bucket admits\<close>

text \<open>The number of packets a bucket admits over a sequence of clock readings.\<close>

fun grants :: "rat \<Rightarrow> rat \<Rightarrow> bucket \<Rightarrow> time list \<Rightarrow> nat" where
  "grants rate burst b [] = 0"
| "grants rate burst b (t # ts) =
     (case take_token t rate burst b of
        (ok, b') \<Rightarrow> (if ok then 1 else 0) + grants rate burst b' ts)"

text \<open>The credit of a bucket against a deadline: no arrival pattern gets more out of it.\<close>

definition credit :: "rat \<Rightarrow> time \<Rightarrow> bucket \<Rightarrow> rat" where
  "credit rate dl b = tokens b + rate * seconds (dl - last b)"

lemma seconds_diff: "seconds (a - b) + seconds (c - a) = seconds (c - b)"
  by (simp add: seconds_def field_simps)

lemma seconds_nonneg: "a \<le> b \<Longrightarrow> 0 \<le> seconds (b - a)"
  by (simp add: seconds_def)

lemma take_token_credit:
  assumes "0 \<le> rate" and "t \<le> dl" and "take_token t rate burst b = (ok, b')"
  shows "(if ok then 1 else 0) + max 0 (credit rate dl b') \<le> max 0 (credit rate dl b)"
proof -
  let ?t = "refill rate burst t b"
  have le: "?t + rate * seconds (dl - t) \<le> credit rate dl b"
  proof -
    have "?t \<le> tokens b + seconds (t - last b) * rate"
      by (simp add: refill_def)
    moreover have "tokens b + seconds (t - last b) * rate + rate * seconds (dl - t) = credit rate dl b"
      by (simp add: credit_def seconds_diff [of t "last b" dl, symmetric] algebra_simps)
    ultimately show ?thesis by linarith
  qed
  have nn: "0 \<le> rate * seconds (dl - t)"
    using assms(1,2) by (simp add: seconds_nonneg)
  show ?thesis
  proof (cases "?t \<ge> 1")
    case True
    with assms(3) have "ok" and "credit rate dl b' = ?t - 1 + rate * seconds (dl - t)"
      by (auto simp: take_token_refill Let_def credit_def)
    with True le nn show ?thesis by simp
  next
    case False
    with assms(3) have "\<not> ok" and "credit rate dl b' = ?t + rate * seconds (dl - t)"
      by (auto simp: take_token_refill Let_def credit_def)
    with le show ?thesis by auto
  qed
qed

lemma grants_credit:
  assumes "0 \<le> rate" and "\<forall>t \<in> set ts. t \<le> dl"
  shows "of_nat (grants rate burst b ts) \<le> max 0 (credit rate dl b)"
  using assms(2)
proof (induction ts arbitrary: b)
  case (Cons t ts)
  obtain ok b' where tk: "take_token t rate burst b = (ok, b')"
    by (cases "take_token t rate burst b")
  from Cons have IH: "of_nat (grants rate burst b' ts) \<le> max 0 (credit rate dl b')" by simp
  from Cons.prems take_token_credit [OF assms(1) _ tk, of dl]
  have "(if ok then 1 else 0) + max 0 (credit rate dl b') \<le> max 0 (credit rate dl b)" by simp
  with IH tk show ?case by (auto split: if_splits)
qed simp

section \<open>How much a limiter admits\<close>

text \<open>A sequence of packets, each with the clock reading of its call and its source. The
  result counts the admitted ones.\<close>

fun admissions :: "'k limiter \<Rightarrow> (time \<times> 'k) list \<Rightarrow> nat" where
  "admissions l [] = 0"
| "admissions l ((t, src) # ps) =
     (case Allow t src l of (ok, l') \<Rightarrow> (if ok then 1 else 0) + admissions l' ps)"

lemma admit_source_frame:
  "admit_source now src l = (l', ob) \<Longrightarrow> same_limits l l' \<and> global l' = global l"
  by (auto simp: admit_source_def pruneLocked_def same_limits_def Let_def
      split: option.splits if_splits)

text \<open>What one call does to the global bucket: nothing, or one \<^const>\<open>take_token\<close>.\<close>

lemma Allow_global:
  assumes "Allow now src l = (ok, l')"
  shows "same_limits l l' \<and>
     ((\<not> ok \<and> global l' = global l) \<or>
      take_token now (globalRate l) (globalBurst l) (global l) = (ok, global l'))"
proof -
  obtain m ob where adm: "admit_source now src l = (m, ob)"
    by (cases "admit_source now src l")
  note fr = admit_source_frame [OF adm]
  show ?thesis
  proof (cases ob)
    case None
    with assms adm fr show ?thesis by (auto simp: Allow_def)
  next
    case (Some b)
    with assms adm fr show ?thesis
      by (auto simp: Allow_def AllowGlobal_def same_limits_def Let_def split: prod.splits if_splits)
  qed
qed

lemma admissions_credit:
  assumes "0 \<le> globalRate l" and "\<forall>p \<in> set ps. fst p \<le> dl"
  shows "of_nat (admissions l ps) \<le> max 0 (credit (globalRate l) dl (global l))"
  using assms
proof (induction ps arbitrary: l)
  case (Cons p ps)
  obtain t src where p: "p = (t, src)" by (cases p)
  obtain ok l' where al: "Allow t src l = (ok, l')" by (cases "Allow t src l")
  from Allow_global [OF al] have rate: "globalRate l' = globalRate l"
    by (simp add: same_limits_def)
  have IH: "of_nat (admissions l' ps) \<le> max 0 (credit (globalRate l) dl (global l'))"
    using Cons.IH [of l'] Cons.prems rate by simp
  have "(if ok then 1 else 0) + max 0 (credit (globalRate l) dl (global l'))
     \<le> max 0 (credit (globalRate l) dl (global l))"
    using Allow_global [OF al] Cons.prems p
      take_token_credit [of "globalRate l" t dl "globalBurst l" "global l" ok "global l'"] by auto
  with IH al p show ?case by (auto split: if_splits)
qed simp

text \<open>C32: a fresh limiter with global rate \<open>g\<close> admits at most \<open>2 * g + g * T\<close> packets in
  \<open>T\<close> seconds, whatever their sources and however the clock readings of the calls are
  ordered. This is the ceiling that holds against spoofed sources.\<close>

theorem Allow_global_ceiling:
  assumes "0 \<le> gRate" and "t0 \<le> dl" and "\<forall>p \<in> set ps. fst p \<le> dl"
  shows "of_nat (admissions (New gRate sRate maxSrc t0) ps) \<le> 2 * gRate + gRate * seconds (dl - t0)"
proof -
  have "0 \<le> 2 * gRate + gRate * seconds (dl - t0)"
    using assms(1,2) by (simp add: seconds_nonneg)
  with admissions_credit [of "New gRate sRate maxSrc t0" ps dl] assms(1,3) show ?thesis
    by (simp add: New_def credit_def)
qed

theorem Allow_global_ceiling_witness:
  "of_nat (admissions (New 1 5 4 0) [(0, ''a''), (0, ''b''), (0, ''a''), (1000000000, ''b'')])
     \<le> 2 * (1::rat) + 1 * seconds (1000000000 - 0)"
  by (rule Allow_global_ceiling) simp_all

section \<open>Forgetting a refilled bucket is unobservable\<close>

text \<open>The specification keeps one bucket per source for ever and has no bound on sources.\<close>

record 'k limiter_spec =
  spec_src :: "'k \<Rightarrow> bucket"
  spec_global :: bucket

definition spec_New :: "rat \<Rightarrow> rat \<Rightarrow> time \<Rightarrow> 'k limiter_spec" where
  "spec_New gRate sRate now =
     \<lparr>spec_src = (\<lambda>_. \<lparr>tokens = 2 * sRate, last = now\<rparr>), spec_global = \<lparr>tokens = 2 * gRate, last = now\<rparr>\<rparr>"

definition spec_Allow :: "'k limiter \<Rightarrow> time \<Rightarrow> 'k \<Rightarrow> 'k limiter_spec \<Rightarrow> bool \<times> 'k limiter_spec" where
  "spec_Allow cfg now src a =
     (let (ok, b) = take_token now (srcRate cfg) (srcBurst cfg) (spec_src a src);
          a = a\<lparr>spec_src := (spec_src a)(src := b)\<rparr>
      in if \<not> ok then (False, a)
         else (let (ok, g) = take_token now (globalRate cfg) (globalBurst cfg) (spec_global a)
               in (ok, a\<lparr>spec_global := g\<rparr>)))"

text \<open>A tracked source has the specification's bucket; an untracked one has, in the
  specification, a bucket that has refilled by now.\<close>

definition lim_rel :: "time \<Rightarrow> 'k limiter \<Rightarrow> 'k limiter_spec \<Rightarrow> bool" where
  "lim_rel now l a \<longleftrightarrow> global l = spec_global a \<and>
     (\<forall>src b. mget (perSrc l) src = Some b \<longrightarrow> spec_src a src = b) \<and>
     (\<forall>src. src \<notin> mkeys (perSrc l) \<longrightarrow> full now (srcRate l) (srcBurst l) (spec_src a src))"

lemma lim_rel_New: "lim_rel now (New gRate sRate maxSrc now) (spec_New gRate sRate now)"
  by (simp add: lim_rel_def New_def spec_New_def full_def seconds_def)

lemma full_mono:
  assumes "full t rate burst b" "t \<le> t'" "0 \<le> rate"
  shows "full t' rate burst b"
proof -
  have "seconds (t - last b) * rate \<le> seconds (t' - last b) * rate"
    using assms(2,3) by (intro mult_right_mono) (simp_all add: seconds_def divide_right_mono)
  with assms(1) show ?thesis by (simp add: full_def)
qed

lemma take_token_full:
  "full now rate burst b \<Longrightarrow> take_token now rate burst b = take_token now rate burst \<lparr>tokens = burst, last = now\<rparr>"
  by (auto simp: full_def take_token_def seconds_def Let_def)

lemma lim_rel_later:
  "lim_rel t l a \<Longrightarrow> t \<le> t' \<Longrightarrow> 0 \<le> srcRate l \<Longrightarrow> lim_rel t' l a"
  unfolding lim_rel_def by (blast intro: full_mono)

lemma lim_rel_prune:
  assumes "lim_rel now l a" and "gomap (perSrc l)"
  shows "lim_rel now (pruneLocked now l) a"
proof -
  have gone: "full now (srcRate l) (srcBurst l) (spec_src a src)"
    if "src \<notin> mkeys (perSrc (pruneLocked now l))" for src
  proof (cases "mget (perSrc l) src")
    case None
    then have "src \<notin> mkeys (perSrc l)" by (simp add: mget_None_iff)
    with assms(1) show ?thesis unfolding lim_rel_def by blast
  next
    case (Some b)
    from that have "mget (perSrc (pruneLocked now l)) src = None"
      by (simp add: mget_None_iff)
    with Some assms(2) have "full now (srcRate l) (srcBurst l) b"
      by (simp add: pruneLocked_def mget_filter split: if_splits)
    with Some assms(1) show ?thesis by (simp add: lim_rel_def)
  qed
  have kept: "mget (perSrc l) src = Some b" if "mget (perSrc (pruneLocked now l)) src = Some b" for src b
    using that assms(2) by (simp add: pruneLocked_def mget_filter split: option.splits if_splits)
  show ?thesis
    using assms(1) gone kept unfolding lim_rel_def by (simp add: pruneLocked_def)
qed

lemma admit_source_rel:
  assumes "lim_rel now l a" and "lim_wf l" and "admit_source now src l = (l', ob)"
  shows "lim_rel now l' a" and "same_limits l l'"
    and "case ob of
           Some b \<Rightarrow> take_token now (srcRate l) (srcBurst l) b =
                     take_token now (srcRate l) (srcBurst l) (spec_src a src)
         | None \<Rightarrow> src \<notin> mkeys (perSrc l) \<and> maxSources l \<le> length (perSrc l')"
proof -
  have gm: "gomap (perSrc l)" using assms(2) by (simp add: lim_wf_def)
  note pr = lim_rel_prune [OF assms(1) gm]
  show "lim_rel now l' a" and "same_limits l l'"
    using assms(1,3) pr
    by (auto simp: admit_source_def Let_def same_limits_def pruneLocked_def
        split: option.splits if_splits)
  show "case ob of
           Some b \<Rightarrow> take_token now (srcRate l) (srcBurst l) b =
                     take_token now (srcRate l) (srcBurst l) (spec_src a src)
         | None \<Rightarrow> src \<notin> mkeys (perSrc l) \<and> maxSources l \<le> length (perSrc l')"
  proof (cases "mget (perSrc l) src")
    case (Some b)
    with assms(1) have "spec_src a src = b" by (simp add: lim_rel_def)
    moreover from Some assms(3) have "ob = Some b" by (simp add: admit_source_def)
    ultimately show ?thesis by simp
  next
    case None
    with assms(1) have "full now (srcRate l) (srcBurst l) (spec_src a src)"
      by (simp add: lim_rel_def mget_None_iff)
    moreover from None have "src \<notin> mkeys (perSrc l)" by (simp add: mget_None_iff)
    ultimately show ?thesis using None assms(3)
      by (auto simp: admit_source_def Let_def pruneLocked_def take_token_full split: if_splits)
  qed
qed

text \<open>The bounded limiter refines the unbounded one. From related states, at a
  clock reading no earlier than the last one, \<^const>\<open>Allow\<close> gives the specification's
  answer and stays related, unless it refuses an untracked source because the map is
  full of sources that have not refilled; then nothing is charged.\<close>

theorem Allow_refines:
  assumes "lim_rel t l a" and "t \<le> now" and "lim_wf l"
  shows "case Allow now src l of (ok, l') \<Rightarrow>
     (case spec_Allow l now src a of (ok', a') \<Rightarrow> ok = ok' \<and> lim_rel now l' a') \<or>
     (\<not> ok \<and> lim_rel now l' a \<and> src \<notin> mkeys (perSrc l) \<and> length (perSrc l') = maxSources l)"
proof -
  have rate: "0 \<le> srcRate l" using assms(3) by (simp add: lim_wf_def)
  have rel: "lim_rel now l a" by (rule lim_rel_later [OF assms(1,2) rate])
  obtain m ob where adm: "admit_source now src l = (m, ob)"
    by (cases "admit_source now src l")
  note ar = admit_source_rel [OF rel assms(3) adm] and wf = admit_source_wf [OF assms(3) adm]
  show ?thesis
  proof (cases ob)
    case None
    with ar wf adm have "length (perSrc m) = maxSources l"
      by (simp add: lim_wf_def same_limits_def)
    with None ar adm show ?thesis by (simp add: Allow_def)
  next
    case (Some b)
    with adm ar(3) ar(1,2) show ?thesis
      by (auto simp: Allow_def spec_Allow_def AllowGlobal_def lim_rel_def same_limits_def Let_def
          gomap_simps split: prod.splits if_splits)
  qed
qed

theorem Allow_refines_witness:
  "case Allow 7 ''a'' (New 10 5 4 0) of (ok, l') \<Rightarrow>
     (case spec_Allow (New 10 5 4 0) 7 ''a'' (spec_New 10 5 0) of
        (ok', a') \<Rightarrow> ok = ok' \<and> lim_rel 7 l' a') \<or>
     (\<not> ok \<and> lim_rel 7 l' (spec_New 10 5 0) \<and> ''a'' \<notin> mkeys (perSrc (New 10 5 4 0 :: string limiter)) \<and>
      length (perSrc l') = maxSources (New 10 5 4 0 :: string limiter))"
  by (rule Allow_refines [where t = 0])
    (simp_all add: lim_rel_def lim_wf_def New_def spec_New_def full_def seconds_def)

section \<open>The interface the listeners rely on\<close>

text \<open>
  A listener consults its gate before it works, and relies on two things: the gate's
  memory stays bounded, and the gate admits a bounded amount of work by any deadline.
\<close>

locale admission_gate =
  fixes gate :: "time \<Rightarrow> 'k \<Rightarrow> 's \<Rightarrow> bool \<times> 's"
    and ok :: "'s \<Rightarrow> bool"
    and budget :: "time \<Rightarrow> 's \<Rightarrow> rat"
  assumes gate_ok: "ok s \<Longrightarrow> ok (snd (gate t k s))"
    and gate_budget: "ok s \<Longrightarrow> t \<le> dl \<Longrightarrow>
      (if fst (gate t k s) then 1 else 0) + budget dl (snd (gate t k s)) \<le> budget dl s"
    and budget_nonneg: "0 \<le> budget dl s"
begin

fun passed :: "'s \<Rightarrow> (time \<times> 'k) list \<Rightarrow> nat" where
  "passed s [] = 0"
| "passed s ((t, k) # ps) =
     (if fst (gate t k s) then 1 else 0) + passed (snd (gate t k s)) ps"

lemma passed_le_budget:
  assumes "ok s" and "\<forall>p \<in> set ps. fst p \<le> dl"
  shows "of_nat (passed s ps) \<le> budget dl s"
  using assms
proof (induction ps arbitrary: s)
  case (Cons p ps)
  obtain t k where p: "p = (t, k)" by (cases p)
  have IH: "of_nat (passed (snd (gate t k s)) ps) \<le> budget dl (snd (gate t k s))"
    using Cons.IH [OF gate_ok [OF Cons.prems(1)]] Cons.prems(2) by simp
  from gate_budget [OF Cons.prems(1), of t dl k] Cons.prems(2) p
  have "(if fst (gate t k s) then 1 else 0) + budget dl (snd (gate t k s)) \<le> budget dl s" by simp
  with IH p show ?case by (auto split: if_splits)
qed (simp add: budget_nonneg)

end

definition lim_budget :: "time \<Rightarrow> 'k limiter \<Rightarrow> rat" where
  "lim_budget dl l = max 0 (credit (globalRate l) dl (global l))"

lemma Allow_budget:
  assumes "lim_wf l" and "t \<le> dl"
  shows "(if fst (Allow t k l) then 1 else 0) + lim_budget dl (snd (Allow t k l)) \<le> lim_budget dl l"
proof -
  obtain ok l' where al: "Allow t k l = (ok, l')" by (cases "Allow t k l")
  from assms(1) have r: "0 \<le> globalRate l" by (simp add: lim_wf_def)
  show ?thesis
    using Allow_global [OF al] al take_token_credit [OF r assms(2), of "globalBurst l" "global l" ok "global l'"]
    by (auto simp: lim_budget_def same_limits_def)
qed

lemma AllowGlobal_budget:
  assumes "lim_wf l" and "t \<le> dl"
  shows "(if fst (AllowGlobal t l) then 1 else 0) + lim_budget dl (snd (AllowGlobal t l)) \<le> lim_budget dl l"
proof -
  obtain ok g where tk: "take_token t (globalRate l) (globalBurst l) (global l) = (ok, g)"
    by (cases "take_token t (globalRate l) (globalBurst l) (global l)")
  from assms(1) have r: "0 \<le> globalRate l" by (simp add: lim_wf_def)
  from take_token_credit [OF r assms(2) tk] tk show ?thesis
    by (simp add: AllowGlobal_def lim_budget_def)
qed

interpretation allow_gate: admission_gate Allow lim_wf lim_budget
  by unfold_locales (rule Allow_wf, assumption, rule Allow_budget, assumption+, simp add: lim_budget_def)

interpretation global_gate: admission_gate "\<lambda>t (k :: unit). AllowGlobal t" lim_wf lim_budget
  by unfold_locales
    (rule AllowGlobal_wf, assumption, rule AllowGlobal_budget, assumption+, simp add: lim_budget_def)

end
