(* ===== verification/Relay.thy ===== *)
theory Relay
  imports RelayWire RateLimit "HOL-Library.Multiset"
begin

text \<open>
  The blind relay of \<^verbatim>\<open>internal/relay/server.go\<close> and \<^verbatim>\<open>internal/relay/tickets.go\<close>: its state,
  one definition per operation, and the events its goroutines react to.

  The data path reads a leg's forwarding record without the lock, through a second map
  from source addresses to the same records. That sharing is kept: a record lives in a
  heap \<open>fwds\<close>, a leg and the \<open>byAddr\<close> map hold its reference. Two legs are the same Go
  pointer exactly if they hold the same reference.

  Critical sections under the mutex are single steps. Signature verification runs on its
  own goroutine: an admitted bind becomes a job in \<open>inFlight\<close>, and running a job is a
  later event, so binds overtake each other. Clock readings are arguments, one per
  event. Log lines are not modelled beyond the throttling state that decides them.
\<close>

section \<open>State\<close>

definition defaultMaxSessions :: nat where "defaultMaxSessions = 4096"
definition maxLegsPerSes :: nat where "maxLegsPerSes = 2"
definition defaultMaxLegsPerIP :: nat where "defaultMaxLegsPerIP = 64"
definition maxSigInFlight :: nat where "maxSigInFlight = 32"
definition pendingPairTimeout :: duration where "pendingPairTimeout = 60 * second"
definition statsInterval :: duration where "statsInterval = 60 * second"
definition cookieEpoch :: duration where "cookieEpoch = 30 * second"

record leg =
  leg_addr :: udpaddr
  leg_fwd :: nat
  acctKey :: acct
  leg_name :: bytes
  leg_epk :: bytes

record fwd =
  peer :: "udpaddr option"
  seen :: time

record session =
  token :: bytes
  legs :: "leg list"
  paired :: bool
  created :: time

datatype relay_reason = TicketReason reason | NoTicket | Encoding | SIDClaim | Budget | InFlight
  | LegTaken | LegCap | Capacity | Migration

datatype job = Job bind_msg udpaddr acct bytes

record server =
  ttl :: duration
  allowed :: "prefix list"
  cookieKey :: bytes
  maxSessions :: nat
  maxLegsPerIP :: nat
  pendingPair :: duration
  serverKeys :: "bytes list"
  relayID :: bytes
  debug :: bool
  bindRL :: "acct limiter"
  sigRL :: "unit limiter"
  reserveRL :: "bytes limiter"
  inFlight :: "job list"
  sessions :: "(bytes, session) gomap"
  legsPerIP :: "(acct, nat) gomap"
  byAddr :: "(bytes \<times> nat, nat) gomap"
  fwds :: "nat \<Rightarrow> fwd"
  nextFwd :: nat
  statPaired :: nat
  statChallenged :: nat
  statRejected :: nat
  statHoard :: nat
  statTicket :: nat
  statVerify :: nat
  hoardWarned :: "(acct, time) gomap"
  rejectWarned :: "(relay_reason, time) gomap"

record config =
  TTL :: duration
  ServerKeys :: "bytes list"
  RelayID :: bytes
  AllowCIDRs :: "prefix list"
  MaxSessions :: int
  MaxLegsPerIP :: int
  Debug :: bool

definition NewServer :: "config \<Rightarrow> bytes \<Rightarrow> time \<Rightarrow> server" where
  "NewServer cfg key now =
     \<lparr>ttl = TTL cfg, allowed = AllowCIDRs cfg, cookieKey = key,
      maxSessions = (if MaxSessions cfg \<le> 0 then defaultMaxSessions else nat (MaxSessions cfg)),
      maxLegsPerIP = (if MaxLegsPerIP cfg \<le> 0 then defaultMaxLegsPerIP else nat (MaxLegsPerIP cfg)),
      pendingPair = pendingPairTimeout, serverKeys = ServerKeys cfg, relayID = RelayID cfg, debug = Debug cfg,
      bindRL = New 1000 50 8192 now, sigRL = NewGlobal 200 now, reserveRL = New 20 4 1024 now,
      inFlight = [], sessions = [], legsPerIP = [], byAddr = [], fwds = (\<lambda>_. \<lparr>peer = None, seen = 0\<rparr>),
      nextFwd = 0, statPaired = 0, statChallenged = 0, statRejected = 0, statHoard = 0, statTicket = 0,
      statVerify = 0, hoardWarned = [], rejectWarned = []\<rparr>"

definition ticketMode :: "server \<Rightarrow> bool" where
  "ticketMode s \<longleftrightarrow> serverKeys s \<noteq> []"

section \<open>Cookies\<close>

fun be_bytes :: "nat \<Rightarrow> nat \<Rightarrow> bytes" where
  "be_bytes 0 n = []"
| "be_bytes (Suc k) n = be_bytes k (n div 256) @ [char_of (n mod 256)]"

definition computeCookie :: "crypto \<Rightarrow> server \<Rightarrow> udpaddr \<Rightarrow> int \<Rightarrow> bytes" where
  "computeCookie C s src epoch =
     take CookieLen (hmac_sha256 C (cookieKey s)
       (be_bytes 8 (nat (epoch mod 2 ^ 64)) @ To16 (IP src) @ be_bytes 2 (Port src mod 2 ^ 16)))"

definition freshCookie :: "crypto \<Rightarrow> time \<Rightarrow> udpaddr \<Rightarrow> server \<Rightarrow> bytes" where
  "freshCookie C now src s = computeCookie C s src (now div cookieEpoch)"

definition validCookie :: "crypto \<Rightarrow> time \<Rightarrow> bytes \<Rightarrow> udpaddr \<Rightarrow> server \<Rightarrow> bytes option" where
  "validCookie C now b64 src s =
     (if b64 = [] then None
      else case b64url_decode b64 of
             None \<Rightarrow> None
           | Some got \<Rightarrow>
               (if length got \<noteq> CookieLen then None
                else let e = now div cookieEpoch in
                     if got = computeCookie C s src e \<or> got = computeCookie C s src (e - 1)
                     then Some got else None))"

section \<open>Throttled warnings\<close>

definition throttleLocked :: "time \<Rightarrow> relay_reason \<Rightarrow> server \<Rightarrow> bool \<times> server" where
  "throttleLocked now r s =
     (case mget (rejectWarned s) r of
        Some was \<Rightarrow>
          (if now - was < statsInterval then (False, s)
           else if length (rejectWarned s) \<ge> 64 then (False, s)
           else (True, s\<lparr>rejectWarned := mput r now (rejectWarned s)\<rparr>))
      | None \<Rightarrow>
          (if length (rejectWarned s) \<ge> 64 then (False, s)
           else (True, s\<lparr>rejectWarned := mput r now (rejectWarned s)\<rparr>)))"

definition rejectTicket :: "time \<Rightarrow> relay_reason \<Rightarrow> server \<Rightarrow> server" where
  "rejectTicket now r s = snd (throttleLocked now r (s\<lparr>statTicket := statTicket s + 1\<rparr>))"

definition rejectWindow :: "time \<Rightarrow> server \<Rightarrow> server" where
  "rejectWindow now s = snd (throttleLocked now (TicketReason ReasonWindow) (s\<lparr>statTicket := statTicket s + 1\<rparr>))"

definition rejected :: "server \<Rightarrow> server" where
  "rejected s = s\<lparr>statRejected := statRejected s + 1\<rparr>"

definition warnHoardLocked :: "time \<Rightarrow> acct \<Rightarrow> server \<Rightarrow> server" where
  "warnHoardLocked now a s =
     (if (case mget (hoardWarned s) a of Some was \<Rightarrow> now - was < statsInterval | None \<Rightarrow> False) then s
      else let hw = (if length (hoardWarned s) \<ge> maxSessions s
                     then filter (\<lambda>(k, t). \<not> now - t \<ge> statsInterval) (hoardWarned s)
                     else hoardWarned s)
           in if length hw \<ge> maxSessions s then s\<lparr>hoardWarned := hw\<rparr>
              else s\<lparr>hoardWarned := mput a now hw\<rparr>)"

section \<open>Legs and their forwarding records\<close>

definition set_peer :: "nat \<Rightarrow> udpaddr option \<Rightarrow> server \<Rightarrow> server" where
  "set_peer r a s = s\<lparr>fwds := (fwds s)(r := (fwds s r)\<lparr>peer := a\<rparr>)\<rparr>"

definition set_seen :: "nat \<Rightarrow> time \<Rightarrow> server \<Rightarrow> server" where
  "set_seen r now s = s\<lparr>fwds := (fwds s)(r := (fwds s r)\<lparr>seen := now\<rparr>)\<rparr>"

text \<open>The two partner pointers of a full session.\<close>

definition publish :: "session \<Rightarrow> server \<Rightarrow> server" where
  "publish ses s =
     (case legs ses of
        [l0, l1] \<Rightarrow> set_peer (leg_fwd l1) (Some (leg_addr l0)) (set_peer (leg_fwd l0) (Some (leg_addr l1)) s)
      | _ \<Rightarrow> s)"

definition put_session :: "session \<Rightarrow> server \<Rightarrow> server" where
  "put_session ses s = s\<lparr>sessions := mput (token ses) ses (sessions s)\<rparr>"

definition pairLocked :: "session \<Rightarrow> server \<Rightarrow> session \<times> server" where
  "pairLocked ses s =
     (if length (legs ses) \<noteq> 2 then (ses, s)
      else let ses = ses\<lparr>paired := True\<rparr>
           in (ses, publish ses (s\<lparr>statPaired := statPaired s + 1\<rparr>)))"

definition releaseIPLocked :: "acct \<Rightarrow> server \<Rightarrow> server" where
  "releaseIPLocked a s =
     (if mcount (legsPerIP s) a \<le> 1 then s\<lparr>legsPerIP := mdel a (legsPerIP s)\<rparr>
      else s\<lparr>legsPerIP := mput a (mcount (legsPerIP s) a - 1) (legsPerIP s)\<rparr>)"

definition chargeIP :: "acct \<Rightarrow> server \<Rightarrow> server" where
  "chargeIP a s = s\<lparr>legsPerIP := mput a (mcount (legsPerIP s) a + 1) (legsPerIP s)\<rparr>"

text \<open>A new leg: a fresh forwarding record, entered in the session, the address map and
  the budget, and the pairing if it is the second one.\<close>

definition claim_leg :: "time \<Rightarrow> session \<Rightarrow> udpaddr \<Rightarrow> acct \<Rightarrow> bytes \<Rightarrow> bytes \<Rightarrow> server \<Rightarrow> server" where
  "claim_leg now ses src a nm epk s =
     (let r = nextFwd s;
          l = \<lparr>leg_addr = src, leg_fwd = r, acctKey = a, leg_name = nm, leg_epk = epk\<rparr>;
          ses = ses\<lparr>legs := legs ses @ [l]\<rparr>;
          s = s\<lparr>fwds := (fwds s)(r := \<lparr>peer = None, seen = 0\<rparr>), nextFwd := Suc r,
                byAddr := mput (addr_string src) r (byAddr s)\<rparr>;
          s = chargeIP a s;
          (ses, s) = pairLocked ses s
      in set_seen r now (put_session ses s))"

section \<open>Binding in network mode\<close>

type_synonym sends = "(bytes \<times> udpaddr) list"

definition ack :: "json \<Rightarrow> bytes \<Rightarrow> udpaddr \<Rightarrow> sends" where
  "ack J tok src = [(MarshalBind J (plain_bind tok), src)]"

definition bindNetworkMode :: "json \<Rightarrow> time \<Rightarrow> udpaddr \<Rightarrow> acct \<Rightarrow> bytes \<Rightarrow> server \<Rightarrow> server \<times> sends" where
  "bindNetworkMode J now src a tok s =
     (case mget (sessions s) tok of
        None \<Rightarrow>
          (if length (sessions s) \<ge> maxSessions s then (rejected s, [])
           else if mcount (legsPerIP s) a \<ge> maxLegsPerIP s
                then (warnHoardLocked now a (rejected s\<lparr>statHoard := statHoard s + 1\<rparr>), [])
           else (claim_leg now \<lparr>token = tok, legs = [], paired = False, created = now\<rparr> src a [] [] s, ack J tok src))
      | Some ses \<Rightarrow>
          (case find (\<lambda>l. addr_string (leg_addr l) = addr_string src) (legs ses) of
             Some l \<Rightarrow> (set_seen (leg_fwd l) now s, ack J tok src)
           | None \<Rightarrow>
               (if length (legs ses) \<ge> maxLegsPerSes then (rejected s, [])
                else if mcount (legsPerIP s) a \<ge> maxLegsPerIP s
                     then (warnHoardLocked now a (rejected s\<lparr>statHoard := statHoard s + 1\<rparr>), [])
                else (claim_leg now ses src a [] [] s, ack J tok src))))"

section \<open>Binding with a ticket\<close>

definition halfOpen :: "bytes \<Rightarrow> server \<Rightarrow> bool" where
  "halfOpen sid s = (case mget (sessions s) sid of None \<Rightarrow> False | Some ses \<Rightarrow> length (legs ses) = 1)"

text \<open>The verification budget: a half-open session draws on its own reserve first, everything
  else, and a reserve that is spent, on the global budget.\<close>

definition admit_budget :: "time \<Rightarrow> bytes \<Rightarrow> server \<Rightarrow> bool \<times> server" where
  "admit_budget now sid s =
     (let (admitted, s) = (if halfOpen sid s
                           then let (ok, rl) = Allow now sid (reserveRL s) in (ok, s\<lparr>reserveRL := rl\<rparr>)
                           else (False, s))
      in if admitted then (True, s)
         else let (ok, rl) = AllowGlobal now (sigRL s) in (ok, s\<lparr>sigRL := rl\<rparr>))"

definition admitTicketBind :: "time \<Rightarrow> bind_msg \<Rightarrow> udpaddr \<Rightarrow> acct \<Rightarrow> bytes \<Rightarrow> server \<Rightarrow> server" where
  "admitTicketBind now b src a cookie s =
     (if TicketB64 b = [] \<or> TicketSig b = [] \<or> BindSig b = [] then rejectTicket now NoTicket s
      else let (admitted, s) = admit_budget now (SessionToken b) s
           in if \<not> admitted then rejectTicket now Budget (rejected s)
              else if length (inFlight s) \<ge> maxSigInFlight then rejectTicket now InFlight (rejected s)
              else s\<lparr>inFlight := inFlight s @ [Job b src a cookie]\<rparr>)"

text \<open>Moving a leg to a new source address.\<close>

definition migrate :: "time \<Rightarrow> session \<Rightarrow> leg \<Rightarrow> udpaddr \<Rightarrow> acct \<Rightarrow> server \<Rightarrow> server" where
  "migrate now ses held src a s =
     (let s = s\<lparr>byAddr := mdel (addr_string (leg_addr held)) (byAddr s)\<rparr>;
          s = (if acctKey held \<noteq> a then chargeIP a (releaseIPLocked (acctKey held) s) else s);
          held' = held\<lparr>leg_addr := src, acctKey := a\<rparr>;
          ses = ses\<lparr>legs := map (\<lambda>l. if leg_fwd l = leg_fwd held then held' else l) (legs ses)\<rparr>;
          s = s\<lparr>byAddr := mput (addr_string src) (leg_fwd held) (byAddr s)\<rparr>;
          s = (if length (legs ses) = 2 then publish ses s else s)
      in set_seen (leg_fwd held) now (put_session ses s))"

definition bindTicketed :: "json \<Rightarrow> time \<Rightarrow> payload \<Rightarrow> udpaddr \<Rightarrow> acct \<Rightarrow> server \<Rightarrow> server \<times> sends" where
  "bindTicketed J now p src a s =
     (let sid = SID p in
      case mget (sessions s) sid of
        None \<Rightarrow>
          (if length (sessions s) \<ge> maxSessions s then (rejectTicket now Capacity (rejected s), [])
           else if mcount (legsPerIP s) a \<ge> maxLegsPerIP s
                then (rejectTicket now LegCap
                        (rejected (warnHoardLocked now a (s\<lparr>statHoard := statHoard s + 1\<rparr>))), [])
           else (claim_leg now \<lparr>token = sid, legs = [], paired = False, created = now\<rparr> src a (Leg p) (EPK p) s,
                 ack J sid src))
      | Some ses \<Rightarrow>
          (case find (\<lambda>l. leg_name l = Leg p) (legs ses) of
             None \<Rightarrow>
               (if length (legs ses) \<ge> maxLegsPerSes then (rejectTicket now LegCap (rejected s), [])
                else if mcount (legsPerIP s) a \<ge> maxLegsPerIP s
                     then (rejectTicket now LegCap
                             (rejected (warnHoardLocked now a (s\<lparr>statHoard := statHoard s + 1\<rparr>))), [])
                else (claim_leg now ses src a (Leg p) (EPK p) s, ack J sid src))
           | Some held \<Rightarrow>
               (if leg_epk held \<noteq> EPK p then (rejectTicket now LegTaken (rejected s), [])
                else if addr_string (leg_addr held) = addr_string src
                     then (set_seen (leg_fwd held) now s, ack J sid src)
                else if acctKey held \<noteq> a \<and> mcount (legsPerIP s) a \<ge> maxLegsPerIP s
                     then (rejectTicket now Migration (rejected s), [])
                else (migrate now ses held src a s, ack J sid src))))"

text \<open>The verification order. The first component is the parsed ticket if every check
  passed.\<close>

definition check_ticket_bind ::
  "json \<Rightarrow> crypto \<Rightarrow> time \<Rightarrow> bind_msg \<Rightarrow> bytes \<Rightarrow> server \<Rightarrow> (relay_reason \<times> bool) + payload" where
  "check_ticket_bind J C now b cookie s =
     (case b64url_decode (TicketB64 b) of
        None \<Rightarrow> Inl (Encoding, False)
      | Some pl \<Rightarrow>
     (case b64url_decode (TicketSig b) of
        None \<Rightarrow> Inl (Encoding, False)
      | Some sig \<Rightarrow>
      if length sig \<noteq> SignatureSize then Inl (Encoding, False) else
     (case b64url_decode (BindSig b) of
        None \<Rightarrow> Inl (Encoding, False)
      | Some bindSig \<Rightarrow>
      if length bindSig \<noteq> SignatureSize then Inl (Encoding, False) else
      if \<not> Verify C (serverKeys s) pl sig then Inl (TicketReason ReasonSignature, True) else
     (case Parse J pl of
        Inl r \<Rightarrow> Inl (TicketReason r, True)
      | Inr p \<Rightarrow>
      if CheckWindow now p \<noteq> Inr () then Inl (TicketReason ReasonWindow, True) else
      if CheckRelay (relayID s) p \<noteq> Inr () then Inl (TicketReason ReasonRelay, True) else
      if SessionToken b \<noteq> SID p then Inl (SIDClaim, True) else
     (case EphPub p of
        None \<Rightarrow> Inl (TicketReason ReasonMalformed, True)
      | Some epk \<Rightarrow>
      if VerifyBind C epk pl sig cookie bindSig \<noteq> Inr () then Inl (TicketReason ReasonProof, True)
      else Inr p)))))"

definition verifyTicketBind :: "json \<Rightarrow> crypto \<Rightarrow> time \<Rightarrow> job \<Rightarrow> server \<Rightarrow> server \<times> sends" where
  "verifyTicketBind J C now j s =
     (case j of Job b src a cookie \<Rightarrow>
        (case check_ticket_bind J C now b cookie s of
           Inl (r, counted) \<Rightarrow>
             (let s = (if counted then s\<lparr>statVerify := statVerify s + 1\<rparr> else s)
              in (if r = TicketReason ReasonWindow then rejectWindow now s else rejectTicket now r s, []))
         | Inr p \<Rightarrow> bindTicketed J now p src a (s\<lparr>statVerify := statVerify s + 1\<rparr>)))"

section \<open>The read loop\<close>

definition bind :: "json \<Rightarrow> crypto \<Rightarrow> time \<Rightarrow> bind_msg \<Rightarrow> udpaddr \<Rightarrow> nat \<Rightarrow> server \<Rightarrow> server \<times> sends" where
  "bind J C now b src reqLen s =
     (if \<not> cidrAllowed (allowed s) (IP src) then (rejected s, [])
      else let a = FromIP (IP src); (ok, rl) = Allow now a (bindRL s); s = s\<lparr>bindRL := rl\<rparr>
           in if \<not> ok then (rejected s, [])
              else case validCookie C now (Cookie b) src s of
                None \<Rightarrow>
                  (let chal = MarshalChallenge (freshCookie C now src s)
                   in (s\<lparr>statChallenged := statChallenged s + 1\<rparr>,
                       if length chal < reqLen then [(chal, src)] else []))
              | Some cookie \<Rightarrow>
                  (if ticketMode s then (admitTicketBind now b src a cookie s, [])
                   else bindNetworkMode J now src a (SessionToken b) s))"

definition forward :: "time \<Rightarrow> udpaddr \<Rightarrow> bytes \<Rightarrow> server \<Rightarrow> server \<times> sends" where
  "forward now src pkt s =
     (case mget (byAddr s) (addr_string src) of
        None \<Rightarrow> (s, [])
      | Some r \<Rightarrow>
          (set_seen r now s, case peer (fwds s r) of None \<Rightarrow> [] | Some dst \<Rightarrow> [(pkt, dst)]))"

text \<open>One turn of the loop in \<^verbatim>\<open>Run\<close>. \<open>pkt\<close> is what the read left in the buffer of 1500 bytes; a longer
  datagram has been cut to that by the system before the relay looks at it.\<close>

definition packet :: "json \<Rightarrow> crypto \<Rightarrow> time \<Rightarrow> udpaddr \<Rightarrow> bytes \<Rightarrow> server \<Rightarrow> server \<times> sends" where
  "packet J C now src pkt s =
     (case ParseBind J pkt of
        Some b \<Rightarrow> bind J C now b src (length pkt) s
      | None \<Rightarrow> forward now src pkt s)"

section \<open>The reaper and the statistics\<close>

definition drop_leg :: "leg \<Rightarrow> server \<Rightarrow> server" where
  "drop_leg l s = releaseIPLocked (acctKey l) (s\<lparr>byAddr := mdel (addr_string (leg_addr l)) (byAddr s)\<rparr>)"

definition idle :: "time \<Rightarrow> server \<Rightarrow> leg \<Rightarrow> bool" where
  "idle now s l \<longleftrightarrow> now - seen (fwds s (leg_fwd l)) > ttl s"

definition reap_session :: "time \<Rightarrow> bytes \<times> session \<Rightarrow> server \<Rightarrow> server" where
  "reap_session now e s =
     (let (tok, ses) = e in
      if \<not> paired ses \<and> now - created ses > pendingPair s
      then (fold drop_leg (legs ses) s)\<lparr>sessions := mdel tok (sessions s)\<rparr>
      else let kept = filter (\<lambda>l. \<not> idle now s l) (legs ses);
               s = fold drop_leg (filter (idle now s) (legs ses)) s;
               s = (case kept of [l] \<Rightarrow> set_peer (leg_fwd l) None s | _ \<Rightarrow> s)
           in if kept = [] then s\<lparr>sessions := mdel tok (sessions s)\<rparr>
              else s\<lparr>sessions := mput tok (ses\<lparr>legs := kept\<rparr>) (sessions s)\<rparr>)"

definition reap :: "time \<Rightarrow> server \<Rightarrow> server" where
  "reap now s =
     (let s = fold (reap_session now) (sessions s) s
      in s\<lparr>hoardWarned := filter (\<lambda>(k, t). \<not> now - t \<ge> statsInterval) (hoardWarned s),
           rejectWarned := filter (\<lambda>(k, t). \<not> now - t \<ge> statsInterval) (rejectWarned s)\<rparr>)"

definition statsTick :: "server \<Rightarrow> server" where
  "statsTick s = s\<lparr>statPaired := 0, statChallenged := 0, statRejected := 0, statHoard := 0,
     statTicket := 0, statVerify := 0\<rparr>"

section \<open>Events\<close>

text \<open>What the relay's goroutines react to: a datagram on the read loop, a verification job
  that gets scheduled, the reaper's and the statistics' tickers.\<close>

datatype event = Datagram time udpaddr bytes | Verification time nat | ReapTick time | StatsTick

fun handle :: "json \<Rightarrow> crypto \<Rightarrow> event \<Rightarrow> server \<Rightarrow> server \<times> sends" where
  "handle J C (Datagram now src pkt) s = packet J C now src pkt s"
| "handle J C (Verification now i) s =
     (if i < length (inFlight s)
      then verifyTicketBind J C now (inFlight s ! i)
             (s\<lparr>inFlight := take i (inFlight s) @ drop (Suc i) (inFlight s)\<rparr>)
      else (s, []))"
| "handle J C (ReapTick now) s = (reap now s, [])"
| "handle J C StatsTick s = (statsTick s, [])"

definition step :: "json \<Rightarrow> crypto \<Rightarrow> event \<Rightarrow> server \<Rightarrow> server" where
  "step J C e s = fst (handle J C e s)"

end
