(* ===== verification/RelayInv.thy ===== *)
theory RelayInv
  imports Relay
begin

text \<open>
  The invariant of the relay and that every event keeps it. It has four parts, each a
  relation between a component of the state and the multiset of live legs:

  \<^item> \<open>sess_inv\<close>: the session table is within its cap and every session holds one or two
    legs under its own token;
  \<^item> \<open>acct_rel\<close>: the per-source counters are exactly the legs charged to each source,
    and no source exceeds its cap;
  \<^item> \<open>addr_rel\<close> and \<open>peers_rel\<close>: an address routes only to a live leg at that address, and
    the partner pointers are those of the session;
  \<^item> \<open>evid_rel\<close>: every leg and every queued verification comes from a source that
    passed the allowlist and echoed a cookie, and in ticket mode every leg is covered by
    a ticket signed by a configured server key.
\<close>

section \<open>Live legs\<close>

fun leg_mset :: "(bytes, session) gomap \<Rightarrow> leg multiset" where
  "leg_mset [] = {#}"
| "leg_mset ((k, ses) # m) = mset (legs ses) + leg_mset m"

lemma leg_mset_mdel_absent: "k \<notin> mkeys m \<Longrightarrow> leg_mset (mdel k m) = leg_mset m"
  by (induction m) (auto simp: delete_idem)

lemma leg_mset_mput: "gomap m \<Longrightarrow> leg_mset (mput k v m) = mset (legs v) + leg_mset (mdel k m)"
proof (induction m)
  case (Cons e m)
  then show ?case by (cases e) (auto simp: leg_mset_mdel_absent)
qed simp

lemma leg_mset_mget:
  "gomap m \<Longrightarrow> mget m k = Some ses \<Longrightarrow> leg_mset m = mset (legs ses) + leg_mset (mdel k m)"
proof (induction m)
  case (Cons e m)
  then show ?case by (cases e) (auto simp: leg_mset_mdel_absent split: if_splits)
qed simp

lemma leg_in_mset: "(k, ses) \<in> set m \<Longrightarrow> l \<in> set (legs ses) \<Longrightarrow> l \<in># leg_mset m"
  by (induction m) auto

lemma leg_mset_in: "l \<in># leg_mset m \<Longrightarrow> \<exists>k ses. (k, ses) \<in> set m \<and> l \<in> set (legs ses)"
proof (induction m rule: leg_mset.induct)
  case (2 k ses m)
  then have "l \<in> set (legs ses) \<or> l \<in># leg_mset m" by simp
  with "2.IH" show ?case by (metis list.set_intros)
qed simp

lemma set_mdel: "set (mdel k m) = {e \<in> set m. fst e \<noteq> k}"
  by (induction m) auto

lemma set_mput_gomap: "gomap m \<Longrightarrow> set (mput k v m) = insert (k, v) (set (mdel k m))"
proof (induction m)
  case (Cons e m)
  have "k \<notin> mkeys m \<Longrightarrow> mdel k m = m" by (simp add: delete_idem)
  with Cons show ?case by (cases e) (auto simp: insert_commute)
qed simp

section \<open>Accounting\<close>

definition charged :: "acct \<Rightarrow> leg multiset \<Rightarrow> nat" where
  "charged a M = size (filter_mset (\<lambda>l. acctKey l = a) M)"

definition acct_rel :: "(acct, nat) gomap \<Rightarrow> leg multiset \<Rightarrow> bool" where
  "acct_rel lpi M \<longleftrightarrow> gomap lpi \<and> 0 \<notin> snd ` set lpi \<and> (\<forall>a. mcount lpi a = charged a M)"

lemma mcount_mput: "mcount (mput a n m) b = (if b = a then n else mcount m b)"
  by (simp add: mcount_def mget_mput)

lemma mcount_mdel: "mcount (mdel a m) b = (if b = a then 0 else mcount m b)"
  by (simp add: mcount_def mget_mdel)

lemma zero_mput: "0 \<notin> snd ` set m \<Longrightarrow> n \<noteq> (0::nat) \<Longrightarrow> 0 \<notin> snd ` set (mput k n m)"
  by (force dest: set_mput_cases)

lemma zero_mdel: "(0::nat) \<notin> snd ` set m \<Longrightarrow> 0 \<notin> snd ` set (mdel k m)"
  by (auto simp: set_mdel)

lemma charged_add [simp]: "charged a (add_mset l M) = (if acctKey l = a then 1 else 0) + charged a M"
  by (simp add: charged_def)

lemma charged_union [simp]: "charged a (M + N) = charged a M + charged a N"
  by (simp add: charged_def)

lemma charged_empty [simp]: "charged a {#} = 0"
  by (simp add: charged_def)

definition charge_map :: "acct \<Rightarrow> (acct, nat) gomap \<Rightarrow> (acct, nat) gomap" where
  "charge_map a m = mput a (mcount m a + 1) m"

definition release_map :: "acct \<Rightarrow> (acct, nat) gomap \<Rightarrow> (acct, nat) gomap" where
  "release_map a m = (if mcount m a \<le> 1 then mdel a m else mput a (mcount m a - 1) m)"

lemma acct_rel_charge: "acct_rel m M \<Longrightarrow> acctKey l = a \<Longrightarrow> acct_rel (charge_map a m) (add_mset l M)"
  unfolding acct_rel_def charge_map_def by (simp add: gomap_mput zero_mput mcount_mput)

lemma acct_rel_release:
  assumes "acct_rel m (add_mset l M)"
  shows "acct_rel (release_map (acctKey l) m) M"
proof -
  from assms have cnt: "mcount m b = (if acctKey l = b then 1 else 0) + charged b M" for b
    by (simp add: acct_rel_def)
  with assms show ?thesis
    unfolding acct_rel_def release_map_def
    by (auto simp: gomap_mput gomap_mdel zero_mput zero_mdel mcount_mput mcount_mdel)
qed

lemma acct_rel_key: "acct_rel m (add_mset l M) \<Longrightarrow> acctKey l' = acctKey l \<Longrightarrow> acct_rel m (add_mset l' M)"
  by (simp add: acct_rel_def)

lemma chargeIP_map: "chargeIP a s = s\<lparr>legsPerIP := charge_map a (legsPerIP s)\<rparr>"
  by (simp add: chargeIP_def charge_map_def)

lemma releaseIPLocked_map: "releaseIPLocked a s = s\<lparr>legsPerIP := release_map a (legsPerIP s)\<rparr>"
  by (simp add: releaseIPLocked_def release_map_def)

section \<open>Addresses\<close>

definition uniq :: "leg multiset \<Rightarrow> bool" where
  "uniq M \<longleftrightarrow> (\<forall>r. size (filter_mset (\<lambda>l. leg_fwd l = r) M) \<le> 1)"

definition addr_rel :: "(bytes \<times> nat, nat) gomap \<Rightarrow> leg multiset \<Rightarrow> bool" where
  "addr_rel ba M \<longleftrightarrow>
     (\<forall>k r. mget ba k = Some r \<longrightarrow> (\<exists>l. l \<in># M \<and> leg_fwd l = r \<and> addr_string (leg_addr l) = k))"

lemma addr_rel_claim:
  "addr_rel ba M \<Longrightarrow> leg_fwd l = r \<Longrightarrow> addr_rel (mput (addr_string (leg_addr l)) r ba) (add_mset l M)"
  unfolding addr_rel_def by (simp add: mget_mput split: if_splits) blast

lemma addr_rel_drop:
  "addr_rel ba (add_mset l M) \<Longrightarrow> addr_rel (mdel (addr_string (leg_addr l)) ba) M"
  unfolding addr_rel_def by (auto simp: mget_mdel split: if_splits) metis

lemma addr_rel_mono: "addr_rel ba M \<Longrightarrow> M \<subseteq># N \<Longrightarrow> addr_rel ba N"
  unfolding addr_rel_def by (meson mset_subset_eqD)

lemma uniq_add:
  "uniq (add_mset l M) \<longleftrightarrow> uniq M \<and> (\<forall>l'. l' \<in># M \<longrightarrow> leg_fwd l' \<noteq> leg_fwd l)"
proof -
  let ?n = "\<lambda>r. size (filter_mset (\<lambda>l. leg_fwd l = r) M)"
  have n: "size (filter_mset (\<lambda>l. leg_fwd l = r) (add_mset l M)) = (if leg_fwd l = r then 1 else 0) + ?n r" for r
    by simp
  have z: "?n (leg_fwd l) = 0 \<longleftrightarrow> (\<forall>l'. l' \<in># M \<longrightarrow> leg_fwd l' \<noteq> leg_fwd l)"
    by (simp add: filter_mset_eq_mempty_iff)
  have "(\<forall>r. (if leg_fwd l = r then 1 else 0) + ?n r \<le> 1) \<longleftrightarrow> (\<forall>r. ?n r \<le> 1) \<and> ?n (leg_fwd l) = 0"
    (is "?A \<longleftrightarrow> ?B")
  proof
    assume A: ?A
    have "?n r \<le> 1" for r using spec [OF A, of r] by (simp split: if_splits)
    moreover have "?n (leg_fwd l) = 0" using spec [OF A, of "leg_fwd l"] by simp
    ultimately show ?B by blast
  next
    assume ?B
    then show ?A by auto
  qed
  then show ?thesis unfolding uniq_def n z .
qed

lemma uniq_empty [simp]: "uniq {#}"
  by (simp add: uniq_def)

lemma uniq_union: "uniq (M + N) \<Longrightarrow> uniq M \<and> uniq N \<and> (\<forall>l l'. l \<in># M \<longrightarrow> l' \<in># N \<longrightarrow> leg_fwd l \<noteq> leg_fwd l')"
  by (induction M) (auto simp: uniq_add)

lemma uniq_apart: "uniq (M + N) \<Longrightarrow> l \<in># M \<Longrightarrow> l' \<in># N \<Longrightarrow> leg_fwd l \<noteq> leg_fwd l'"
  by (blast dest: uniq_union)

section \<open>Partner pointers\<close>

fun peers_ok :: "(nat \<Rightarrow> udpaddr option) \<Rightarrow> leg list \<Rightarrow> bool" where
  "peers_ok pf [] = False"
| "peers_ok pf [l] = (pf (leg_fwd l) = None)"
| "peers_ok pf [l0, l1] = (pf (leg_fwd l0) = Some (leg_addr l1) \<and> pf (leg_fwd l1) = Some (leg_addr l0))"
| "peers_ok pf (l0 # l1 # l2 # ls) = False"

definition peers_rel :: "(nat \<Rightarrow> udpaddr option) \<Rightarrow> (bytes \<times> session) set \<Rightarrow> bool" where
  "peers_rel pf S \<longleftrightarrow> (\<forall>e \<in> S. peers_ok pf (legs (snd e)))"

lemma peers_ok_cong: "(\<And>l. l \<in> set ls \<Longrightarrow> pf (leg_fwd l) = pf' (leg_fwd l)) \<Longrightarrow> peers_ok pf ls = peers_ok pf' ls"
  by (cases "(pf, ls)" rule: peers_ok.cases) auto

lemma peers_ok_length: "peers_ok pf ls \<Longrightarrow> 1 \<le> length ls \<and> length ls \<le> 2"
  by (cases "(pf, ls)" rule: peers_ok.cases) auto

definition peer_of :: "server \<Rightarrow> nat \<Rightarrow> udpaddr option" where
  "peer_of s r = peer (fwds s r)"

lemma peer_of_set_seen [simp]: "peer_of (set_seen r t s) = peer_of s"
  by (rule ext) (simp add: peer_of_def set_seen_def)

lemma set_seen_fields [simp]:
  "sessions (set_seen r t s) = sessions s" "legsPerIP (set_seen r t s) = legsPerIP s"
  "byAddr (set_seen r t s) = byAddr s" "nextFwd (set_seen r t s) = nextFwd s"
  "maxSessions (set_seen r t s) = maxSessions s" "maxLegsPerIP (set_seen r t s) = maxLegsPerIP s"
  by (simp_all add: set_seen_def)

lemma peer_of_set_peer [simp]: "peer_of (set_peer r a s) = (peer_of s)(r := a)"
  by (rule ext) (simp add: peer_of_def set_peer_def)

lemma set_peer_fields:
  "sessions (set_peer r t s) = sessions s" "legsPerIP (set_peer r t s) = legsPerIP s"
  "byAddr (set_peer r t s) = byAddr s" "nextFwd (set_peer r t s) = nextFwd s"
  "maxSessions (set_peer r t s) = maxSessions s" "maxLegsPerIP (set_peer r t s) = maxLegsPerIP s"
  by (simp_all add: set_peer_def)

lemma peer_of_frame [simp]:
  "peer_of (s\<lparr>sessions := x1\<rparr>) = peer_of s" "peer_of (s\<lparr>byAddr := x2\<rparr>) = peer_of s"
  "peer_of (s\<lparr>legsPerIP := x3\<rparr>) = peer_of s" "peer_of (s\<lparr>nextFwd := x4\<rparr>) = peer_of s"
  "peer_of (s\<lparr>statPaired := x5\<rparr>) = peer_of s" "peer_of (s\<lparr>inFlight := x6\<rparr>) = peer_of s"
  by (simp_all add: peer_of_def fun_eq_iff)

section \<open>The invariant of the session table\<close>

abbreviation live :: "server \<Rightarrow> leg multiset" where
  "live s \<equiv> leg_mset (sessions s)"

definition sess_inv :: "(bytes, session) gomap \<Rightarrow> nat \<Rightarrow> bool" where
  "sess_inv m cap \<longleftrightarrow> gomap m \<and> length m \<le> cap \<and> (\<forall>e \<in> set m. token (snd e) = fst e)"

definition core_inv :: "server \<Rightarrow> bool" where
  "core_inv s \<longleftrightarrow> sess_inv (sessions s) (maxSessions s) \<and> acct_rel (legsPerIP s) (live s) \<and>
     (\<forall>a. charged a (live s) \<le> maxLegsPerIP s) \<and> addr_rel (byAddr s) (live s) \<and> uniq (live s) \<and>
     (\<forall>l. l \<in># live s \<longrightarrow> leg_fwd l < nextFwd s) \<and> peers_rel (peer_of s) (set (sessions s))"

lemma sess_inv_put:
  assumes "sess_inv m cap" and "token ses = k" and "k \<in> mkeys m \<or> length m < cap"
  shows "sess_inv (mput k ses m) cap"
proof -
  have g: "gomap m" using assms(1) by (simp add: sess_inv_def)
  have "length (mput k ses m) \<le> cap" using assms by (auto simp: sess_inv_def length_mput)
  with assms g show ?thesis
    unfolding sess_inv_def set_mput_gomap [OF g] by (auto simp: gomap_mput set_mdel)
qed

lemma sess_inv_del: "sess_inv m cap \<Longrightarrow> sess_inv (mdel k m) cap"
  using length_mdel_le [of k m] by (auto simp: sess_inv_def gomap_mdel set_mdel)

lemma mget_mkeys: "mget m k = Some v \<Longrightarrow> k \<in> mkeys m"
  by (metis mget_None_iff option.distinct(1))

lemma core_invD:
  assumes "core_inv s"
  shows "gomap (sessions s)" "length (sessions s) \<le> maxSessions s"
    "\<And>k ses. (k, ses) \<in> set (sessions s) \<Longrightarrow> token ses = k"
    "acct_rel (legsPerIP s) (live s)" "\<And>a. charged a (live s) \<le> maxLegsPerIP s"
    "addr_rel (byAddr s) (live s)" "uniq (live s)" "\<And>l. l \<in># live s \<Longrightarrow> leg_fwd l < nextFwd s"
    "peers_rel (peer_of s) (set (sessions s))"
  using assms by (auto simp: core_inv_def sess_inv_def)

lemma core_inv_cong:
  "sessions s' = sessions s \<Longrightarrow> legsPerIP s' = legsPerIP s \<Longrightarrow> byAddr s' = byAddr s \<Longrightarrow>
   nextFwd s' = nextFwd s \<Longrightarrow> peer_of s' = peer_of s \<Longrightarrow> maxSessions s' = maxSessions s \<Longrightarrow>
   maxLegsPerIP s' = maxLegsPerIP s \<Longrightarrow> core_inv s' = core_inv s"
  by (simp add: core_inv_def)

lemma mget_token: "core_inv s \<Longrightarrow> mget (sessions s) k = Some ses \<Longrightarrow> token ses = k"
  by (rule core_invD(3)) (auto dest: mget_in_set)

lemma mget_legs: "core_inv s \<Longrightarrow> mget (sessions s) k = Some ses \<Longrightarrow> peers_ok (peer_of s) (legs ses)"
  using core_invD(9) [of s] by (fastforce simp: peers_rel_def dest: mget_in_set)

text \<open>Replacing one session: the rest of the table is \<open>mdel\<close> of its token.\<close>

abbreviation rest :: "bytes \<Rightarrow> server \<Rightarrow> leg multiset" where
  "rest tok s \<equiv> leg_mset (mdel tok (sessions s))"

lemma peers_rel_replace:
  assumes "peers_rel pf (set m)" and "gomap m" and "peers_ok pf' (legs ses)"
    and "\<And>l. l \<in># leg_mset (mdel tok m) \<Longrightarrow> pf' (leg_fwd l) = pf (leg_fwd l)"
  shows "peers_rel pf' (set (mput tok ses m))"
  unfolding peers_rel_def set_mput_gomap [OF assms(2)]
proof
  fix e assume "e \<in> insert (tok, ses) (set (mdel tok m))"
  then consider "e = (tok, ses)" | "e \<in> set (mdel tok m)" by blast
  then show "peers_ok pf' (legs (snd e))"
  proof cases
    case 2
    have "peers_ok pf (legs (snd e))" using 2 assms(1) by (auto simp: peers_rel_def set_mdel)
    moreover have "pf' (leg_fwd l) = pf (leg_fwd l)" if "l \<in> set (legs (snd e))" for l
      using 2 that assms(4) leg_in_mset [of "fst e" "snd e"] by simp
    ultimately show ?thesis using peers_ok_cong by metis
  qed (use assms(3) in simp)
qed

lemma peers_rel_delete:
  assumes "peers_rel pf (set m)"
    and "\<And>l. l \<in># leg_mset (mdel tok m) \<Longrightarrow> pf' (leg_fwd l) = pf (leg_fwd l)"
  shows "peers_rel pf' (set (mdel tok m))"
  unfolding peers_rel_def
proof
  fix e assume e: "e \<in> set (mdel tok m)"
  then have "peers_ok pf (legs (snd e))" using assms(1) by (auto simp: peers_rel_def set_mdel)
  moreover have "pf' (leg_fwd l) = pf (leg_fwd l)" if "l \<in> set (legs (snd e))" for l
    using e that assms(2) leg_in_mset [of "fst e" "snd e"] by simp
  ultimately show "peers_ok pf' (legs (snd e))" using peers_ok_cong by metis
qed

section \<open>Claiming a leg\<close>

definition new_leg :: "udpaddr \<Rightarrow> acct \<Rightarrow> bytes \<Rightarrow> bytes \<Rightarrow> server \<Rightarrow> leg" where
  "new_leg src a nm epk s =
     \<lparr>leg_addr = src, leg_fwd = nextFwd s, acctKey = a, leg_name = nm, leg_epk = epk\<rparr>"

definition joined :: "session \<Rightarrow> leg \<Rightarrow> session" where
  "joined ses l = ses\<lparr>legs := legs ses @ [l], paired := paired ses \<or> length (legs ses) = 1\<rparr>"

lemma claim_leg_fields:
  fixes s s' :: server
  assumes "length (legs ses) < 2" and "s' = claim_leg now ses src a nm epk s"
  shows "sessions s' = mput (token ses) (joined ses (new_leg src a nm epk s)) (sessions s)"
    and "legsPerIP s' = charge_map a (legsPerIP s)"
    and "byAddr s' = mput (addr_string src) (nextFwd s) (byAddr s)"
    and "nextFwd s' = Suc (nextFwd s)"
    and "peer_of s' = (case legs ses of [l0] \<Rightarrow>
           ((peer_of s)(nextFwd s := None))(leg_fwd l0 := Some src, nextFwd s := Some (leg_addr l0))
         | _ \<Rightarrow> (peer_of s)(nextFwd s := None))"
    and "maxSessions s' = maxSessions s" "maxLegsPerIP s' = maxLegsPerIP s" "inFlight s' = inFlight s"
    and "serverKeys s' = serverKeys s" "cookieKey s' = cookieKey s" "allowed s' = allowed s" "relayID s' = relayID s"
    and "rejectWarned s' = rejectWarned s" "hoardWarned s' = hoardWarned s"
    and "bindRL s' = bindRL s" "sigRL s' = sigRL s" "reserveRL s' = reserveRL s"
  using assms(1) unfolding assms(2)
  by (cases "legs ses"; cases "tl (legs ses)";
      simp add: claim_leg_def pairLocked_def publish_def put_session_def joined_def new_leg_def chargeIP_map
        set_seen_def set_peer_def peer_of_def fun_eq_iff Let_def)+

lemma claim_leg_core:
  assumes inv: "core_inv s" and len: "length (legs ses) < 2"
    and ses: "mget (sessions s) (token ses) = Some ses \<or>
      (mget (sessions s) (token ses) = None \<and> legs ses = [] \<and> length (sessions s) < maxSessions s)"
    and cap: "mcount (legsPerIP s) a < maxLegsPerIP s"
  shows "core_inv (claim_leg now ses src a nm epk s)"
proof -
  let ?s' = "claim_leg now ses src a nm epk s" and ?l = "new_leg src a nm epk s" and ?tok = "token ses"
  note I = core_invD [OF inv] and F = claim_leg_fields [OF len refl, of now src a nm epk s]
  have M: "live s = mset (legs ses) + rest ?tok s"
    using ses leg_mset_mget [OF I(1)] leg_mset_mdel_absent [of ?tok "sessions s"]
    by (auto simp: mget_None_iff)
  have M': "live ?s' = add_mset ?l (live s)"
    using leg_mset_mput [OF I(1)] M by (simp add: F joined_def)
  have fresh: "l \<in># live s \<Longrightarrow> leg_fwd l \<noteq> nextFwd s" for l using I(8) by fastforce
  have si: "sess_inv (sessions ?s') (maxSessions ?s')"
    unfolding F(1,6) using inv ses by (intro sess_inv_put) (auto simp: core_inv_def joined_def dest: mget_mkeys)
  have pk: "peers_ok (peer_of ?s') (legs (joined ses ?l))"
    using len fresh M by (cases "legs ses"; cases "tl (legs ses)") (auto simp: F joined_def new_leg_def)
  have apart: "leg_fwd l \<noteq> leg_fwd l0" if "l \<in># rest ?tok s" "l0 \<in> set (legs ses)" for l l0
    using uniq_apart [OF I(7) [unfolded M], of l0 l] that by simp
  have other: "peer_of ?s' (leg_fwd l) = peer_of s (leg_fwd l)" if "l \<in># rest ?tok s" for l
    using that fresh M apart by (auto simp: F split: list.splits)
  have "peers_rel (peer_of ?s') (set (sessions ?s'))"
    unfolding F(1) by (rule peers_rel_replace [OF I(9,1) pk other])
  moreover have "acct_rel (legsPerIP ?s') (live ?s')"
    unfolding M' F(2) by (rule acct_rel_charge [OF I(4)]) (simp add: new_leg_def)
  moreover have "charged b (live ?s') \<le> maxLegsPerIP ?s'" for b
    using cap I(4) I(5) [of b] by (auto simp: M' F(2-) acct_rel_def new_leg_def)
  moreover have "addr_rel (byAddr ?s') (live ?s')"
    using addr_rel_claim [OF I(6), of ?l "nextFwd s"] by (simp add: M' F(2-) new_leg_def)
  moreover have "uniq (live ?s')" using I(7) fresh by (simp add: M' uniq_add new_leg_def)
  moreover have "leg_fwd l < nextFwd ?s'" if "l \<in># live ?s'" for l
    using that I(8) by (auto simp: M' F(2-) new_leg_def intro: less_SucI)
  ultimately show ?thesis
    using si by (simp add: core_inv_def)
qed

section \<open>Moving a leg\<close>

definition moved :: "leg \<Rightarrow> udpaddr \<Rightarrow> acct \<Rightarrow> leg" where
  "moved held src a = held\<lparr>leg_addr := src, acctKey := a\<rparr>"

definition moved_ses :: "session \<Rightarrow> leg \<Rightarrow> udpaddr \<Rightarrow> acct \<Rightarrow> session" where
  "moved_ses ses held src a =
     ses\<lparr>legs := map (\<lambda>l. if leg_fwd l = leg_fwd held then moved held src a else l) (legs ses)\<rparr>"

definition publish_map :: "leg list \<Rightarrow> (nat \<Rightarrow> udpaddr option) \<Rightarrow> nat \<Rightarrow> udpaddr option" where
  "publish_map ls pf =
     (case ls of [l0, l1] \<Rightarrow> pf(leg_fwd l0 := Some (leg_addr l1), leg_fwd l1 := Some (leg_addr l0)) | _ \<Rightarrow> pf)"

lemma publish_fields [simp]:
  "peer_of (publish ses s) = publish_map (legs ses) (peer_of s)"
  "sessions (publish ses s) = sessions s" "legsPerIP (publish ses s) = legsPerIP s"
  "byAddr (publish ses s) = byAddr s" "nextFwd (publish ses s) = nextFwd s"
  "maxSessions (publish ses s) = maxSessions s" "maxLegsPerIP (publish ses s) = maxLegsPerIP s"
  by (auto simp: publish_def publish_map_def set_peer_def peer_of_def fun_eq_iff split: list.splits)

lemma publish_map_short: "length ls \<noteq> 2 \<Longrightarrow> publish_map ls pf = pf"
  by (auto simp: publish_map_def split: list.splits)

lemma migrate_fields:
  fixes s s' :: server
  assumes "s' = migrate now ses held src a s"
  shows "sessions s' = mput (token ses) (moved_ses ses held src a) (sessions s)"
    and "legsPerIP s' = (if acctKey held \<noteq> a then charge_map a (release_map (acctKey held) (legsPerIP s))
                         else legsPerIP s)"
    and "byAddr s' = mput (addr_string src) (leg_fwd held) (mdel (addr_string (leg_addr held)) (byAddr s))"
    and "nextFwd s' = nextFwd s"
    and "peer_of s' = publish_map (legs (moved_ses ses held src a)) (peer_of s)"
    and "maxSessions s' = maxSessions s" "maxLegsPerIP s' = maxLegsPerIP s"
  unfolding assms moved_ses_def moved_def
  by (simp_all add: migrate_def put_session_def chargeIP_map releaseIPLocked_map publish_map_short Let_def)

lemma moved_ref: "leg_fwd (if leg_fwd l = leg_fwd held then moved held src a else l) = leg_fwd l"
  by (simp add: moved_def)

text \<open>The references of one session are pairwise different, so exactly the held leg is
  replaced.\<close>

lemma moved_ses_mset:
  assumes "uniq (mset (legs ses) + R)" and "held \<in> set (legs ses)"
  obtains K where "mset (legs ses) = add_mset held K"
    and "mset (legs (moved_ses ses held src a)) = add_mset (moved held src a) K"
proof -
  let ?f = "\<lambda>l. if leg_fwd l = leg_fwd held then moved held src a else l"
  obtain K where K: "mset (legs ses) = add_mset held K"
    using assms(2) by (metis in_multiset_in_set insert_DiffM)
  have "uniq (mset (legs ses))" using assms(1) uniq_union by blast
  then have "\<forall>l'. l' \<in># K \<longrightarrow> leg_fwd l' \<noteq> leg_fwd held" by (simp add: K uniq_add)
  then have "image_mset ?f K = image_mset id K" by (intro image_mset_cong) auto
  then have "mset (legs (moved_ses ses held src a)) = add_mset (moved held src a) K"
    by (simp add: moved_ses_def K)
  with K that show ?thesis by blast
qed

lemma peers_ok_publish:
  assumes "length ls = 1 \<Longrightarrow> pf (leg_fwd (hd ls)) = None" and "length ls = 1 \<or> length ls = 2"
    and "uniq (mset ls)"
  shows "peers_ok (publish_map ls pf) ls"
  using assms by (cases ls; cases "tl ls") (auto simp: publish_map_def uniq_add)

lemma publish_map_other: "r \<notin> leg_fwd ` set ls \<Longrightarrow> publish_map ls pf r = pf r"
  by (auto simp: publish_map_def split: list.splits)

lemma migrate_core:
  assumes inv: "core_inv s" and ses: "mget (sessions s) tok = Some ses" and held: "held \<in> set (legs ses)"
    and cap: "acctKey held \<noteq> a \<Longrightarrow> mcount (legsPerIP s) a < maxLegsPerIP s"
  shows "core_inv (migrate now ses held src a s)"
proof -
  let ?s' = "migrate now ses held src a s" and ?ses' = "moved_ses ses held src a" and ?R = "rest tok s"
  note I = core_invD [OF inv] and F = migrate_fields [OF refl, of now ses held src a s]
  have tok: "token ses = tok" using mget_token [OF inv ses] .
  have M: "live s = mset (legs ses) + ?R" using leg_mset_mget [OF I(1) ses] .
  with I(7) obtain K where K: "mset (legs ses) = add_mset held K"
    and K': "mset (legs ?ses') = add_mset (moved held src a) K"
    using moved_ses_mset [OF _ held] by metis
  have N: "live s = add_mset held (K + ?R)" and N': "live ?s' = add_mset (moved held src a) (K + ?R)"
    using M K K' leg_mset_mput [OF I(1)] by (simp_all add: F tok)
  have u: "uniq (live ?s')" using I(7) by (simp add: N N' uniq_add moved_def)
  have "map leg_fwd (legs ?ses') = map leg_fwd (legs ses)" by (simp add: moved_ses_def moved_ref)
  then have refs: "leg_fwd ` set (legs ?ses') = leg_fwd ` set (legs ses)" by (metis list.set_map)
  have pk0: "peers_ok (peer_of s) (legs ses)" using mget_legs [OF inv ses] .
  have pk: "peers_ok (peer_of ?s') (legs ?ses')"
    unfolding F
  proof (rule peers_ok_publish)
    show "length (legs ?ses') = 1 \<or> length (legs ?ses') = 2"
      using peers_ok_length [OF pk0] by (auto simp: moved_ses_def)
    show "uniq (mset (legs ?ses'))" using u uniq_union [of "mset (legs ?ses')" ?R] by (simp add: N' K')
    show "peer_of s (leg_fwd (hd (legs ?ses'))) = None" if "length (legs ?ses') = 1"
      using that pk0 by (cases "legs ses"; cases "tl (legs ses)") (auto simp: moved_ses_def moved_def)
  qed
  have other: "peer_of ?s' (leg_fwd l) = peer_of s (leg_fwd l)" if "l \<in># ?R" for l
  proof -
    have "leg_fwd l \<notin> leg_fwd ` set (legs ?ses')"
      unfolding refs using uniq_apart [OF I(7) [unfolded M]] that by force
    then show ?thesis by (simp add: F publish_map_other)
  qed
  have "peers_rel (peer_of ?s') (set (sessions ?s'))"
    unfolding F(1) tok by (rule peers_rel_replace [OF I(9,1) pk other])
  moreover have "acct_rel (legsPerIP ?s') (live ?s')"
    using I(4) acct_rel_charge [OF acct_rel_release, of "legsPerIP s" held "K + ?R" "moved held src a" a]
    by (auto simp: N N' F(2-) moved_def intro: acct_rel_key)
  moreover have "charged b (live ?s') \<le> maxLegsPerIP ?s'" for b
    using cap I(4) I(5) [of b] by (auto simp: N N' F(2-) acct_rel_def moved_def split: if_splits)
  moreover have "addr_rel (byAddr ?s') (live ?s')"
    using addr_rel_claim [OF addr_rel_drop, of "byAddr s" held "K + ?R" "moved held src a" "leg_fwd held"] I(6)
    by (simp add: N N' F(2-) moved_def)
  moreover have "leg_fwd l < nextFwd ?s'" if "l \<in># live ?s'" for l
    using that I(8) by (auto simp: N N' F(2-) moved_def)
  moreover have "sess_inv (sessions ?s') (maxSessions ?s')"
    unfolding F(1,6) tok using inv ses tok
    by (intro sess_inv_put) (auto simp: core_inv_def moved_ses_def dest: mget_mkeys)
  ultimately show ?thesis using u by (simp add: core_inv_def)
qed

section \<open>Dropping legs\<close>

lemma fold_drop_fields [simp]:
  "sessions (fold drop_leg ls s) = sessions s" "peer_of (fold drop_leg ls s) = peer_of s"
  "nextFwd (fold drop_leg ls s) = nextFwd s" "maxSessions (fold drop_leg ls s) = maxSessions s"
  "maxLegsPerIP (fold drop_leg ls s) = maxLegsPerIP s"
  by (induction ls arbitrary: s) (simp_all add: drop_leg_def releaseIPLocked_map)

lemma fold_drop_acct:
  "acct_rel (legsPerIP s) (mset ls + R) \<Longrightarrow> acct_rel (legsPerIP (fold drop_leg ls s)) R"
proof (induction ls arbitrary: s)
  case (Cons l ls)
  have "acct_rel (legsPerIP (drop_leg l s)) (mset ls + R)"
    using acct_rel_release [of "legsPerIP s" l "mset ls + R"] Cons.prems
    by (simp add: drop_leg_def releaseIPLocked_map)
  with Cons.IH show ?case by simp
qed simp

lemma fold_drop_addr:
  "addr_rel (byAddr s) (mset ls + R) \<Longrightarrow> addr_rel (byAddr (fold drop_leg ls s)) R"
proof (induction ls arbitrary: s)
  case (Cons l ls)
  have "addr_rel (byAddr (drop_leg l s)) (mset ls + R)"
    using addr_rel_drop [of "byAddr s" l "mset ls + R"] Cons.prems
    by (simp add: drop_leg_def releaseIPLocked_map)
  with Cons.IH show ?case by simp
qed simp

lemma shrink_core:
  assumes inv: "core_inv s" and ses: "mget (sessions s) tok = Some ses"
    and part: "mset (legs ses) = mset ds + mset kept"
    and sess: "sessions s' = (if kept = [] then mdel tok (sessions s) else mput tok ses' (sessions s))"
    and new: "legs ses' = kept" "token ses' = tok"
    and acct: "legsPerIP s' = legsPerIP (fold drop_leg ds s)" and addr: "byAddr s' = byAddr (fold drop_leg ds s)"
    and frame: "nextFwd s' = nextFwd s" "maxSessions s' = maxSessions s" "maxLegsPerIP s' = maxLegsPerIP s"
    and pk: "kept \<noteq> [] \<Longrightarrow> peers_ok (peer_of s') kept"
    and other: "\<And>r. r \<notin> leg_fwd ` set (legs ses) \<Longrightarrow> peer_of s' r = peer_of s r"
  shows "core_inv s'"
proof -
  let ?R = "rest tok s"
  note I = core_invD [OF inv]
  have M: "live s = mset (legs ses) + ?R" using leg_mset_mget [OF I(1) ses] .
  have N: "live s = mset ds + (mset kept + ?R)" by (simp add: M part)
  have N': "live s' = mset kept + ?R" using leg_mset_mput [OF I(1)] by (simp add: sess new)
  have other': "peer_of s' (leg_fwd l) = peer_of s (leg_fwd l)" if "l \<in># ?R" for l
    using that uniq_apart [OF I(7) [unfolded M]] by (intro other) force
  have "sess_inv (sessions s') (maxSessions s')"
    using inv sess_inv_put [of "sessions s" "maxSessions s" ses' tok] mget_mkeys [OF ses] new
    by (auto simp: core_inv_def sess frame sess_inv_del)
  moreover have "acct_rel (legsPerIP s') (live s')"
    unfolding acct N' using I(4) by (intro fold_drop_acct) (simp add: N)
  moreover have "addr_rel (byAddr s') (live s')"
    unfolding addr N' using I(6) by (intro fold_drop_addr) (simp add: N)
  moreover have "charged a (live s') \<le> maxLegsPerIP s'" for a
    using I(5) [of a] by (simp add: N N' frame)
  moreover have "uniq (live s')" using I(7) uniq_union unfolding N N' by blast
  moreover have "leg_fwd l < nextFwd s'" if "l \<in># live s'" for l
    using that I(8) by (auto simp: N N' frame)
  moreover have "peers_rel (peer_of s') (set (sessions s'))"
    using peers_rel_replace [OF I(9,1) _ other'] peers_rel_delete [OF I(9) other'] pk new
    by (simp add: sess)
  ultimately show ?thesis by (simp add: core_inv_def)
qed

definition unpair_map :: "leg list \<Rightarrow> (nat \<Rightarrow> udpaddr option) \<Rightarrow> nat \<Rightarrow> udpaddr option" where
  "unpair_map ls pf = (case ls of [l] \<Rightarrow> pf(leg_fwd l := None) | _ \<Rightarrow> pf)"

lemma unpair_map_other: "r \<notin> leg_fwd ` set ls \<Longrightarrow> unpair_map ls pf r = pf r"
  by (auto simp: unpair_map_def split: list.splits)

lemma peers_ok_unpair: "ls \<noteq> [] \<Longrightarrow> length ls \<le> 2 \<Longrightarrow> (length ls = 2 \<Longrightarrow> peers_ok pf ls) \<Longrightarrow>
    peers_ok (unpair_map ls pf) ls"
  by (cases ls; cases "tl ls") (auto simp: unpair_map_def)

lemma reap_session_kept:
  fixes s s' :: server
  assumes "\<not> (\<not> paired ses \<and> now - created ses > pendingPair s)"
    and "s' = reap_session now (tok, ses) s" and "kept = filter (\<lambda>l. \<not> idle now s l) (legs ses)"
  shows "peer_of s' = unpair_map kept (peer_of s)"
    and "sessions s' = (if kept = [] then mdel tok (sessions s)
                        else mput tok (ses\<lparr>legs := kept\<rparr>) (sessions s))"
    and "legsPerIP s' = legsPerIP (fold drop_leg (filter (idle now s) (legs ses)) s)"
    and "byAddr s' = byAddr (fold drop_leg (filter (idle now s) (legs ses)) s)"
    and "nextFwd s' = nextFwd s" "maxSessions s' = maxSessions s" "maxLegsPerIP s' = maxLegsPerIP s"
  unfolding assms(2) reap_session_def Let_def prod.case if_not_P [OF assms(1)] assms(3) [symmetric]
  by (simp_all add: unpair_map_def set_peer_fields split: list.split)

lemma reap_session_core:
  assumes inv: "core_inv s" and ses: "mget (sessions s) tok = Some ses"
  shows "core_inv (reap_session now (tok, ses) s)"
proof -
  note tok = mget_token [OF inv ses] and pk = mget_legs [OF inv ses]
  show ?thesis
  proof (cases "\<not> paired ses \<and> now - created ses > pendingPair s")
    case True
    then show ?thesis
      by (intro shrink_core [OF inv ses, of "legs ses" "[]" _ "ses\<lparr>legs := []\<rparr>"])
        (simp_all add: reap_session_def tok)
  next
    case False
    let ?ds = "filter (idle now s) (legs ses)" and ?kept = "filter (\<lambda>l. \<not> idle now s l) (legs ses)"
    have part: "mset (legs ses) = mset ?ds + mset ?kept"
      by (metis mset_filter multiset_partition)
    have two: "?kept = legs ses" if "length ?kept = 2"
      using that peers_ok_length [OF pk] by (metis filter_id_conv le_antisym length_filter_less less_le_not_le)
    have kept_in: "set ?kept \<subseteq> set (legs ses)" by auto
    have len: "length ?kept \<le> 2"
      using peers_ok_length [OF pk] length_filter_le [of "\<lambda>l. \<not> idle now s l" "legs ses"] by linarith
    show ?thesis
    proof (rule shrink_core [OF inv ses part, of _ "ses\<lparr>legs := ?kept\<rparr>"])
      show "peers_ok (peer_of (reap_session now (tok, ses) s)) ?kept" if "?kept \<noteq> []"
        unfolding reap_session_kept [OF False refl refl] using that len two pk by (intro peers_ok_unpair) simp_all
      show "peer_of (reap_session now (tok, ses) s) r = peer_of s r" if "r \<notin> leg_fwd ` set (legs ses)" for r
        unfolding reap_session_kept [OF False refl refl] using that by (intro unpair_map_other) auto
    qed (simp_all add: reap_session_kept [OF False refl refl] tok)
  qed
qed

lemma reap_session_others:
  "k \<noteq> fst e \<Longrightarrow> mget (sessions (reap_session now e s)) k = mget (sessions s) k"
  by (cases e) (auto simp: reap_session_def Let_def set_peer_def gomap_simps split: list.splits)

lemma fold_reap_fresh:
  assumes "gomap (e # es)" and "\<forall>e' \<in> set (e # es). mget (sessions s) (fst e') = Some (snd e')"
  shows "\<forall>e' \<in> set es. mget (sessions (reap_session now e s)) (fst e') = Some (snd e')"
proof
  fix e' assume e': "e' \<in> set es"
  then have "fst e' \<in> mkeys es" by (rule imageI)
  with assms(1) have "fst e' \<noteq> fst e" by (metis distinct.simps(2) list.set_map list.simps(9))
  moreover have "mget (sessions s) (fst e') = Some (snd e')" using assms(2) e' by simp
  ultimately show "mget (sessions (reap_session now e s)) (fst e') = Some (snd e')"
    by (simp add: reap_session_others)
qed

lemma fold_reap_core:
  "core_inv s \<Longrightarrow> gomap es \<Longrightarrow> \<forall>e \<in> set es. mget (sessions s) (fst e) = Some (snd e) \<Longrightarrow>
   core_inv (fold (reap_session now) es s)"
proof (induction es arbitrary: s)
  case (Cons e es)
  have "core_inv (reap_session now e s)"
    using reap_session_core [of s "fst e" "snd e" now] Cons.prems by simp
  then show ?case using Cons.IH fold_reap_fresh [OF Cons.prems(2,3)] Cons.prems(2) by simp
qed simp

lemma reap_core: "core_inv s \<Longrightarrow> core_inv (reap now s)"
proof -
  assume inv: "core_inv s"
  have "core_inv (fold (reap_session now) (sessions s) s)"
    using core_invD(1) [OF inv] by (intro fold_reap_core [OF inv]) auto
  then show ?thesis
    unfolding reap_def Let_def by (rule iffD2 [OF core_inv_cong, rotated -1]) (simp_all add: peer_of_def fun_eq_iff)
qed

end
