(* ===== verification/RelayRun.thy ===== *)
theory RelayRun
  imports RelayInv
begin

text \<open>
  Runs of the relay. The invariant of \<open>RelayInv\<close> is joined with the bounds of the
  auxiliary tables and with the evidence that every leg rests on, it is shown for every
  event, and the guarantees of the relay are read off it: bounded state, exact accounting,
  legs only for sources that echoed a cookie and hold a ticket, forwarding only to the
  partner, no reflection.
\<close>

section \<open>What an operation leaves alone\<close>

definition core :: "server \<Rightarrow> (bytes, session) gomap \<times> (acct, nat) gomap \<times> (bytes \<times> nat, nat) gomap \<times> nat \<times>
    (nat \<Rightarrow> udpaddr option)" where
  "core s = (sessions s, legsPerIP s, byAddr s, nextFwd s, peer_of s)"

definition conf :: "server \<Rightarrow> (duration \<times> prefix list \<times> bytes) \<times> (nat \<times> nat \<times> duration) \<times> bytes list \<times> bytes" where
  "conf s = ((ttl s, allowed s, cookieKey s), (maxSessions s, maxLegsPerIP s, pendingPair s), serverKeys s, relayID s)"

lemma conf_eqD:
  "conf s' = conf s \<Longrightarrow> ttl s' = ttl s \<and> allowed s' = allowed s \<and> cookieKey s' = cookieKey s \<and>
     maxSessions s' = maxSessions s \<and> maxLegsPerIP s' = maxLegsPerIP s \<and> pendingPair s' = pendingPair s \<and>
     serverKeys s' = serverKeys s \<and> relayID s' = relayID s"
  by (simp add: conf_def)

lemma core_inv_frame: "core s' = core s \<Longrightarrow> conf s' = conf s \<Longrightarrow> core_inv s' = core_inv s"
  by (rule core_inv_cong) (simp_all add: core_def conf_def)

lemma peer_of_fwds: "fwds s' = fwds s \<Longrightarrow> peer_of s' = peer_of s"
  by (simp add: peer_of_def fun_eq_iff)

definition aux_frame :: "server \<Rightarrow> server \<Rightarrow> bool" where
  "aux_frame s s' \<longleftrightarrow> core s' = core s \<and> conf s' = conf s \<and> fwds s' = fwds s \<and> inFlight s' = inFlight s \<and>
     bindRL s' = bindRL s \<and> sigRL s' = sigRL s \<and> reserveRL s' = reserveRL s"

lemma aux_frame_trans: "aux_frame s s' \<Longrightarrow> aux_frame s' s'' \<Longrightarrow> aux_frame s s''"
  by (simp add: aux_frame_def)

lemma aux_frame_counters:
  "aux_frame s (rejected s)" "aux_frame s (s\<lparr>statHoard := n\<rparr>)" "aux_frame s (s\<lparr>statVerify := n\<rparr>)"
  "aux_frame s (s\<lparr>statTicket := n\<rparr>)" "aux_frame s (s\<lparr>statChallenged := n\<rparr>)" "aux_frame s (s\<lparr>rejectWarned := w\<rparr>)"
  "aux_frame s (s\<lparr>hoardWarned := h\<rparr>)" "aux_frame s (statsTick s)"
  by (auto simp: aux_frame_def core_def conf_def rejected_def statsTick_def intro: peer_of_fwds)

lemma aux_frame_throttle: "aux_frame s (snd (throttleLocked now r s))"
  using aux_frame_counters(6) [of s] aux_frame_def
  by (auto simp: throttleLocked_def split: option.split)

lemma aux_frame_rejectTicket: "aux_frame s (rejectTicket now r s)"
  unfolding rejectTicket_def by (rule aux_frame_trans [OF aux_frame_counters(4) aux_frame_throttle])

lemma aux_frame_rejectWindow: "aux_frame s (rejectWindow now s)"
  unfolding rejectWindow_def by (rule aux_frame_trans [OF aux_frame_counters(4) aux_frame_throttle])

lemma aux_frame_warnHoard: "aux_frame s (warnHoardLocked now a s)"
  using aux_frame_counters(7) [of s] aux_frame_def by (auto simp: warnHoardLocked_def Let_def)

lemmas aux_frames = aux_frame_counters aux_frame_rejectTicket aux_frame_rejectWindow aux_frame_warnHoard

section \<open>Bounds of the auxiliary tables\<close>

definition bounds_inv :: "server \<Rightarrow> bool" where
  "bounds_inv s \<longleftrightarrow> length (rejectWarned s) \<le> 64 \<and> length (hoardWarned s) \<le> maxSessions s \<and>
     length (inFlight s) \<le> maxSigInFlight \<and> lim_wf (bindRL s) \<and> lim_wf (sigRL s) \<and> lim_wf (reserveRL s)"

lemma bounds_throttle: "bounds_inv s \<Longrightarrow> bounds_inv (snd (throttleLocked now r s))"
  by (auto simp: bounds_inv_def throttleLocked_def length_mput split: option.split)

lemma bounds_counters:
  "bounds_inv s \<Longrightarrow> bounds_inv (rejected s)" "bounds_inv s \<Longrightarrow> bounds_inv (s\<lparr>statHoard := n\<rparr>)"
  "bounds_inv s \<Longrightarrow> bounds_inv (s\<lparr>statVerify := n\<rparr>)" "bounds_inv s \<Longrightarrow> bounds_inv (s\<lparr>statTicket := n\<rparr>)"
  "bounds_inv s \<Longrightarrow> bounds_inv (s\<lparr>statChallenged := n\<rparr>)" "bounds_inv s \<Longrightarrow> bounds_inv (statsTick s)"
  "bounds_inv s \<Longrightarrow> bounds_inv (set_seen r t s)"
  by (simp_all add: bounds_inv_def rejected_def statsTick_def set_seen_def)

lemma bounds_rejectTicket: "bounds_inv s \<Longrightarrow> bounds_inv (rejectTicket now r s)"
  unfolding rejectTicket_def by (intro bounds_throttle bounds_counters)

lemma bounds_rejectWindow: "bounds_inv s \<Longrightarrow> bounds_inv (rejectWindow now s)"
  unfolding rejectWindow_def by (intro bounds_throttle bounds_counters)

lemma bounds_warnHoard: "bounds_inv s \<Longrightarrow> bounds_inv (warnHoardLocked now a s)"
  by (auto simp: bounds_inv_def warnHoardLocked_def length_mput Let_def split: option.split
      intro: le_antisym order_trans [OF length_filter_le])

lemmas bounds_intros = bounds_counters bounds_rejectTicket bounds_rejectWindow bounds_warnHoard

definition misc :: "server \<Rightarrow> _" where
  "misc s = (conf s, inFlight s, (rejectWarned s, hoardWarned s), bindRL s, sigRL s, reserveRL s)"

lemma misc_eqD: "misc s' = misc s \<Longrightarrow> conf s' = conf s \<and> inFlight s' = inFlight s \<and> bounds_inv s' = bounds_inv s"
  by (simp add: misc_def bounds_inv_def conf_def)

lemma misc_set_peer [simp]: "misc (set_peer r a s) = misc s"
  by (simp add: misc_def conf_def set_peer_def)

lemma misc_set_seen [simp]: "misc (set_seen r t s) = misc s"
  by (simp add: misc_def conf_def set_seen_def)

lemma misc_put [simp]:
  "misc (s\<lparr>sessions := x1\<rparr>) = misc s" "misc (s\<lparr>legsPerIP := x2\<rparr>) = misc s" "misc (s\<lparr>byAddr := x3\<rparr>) = misc s"
  "misc (s\<lparr>fwds := x4\<rparr>) = misc s" "misc (s\<lparr>nextFwd := x5\<rparr>) = misc s" "misc (s\<lparr>statPaired := x6\<rparr>) = misc s"
  by (simp_all add: misc_def conf_def)

lemma misc_publish [simp]: "misc (publish ses s) = misc s"
  by (simp add: publish_def split: list.split)

lemma misc_claim_leg: "misc (claim_leg now ses src a nm epk s) = misc s"
  by (simp add: claim_leg_def pairLocked_def put_session_def chargeIP_map Let_def)

lemma misc_migrate: "misc (migrate now ses held src a s) = misc s"
  by (simp add: migrate_def put_session_def chargeIP_map releaseIPLocked_map Let_def)

lemma misc_fold_drop [simp]: "misc (fold drop_leg ls s) = misc s"
  by (induction ls arbitrary: s) (simp_all add: drop_leg_def releaseIPLocked_map)

lemma misc_reap_session [simp]: "misc (reap_session now e s) = misc s"
  by (simp add: reap_session_def Let_def split: prod.split list.split)

lemma misc_fold_reap: "misc (fold (reap_session now) es s) = misc s"
  by (induction es arbitrary: s) simp_all

lemma reap_misc:
  shows conf_reap: "conf (reap now s) = conf s" and inFlight_reap: "inFlight (reap now s) = inFlight s"
    and bounds_reap: "bounds_inv s \<Longrightarrow> bounds_inv (reap now s)"
proof -
  let ?s = "fold (reap_session now) (sessions s) s"
  have m: "conf ?s = conf s" "inFlight ?s = inFlight s" "bounds_inv ?s = bounds_inv s"
    using misc_eqD [OF misc_fold_reap] by blast+
  then show "conf (reap now s) = conf s" "inFlight (reap now s) = inFlight s"
    by (simp_all add: reap_def Let_def conf_def)
  show "bounds_inv (reap now s)" if "bounds_inv s"
  proof -
    have "bounds_inv ?s" using m that by simp
    then show ?thesis unfolding reap_def Let_def
      by (auto simp: bounds_inv_def intro: order_trans [OF length_filter_le])
  qed
qed

section \<open>Evidence\<close>

text \<open>The source has echoed a cookie the relay derives for exactly this address. The cookie
  key never changes, so the start state decides.\<close>

definition echoed :: "json \<Rightarrow> crypto \<Rightarrow> server \<Rightarrow> event set \<Rightarrow> udpaddr \<Rightarrow> bool" where
  "echoed J C s0 E src \<longleftrightarrow> (\<exists>now pkt b. Datagram now src pkt \<in> E \<and> ParseBind J pkt = Some b \<and>
     validCookie C now (Cookie b) src s0 \<noteq> None)"

definition src_ok :: "json \<Rightarrow> crypto \<Rightarrow> server \<Rightarrow> event set \<Rightarrow> udpaddr \<Rightarrow> acct \<Rightarrow> bool" where
  "src_ok J C s0 E src a \<longleftrightarrow> echoed J C s0 E src \<and> cidrAllowed (allowed s0) (IP src) \<and> a = FromIP (IP src)"

text \<open>A leg covered by a ticket: signed by a configured server key, for this relay, for this
  session and this leg name, inside its window when it was checked, and with a proof of
  possession of the ticket's ephemeral key over a cookie of the leg's address.\<close>

definition ticket_covers :: "json \<Rightarrow> crypto \<Rightarrow> server \<Rightarrow> bytes \<Rightarrow> udpaddr \<Rightarrow> payload \<Rightarrow> bool" where
  "ticket_covers J C s0 tok src p \<longleftrightarrow>
     (\<exists>now pl sig bindSig cookie epk e. Verify C (serverKeys s0) pl sig \<and> Parse J pl = Inr p \<and>
        CheckWindow now p = Inr () \<and> CheckRelay (relayID s0) p = Inr () \<and> SID p = tok \<and> EphPub p = Some epk \<and>
        VerifyBind C epk pl sig cookie bindSig = Inr () \<and> cookie = computeCookie C s0 src e)"

definition leg_ok :: "json \<Rightarrow> crypto \<Rightarrow> server \<Rightarrow> event set \<Rightarrow> bytes \<Rightarrow> leg \<Rightarrow> bool" where
  "leg_ok J C s0 E tok l \<longleftrightarrow> src_ok J C s0 E (leg_addr l) (acctKey l) \<and>
     (ticketMode s0 \<longrightarrow> (\<exists>p. ticket_covers J C s0 tok (leg_addr l) p \<and> Leg p = leg_name l \<and> EPK p = leg_epk l))"

definition leg_ids :: "server \<Rightarrow> leg list \<Rightarrow> (bytes + bytes \<times> nat) list" where
  "leg_ids s0 ls = map (\<lambda>l. if ticketMode s0 then Inl (leg_name l) else Inr (addr_string (leg_addr l))) ls"

definition ses_ok :: "json \<Rightarrow> crypto \<Rightarrow> server \<Rightarrow> event set \<Rightarrow> bytes \<Rightarrow> session \<Rightarrow> bool" where
  "ses_ok J C s0 E tok ses \<longleftrightarrow> (\<forall>l \<in> set (legs ses). leg_ok J C s0 E tok l) \<and> distinct (leg_ids s0 (legs ses))"

fun job_ok :: "json \<Rightarrow> crypto \<Rightarrow> server \<Rightarrow> event set \<Rightarrow> job \<Rightarrow> bool" where
  "job_ok J C s0 E (Job b src a cookie) \<longleftrightarrow> ticketMode s0 \<and> src_ok J C s0 E src a \<and> (\<exists>e. cookie = computeCookie C s0 src e)"

definition evid_rel :: "json \<Rightarrow> crypto \<Rightarrow> server \<Rightarrow> event set \<Rightarrow> server \<Rightarrow> bool" where
  "evid_rel J C s0 E s \<longleftrightarrow> (\<forall>e \<in> set (sessions s). ses_ok J C s0 E (fst e) (snd e)) \<and>
     (\<forall>j \<in> set (inFlight s). job_ok J C s0 E j)"

definition relay_inv :: "json \<Rightarrow> crypto \<Rightarrow> server \<Rightarrow> event set \<Rightarrow> server \<Rightarrow> bool" where
  "relay_inv J C s0 E s \<longleftrightarrow> core_inv s \<and> conf s = conf s0 \<and> bounds_inv s \<and> evid_rel J C s0 E s"

lemma relay_inv_cong:
  "relay_inv J C s0 E s \<Longrightarrow> core s' = core s \<Longrightarrow> conf s' = conf s \<Longrightarrow> inFlight s' = inFlight s \<Longrightarrow>
   bounds_inv s' \<Longrightarrow> relay_inv J C s0 E s'"
  using core_inv_frame [of s' s] by (simp add: relay_inv_def evid_rel_def) (simp add: core_def)

lemma relay_inv_bounds: "relay_inv J C s0 E s \<Longrightarrow> bounds_inv s"
  by (simp add: relay_inv_def)

lemma relay_inv_frame:
  "relay_inv J C s0 E s \<Longrightarrow> aux_frame s s' \<Longrightarrow> bounds_inv s' \<Longrightarrow> relay_inv J C s0 E s'"
  by (erule relay_inv_cong) (simp_all add: aux_frame_def)

section \<open>Every operation keeps the invariant\<close>

lemma evid_put:
  assumes "evid_rel J C s0 E s" and "gomap (sessions s)" and "ses_ok J C s0 E tok ses"
    and "sessions s' = mput tok ses (sessions s)" and "inFlight s' = inFlight s"
  shows "evid_rel J C s0 E s'"
  using assms(1,3,5) unfolding evid_rel_def assms(4) set_mput_gomap [OF assms(2)] by (auto simp: set_mdel)

lemma ses_ok_mget:
  "evid_rel J C s0 E s \<Longrightarrow> mget (sessions s) tok = Some ses \<Longrightarrow> ses_ok J C s0 E tok ses"
  by (auto simp: evid_rel_def dest!: mget_in_set)

lemma ses_ok_joined:
  "ses_ok J C s0 E tok ses \<Longrightarrow> leg_ok J C s0 E tok l \<Longrightarrow>
   (\<forall>l' \<in> set (legs ses). leg_ids s0 [l'] \<noteq> leg_ids s0 [l]) \<Longrightarrow> ses_ok J C s0 E tok (joined ses l)"
  by (auto simp: ses_ok_def joined_def leg_ids_def)

lemma ses_ok_filter: "ses_ok J C s0 E tok ses \<Longrightarrow> ses_ok J C s0 E tok (ses\<lparr>legs := filter P (legs ses)\<rparr>)"
  by (auto simp: ses_ok_def leg_ids_def distinct_map_filter)

lemma ses_ok_moved:
  assumes "ses_ok J C s0 E tok ses" and "ticketMode s0" and "leg_ok J C s0 E tok (moved held src a)"
    and "\<forall>l \<in> set (legs ses). leg_fwd l = leg_fwd held \<longrightarrow> l = held"
  shows "ses_ok J C s0 E tok (moved_ses ses held src a)"
proof -
  have "leg_ids s0 (legs (moved_ses ses held src a)) = leg_ids s0 (legs ses)"
    using assms(2,4) by (auto simp: leg_ids_def moved_ses_def moved_def)
  with assms(1,3) show ?thesis by (auto simp: ses_ok_def moved_ses_def)
qed

lemma uniq_eq: "uniq M \<Longrightarrow> l \<in># M \<Longrightarrow> l' \<in># M \<Longrightarrow> leg_fwd l = leg_fwd l' \<Longrightarrow> l = l'"
  by (metis insert_DiffM insert_noteq_member uniq_add)

lemma relay_claim:
  assumes inv: "relay_inv J C s0 E s" and len: "length (legs ses) < 2"
    and ses: "mget (sessions s) (token ses) = Some ses \<or>
      (mget (sessions s) (token ses) = None \<and> legs ses = [] \<and> length (sessions s) < maxSessions s)"
    and cap: "mcount (legsPerIP s) a < maxLegsPerIP s"
    and ok: "leg_ok J C s0 E (token ses) (new_leg src a nm epk s)"
    and new: "\<forall>l \<in> set (legs ses). leg_ids s0 [l] \<noteq> leg_ids s0 [new_leg src a nm epk s]"
  shows "relay_inv J C s0 E (claim_leg now ses src a nm epk s)"
proof -
  have c: "core_inv s" and e: "evid_rel J C s0 E s" using inv by (simp_all add: relay_inv_def)
  have "ses_ok J C s0 E (token ses) ses"
    using ses ses_ok_mget [OF e] by (auto simp: ses_ok_def leg_ids_def)
  then have "ses_ok J C s0 E (token ses) (joined ses (new_leg src a nm epk s))"
    using ok new by (rule ses_ok_joined)
  then have "evid_rel J C s0 E (claim_leg now ses src a nm epk s)"
    using claim_leg_fields [OF len refl] misc_eqD [OF misc_claim_leg] by (intro evid_put [OF e core_invD(1) [OF c]])
  then show ?thesis
    using inv claim_leg_core [OF c len ses cap] misc_eqD [OF misc_claim_leg] by (simp add: relay_inv_def)
qed

lemma relay_migrate:
  assumes inv: "relay_inv J C s0 E s" and tm: "ticketMode s0" and ses: "mget (sessions s) tok = Some ses"
    and held: "held \<in> set (legs ses)"
    and cap: "acctKey held \<noteq> a \<Longrightarrow> mcount (legsPerIP s) a < maxLegsPerIP s"
    and ok: "leg_ok J C s0 E tok (moved held src a)"
  shows "relay_inv J C s0 E (migrate now ses held src a s)"
proof -
  have c: "core_inv s" and e: "evid_rel J C s0 E s" using inv by (simp_all add: relay_inv_def)
  have tok: "token ses = tok" using mget_token [OF c ses] .
  have "l = held" if "l \<in> set (legs ses)" "leg_fwd l = leg_fwd held" for l
    using uniq_eq [OF core_invD(7) [OF c]] leg_in_mset [OF mget_in_set [OF ses]] that held by blast
  then have "ses_ok J C s0 E tok (moved_ses ses held src a)"
    using ses_ok_moved [OF ses_ok_mget [OF e ses] tm ok] by blast
  then have "evid_rel J C s0 E (migrate now ses held src a s)"
    using migrate_fields(1) [OF refl] misc_eqD [OF misc_migrate] tok
    by (intro evid_put [OF e core_invD(1) [OF c]]) simp_all
  then show ?thesis
    using inv migrate_core [OF c ses held cap] misc_eqD [OF misc_migrate] by (simp add: relay_inv_def)
qed

lemma relay_seen: "relay_inv J C s0 E s \<Longrightarrow> relay_inv J C s0 E (set_seen r t s)"
  using misc_eqD [OF misc_set_seen, of r t s] core_inv_frame [of "set_seen r t s" s]
  by (simp add: relay_inv_def evid_rel_def core_def)

lemma evid_sess:
  "evid_rel J C s0 E s \<Longrightarrow> inFlight s' = inFlight s \<Longrightarrow>
   (\<And>e. e \<in> set (sessions s') \<Longrightarrow> ses_ok J C s0 E (fst e) (snd e)) \<Longrightarrow> evid_rel J C s0 E s'"
  by (simp add: evid_rel_def)

lemma reap_session_sessions:
  assumes "(k, v) \<in> set (sessions (reap_session now (tok, ses) s))" and "gomap (sessions s)"
  shows "(k, v) \<in> set (sessions s) \<or> (k = tok \<and> (\<exists>P. v = ses\<lparr>legs := filter P (legs ses)\<rparr>))"
proof (cases "\<not> paired ses \<and> now - created ses > pendingPair s")
  case True
  with assms show ?thesis by (auto simp: reap_session_def set_mdel)
next
  case False
  from assms(1) show ?thesis
    unfolding reap_session_kept(2) [OF False refl refl] using assms(2)
    by (auto simp: set_mdel set_mput_gomap split: if_splits)
qed

lemma fold_reap_evid:
  "core_inv s \<Longrightarrow> gomap es \<Longrightarrow> \<forall>e \<in> set es. mget (sessions s) (fst e) = Some (snd e) \<Longrightarrow>
   evid_rel J C s0 E s \<Longrightarrow> evid_rel J C s0 E (fold (reap_session now) es s)"
proof (induction es arbitrary: s)
  case (Cons e es)
  let ?s = "reap_session now e s"
  note P = Cons.prems
  have c: "core_inv ?s" using reap_session_core [of s "fst e" "snd e" now] P by simp
  have "evid_rel J C s0 E ?s"
  proof (rule evid_sess [OF P(4)])
    fix x assume x: "x \<in> set (sessions ?s)"
    have "ses_ok J C s0 E (fst e) (snd e)" using ses_ok_mget [OF P(4)] P(3) by simp
    then show "ses_ok J C s0 E (fst x) (snd x)"
      using reap_session_sessions [of "fst x" "snd x" now "fst e" "snd e" s] x P(4) core_invD(1) [OF P(1)]
      by (auto simp: evid_rel_def ses_ok_filter)
  qed (use misc_eqD [OF misc_reap_session] in blast)
  moreover have "\<forall>e' \<in> set es. mget (sessions ?s) (fst e') = Some (snd e')"
    using fold_reap_fresh [OF P(2,3)] .
  ultimately show ?case using Cons.IH [OF c] P(2) by simp
qed simp

lemma relay_reap:
  assumes "relay_inv J C s0 E s"
  shows "relay_inv J C s0 E (reap now s)"
proof -
  have c: "core_inv s" and e: "evid_rel J C s0 E s" using assms by (simp_all add: relay_inv_def)
  have "evid_rel J C s0 E (fold (reap_session now) (sessions s) s)"
    using core_invD(1) [OF c] by (intro fold_reap_evid [OF c _ _ e]) auto
  then have "evid_rel J C s0 E (reap now s)" by (simp add: evid_rel_def reap_def Let_def)
  with assms reap_core [OF c] show ?thesis by (simp add: relay_inv_def reap_misc)
qed

lemma relay_reject:
  "relay_inv J C s0 E s \<Longrightarrow> relay_inv J C s0 E (rejected s)"
  "relay_inv J C s0 E s \<Longrightarrow> relay_inv J C s0 E (rejectTicket now r s)"
  "relay_inv J C s0 E s \<Longrightarrow> relay_inv J C s0 E (rejectWindow now s)"
  "relay_inv J C s0 E s \<Longrightarrow> relay_inv J C s0 E (warnHoardLocked now a s)"
  "relay_inv J C s0 E s \<Longrightarrow> relay_inv J C s0 E (statsTick s)"
  "relay_inv J C s0 E s \<Longrightarrow> relay_inv J C s0 E (s\<lparr>statHoard := n\<rparr>)"
  "relay_inv J C s0 E s \<Longrightarrow> relay_inv J C s0 E (s\<lparr>statVerify := n\<rparr>)"
  "relay_inv J C s0 E s \<Longrightarrow> relay_inv J C s0 E (s\<lparr>statChallenged := n\<rparr>)"
  by (auto intro: relay_inv_frame aux_frames bounds_intros relay_inv_bounds)

lemma relay_limiters:
  assumes "relay_inv J C s0 E s"
  shows "lim_wf l1 \<Longrightarrow> relay_inv J C s0 E (s\<lparr>bindRL := l1\<rparr>)"
    and "lim_wf l2 \<Longrightarrow> relay_inv J C s0 E (s\<lparr>sigRL := l2\<rparr>)"
    and "lim_wf l3 \<Longrightarrow> relay_inv J C s0 E (s\<lparr>reserveRL := l3\<rparr>)"
  using relay_inv_cong [OF assms, of "s\<lparr>bindRL := l1\<rparr>"] relay_inv_cong [OF assms, of "s\<lparr>sigRL := l2\<rparr>"]
    relay_inv_cong [OF assms, of "s\<lparr>reserveRL := l3\<rparr>"] relay_inv_bounds [OF assms]
  by (simp_all add: bounds_inv_def conf_def core_def peer_of_def fun_eq_iff)

lemma relay_jobs:
  "relay_inv J C s0 E s \<Longrightarrow> length js \<le> maxSigInFlight \<Longrightarrow> \<forall>j \<in> set js. job_ok J C s0 E j \<Longrightarrow>
   relay_inv J C s0 E (s\<lparr>inFlight := js\<rparr>)"
  using core_inv_frame [of "s\<lparr>inFlight := js\<rparr>" s]
  by (simp add: relay_inv_def evid_rel_def bounds_inv_def conf_def core_def)

lemma relay_network_bind:
  assumes inv: "relay_inv J C s0 E s" and nm: "\<not> ticketMode s0" and ok: "src_ok J C s0 E src a"
  shows "relay_inv J C s0 E (fst (bindNetworkMode J now src a tok s))"
proof -
  have c: "core_inv s" using inv by (simp add: relay_inv_def)
  have lo: "leg_ok J C s0 E tok (new_leg src a [] [] s)" using nm ok by (simp add: leg_ok_def new_leg_def)
  show ?thesis
  proof (cases "mget (sessions s) tok")
    case None
    then show ?thesis
      using relay_claim [OF inv, of "\<lparr>token = tok, legs = [], paired = False, created = now\<rparr>" a src "[]" "[]" now] lo
      by (auto simp: bindNetworkMode_def intro!: relay_reject inv)
  next
    case (Some ses)
    have tok: "token ses = tok" using mget_token [OF c Some] .
    show ?thesis
    proof (cases "find (\<lambda>l. addr_string (leg_addr l) = addr_string src) (legs ses)")
      case None
      then have "\<forall>l \<in> set (legs ses). leg_ids s0 [l] \<noteq> leg_ids s0 [new_leg src a [] [] s]"
        using nm by (auto simp: find_None_iff leg_ids_def new_leg_def)
      then show ?thesis
        using Some None tok lo relay_claim [OF inv, of ses a src "[]" "[]" now]
        by (auto simp: bindNetworkMode_def maxLegsPerSes_def intro!: relay_reject inv)
    next
      case (Some l)
      with \<open>mget (sessions s) tok = Some ses\<close> show ?thesis by (simp add: bindNetworkMode_def relay_seen inv)
    qed
  qed
qed

lemma relay_ticketed:
  assumes inv: "relay_inv J C s0 E s" and tm: "ticketMode s0" and ok: "src_ok J C s0 E src a"
    and tk: "ticket_covers J C s0 (SID p) src p"
  shows "relay_inv J C s0 E (fst (bindTicketed J now p src a s))"
proof -
  have c: "core_inv s" using inv by (simp add: relay_inv_def)
  have lo: "leg_ok J C s0 E (SID p) (new_leg src a (Leg p) (EPK p) s)"
    using ok tk by (auto simp: leg_ok_def new_leg_def)
  show ?thesis
  proof (cases "mget (sessions s) (SID p)")
    case None
    then show ?thesis
      using lo relay_claim [OF inv, of "\<lparr>token = SID p, legs = [], paired = False, created = now\<rparr>"
          a src "Leg p" "EPK p" now]
      by (auto simp: bindTicketed_def Let_def intro!: relay_reject inv)
  next
    case (Some ses)
    have tok: "token ses = SID p" using mget_token [OF c Some] .
    show ?thesis
    proof (cases "find (\<lambda>l. leg_name l = Leg p) (legs ses)")
      case None
      then have "\<forall>l \<in> set (legs ses). leg_ids s0 [l] \<noteq> leg_ids s0 [new_leg src a (Leg p) (EPK p) s]"
        using tm by (auto simp: find_None_iff leg_ids_def new_leg_def)
      then show ?thesis
        using Some None tok lo relay_claim [OF inv, of ses a src "Leg p" "EPK p" now]
        by (auto simp: bindTicketed_def Let_def maxLegsPerSes_def intro!: relay_reject inv)
    next
      case (Some held)
      then have h: "held \<in> set (legs ses)" "leg_name held = Leg p"
        by (auto simp: find_Some_iff)
      have "leg_ok J C s0 E (SID p) (moved held src a)" if "leg_epk held = EPK p"
        using ok tk h that by (auto simp: leg_ok_def moved_def)
      then show ?thesis
        using Some \<open>mget (sessions s) (SID p) = Some ses\<close> h relay_migrate [OF inv tm _ h(1), of "SID p" a src now]
        by (auto simp: bindTicketed_def Let_def intro!: relay_reject relay_seen inv)
    qed
  qed
qed

lemma computeCookie_conf: "conf s = conf s0 \<Longrightarrow> computeCookie C s src e = computeCookie C s0 src e"
  by (simp add: computeCookie_def conf_def)

lemma validCookie_conf: "conf s = conf s0 \<Longrightarrow> validCookie C now b src s = validCookie C now b src s0"
  by (simp add: validCookie_def computeCookie_conf [of s s0] Let_def split: option.split)

lemma validCookie_SomeD: "validCookie C now b src s = Some c \<Longrightarrow> \<exists>e. c = computeCookie C s src e"
  by (auto simp: validCookie_def Let_def split: if_splits option.splits)

lemma check_ticket_bind_InrD:
  assumes "check_ticket_bind J C now b cookie s = Inr p" and "conf s = conf s0"
    and "cookie = computeCookie C s0 src e"
  shows "ticket_covers J C s0 (SID p) src p \<and> SID p = SessionToken b"
proof -
  from assms(1) obtain pl sig bindSig epk where "Verify C (serverKeys s) pl sig" "Parse J pl = Inr p"
    "CheckWindow now p = Inr ()" "CheckRelay (relayID s) p = Inr ()" "SessionToken b = SID p"
    "EphPub p = Some epk" "VerifyBind C epk pl sig cookie bindSig = Inr ()"
    by (auto simp: check_ticket_bind_def split: option.splits if_splits sum.splits)
  with conf_eqD [OF assms(2)] assms(3) show ?thesis unfolding ticket_covers_def by metis
qed

lemma relay_verify:
  assumes inv: "relay_inv J C s0 E s" and j: "job_ok J C s0 E j"
  shows "relay_inv J C s0 E (fst (verifyTicketBind J C now j s))"
proof -
  obtain b src a cookie where jj: "j = Job b src a cookie" by (cases j)
  from j obtain e where e: "cookie = computeCookie C s0 src e" and ok: "src_ok J C s0 E src a"
    and tm: "ticketMode s0" by (auto simp: jj)
  have cf: "conf s = conf s0" using inv by (simp add: relay_inv_def)
  show ?thesis
  proof (cases "check_ticket_bind J C now b cookie s")
    case (Inl r)
    then show ?thesis
      by (cases r) (auto simp: verifyTicketBind_def jj Let_def intro!: relay_reject inv)
  next
    case (Inr p)
    have "ticket_covers J C s0 (SID p) src p" using check_ticket_bind_InrD [OF Inr cf e] by blast
    with Inr show ?thesis by (simp add: verifyTicketBind_def jj relay_ticketed tm ok relay_reject inv)
  qed
qed

lemma relay_admit:
  assumes inv: "relay_inv J C s0 E s" and ok: "job_ok J C s0 E (Job b src a cookie)"
  shows "relay_inv J C s0 E (admitTicketBind now b src a cookie s)"
proof -
  have wf: "lim_wf (sigRL s)" "lim_wf (reserveRL s)" using inv by (simp_all add: relay_inv_def bounds_inv_def)
  have one: "relay_inv J C s0 E (s\<lparr>reserveRL := snd (Allow now sid (reserveRL s))\<rparr>)" for sid
    using wf by (intro relay_limiters inv Allow_wf)
  have two: "relay_inv J C s0 E s' \<Longrightarrow> relay_inv J C s0 E (s'\<lparr>sigRL := snd (AllowGlobal now (sigRL s'))\<rparr>)" for s'
    by (intro relay_limiters AllowGlobal_wf) (simp_all add: relay_inv_def bounds_inv_def)
  have push: "relay_inv J C s0 E s' \<Longrightarrow> length (inFlight s') < maxSigInFlight \<Longrightarrow>
      relay_inv J C s0 E (s'\<lparr>inFlight := inFlight s' @ [Job b src a cookie]\<rparr>)" for s'
    using ok by (intro relay_jobs) (auto simp: relay_inv_def evid_rel_def)
  have three: "relay_inv J C s0 E (snd (admit_budget now sid s))" for sid
    using one [of sid] two [OF one [of sid]] two [OF inv] inv
    by (auto simp: admit_budget_def split: prod.splits)
  show ?thesis
    using three [of "SessionToken b"] push inv
    by (cases "admit_budget now (SessionToken b) s") (auto simp: admitTicketBind_def intro!: relay_reject)
qed

lemma relay_bind:
  assumes inv: "relay_inv J C s0 E s" and e: "Datagram now src pkt \<in> E" and b: "ParseBind J pkt = Some b"
  shows "relay_inv J C s0 E (fst (bind J C now b src n s))"
proof -
  let ?a = "FromIP (IP src)"
  have cf: "conf s = conf s0" using inv by (simp add: relay_inv_def)
  obtain ok rl where al: "Allow now ?a (bindRL s) = (ok, rl)" by fastforce
  have "lim_wf rl" using inv Allow_wf [of "bindRL s" now ?a] al by (simp add: relay_inv_def bounds_inv_def)
  then have inv': "relay_inv J C s0 E (s\<lparr>bindRL := rl\<rparr>)" by (intro relay_limiters inv)
  have cf': "conf (s\<lparr>bindRL := rl\<rparr>) = conf s0" using inv' by (simp add: relay_inv_def)
  show ?thesis
  proof (cases "validCookie C now (Cookie b) src (s\<lparr>bindRL := rl\<rparr>)")
    case None
    then show ?thesis using inv inv' al by (auto simp: bind_def Let_def intro!: relay_reject)
  next
    case (Some c)
    have "echoed J C s0 E src"
      using e b Some validCookie_conf [OF cf'] unfolding echoed_def by (metis option.distinct(1))
    then have so: "src_ok J C s0 E src ?a" if "cidrAllowed (allowed s) (IP src)"
      using that conf_eqD [OF cf] by (simp add: src_ok_def)
    have "\<exists>e. c = computeCookie C s0 src e"
      using validCookie_SomeD [OF Some] computeCookie_conf [OF cf'] by metis
    then have jo: "job_ok J C s0 E (Job b src ?a c)" if "cidrAllowed (allowed s) (IP src)" "ticketMode s0"
      using so that by simp
    show ?thesis
      using inv inv' al Some so jo conf_eqD [OF cf]
      by (auto simp: bind_def ticketMode_def Let_def intro!: relay_reject relay_admit relay_network_bind)
  qed
qed

lemma relay_handle:
  assumes inv: "relay_inv J C s0 E s" and e: "e \<in> E"
  shows "relay_inv J C s0 E (step J C e s)"
proof (cases e)
  case (Datagram now src pkt)
  then show ?thesis
    using relay_bind [OF inv, of now src pkt] e relay_seen [OF inv] inv
    by (auto simp: step_def packet_def forward_def split: option.split)
next
  case (Verification now i)
  show ?thesis
  proof (cases "i < length (inFlight s)")
    case True
    let ?s = "s\<lparr>inFlight := take i (inFlight s) @ drop (Suc i) (inFlight s)\<rparr>"
    have j: "job_ok J C s0 E (inFlight s ! i)" using inv True by (auto simp: relay_inv_def evid_rel_def)
    have "relay_inv J C s0 E ?s"
      using inv True
      by (intro relay_jobs) (auto simp: relay_inv_def evid_rel_def bounds_inv_def dest: in_set_takeD in_set_dropD)
    then show ?thesis using True Verification j relay_verify by (simp add: step_def)
  qed (use Verification inv in \<open>simp add: step_def\<close>)
qed (use inv in \<open>simp_all add: step_def relay_reap relay_reject\<close>)

section \<open>Every run\<close>

definition run :: "json \<Rightarrow> crypto \<Rightarrow> event list \<Rightarrow> server \<Rightarrow> server" where
  "run J C es s = fold (step J C) es s"

lemma New_wf: "0 \<le> g \<Longrightarrow> 0 \<le> r \<Longrightarrow> lim_wf (New g r n t)" and NewGlobal_wf: "0 \<le> g \<Longrightarrow> lim_wf (NewGlobal g t)"
  by (simp_all add: lim_wf_def New_def NewGlobal_def)

lemma relay_init: "relay_inv J C (NewServer cfg key t0) E (NewServer cfg key t0)"
  by (simp add: relay_inv_def core_inv_def sess_inv_def bounds_inv_def evid_rel_def acct_rel_def addr_rel_def
      peers_rel_def mcount_def NewServer_def New_wf NewGlobal_wf)

interpretation relay: stepwise "step J C" "relay_inv J C s0 E" "\<lambda>e. e \<in> E"
  for J C s0 E
  by unfold_locales (rule relay_handle)

lemma run_inv: "relay_inv J C (NewServer cfg key t0) (set es) (run J C es (NewServer cfg key t0))"
  unfolding run_def by (rule relay.inv_run [OF relay_init]) simp

lemma run_core: "core_inv (run J C es (NewServer cfg key t0))"
  using run_inv by (auto simp: relay_inv_def)

lemma run_conf: "conf (run J C es (NewServer cfg key t0)) = conf (NewServer cfg key t0)"
  using run_inv by (auto simp: relay_inv_def)

section \<open>Bounded state and exact accounting\<close>

text \<open>C26: whatever datagrams arrive and however the verification goroutines and the reaper
  are scheduled, the relay stays within its limits. At most the configured number of
  sessions exist; every session is stored under its own token and holds one or two legs;
  the counter of every source is exactly the number of live legs charged to it and never
  exceeds the per-source cap; at most 32 verifications are queued; the two throttling
  tables are bounded.\<close>

theorem relay_bounded:
  "let s0 = NewServer cfg key t0; s = run J C es s0 in
     length (sessions s) \<le> maxSessions s0 \<and>
     list_all (\<lambda>(tok, ses). token ses = tok \<and> length (legs ses) \<in> {1, 2}) (sessions s) \<and>
     mcount (legsPerIP s) a = charged a (live s) \<and> charged a (live s) \<le> maxLegsPerIP s0 \<and>
     length (inFlight s) \<le> 32 \<and> length (rejectWarned s) \<le> 64 \<and> length (hoardWarned s) \<le> maxSessions s0"
proof -
  let ?init = "NewServer cfg key t0" and ?s = "run J C es (NewServer cfg key t0)"
  note c = run_core [of J C es cfg key t0] and cf = conf_eqD [OF run_conf, of J C es cfg key t0]
  have "length (legs ses) = 1 \<or> length (legs ses) = 2" if "(tok, ses) \<in> set (sessions ?s)" for tok ses
    using peers_ok_length [OF mget_legs [OF c set_mget [OF core_invD(1) [OF c] that]]] by linarith
  then have "list_all (\<lambda>(tok, ses). token ses = tok \<and> length (legs ses) \<in> {1, 2}) (sessions ?s)"
    using core_invD(3) [OF c] by (auto simp: list_all_iff)
  moreover have "bounds_inv ?s" using run_inv by (auto simp: relay_inv_def)
  ultimately show ?thesis
    using core_invD(2,4,5) [OF c] cf unfolding Let_def bounds_inv_def acct_rel_def maxSigInFlight_def by metis
qed

section \<open>Who holds a leg\<close>

text \<open>C11: every leg of every session belongs to a source that is inside the allowlist and
  that has echoed a cookie the relay derived for exactly that address and port; it is
  charged to that source. If server keys are configured, the leg is covered by a ticket
  of one of them, naming this relay, this session and this leg, whose ephemeral key
  signed a cookie of the leg's current address.\<close>

theorem relay_leg_evidence:
  assumes "(tok, ses) \<in> set (sessions (run J C es (NewServer cfg key t0)))" and "l \<in> set (legs ses)"
  shows "src_ok J C (NewServer cfg key t0) (set es) (leg_addr l) (acctKey l) \<and>
    (ServerKeys cfg = [] \<or> (\<exists>p. ticket_covers J C (NewServer cfg key t0) tok (leg_addr l) p \<and>
       Leg p = leg_name l \<and> EPK p = leg_epk l))"
proof -
  have "leg_ok J C (NewServer cfg key t0) (set es) tok l"
    using run_inv [of J C cfg key t0 es] assms by (fastforce simp: relay_inv_def evid_rel_def ses_ok_def)
  then show ?thesis by (auto simp: leg_ok_def ticketMode_def NewServer_def)
qed

section \<open>Where datagrams go\<close>

lemma leg_partner:
  assumes "core_inv s" and "mget (byAddr s) (addr_string src) = Some r" and "peer (fwds s r) = Some dst"
  obtains tok ses l l' where "(tok, ses) \<in> set (sessions s)" "mset (legs ses) = {#l, l'#}"
    "addr_string (leg_addr l) = addr_string src" "leg_fwd l = r" "dst = leg_addr l'"
proof -
  obtain l where l: "l \<in># live s" "leg_fwd l = r" "addr_string (leg_addr l) = addr_string src"
    using core_invD(6) [OF assms(1)] assms(2) unfolding addr_rel_def by blast
  then obtain tok ses where ses: "(tok, ses) \<in> set (sessions s)" "l \<in> set (legs ses)"
    using leg_mset_in by blast
  have "peers_ok (peer_of s) (legs ses)" using core_invD(9) [OF assms(1)] ses by (auto simp: peers_rel_def)
  then obtain l' where "mset (legs ses) = {#l, l'#}" "dst = leg_addr l'"
    using ses(2) l assms(3)
    by (cases "(peer_of s, legs ses)" rule: peers_ok.cases) (auto simp: peer_of_def add_mset_commute)
  with that ses l show thesis by blast
qed

text \<open>C12: the data path forwards blindly but only between partners. A datagram that is not a
  bind request produces at most one datagram, with the same bytes, and its destination is
  the other leg of a session in which the sender holds a leg.\<close>

theorem relay_forwards_to_partner:
  assumes "ParseBind J pkt = None"
    and "(q, dst) \<in> set (snd (handle J C (Datagram now src pkt) (run J C es (NewServer cfg key t0))))"
  shows "snd (handle J C (Datagram now src pkt) (run J C es (NewServer cfg key t0))) = [(pkt, dst)] \<and>
    (\<exists>tok ses l l'. (tok, ses) \<in> set (sessions (run J C es (NewServer cfg key t0))) \<and>
       mset (legs ses) = {#l, l'#} \<and> addr_string (leg_addr l) = addr_string src \<and> dst = leg_addr l')"
proof -
  let ?s = "run J C es (NewServer cfg key t0)"
  from assms obtain r where r: "mget (byAddr ?s) (addr_string src) = Some r" "peer (fwds ?s r) = Some dst"
    by (auto simp: packet_def forward_def split: option.splits)
  with assms(1) have "snd (handle J C (Datagram now src pkt) ?s) = [(pkt, dst)]"
    by (simp add: packet_def forward_def)
  with leg_partner [OF run_core r] show ?thesis by metis
qed

lemma bindNetworkMode_sends: "(q, dst) \<in> set (snd (bindNetworkMode J now src a tok s)) \<Longrightarrow> dst = src"
  by (auto simp: bindNetworkMode_def ack_def split: option.splits if_splits)

lemma bindTicketed_sends: "(q, dst) \<in> set (snd (bindTicketed J now p src a s)) \<Longrightarrow> dst = src"
  by (auto simp: bindTicketed_def ack_def Let_def split: option.splits if_splits)

lemma bind_sends:
  assumes "(q, dst) \<in> set (snd (bind J C now b src n s))"
  shows "dst = src \<and> (validCookie C now (Cookie b) src s \<noteq> None \<or> length q < n)"
proof -
  have vc: "validCookie C now (Cookie b) src (s\<lparr>bindRL := rl\<rparr>) = validCookie C now (Cookie b) src s" for rl
    by (rule validCookie_conf) (simp add: conf_def)
  from assms show ?thesis
    by (cases "validCookie C now (Cookie b) src s")
      (auto simp: bind_def Let_def vc split: prod.splits if_splits dest: bindNetworkMode_sends)
qed

lemma verifyTicketBind_sends:
  "(q, dst) \<in> set (snd (verifyTicketBind J C now (Job b src a cookie) s)) \<Longrightarrow> dst = src"
  by (auto simp: verifyTicketBind_def Let_def split: sum.splits prod.splits dest: bindTicketed_sends)

lemma leg_echoed:
  "relay_inv J C s0 E s \<Longrightarrow> (tok, ses) \<in> set (sessions s) \<Longrightarrow> l \<in> set (legs ses) \<Longrightarrow> echoed J C s0 E (leg_addr l)"
  by (fastforce simp: relay_inv_def evid_rel_def ses_ok_def leg_ok_def src_ok_def)

lemma echoed_mono: "echoed J C s0 E src \<Longrightarrow> E \<subseteq> E' \<Longrightarrow> echoed J C s0 E' src"
  unfolding echoed_def by blast

text \<open>C33: the relay is no reflector. Every datagram it ever sends goes to an address that has
  echoed a cookie derived for it, except challenges, which answer their own sender with
  strictly fewer bytes than were received.\<close>

theorem relay_no_reflection:
  assumes "(q, dst) \<in> set (snd (handle J C e (run J C es (NewServer cfg key t0))))"
  shows "echoed J C (NewServer cfg key t0) (set (es @ [e])) dst \<or>
    (\<exists>now pkt. e = Datagram now dst pkt \<and> length q < length pkt)"
proof -
  let ?init = "NewServer cfg key t0" and ?s = "run J C es (NewServer cfg key t0)"
  note inv = run_inv [of J C cfg key t0 es]
  show ?thesis
  proof (cases e)
    case (Datagram now src pkt)
    show ?thesis
    proof (cases "ParseBind J pkt")
      case (Some b)
      have out: "dst = src \<and> (validCookie C now (Cookie b) src ?s \<noteq> None \<or> length q < length pkt)"
        using assms Datagram Some by (intro bind_sends [of _ _ J]) (simp add: packet_def)
      have vc: "validCookie C now (Cookie b) src ?s = validCookie C now (Cookie b) src ?init"
        by (rule validCookie_conf [OF run_conf])
      have ev: "Datagram now src pkt \<in> set (es @ [e])" using Datagram by simp
      show ?thesis using out ev Some unfolding echoed_def vc Datagram by blast
    next
      case None
      then obtain r where "mget (byAddr ?s) (addr_string src) = Some r" "peer (fwds ?s r) = Some dst"
        using assms Datagram by (auto simp: packet_def forward_def split: option.splits)
      then obtain tok ses l l' where l: "(tok, ses) \<in> set (sessions ?s)" "mset (legs ses) = {#l, l'#}" "dst = leg_addr l'"
        using leg_partner [OF run_core] by metis
      then have "l' \<in> set (legs ses)" by (metis in_multiset_in_set union_single_eq_member add_mset_commute)
      then have "echoed J C ?init (set (es @ [e])) dst"
        unfolding l(3) by (intro echoed_mono [OF leg_echoed [OF inv l(1)]]) auto
      then show ?thesis by blast
    qed
  next
    case (Verification now i)
    then have i: "i < length (inFlight ?s)" using assms by (auto split: if_splits)
    then have j: "job_ok J C ?init (set es) (inFlight ?s ! i)" using inv by (simp add: relay_inv_def evid_rel_def)
    obtain b src a cookie where jj: "inFlight ?s ! i = Job b src a cookie" by (cases "inFlight ?s ! i")
    have "dst = src"
      by (rule verifyTicketBind_sends [of q _ J C now b src a cookie]) (use assms Verification i jj in simp)
    then have "echoed J C ?init (set (es @ [e])) dst"
      using j unfolding jj by - (rule echoed_mono [of J C ?init "set es"], auto simp: src_ok_def)
    then show ?thesis by blast
  qed (use assms in simp_all)
qed

text \<open>A bind request without a valid cookie costs the relay nothing but counters and
  limiter tokens: no session, leg, route, forwarding record or queued verification
  changes, and nothing is sent except possibly one challenge to the sender.\<close>

theorem relay_cookie_required:
  assumes "ParseBind J pkt = Some b" and "validCookie C now (Cookie b) src s = None"
  shows "core (step J C (Datagram now src pkt) s) = core s \<and> fwds (step J C (Datagram now src pkt) s) = fwds s \<and>
    inFlight (step J C (Datagram now src pkt) s) = inFlight s \<and>
    snd (handle J C (Datagram now src pkt) s) \<in> {[], [(MarshalChallenge (freshCookie C now src s), src)]}"
proof -
  have vc: "validCookie C now (Cookie b) src (s\<lparr>bindRL := rl\<rparr>) = None" for rl
    using assms(2) validCookie_conf [of "s\<lparr>bindRL := rl\<rparr>" s C now "Cookie b" src] by (simp add: conf_def)
  have fc: "freshCookie C now src (s\<lparr>bindRL := rl\<rparr>) = freshCookie C now src s" for rl
    unfolding freshCookie_def by (rule computeCookie_conf) (simp add: conf_def)
  have "peer_of (s\<lparr>bindRL := rl, statRejected := n\<rparr>) = peer_of s" "peer_of (s\<lparr>statRejected := n\<rparr>) = peer_of s"
    "peer_of (s\<lparr>bindRL := rl, statChallenged := n\<rparr>) = peer_of s" for rl n
    by (simp_all add: peer_of_def fun_eq_iff)
  then show ?thesis
    using assms(1) vc fc
    by (auto simp: step_def packet_def bind_def Let_def rejected_def core_def split: prod.splits)
qed

end
