(* ===== verification/RelayProps.thy ===== *)
theory RelayProps
  imports RelayRun
begin

text \<open>
  What becomes of a leg once it is held. Between two runs of the reaper the session table
  changes in three ways only, which the relation \<open>table_step\<close> states; nobody but the holder
  of its ephemeral key moves a leg; the reaper removes exactly the idle legs and the
  sessions that never paired in time; and one source in two sessions loses its route.
\<close>

section \<open>How the session table changes\<close>

inductive table_step :: "bool \<Rightarrow> (bytes, session) gomap \<Rightarrow> (bytes, session) gomap \<Rightarrow> bool" for tm where
  same: "table_step tm m m"
| claim: "mget m tok = Some ses \<or> (mget m tok = None \<and> legs ses = []) \<Longrightarrow> length (legs ses) < 2 \<Longrightarrow>
    table_step tm m (mput tok (joined ses l) m)"
| move: "tm \<Longrightarrow> mget m tok = Some ses \<Longrightarrow> held \<in> set (legs ses) \<Longrightarrow>
    table_step tm m (mput tok (moved_ses ses held src a) m)"

lemma aux_frame_sessions: "aux_frame s s' \<Longrightarrow> sessions s' = sessions s"
  by (simp add: aux_frame_def core_def)

lemma sessions_rejects [simp]:
  "sessions (rejected s) = sessions s" "sessions (rejectTicket now r s) = sessions s"
  "sessions (rejectWindow now s) = sessions s" "sessions (warnHoardLocked now a s) = sessions s"
  "sessions (statsTick s) = sessions s"
  by (rule aux_frame_sessions, rule aux_frames)+

lemma sessions_admit [simp]: "sessions (admitTicketBind now b src a cookie s) = sessions s"
proof -
  have "sessions (snd (admit_budget now sid s)) = sessions s" for sid
    by (auto simp: admit_budget_def split: prod.split)
  from this [of "SessionToken b"] show ?thesis
    by (cases "admit_budget now (SessionToken b) s") (simp add: admitTicketBind_def)
qed

lemma network_table_step:
  assumes "core_inv s"
  shows "table_step tm (sessions s) (sessions (fst (bindNetworkMode J now src a tok s)))"
proof (cases "mget (sessions s) tok")
  case None
  then show ?thesis
    using claim_leg_fields(1) [of "\<lparr>token = tok, legs = [], paired = False, created = now\<rparr>", OF _ refl, of now src a "[]" "[]" s]
    by (auto simp: bindNetworkMode_def intro!: table_step.intros)
next
  case (Some ses)
  then show ?thesis
    using claim_leg_fields(1) [of ses, OF _ refl, of now src a "[]" "[]" s] mget_token [OF assms Some]
    by (auto simp: bindNetworkMode_def maxLegsPerSes_def intro!: table_step.intros split: option.split)
qed

lemma ticketed_table_step:
  assumes "core_inv s" and "tm"
  shows "table_step tm (sessions s) (sessions (fst (bindTicketed J now p src a s)))"
proof (cases "mget (sessions s) (SID p)")
  case None
  then show ?thesis
    using claim_leg_fields(1) [of "\<lparr>token = SID p, legs = [], paired = False, created = now\<rparr>", OF _ refl,
        of now src a "Leg p" "EPK p" s]
    by (auto simp: bindTicketed_def Let_def intro!: table_step.intros)
next
  case (Some ses)
  have mv: "table_step tm (sessions s) (sessions (migrate now ses held src a s))"
    if "find (\<lambda>l. leg_name l = Leg p) (legs ses) = Some held" for held
    using that assms(2) Some mget_token [OF assms(1) Some]
    by (auto simp: migrate_fields(1) [OF refl] find_Some_iff intro!: table_step.move)
  show ?thesis
    using Some mv claim_leg_fields(1) [of ses, OF _ refl, of now src a "Leg p" "EPK p" s] mget_token [OF assms(1) Some]
    by (auto simp: bindTicketed_def Let_def maxLegsPerSes_def intro!: table_step.same table_step.claim split: option.split)
qed

lemma core_inv_updates:
  "core_inv (s\<lparr>statVerify := n\<rparr>) = core_inv s" "core_inv (s\<lparr>inFlight := js\<rparr>) = core_inv s"
  "core_inv (s\<lparr>bindRL := rl\<rparr>) = core_inv s"
  by (rule core_inv_frame; simp add: core_def conf_def peer_of_def fun_eq_iff)+

lemma verify_table_step:
  assumes "core_inv s" and "tm"
  shows "table_step tm (sessions s) (sessions (fst (verifyTicketBind J C now j s)))"
  using ticketed_table_step [of "s\<lparr>statVerify := statVerify s + 1\<rparr>" tm] assms
  by (auto simp: verifyTicketBind_def core_inv_updates Let_def intro: table_step.same split: job.split sum.split)

lemma bind_table_step:
  assumes "core_inv s"
  shows "table_step tm (sessions s) (sessions (fst (bind J C now b src n s)))"
  using network_table_step [of "s\<lparr>bindRL := _\<rparr>", unfolded core_inv_updates, OF assms]
  by (auto simp: bind_def Let_def intro: table_step.same split: prod.split option.split)

lemma handle_table_step:
  assumes inv: "relay_inv J C s0 E s" and "\<forall>now. e \<noteq> ReapTick now"
  shows "table_step (ticketMode s0) (sessions s) (sessions (step J C e s))"
proof (cases e)
  case (Datagram now src pkt)
  then show ?thesis
    using inv bind_table_step [of s "ticketMode s0" J C now _ src "length pkt"]
    by (auto simp: step_def packet_def forward_def relay_inv_def intro: table_step.same split: option.split)
next
  case (Verification now i)
  have tm: "ticketMode s0" if "i < length (inFlight s)"
  proof -
    have "job_ok J C s0 E (inFlight s ! i)" using inv that by (simp add: relay_inv_def evid_rel_def)
    then show ?thesis by (cases "inFlight s ! i") simp
  qed
  have c: "core_inv s" using inv by (simp add: relay_inv_def)
  show ?thesis
    using Verification tm verify_table_step [of "s\<lparr>inFlight := _\<rparr>", unfolded core_inv_updates, OF c]
    by (auto simp: step_def intro: table_step.same)
qed (use assms(2) in \<open>auto simp: step_def intro: table_step.same\<close>)

section \<open>A leg is its holder's\<close>

lemma table_step_keeps:
  assumes "table_step tm m m'" and "mget m tok = Some ses" and "l \<in> set (legs ses)"
    and "\<forall>l' \<in> set (legs ses). leg_fwd l' = leg_fwd l \<longrightarrow> l' = l"
  shows "\<exists>ses' l'. mget m' tok = Some ses' \<and> l' \<in> set (legs ses') \<and> leg_name l' = leg_name l \<and>
    leg_epk l' = leg_epk l \<and> (leg_addr l' = leg_addr l \<or> tm)"
  using assms(1)
proof cases
  case same
  then show ?thesis using assms by blast
next
  case (claim tok' ses' l')
  then show ?thesis using assms(2,3) by (cases "tok' = tok") (auto simp: mget_mput joined_def)
next
  case (move tok' ses' held src a)
  let ?l = "if leg_fwd l = leg_fwd held then moved held src a else l"
  have "tok' = tok \<Longrightarrow> ses' = ses" using move assms(2) by simp
  then have "tok' = tok \<Longrightarrow> ?l \<in> set (legs (moved_ses ses' held src a)) \<and> leg_name ?l = leg_name l \<and> leg_epk ?l = leg_epk l"
    using move assms(3,4) by (auto simp: moved_ses_def moved_def)
  then show ?thesis using move assms(2,3) by (cases "tok' = tok") (auto simp: mget_mput)
qed

text \<open>Nobody takes over a leg. Until the reaper drops it, a leg that is held stays held
  under the same name and the same ephemeral key, whatever the relay receives. If its
  address changes, the new address is covered by a ticket for that session, that leg and
  that very key: only the holder moves a leg.\<close>

theorem relay_no_takeover:
  assumes "mget (sessions (run J C es (NewServer cfg key t0))) tok = Some ses" and "l \<in> set (legs ses)"
    and "\<forall>now. e \<noteq> ReapTick now"
  shows "\<exists>ses' l'. mget (sessions (run J C (es @ [e]) (NewServer cfg key t0))) tok = Some ses' \<and>
    l' \<in> set (legs ses') \<and> leg_name l' = leg_name l \<and> leg_epk l' = leg_epk l \<and>
    (leg_addr l' = leg_addr l \<or>
     (\<exists>p. ticket_covers J C (NewServer cfg key t0) tok (leg_addr l') p \<and> Leg p = leg_name l \<and> EPK p = leg_epk l))"
proof -
  let ?init = "NewServer cfg key t0" and ?s = "run J C es (NewServer cfg key t0)"
  let ?s' = "run J C (es @ [e]) ?init"
  have s': "?s' = step J C e ?s" by (simp add: run_def)
  have "\<forall>l' \<in> set (legs ses). leg_fwd l' = leg_fwd l \<longrightarrow> l' = l"
    using uniq_eq [OF core_invD(7) [OF run_core]] leg_in_mset [OF mget_in_set [OF assms(1)]] assms(2) by blast
  then obtain ses' l' where l': "mget (sessions ?s') tok = Some ses'" "l' \<in> set (legs ses')"
      "leg_name l' = leg_name l" "leg_epk l' = leg_epk l" "leg_addr l' = leg_addr l \<or> ticketMode ?init"
    using table_step_keeps [OF handle_table_step [OF run_inv assms(3)] assms(1,2)] unfolding s' by metis
  have "leg_ok J C ?init (set (es @ [e])) tok l'"
    using ses_ok_mget [OF _ l'(1)] run_inv [of J C cfg key t0 "es @ [e]"] l'(2)
    by (auto simp: relay_inv_def ses_ok_def)
  with l' show ?thesis unfolding leg_ok_def by metis
qed

section \<open>The reaper\<close>

text \<open>What one pass leaves of a session: nothing if it never paired within the pairing
  timeout, otherwise the legs heard from within the time to live.\<close>

definition survivor :: "time \<Rightarrow> server \<Rightarrow> bytes \<times> session \<Rightarrow> (bytes \<times> session) option" where
  "survivor now s e = (let (tok, ses) = e; kept = filter (\<lambda>l. now - seen (fwds s (leg_fwd l)) \<le> ttl s) (legs ses) in
     if (\<not> paired ses \<and> now - created ses > pendingPair s) \<or> kept = [] then None
     else Some (tok, ses\<lparr>legs := kept\<rparr>))"

definition seen_of :: "server \<Rightarrow> nat \<Rightarrow> time" where
  "seen_of s r = seen (fwds s r)"

lemma fwds_fold_drop [simp]: "fwds (fold drop_leg ls s) = fwds s"
  by (induction ls arbitrary: s) (simp_all add: drop_leg_def releaseIPLocked_map)

lemma seen_reap_session: "seen_of (reap_session now e s) = seen_of s"
  by (rule ext) (simp add: seen_of_def reap_session_def set_peer_def Let_def split: prod.split list.split)

lemma survivor_cong:
  "seen_of s' = seen_of s \<Longrightarrow> conf s' = conf s \<Longrightarrow> survivor now s' = survivor now s"
  by (rule ext) (simp add: survivor_def seen_of_def conf_def fun_eq_iff)

lemma mdel_middle: "tok \<notin> mkeys pre \<Longrightarrow> tok \<notin> mkeys es \<Longrightarrow> mdel tok (pre @ (tok, v) # es) = pre @ es"
  by (induction pre) (auto simp: delete_idem)

lemma mput_middle: "tok \<notin> mkeys pre \<Longrightarrow> mput tok w (pre @ (tok, v) # es) = pre @ (tok, w) # es"
  by (induction pre) auto

lemma reap_session_survivor:
  assumes "sessions s = pre @ e # es" and "gomap (pre @ e # es)"
  shows "sessions (reap_session now e s) = pre @ (case survivor now s e of None \<Rightarrow> [] | Some e' \<Rightarrow> [e']) @ es"
proof -
  obtain tok ses where e: "e = (tok, ses)" by (cases e)
  have k: "tok \<notin> mkeys pre" "tok \<notin> mkeys es" using assms(2) by (auto simp: e)
  have idle: "filter (\<lambda>l. \<not> idle now s l) ls = filter (\<lambda>l. now - seen (fwds s (leg_fwd l)) \<le> ttl s) ls" for ls
    by (rule filter_cong) (auto simp: idle_def)
  show ?thesis
  proof (cases "\<not> paired ses \<and> now - created ses > pendingPair s")
    case True
    then show ?thesis using k assms(1) by (simp add: reap_session_def survivor_def e mdel_middle)
  next
    case False
    then show ?thesis
      unfolding e reap_session_kept(2) [OF False refl refl] idle survivor_def
      using k assms(1) by (auto simp: e mdel_middle mput_middle Let_def)
  qed
qed

lemma survivor_key: "survivor now s e = Some e' \<Longrightarrow> fst e' = fst e"
  by (auto simp: survivor_def Let_def split: prod.splits if_splits)

lemma fold_reap_survivor:
  "sessions s = pre @ es \<Longrightarrow> gomap (pre @ es) \<Longrightarrow>
   sessions (fold (reap_session now) es s) = pre @ List.map_filter (survivor now s) es"
proof (induction es arbitrary: pre s)
  case (Cons e es)
  let ?s = "reap_session now e s" and ?new = "case survivor now s e of None \<Rightarrow> [] | Some e' \<Rightarrow> [e']"
  have "survivor now ?s = survivor now s"
    by (rule survivor_cong [OF seen_reap_session]) (use misc_eqD [OF misc_reap_session] in blast)
  moreover have "gomap ((pre @ ?new) @ es)"
  proof (cases "survivor now s e")
    case (Some e')
    then have "map fst ((pre @ ?new) @ es) = map fst (pre @ e # es)" using survivor_key [OF Some] by simp
    with Cons.prems(2) show ?thesis by metis
  qed (use Cons.prems(2) in simp)
  moreover have "sessions ?s = (pre @ ?new) @ es"
    using reap_session_survivor [OF Cons.prems] by simp
  ultimately show ?case using Cons.IH [of ?s "pre @ ?new"]
    by (simp add: map_filter_simps split: option.split)
qed (simp add: map_filter_simps)

text \<open>A pass of the reaper computes exactly its specification on the session table, in
  one sweep and in place: every session is replaced by its survivor.\<close>

theorem reap_exact:
  "sessions (reap now (run J C es (NewServer cfg key t0))) =
     List.map_filter (survivor now (run J C es (NewServer cfg key t0)))
       (sessions (run J C es (NewServer cfg key t0)))"
  using fold_reap_survivor [of "run J C es (NewServer cfg key t0)" "[]"] core_invD(1) [OF run_core]
  by (simp add: reap_def Let_def)

section \<open>One source in two sessions\<close>

lemma drop_leg_route: "mget (byAddr (drop_leg l s)) k = (if k = addr_string (leg_addr l) then None else mget (byAddr s) k)"
  by (simp add: drop_leg_def releaseIPLocked_def gomap_simps)

lemma fold_drop_route:
  "mget (byAddr (fold drop_leg ls s)) k = (if k \<in> addr_string ` leg_addr ` set ls then None else mget (byAddr s) k)"
  by (induction ls arbitrary: s) (auto simp: drop_leg_route)

lemma reap_session_route:
  "mget (byAddr s) k = None \<Longrightarrow> mget (byAddr (reap_session now e s)) k = None"
  by (simp add: reap_session_def Let_def fold_drop_route set_peer_def split: prod.split list.split)

lemma fold_reap_route:
  "mget (byAddr s) k = None \<Longrightarrow> mget (byAddr (fold (reap_session now) es s)) k = None"
  by (induction es arbitrary: s) (simp_all add: reap_session_route)

text \<open>The reaper deletes the route of every leg of a session that never paired in time.\<close>

lemma reap_drops_route:
  assumes "(tok, ses) \<in> set es" and "\<not> paired ses" and "now - created ses > pendingPair s" and "l \<in> set (legs ses)"
  shows "mget (byAddr (fold (reap_session now) es s)) (addr_string (leg_addr l)) = None"
  using assms
proof (induction es arbitrary: s)
  case (Cons e es)
  show ?case
  proof (cases "e = (tok, ses)")
    case True
    then have "mget (byAddr (reap_session now e s)) (addr_string (leg_addr l)) = None"
      using Cons.prems by (simp add: reap_session_def fold_drop_route)
    then show ?thesis by (simp add: fold_reap_route)
  next
    case False
    have "conf (reap_session now e s) = conf s" using misc_eqD [OF misc_reap_session] by blast
    then have "pendingPair (reap_session now e s) = pendingPair s" by (simp add: conf_def)
    with False Cons show ?thesis by simp
  qed
qed simp

text \<open>C40: a source in two sessions is cut off by the reaper. In any state the relay can reach, let
  one address hold a leg of a session that never paired in time and a leg of another one that is
  paired and fresh. A pass of the reaper leaves the second session untouched in the table, but
  deletes the route of the address together with the first: every datagram of the source vanishes.
  Binding the second session again is acknowledged and does not bring the route back.\<close>

theorem relay_alias_blackhole:
  assumes "s = run J C es (NewServer cfg key start)"
    and "(tokA, sesA) \<in> set (sessions s)" "\<not> paired sesA" "now - created sesA > pendingPair s" "legA \<in> set (legs sesA)"
    and "(tokB, sesB) \<in> set (sessions s)" "paired sesB" "\<forall>l \<in> set (legs sesB). \<not> idle now s l" "legB \<in> set (legs sesB)"
    and "addr_string (leg_addr legA) = addr_string src" "addr_string (leg_addr legB) = addr_string src"
  shows "mget (sessions (reap now s)) tokB = Some sesB \<and>
    snd (forward t src pkt (reap now s)) = [] \<and>
    snd (bindNetworkMode J t src a tokB (reap now s)) = ack J tokB src \<and>
    snd (forward t' src pkt (fst (bindNetworkMode J t src a tokB (reap now s)))) = []"
proof -
  have g: "gomap (sessions s)" using core_invD(1) [OF run_core] assms(1) by blast
  have "filter (\<lambda>l. now - seen (fwds s (leg_fwd l)) \<le> ttl s) (legs sesB) = legs sesB"
    using assms(8) by (auto simp: idle_def filter_id_conv)
  then have "survivor now s (tokB, sesB) = Some (tokB, sesB)"
    using assms(7,9) by (auto simp: survivor_def Let_def)
  then have "(tokB, sesB) \<in> set (sessions (reap now s))"
    using assms(6) reap_exact [of now J C es cfg key start] unfolding assms(1)
    by (force simp: List.map_filter_def)
  moreover have "gomap (sessions (reap now s))"
    using core_invD(1) [OF reap_core [OF run_core]] assms(1) by blast
  ultimately have s2: "mget (sessions (reap now s)) tokB = Some sesB" by simp
  have "mget (byAddr (fold (reap_session now) (sessions s) s)) (addr_string (leg_addr legA)) = None"
    by (rule reap_drops_route [OF assms(2-5)])
  then have r: "mget (byAddr (reap now s)) (addr_string src) = None"
    using assms(10) by (simp add: reap_def Let_def)
  obtain l where l: "find (\<lambda>l. addr_string (leg_addr l) = addr_string src) (legs sesB) = Some l"
    using assms(9,11) by (cases "find (\<lambda>l. addr_string (leg_addr l) = addr_string src) (legs sesB)") (auto simp: find_None_iff)
  have b: "bindNetworkMode J t src a tokB (reap now s) = (set_seen (leg_fwd l) t (reap now s), ack J tokB src)"
    by (simp add: bindNetworkMode_def s2 l)
  show ?thesis using s2 r by (simp add: forward_def b set_seen_def)
qed

section \<open>Two legs are connected\<close>

text \<open>Two claims of the same new session, whatever else the relay holds.\<close>

lemma two_claims_forward:
  fixes tok :: bytes and now1 :: time
  defines "ses \<equiv> \<lparr>token = tok, legs = [], paired = False, created = now1\<rparr>"
  assumes "s1 = claim_leg now1 ses src1 a1 nm1 epk1 s" and "addr_string src1 \<noteq> addr_string src2"
    and "byAddr s1' = byAddr s1" and "nextFwd s1' = nextFwd s1" and "fwds s1' = fwds s1"
    and "s2 = claim_leg now2 (joined ses (new_leg src1 a1 nm1 epk1 s)) src2 a2 nm2 epk2 s1'"
  shows "snd (forward t src1 pkt s2) = [(pkt, src2)]" and "snd (forward t src2 pkt s2) = [(pkt, src1)]"
proof -
  let ?l1 = "new_leg src1 a1 nm1 epk1 s"
  have len: "length (legs ses) < 2" "length (legs (joined ses ?l1)) < 2" by (simp_all add: ses_def joined_def)
  note F = claim_leg_fields [OF len(1) assms(2)] and G = claim_leg_fields [OF len(2) assms(7)]
  have "byAddr s2 = mput (addr_string src2) (Suc (nextFwd s)) (mput (addr_string src1) (nextFwd s) (byAddr s))"
    by (simp add: G assms(4,5) F)
  moreover have "peer_of s2 (nextFwd s) = Some src2" "peer_of s2 (Suc (nextFwd s)) = Some src1"
    by (simp_all add: G assms(4-6) F ses_def joined_def new_leg_def)
  ultimately show "snd (forward t src1 pkt s2) = [(pkt, src2)]" "snd (forward t src2 pkt s2) = [(pkt, src1)]"
    using assms(3) by (simp_all add: forward_def mget_mput peer_of_def)
qed

text \<open>Two sources that bind the same new session in network mode are connected. If both
  are within the caps, then after the second bind every datagram of the one reaches the
  other, whatever other sessions and routes the relay holds.\<close>

theorem relay_pairs:
  assumes "mget (sessions s) tok = None" and "length (sessions s) < maxSessions s"
    and "mcount (legsPerIP s) a1 < maxLegsPerIP s" and "mcount (legsPerIP s) a2 + 1 < maxLegsPerIP s"
    and "addr_string src1 \<noteq> addr_string src2"
    and "s1 = fst (bindNetworkMode J t1 src1 a1 tok s)" and "s2 = fst (bindNetworkMode J t2 src2 a2 tok s1)"
  shows "snd (bindNetworkMode J t1 src1 a1 tok s) = ack J tok src1 \<and>
    snd (bindNetworkMode J t2 src2 a2 tok s1) = ack J tok src2 \<and>
    snd (forward t src1 pkt s2) = [(pkt, src2)] \<and> snd (forward t src2 pkt s2) = [(pkt, src1)]"
proof -
  let ?ses = "\<lparr>token = tok, legs = [], paired = False, created = t1\<rparr>"
  have one: "bindNetworkMode J t1 src1 a1 tok s = (claim_leg t1 ?ses src1 a1 [] [] s, ack J tok src1)"
    using assms(1-3) by (simp add: bindNetworkMode_def)
  have s1: "s1 = claim_leg t1 ?ses src1 a1 [] [] s" using assms(6) one by simp
  have len: "length (legs ?ses) < 2" by simp
  let ?ses1 = "joined ?ses (new_leg src1 a1 [] [] s)"
  note F = claim_leg_fields [OF len s1]
  have "mget (sessions s1) tok = Some ?ses1" by (simp add: F mget_mput)
  moreover have "find (\<lambda>l. addr_string (leg_addr l) = addr_string src2) (legs ?ses1) = None"
    using assms(5) by (simp add: joined_def new_leg_def)
  moreover have "mcount (legsPerIP s1) a2 < maxLegsPerIP s1"
    using assms(4) by (cases "a2 = a1") (simp_all add: F charge_map_def mcount_mput)
  moreover have "length (legs ?ses1) < maxLegsPerSes" by (simp add: joined_def maxLegsPerSes_def)
  ultimately have two: "bindNetworkMode J t2 src2 a2 tok s1 = (claim_leg t2 ?ses1 src2 a2 [] [] s1, ack J tok src2)"
    by (simp add: bindNetworkMode_def)
  then have "s2 = claim_leg t2 ?ses1 src2 a2 [] [] s1" using assms(7) by simp
  from two_claims_forward [OF s1 assms(5) refl refl refl this] one two show ?thesis by simp
qed

section \<open>Concrete runs\<close>

text \<open>An instance of the parameters in which a bind request is its token and every cookie is
  the same, to run the model on.\<close>

definition demo_json :: json where
  "demo_json = \<lparr>scan = (\<lambda>b. Some ([(''s'', JString b), (''c'', JString (b64url_encode (replicate 16 CHR ''m'')))], [])),
     render = (\<lambda>ms. case ms of (k, JString v) # _ \<Rightarrow> v | _ \<Rightarrow> [])\<rparr>"

definition demo_cfg :: config where
  "demo_cfg = \<lparr>TTL = 60 * second, ServerKeys = [], RelayID = [], AllowCIDRs = [], MaxSessions = 0,
     MaxLegsPerIP = 0, Debug = False\<rparr>"

definition demo_tok :: "char \<Rightarrow> bytes" where
  "demo_tok c = NewID (replicate 16 c)"

definition demo_addr :: "char \<Rightarrow> udpaddr" where
  "demo_addr c = \<lparr>IP = [CHR ''a'', CHR ''b'', CHR ''c'', c], Port = 4000\<rparr>"

definition demo_bind :: "time \<Rightarrow> char \<Rightarrow> char \<Rightarrow> event" where
  "demo_bind t src c = Datagram t (demo_addr src) (BindPrefix @ demo_tok c)"

definition demo_data :: "time \<Rightarrow> char \<Rightarrow> event" where
  "demo_data t src = Datagram t (demo_addr src) ''data''"

definition demo_pair :: "event list" where
  "demo_pair = [demo_bind 0 CHR ''x'' CHR ''2'', demo_bind 0 CHR ''y'' CHR ''2'']"

lemma demo_ParseBind [simp]:
  "ParseBind demo_json (BindPrefix @ demo_tok CHR ''1'') =
     Some (zero_bind\<lparr>SessionToken := demo_tok CHR ''1'', Cookie := b64url_encode (replicate 16 CHR ''m'')\<rparr>)"
  "ParseBind demo_json (BindPrefix @ demo_tok CHR ''2'') =
     Some (zero_bind\<lparr>SessionToken := demo_tok CHR ''2'', Cookie := b64url_encode (replicate 16 CHR ''m'')\<rparr>)"
  "ParseBind demo_json ''data'' = None"
  by code_simp+

lemma demo_tok_neq [simp]: "demo_tok CHR ''1'' \<noteq> demo_tok CHR ''2''" "demo_tok CHR ''2'' \<noteq> demo_tok CHR ''1''"
  by code_simp+

lemma demo_cookie:
  "validCookie sample_crypto t (b64url_encode (replicate 16 CHR ''m'')) src s = Some (replicate 16 CHR ''m'')"
proof -
  have "b64url_encode (replicate 16 CHR ''m'') \<noteq> []"
    using length_b64url_encode [of "replicate 16 CHR ''m''"] by (auto simp: b64url_encoded_len_def)
  then show ?thesis by (simp add: validCookie_def computeCookie_def sample_crypto_def CookieLen_def Let_def)
qed

lemma demo_handle:
  assumes "ParseBind demo_json (BindPrefix @ demo_tok c) =
      Some (zero_bind\<lparr>SessionToken := demo_tok c, Cookie := b64url_encode (replicate 16 CHR ''m'')\<rparr>)"
    and "allowed s = []" and "serverKeys s = []"
  shows "handle demo_json sample_crypto (demo_bind t src c) s =
    (let a = FromIP (IP (demo_addr src)); (ok, rl) = Allow t a (bindRL s); s = s\<lparr>bindRL := rl\<rparr>
     in if \<not> ok then (rejected s, []) else bindNetworkMode demo_json t (demo_addr src) a (demo_tok c) s)"
  using assms
  by (simp add: demo_bind_def packet_def bind_def demo_cookie ticketMode_def cidrAllowed_def Let_def split: prod.split)

lemmas limiter_eval = Allow_def New_def AllowGlobal_def take_token_def refill_def seconds_def admit_source_def
  full_def pruneLocked_def second_def

lemmas demo_eval = run_def step_def NewServer_def demo_cfg_def demo_handle limiter_eval
  bindNetworkMode_def claim_leg_def chargeIP_def pairLocked_def publish_def set_seen_def set_peer_def put_session_def
  demo_addr_def FromIP_def mcount_def defaultMaxSessions_def defaultMaxLegsPerIP_def ack_def addr_string_def
  To16_def v4_in_v6_prefix_def FromNetipAddr_def Unmap_def maxLegsPerSes_def demo_data_def packet_def forward_def Let_def

lemmas demo_reap_eval = reap_def reap_session_def idle_def drop_leg_def releaseIPLocked_def pendingPairTimeout_def

section \<open>The guarantees on the concrete run\<close>

definition demo_leg :: "nat \<Rightarrow> char \<Rightarrow> leg" where
  "demo_leg r c = \<lparr>leg_addr = demo_addr c, leg_fwd = r, acctKey = FromIP (IP (demo_addr c)), leg_name = [], leg_epk = []\<rparr>"

abbreviation demo_init :: server where
  "demo_init \<equiv> NewServer demo_cfg ''key'' 0"

definition demo_session :: session where
  "demo_session = \<lparr>token = demo_tok CHR ''2'', legs = [demo_leg 0 CHR ''x'', demo_leg 1 CHR ''y''], paired = True, created = 0\<rparr>"

lemma demo_pair_sessions:
  "sessions (run demo_json sample_crypto demo_pair demo_init) = [(demo_tok CHR ''2'', demo_session)]"
  by (simp add: demo_pair_def demo_session_def demo_leg_def demo_eval)

lemma demo_pair_sends:
  "snd (handle demo_json sample_crypto (Datagram 1 (demo_addr CHR ''x'') ''data'')
     (run demo_json sample_crypto demo_pair demo_init)) = [(''data'', demo_addr CHR ''y'')]"
  by (simp add: demo_pair_def demo_eval)

theorem relay_leg_evidence_witness:
  "src_ok demo_json sample_crypto demo_init (set demo_pair) (demo_addr CHR ''x'') (FromIP (IP (demo_addr CHR ''x'')))"
  using relay_leg_evidence [of "demo_tok CHR ''2''" demo_session demo_json sample_crypto demo_pair demo_cfg "''key''" 0
      "demo_leg 0 CHR ''x''"]
  by (simp add: demo_pair_sessions) (simp add: demo_session_def demo_leg_def)

theorem relay_forwards_to_partner_witness:
  "\<exists>tok ses l l'. (tok, ses) \<in> set (sessions (run demo_json sample_crypto demo_pair demo_init)) \<and>
     mset (legs ses) = {#l, l'#} \<and> addr_string (leg_addr l) = addr_string (demo_addr CHR ''x'') \<and>
     demo_addr CHR ''y'' = leg_addr l'"
  using relay_forwards_to_partner [of demo_json "''data''" "''data''" "demo_addr CHR ''y''" sample_crypto 1
      "demo_addr CHR ''x''" demo_pair demo_cfg "''key''" 0] demo_pair_sends by simp

theorem relay_no_reflection_witness:
  "echoed demo_json sample_crypto demo_init
     (set (demo_pair @ [Datagram 1 (demo_addr CHR ''x'') ''data''])) (demo_addr CHR ''y'')"
proof -
  have "demo_addr CHR ''x'' \<noteq> demo_addr CHR ''y''" by (simp add: demo_addr_def)
  then show ?thesis
    using relay_no_reflection [of "''data''" "demo_addr CHR ''y''" demo_json sample_crypto
        "Datagram 1 (demo_addr CHR ''x'') ''data''" demo_pair demo_cfg "''key''" 0] demo_pair_sends by auto
qed

theorem relay_no_takeover_witness:
  "\<exists>ses' l'. mget (sessions (run demo_json sample_crypto (demo_pair @ [demo_bind 1 CHR ''z'' CHR ''2'']) demo_init))
      (demo_tok CHR ''2'') = Some ses' \<and> l' \<in> set (legs ses') \<and> leg_name l' = [] \<and> leg_epk l' = []"
proof -
  have "mget (sessions (run demo_json sample_crypto demo_pair demo_init)) (demo_tok CHR ''2'') = Some demo_session"
    by (simp add: demo_pair_sessions)
  moreover have "demo_leg 0 CHR ''x'' \<in> set (legs demo_session)" by (simp add: demo_session_def)
  ultimately show ?thesis
    using relay_no_takeover [of demo_json sample_crypto demo_pair demo_cfg "''key''" 0 "demo_tok CHR ''2''" demo_session
        "demo_leg 0 CHR ''x''" "demo_bind 1 CHR ''z'' CHR ''2''"]
    by (auto simp: demo_bind_def demo_leg_def)
qed

definition bare_json :: json where
  "bare_json = \<lparr>scan = (\<lambda>b. Some ([(''s'', JString b)], [])), render = (\<lambda>_. [])\<rparr>"

lemma bare_ParseBind:
  "ParseBind bare_json (BindPrefix @ demo_tok CHR ''2'') = Some (zero_bind\<lparr>SessionToken := demo_tok CHR ''2''\<rparr>)"
  by code_simp

theorem relay_cookie_required_witness:
  "core (step bare_json sample_crypto (Datagram 1 (demo_addr CHR ''x'') (BindPrefix @ demo_tok CHR ''2'')) demo_init) =
     core demo_init"
  using relay_cookie_required [OF bare_ParseBind, of sample_crypto 1 "demo_addr CHR ''x''" demo_init]
  by (simp add: validCookie_def zero_bind_def)

theorem relay_pairs_witness:
  "snd (forward 1 (demo_addr CHR ''x'') ''data''
     (fst (bindNetworkMode demo_json 0 (demo_addr CHR ''y'') (FromIP (IP (demo_addr CHR ''y''))) (demo_tok CHR ''2'')
       (fst (bindNetworkMode demo_json 0 (demo_addr CHR ''x'') (FromIP (IP (demo_addr CHR ''x''))) (demo_tok CHR ''2'')
         demo_init))))) = [(''data'', demo_addr CHR ''y'')]"
proof -
  have "addr_string (demo_addr CHR ''x'') \<noteq> addr_string (demo_addr CHR ''y'')"
    by (simp add: addr_string_def demo_addr_def To16_def)
  then show ?thesis
    using relay_pairs [OF _ _ _ _ _ refl refl, of demo_init "demo_tok CHR ''2''" "FromIP (IP (demo_addr CHR ''x''))"
        "FromIP (IP (demo_addr CHR ''y''))" "demo_addr CHR ''x''" "demo_addr CHR ''y''"]
    by (simp add: NewServer_def demo_cfg_def defaultMaxSessions_def defaultMaxLegsPerIP_def mcount_def)
qed

section \<open>One source in two sessions\<close>

definition alias_run :: "event list" where
  "alias_run = [demo_bind 0 CHR ''x'' CHR ''1'', demo_bind 0 CHR ''x'' CHR ''2'', demo_bind 0 CHR ''y'' CHR ''2'',
     demo_data (50 * second) CHR ''x'', demo_data (50 * second) CHR ''y'']"

definition alias_rl :: "acct limiter" where
  "alias_rl = (New 1000 50 8192 0)\<lparr>global := \<lparr>tokens = 1997, last = 0\<rparr>,
     perSrc := [(FromIP (IP (demo_addr CHR ''x'')), \<lparr>tokens = 98, last = 0\<rparr>), (FromIP (IP (demo_addr CHR ''y'')), \<lparr>tokens = 99, last = 0\<rparr>)]\<rparr>"

definition alias_paired :: session where
  "alias_paired = \<lparr>token = demo_tok CHR ''2'', legs = [demo_leg 1 CHR ''x'', demo_leg 2 CHR ''y''], paired = True, created = 0\<rparr>"

definition alias_before :: "bytes \<Rightarrow> server" where
  "alias_before key = (NewServer demo_cfg key 0)\<lparr>bindRL := alias_rl,
     sessions := [(demo_tok CHR ''1'', \<lparr>token = demo_tok CHR ''1'', legs = [demo_leg 0 CHR ''x''], paired = False, created = 0\<rparr>),
        (demo_tok CHR ''2'', alias_paired)],
     legsPerIP := [(FromIP (IP (demo_addr CHR ''x'')), 2), (FromIP (IP (demo_addr CHR ''y'')), 1)],
     byAddr := [(addr_string (demo_addr CHR ''x''), 1), (addr_string (demo_addr CHR ''y''), 2)],
     fwds := (\<lambda>_. \<lparr>peer = None, seen = 0\<rparr>)(0 := \<lparr>peer = None, seen = 0\<rparr>,
        1 := \<lparr>peer = Some (demo_addr CHR ''y''), seen = 50 * second\<rparr>, 2 := \<lparr>peer = Some (demo_addr CHR ''x''), seen = 50 * second\<rparr>),
     nextFwd := 3, statPaired := 1\<rparr>"

lemma alias_run_state: "run demo_json sample_crypto alias_run (NewServer demo_cfg key 0) = alias_before key"
  by (simp add: alias_run_def alias_before_def alias_rl_def demo_leg_def alias_paired_def demo_eval numeral_2_eq_2 numeral_3_eq_3)

lemma demo_neq:
  "addr_string (demo_addr CHR ''x'') \<noteq> addr_string (demo_addr CHR ''y'')"
  "FromIP (IP (demo_addr CHR ''x'')) \<noteq> FromIP (IP (demo_addr CHR ''y''))"
  by (simp_all add: demo_eval)

theorem relay_alias_blackhole_witness:
  "let s = run demo_json sample_crypto alias_run (NewServer demo_cfg [] 0) in
     snd (forward (60 * second) (demo_addr CHR ''x'') ''data'' s) = [(''data'', demo_addr CHR ''y'')] \<and>
     mget (sessions (reap (61 * second) s)) (demo_tok CHR ''2'') = Some alias_paired \<and>
     snd (forward (62 * second) (demo_addr CHR ''x'') ''data'' (reap (61 * second) s)) = []"
proof -
  let ?s = "run demo_json sample_crypto alias_run (NewServer demo_cfg [] 0)"
  let ?one = "\<lparr>token = demo_tok CHR ''1'', legs = [demo_leg 0 CHR ''x''], paired = False, created = 0\<rparr>"
  have a: "leg_addr (demo_leg i c) = demo_addr c" "leg_fwd (demo_leg i c) = i" for i c by (simp_all add: demo_leg_def)
  have "mget (sessions (reap (61 * second) ?s)) (demo_tok CHR ''2'') = Some alias_paired \<and>
      snd (forward (62 * second) (demo_addr CHR ''x'') ''data'' (reap (61 * second) ?s)) = []"
    using relay_alias_blackhole [OF refl, where es = alias_run and J = demo_json and C = sample_crypto and cfg = demo_cfg and key = "[]" and
        start = 0 and tokA = "demo_tok CHR ''1''" and sesA = ?one and legA = "demo_leg 0 CHR ''x''" and tokB = "demo_tok CHR ''2''" and
        sesB = alias_paired and legB = "demo_leg 1 CHR ''x''" and src = "demo_addr CHR ''x''" and now = "61 * second"]
    unfolding alias_run_state
    by (simp add: alias_before_def alias_paired_def idle_def a NewServer_def demo_cfg_def pendingPairTimeout_def second_def)
  moreover have "snd (forward (60 * second) (demo_addr CHR ''x'') ''data'' ?s) = [(''data'', demo_addr CHR ''y'')]"
    unfolding alias_run_state by (simp add: forward_def alias_before_def)
  ultimately show ?thesis by (simp add: Let_def)
qed

end
