(* ===== verification/GoText.thy ===== *)
theory GoText
  imports Stdlib
begin

text \<open>
  What the sources use of \<^verbatim>\<open>strings\<close> and \<^verbatim>\<open>bufio\<close> to read line-oriented files: white space,
  \<^verbatim>\<open>TrimSpace\<close>, \<^verbatim>\<open>Fields\<close>, \<^verbatim>\<open>Join\<close>, and the line scanner with its token limit.

  A string is its UTF-8 bytes. White space is recognised by the byte sequences of the
  code points with the Unicode property White_Space. No such sequence occurs inside
  another code point, because only continuation bytes follow a lead byte, so matching
  bytes agrees with decoding runes, also on invalid UTF-8.
\<close>

section \<open>White space\<close>

definition space1 :: "char \<Rightarrow> bool" where
  "space1 c = (let b = of_char c :: nat in b = 32 \<or> (9 \<le> b \<and> b \<le> 13))"

definition space2 :: "char \<Rightarrow> char \<Rightarrow> bool" where
  "space2 c d = (c = CHR 0xC2 \<and> (d = CHR 0x85 \<or> d = CHR 0xA0))"

definition space3 :: "char \<Rightarrow> char \<Rightarrow> char \<Rightarrow> bool" where
  "space3 c d e =
     (let b = of_char e :: nat in
      (c = CHR 0xE1 \<and> d = CHR 0x9A \<and> b = 0x80) \<or>
      (c = CHR 0xE2 \<and> d = CHR 0x80 \<and> ((0x80 \<le> b \<and> b \<le> 0x8A) \<or> b = 0xA8 \<or> b = 0xA9 \<or> b = 0xAF)) \<or>
      (c = CHR 0xE2 \<and> d = CHR 0x81 \<and> b = 0x9F) \<or>
      (c = CHR 0xE3 \<and> d = CHR 0x80 \<and> b = 0x80))"

text \<open>The string as a sequence of white space characters and other bytes.\<close>

fun units :: "bytes \<Rightarrow> (bool \<times> bytes) list" where
  "units [] = []"
| "units (c # s) =
     (if space1 c then (True, [c]) # units s
      else case s of
        [] \<Rightarrow> [(False, [c])]
      | d # s' \<Rightarrow>
          (if space2 c d then (True, [c, d]) # units s'
           else case s' of
             [] \<Rightarrow> (False, [c]) # units s
           | e # s'' \<Rightarrow>
               (if space3 c d e then (True, [c, d, e]) # units s'' else (False, [c]) # units s)))"

definition TrimSpace :: "bytes \<Rightarrow> bytes" where
  "TrimSpace s = concat (map snd (rev (dropWhile fst (rev (dropWhile fst (units s))))))"

fun split_fields :: "(bool \<times> bytes) list \<Rightarrow> bytes \<Rightarrow> bytes list" where
  "split_fields [] acc = (if acc = [] then [] else [acc])"
| "split_fields ((True, b) # us) acc = (if acc = [] then split_fields us [] else acc # split_fields us [])"
| "split_fields ((False, b) # us) acc = split_fields us (acc @ b)"

definition Fields :: "bytes \<Rightarrow> bytes list" where
  "Fields s = split_fields (units s) []"

fun Join :: "bytes list \<Rightarrow> bytes \<Rightarrow> bytes" where
  "Join [] sep = []"
| "Join [s] sep = s"
| "Join (s # t # ss) sep = s @ sep @ Join (t # ss) sep"

definition HasPrefix :: "bytes \<Rightarrow> bytes \<Rightarrow> bool" where
  "HasPrefix s p \<longleftrightarrow> take (length p) s = p"

definition hex_digit :: "nat \<Rightarrow> char" where
  "hex_digit n = (if n < 10 then char_of (48 + n) else char_of (87 + n))"

definition hex_encode :: "bytes \<Rightarrow> bytes" where
  "hex_encode s = concat (map (\<lambda>c. let n = of_char c :: nat in [hex_digit (n div 16), hex_digit (n mod 16)]) s)"

section \<open>Lines\<close>

text \<open>\<^verbatim>\<open>bufio.Scanner\<close> with \<^verbatim>\<open>ScanLines\<close>: the text between newlines, a last line without newline
  included, each without a trailing carriage return. A line of 64 KiB or more ends the
  scan with an error.\<close>

definition newline :: char where "newline = CHR 0x0A"
definition MaxScanTokenSize :: nat where "MaxScanTokenSize = 65536"

fun raw_lines :: "bytes \<Rightarrow> bytes \<Rightarrow> bytes list" where
  "raw_lines [] acc = (if acc = [] then [] else [acc])"
| "raw_lines (c # s) acc = (if c = newline then acc # raw_lines s [] else raw_lines s (acc @ [c]))"

definition dropCR :: "bytes \<Rightarrow> bytes" where
  "dropCR l = (if l \<noteq> [] \<and> List.last l = CHR 0x0D then butlast l else l)"

definition too_long :: "bytes \<Rightarrow> bool" where
  "too_long l \<longleftrightarrow> MaxScanTokenSize \<le> length l"

definition scan_lines :: "bytes \<Rightarrow> bytes list \<times> bool" where
  "scan_lines s =
     (let ls = raw_lines s [] in (map dropCR (takeWhile (\<lambda>l. \<not> too_long l) ls), list_ex too_long ls))"

section \<open>Lemmas\<close>

lemma raw_lines_acc_Nil_iff: "raw_lines s acc = [] \<longleftrightarrow> s = [] \<and> acc = []"
  by (induction s arbitrary: acc) auto

text \<open>Appending to a text that ends in a newline, or is empty, appends lines.\<close>

lemma raw_lines_append_nl: "raw_lines (s @ newline # t) acc = raw_lines (s @ [newline]) acc @ raw_lines t []"
  by (induction s arbitrary: acc) auto

lemma raw_lines_line: "newline \<notin> set l \<Longrightarrow> raw_lines (l @ newline # t) acc = (acc @ l) # raw_lines t []"
  by (induction l arbitrary: acc) auto

lemma raw_lines_single: "newline \<notin> set l \<Longrightarrow> raw_lines l acc = (if acc @ l = [] then [] else [acc @ l])"
  by (induction l arbitrary: acc) auto

lemma raw_lines_join:
  assumes "\<forall>l \<in> set ls. newline \<notin> set l"
  shows "raw_lines (concat (map (\<lambda>l. l @ [newline]) ls)) [] = ls"
  using assms by (induction ls) (simp_all add: raw_lines_line)

lemma raw_lines_no_newline: "newline \<notin> set acc \<Longrightarrow> l \<in> set (raw_lines s acc) \<Longrightarrow> newline \<notin> set l"
proof (induction s arbitrary: acc)
  case (Cons c s)
  then show ?case using Cons.IH [of "[]"] Cons.IH [of "acc @ [c]"] by (auto split: if_splits)
qed (simp split: if_splits)

lemma Join_newline: "ls \<noteq> [] \<Longrightarrow> Join ls [newline] @ [newline] = concat (map (\<lambda>l. l @ [newline]) ls)"
  by (induction ls "[newline]" rule: Join.induct) simp_all

lemma units_concat: "concat (map snd (units s)) = s"
  by (induction s rule: units.induct) (auto split: list.splits)

lemma split_fields_append_white:
  "split_fields (us @ (True, b) # vs) acc = split_fields us acc @ split_fields vs []"
  by (induction us acc rule: split_fields.induct) auto

text \<open>Bytes that never take part in white space, as the alphabet of base64.\<close>

definition plain_byte :: "char \<Rightarrow> bool" where
  "plain_byte c \<longleftrightarrow> \<not> space1 c \<and> c \<noteq> CHR 0xC2 \<and> c \<noteq> CHR 0xE1 \<and> c \<noteq> CHR 0xE2 \<and> c \<noteq> CHR 0xE3"

lemma units_plain: "plain_byte c \<Longrightarrow> units (c # s) = (False, [c]) # units s"
  by (auto simp: plain_byte_def space2_def space3_def Let_def split: list.split)

lemma split_fields_plain:
  "\<forall>c \<in> set k. plain_byte c \<Longrightarrow> split_fields (units (k @ s)) acc = split_fields (units s) (acc @ k)"
proof (induction k arbitrary: acc)
  case (Cons c k)
  then show ?case by (simp add: units_plain del: units.simps)
qed simp

lemma Fields_word: "\<forall>c \<in> set k. plain_byte c \<Longrightarrow> k \<noteq> [] \<Longrightarrow> Fields k = [k]"
  using split_fields_plain [of k "[]" "[]"] by (simp add: Fields_def)

lemma Fields_word_label:
  assumes "\<forall>c \<in> set k. plain_byte c" and "k \<noteq> []"
  shows "Fields (k @ CHR '' '' # s) = k # Fields s"
proof -
  have "units (CHR '' '' # s) = (True, '' '') # units s" by (simp add: space1_def)
  with assms show ?thesis by (simp add: Fields_def split_fields_plain)
qed

subsection \<open>Trimming does not change the fields\<close>

lemma units_Cons_cases:
  obtains (white) w s' where "units (c # s) = (True, w) # units s'" "c # s = w @ s'" "w \<noteq> []"
    "\<And>r. units (w @ r) = (True, w) # units r"
  | (byte) "units (c # s) = (False, [c]) # units s" "\<not> space1 c"
    "\<And>d r. s = d # r \<Longrightarrow> \<not> space2 c d" "\<And>d e r. s = d # e # r \<Longrightarrow> \<not> space3 c d e"
proof (cases "space1 c")
  case True
  then show thesis by (intro white [of "[c]" s]) simp_all
next
  case n1: False
  show thesis
  proof (cases "\<exists>d r. s = d # r \<and> (space2 c d \<or> (\<exists>e q. r = e # q \<and> space3 c d e))")
    case False
    then show thesis using n1 by (intro byte) (auto split: list.split)
  next
    case True
    then obtain d r where s: "s = d # r" and w: "space2 c d \<or> (\<exists>e q. r = e # q \<and> space3 c d e)" by blast
    show thesis
    proof (cases "space2 c d")
      case True
      then show thesis using n1 s by (intro white [of "[c, d]" r]) simp_all
    next
      case False
      with w obtain e q where "r = e # q" "space3 c d e" by blast
      then show thesis using n1 s False by (intro white [of "[c, d, e]" q]) simp_all
    qed
  qed
qed

lemma units_byte:
  assumes "\<not> space1 c" and "\<And>d r. w @ v = d # r \<Longrightarrow> \<not> space2 c d" and "\<And>d e r. w @ v = d # e # r \<Longrightarrow> \<not> space3 c d e"
  shows "units (c # w) = (False, [c]) # units w"
  using assms by (cases w; cases "tl w") auto

lemma units_prefix: "units s = us @ vs \<Longrightarrow> units (concat (map snd us)) = us"
proof (induction "length s" arbitrary: s us rule: less_induct)
  case less
  show ?case
  proof (cases us)
    case (Cons u us')
    then obtain c t where s: "s = c # t" using less.prems by (cases s) auto
    show ?thesis
    proof (cases rule: units_Cons_cases [of c t])
      case (white w s')
      then have "u = (True, w)" "units s' = us' @ vs" using less.prems s Cons by auto
      moreover have "length s' < length s" using white s by (metis length_append length_greater_0_conv less_add_same_cancel2)
      ultimately show ?thesis using less.hyps [of s' us'] white(4) Cons by simp
    next
      case byte
      then have u: "u = (False, [c])" "units t = us' @ vs" using less.prems s Cons by auto
      have IH: "units (concat (map snd us')) = us'" using less.hyps [of t us'] u(2) s by simp
      let ?w = "concat (map snd us')"
      have pre: "t = ?w @ concat (map snd vs)" using units_concat [of t] u(2) by simp
      have "units (c # ?w) = (False, [c]) # units ?w"
        using byte(2-4) unfolding pre by (rule units_byte)
      then show ?thesis using IH u(1) Cons by simp
    qed
  qed simp
qed

lemma units_suffix: "units s = us @ vs \<Longrightarrow> units (concat (map snd vs)) = vs"
proof (induction "length s" arbitrary: s us rule: less_induct)
  case less
  show ?case
  proof (cases us)
    case Nil
    then show ?thesis using less.prems units_concat [of s] by simp
  next
    case (Cons u us')
    then obtain c t where s: "s = c # t" using less.prems by (cases s) auto
    show ?thesis
    proof (cases rule: units_Cons_cases [of c t])
      case (white w s')
      then have "units s' = us' @ vs" using less.prems s Cons by auto
      moreover have "length s' < length s" using white s by (metis length_append length_greater_0_conv less_add_same_cancel2)
      ultimately show ?thesis using less.hyps by blast
    next
      case byte
      then have "units t = us' @ vs" using less.prems s Cons by auto
      then show ?thesis using less.hyps [of t us'] s by simp
    qed
  qed
qed

lemma units_TrimSpace: "units (TrimSpace s) = rev (dropWhile fst (rev (dropWhile fst (units s))))"
proof -
  let ?v = "dropWhile fst (units s)"
  have "units s = takeWhile fst (units s) @ ?v" by simp
  from units_suffix [OF this] have v: "units (concat (map snd ?v)) = ?v" .
  have "?v = rev (dropWhile fst (rev ?v)) @ rev (takeWhile fst (rev ?v))"
    by (metis rev_append rev_rev_ident takeWhile_dropWhile_id)
  with v units_prefix show ?thesis unfolding TrimSpace_def by metis
qed

lemma split_fields_drop_white: "split_fields (dropWhile fst us) [] = split_fields us []"
  by (induction us) auto

lemma split_fields_white_end: "\<forall>u \<in> set vs. fst u \<Longrightarrow> split_fields (us @ vs) acc = split_fields us acc"
proof (induction us acc rule: split_fields.induct)
  case (1 acc)
  then show ?case by (induction vs arbitrary: acc) auto
qed simp_all

lemma Fields_TrimSpace: "Fields (TrimSpace s) = Fields s"
proof -
  let ?v = "dropWhile fst (units s)"
  have "?v = rev (dropWhile fst (rev ?v)) @ rev (takeWhile fst (rev ?v))"
    by (metis rev_append rev_rev_ident takeWhile_dropWhile_id)
  moreover have "\<forall>u \<in> set (rev (takeWhile fst (rev ?v))). fst u" by (auto dest: set_takeWhileD)
  ultimately have "split_fields ?v [] = split_fields (rev (dropWhile fst (rev ?v))) []"
    using split_fields_white_end by metis
  then show ?thesis by (simp add: Fields_def units_TrimSpace split_fields_drop_white)
qed

lemma plain_ascii: "32 < (of_char c :: nat) \<Longrightarrow> (of_char c :: nat) < 127 \<Longrightarrow> plain_byte c"
  by (auto simp: plain_byte_def space1_def Let_def)

lemma units_plain_all: "\<forall>c \<in> set s. plain_byte c \<Longrightarrow> units s = map (\<lambda>c. (False, [c])) s"
  by (induction s) (simp_all add: units_plain del: units.simps(2))

lemma dropWhile_marked: "dropWhile fst (map (\<lambda>c. (False, [c])) s) = map (\<lambda>c. (False, [c])) s"
  by (cases s) simp_all

lemma TrimSpace_plain: "\<forall>c \<in> set s. plain_byte c \<Longrightarrow> TrimSpace s = s"
  by (simp add: TrimSpace_def units_plain_all dropWhile_marked rev_map comp_def)

end
