(* ===== verification/Authz.thy ===== *)
theory Authz
  imports GoText RateLimit Netkey "HOL-Library.List_Lexorder" "HOL-Library.Char_ord"
begin

text \<open>
  The client allowlist of the handshake server, \<^verbatim>\<open>internal/role/authz.go\<close>: the keys loaded from
  the allowlist file and the polling that reloads them, the two replay caches, the pending
  enrollments, and the admin commands that edit the file.

  The file system appears as what a call observes: the result of \<^verbatim>\<open>stat\<close> and the result of
  opening and reading the file, which a concurrent edit may make disagree. The zero
  \<^verbatim>\<open>time.Time\<close> is \<^const>\<open>None\<close>. Every call reads the clock once.
\<close>

section \<open>Constants and state\<close>

definition pendingTTL :: duration where "pendingTTL = 30 * 60 * second"
definition logDedupWindow :: duration where "logDedupWindow = 30 * second"
definition maxLoggedKeys :: nat where "maxLoggedKeys = 1024"
definition maxPending :: nat where "maxPending = 1024"
definition maxReplayRegs :: nat where "maxReplayRegs = 4096"
definition maxPreAuthRegs :: nat where "maxPreAuthRegs = 4096"
definition regSkew :: duration where "regSkew = 60 * second"
definition regReplayWindow :: duration where "regReplayWindow = 2 * regSkew"
definition maxAuthorizedKeys :: nat where "maxAuthorizedKeys = 1024"
definition statErrorWindow :: duration where "statErrorWindow = 5 * 60 * second"

record pendingEntry =
  Key :: bytes
  Seen :: time

record authorizer =
  keys :: "(bytes, bytes) gomap"
  mtime :: "time option"
  logged :: "(bytes, time) gomap"
  pend :: "(bytes, pendingEntry) gomap"
  recentRegs :: "(bytes, time) gomap"
  preAuthRegs :: "(bytes, time) gomap"
  approvedAt :: "(bytes, time option) gomap"
  missing :: bool
  lastStatWarn :: "time option"
  enroll :: "acct limiter"

section \<open>Reading the allowlist file\<close>

datatype io_error = NotExist | IOError | ScanError

datatype stat_result = StatMissing | StatFailed | StatOK time

datatype open_result = OpenMissing | OpenFailed | OpenFile bytes time

definition validPubKey :: "bytes \<Rightarrow> bool" where
  "validPubKey b64 = (case b64std_decode b64 of None \<Rightarrow> False | Some raw \<Rightarrow> length raw = PublicKeySize)"

text \<open>One line: the key and the label it names, or nothing for a blank line, a comment and an
  invalid key.\<close>

definition line_key :: "bytes \<Rightarrow> (bytes \<times> bytes) option" where
  "line_key l =
     (let line = TrimSpace l in
      if line = [] \<or> HasPrefix line ''#'' then None
      else case Fields line of
        [] \<Rightarrow> None
      | key # rest \<Rightarrow> if validPubKey key then Some (key, Join rest '' '') else None)"

text \<open>The loop over the lines. The flag tells that the loop stopped at the key limit.\<close>

fun read_keys :: "bytes list \<Rightarrow> (bytes, bytes) gomap \<Rightarrow> (bytes, bytes) gomap \<times> bool" where
  "read_keys [] m = (m, False)"
| "read_keys (l # ls) m =
     (case line_key l of
        None \<Rightarrow> read_keys ls m
      | Some (key, label) \<Rightarrow>
          (let m = mput key label m in
           if length m \<ge> maxAuthorizedKeys then (m, True) else read_keys ls m))"

definition readAuthorized :: "open_result \<Rightarrow> io_error + (bytes, bytes) gomap \<times> time" where
  "readAuthorized f =
     (case f of
        OpenMissing \<Rightarrow> Inl NotExist
      | OpenFailed \<Rightarrow> Inl IOError
      | OpenFile content mt \<Rightarrow>
          (let (ls, long) = scan_lines content; (m, stopped) = read_keys ls []
           in if long \<and> \<not> stopped then Inl ScanError else Inr (m, mt)))"

section \<open>Loading and polling\<close>

definition load :: "bool \<Rightarrow> time \<Rightarrow> open_result \<Rightarrow> authorizer \<Rightarrow> io_error + authorizer" where
  "load initial now f a =
     (case readAuthorized f of
        Inl NotExist \<Rightarrow> Inr (a\<lparr>keys := [], approvedAt := [], mtime := None, missing := True\<rparr>)
      | Inl e \<Rightarrow> Inl e
      | Inr (ks, mt) \<Rightarrow>
          Inr (a\<lparr>keys := ks,
                 approvedAt := map (\<lambda>(k, _). (k, if initial then None
                   else case mget (approvedAt a) k of Some was \<Rightarrow> was | None \<Rightarrow> Some now)) ks,
                 mtime := Some mt\<rparr>))"

definition newAuthorizer :: "time \<Rightarrow> open_result \<Rightarrow> io_error + authorizer" where
  "newAuthorizer now f =
     load True now f \<lparr>keys = [], mtime = None, logged = [], pend = [], recentRegs = [], preAuthRegs = [],
       approvedAt = [], missing = False, lastStatWarn = None, enroll = New 20 2 1024 now\<rparr>"

definition reload :: "time \<Rightarrow> open_result \<Rightarrow> authorizer \<Rightarrow> io_error + authorizer" where
  "reload now f a = load False now f a"

definition noteMissing :: "authorizer \<Rightarrow> authorizer" where
  "noteMissing a = a\<lparr>keys := [], mtime := None, missing := True\<rparr>"

definition noteStatError :: "time \<Rightarrow> authorizer \<Rightarrow> authorizer" where
  "noteStatError now a =
     (if (case lastStatWarn a of None \<Rightarrow> False | Some t \<Rightarrow> now - t < statErrorWindow) then a
      else a\<lparr>lastStatWarn := Some now\<rparr>)"

definition pollOnce :: "time \<Rightarrow> stat_result \<Rightarrow> open_result \<Rightarrow> authorizer \<Rightarrow> authorizer" where
  "pollOnce now st f a =
     (case st of
        StatMissing \<Rightarrow> noteMissing a
      | StatFailed \<Rightarrow> noteStatError now a
      | StatOK mt \<Rightarrow>
          (let changed = (Some mt \<noteq> mtime a); a = a\<lparr>missing := False\<rparr>
           in if \<not> changed then a
              else case reload now f a of Inl e \<Rightarrow> a | Inr a' \<Rightarrow> a'))"

definition allowed_key :: "authorizer \<Rightarrow> bytes \<Rightarrow> bool" where
  "allowed_key a pubkey \<longleftrightarrow> mget (keys a) pubkey \<noteq> None"

definition freshSinceApproval :: "authorizer \<Rightarrow> bytes \<Rightarrow> int \<Rightarrow> bool" where
  "freshSinceApproval a pubkey ts =
     (case mget (approvedAt a) pubkey of
        Some (Some t) \<Rightarrow> \<not> ts * second < t - second
      | _ \<Rightarrow> True)"

definition allowEnroll :: "time \<Rightarrow> acct \<Rightarrow> authorizer \<Rightarrow> bool \<times> authorizer" where
  "allowEnroll now src a = (let (ok, rl) = Allow now src (enroll a) in (ok, a\<lparr>enroll := rl\<rparr>))"

section \<open>Replay caches\<close>

definition regKey :: "bytes \<Rightarrow> bytes \<Rightarrow> bytes" where
  "regKey pubkey nonce = pubkey @ CHR 0x00 # nonce"

text \<open>The oldest entry, the first one in iteration order among equals.\<close>

definition older :: "'k \<times> time \<Rightarrow> ('k \<times> time) option \<Rightarrow> ('k \<times> time) option" where
  "older e acc = (case acc of None \<Rightarrow> Some e | Some e0 \<Rightarrow> if snd e < snd e0 then Some e else acc)"

definition oldest :: "('k, time) gomap \<Rightarrow> ('k \<times> time) option" where
  "oldest m = fold older m None"

definition evictOldest :: "('k, time) gomap \<Rightarrow> ('k, time) gomap" where
  "evictOldest m = (case oldest m of None \<Rightarrow> m | Some (k, t) \<Rightarrow> mdel k m)"

definition live_regs :: "time \<Rightarrow> ('k, time) gomap \<Rightarrow> ('k, time) gomap" where
  "live_regs now m = filter (\<lambda>(k, t). \<not> now - t \<ge> regReplayWindow) m"

definition pruneRegsLocked :: "time \<Rightarrow> authorizer \<Rightarrow> authorizer" where
  "pruneRegsLocked now a =
     a\<lparr>recentRegs := live_regs now (recentRegs a), preAuthRegs := live_regs now (preAuthRegs a)\<rparr>"

definition seen_recently :: "time \<Rightarrow> bytes \<Rightarrow> (bytes, time) gomap \<Rightarrow> bool" where
  "seen_recently now k m = (case mget m k of None \<Rightarrow> False | Some t \<Rightarrow> now - t < regReplayWindow)"

definition replayed :: "time \<Rightarrow> bytes \<Rightarrow> bytes \<Rightarrow> authorizer \<Rightarrow> bool \<times> authorizer" where
  "replayed now pubkey nonce a =
     (if pubkey = [] \<or> nonce = [] then (False, a)
      else let k = regKey pubkey nonce in
           if seen_recently now k (recentRegs a) then (True, a)
           else if seen_recently now k (preAuthRegs a) then (True, a)
           else let a = (if length (recentRegs a) \<ge> maxReplayRegs
                         then let a = pruneRegsLocked now a
                              in if length (recentRegs a) \<ge> maxReplayRegs
                                 then a\<lparr>recentRegs := evictOldest (recentRegs a)\<rparr> else a
                         else a)
                in (False, a\<lparr>recentRegs := mput k now (recentRegs a)\<rparr>))"

definition recordPreAuth :: "time \<Rightarrow> bytes \<Rightarrow> bytes \<Rightarrow> authorizer \<Rightarrow> authorizer" where
  "recordPreAuth now pubkey nonce a =
     (if pubkey = [] \<or> nonce = [] then a
      else let k = regKey pubkey nonce in
           if mget (preAuthRegs a) k \<noteq> None then a
           else let m = (if length (preAuthRegs a) \<ge> maxPreAuthRegs
                         then let m = live_regs now (preAuthRegs a)
                              in if length m \<ge> maxPreAuthRegs then evictOldest m else m
                         else preAuthRegs a)
                in a\<lparr>preAuthRegs := mput k now m\<rparr>)"

section \<open>Pending enrollments\<close>

definition pruneLoggedLocked :: "time \<Rightarrow> authorizer \<Rightarrow> authorizer" where
  "pruneLoggedLocked now a = a\<lparr>logged := filter (\<lambda>(k, t). \<not> now - t \<ge> logDedupWindow) (logged a)\<rparr>"

text \<open>The first component tells whether the line is written.\<close>

definition logPending :: "time \<Rightarrow> bytes \<Rightarrow> authorizer \<Rightarrow> bool \<times> authorizer" where
  "logPending now pubkey a =
     (if (case mget (logged a) pubkey of None \<Rightarrow> False | Some t \<Rightarrow> now - t < logDedupWindow) then (False, a)
      else let a = (if length (logged a) \<ge> maxLoggedKeys then pruneLoggedLocked now a else a)
           in if length (logged a) \<ge> maxLoggedKeys then (False, a)
              else (True, a\<lparr>logged := mput pubkey now (logged a)\<rparr>))"

text \<open>\<^verbatim>\<open>box.Open\<close> of \<^verbatim>\<open>golang.org/x/crypto/nacl\<close> under the key derived from the server identity
  is the parameter \<open>box_open\<close>: it takes the box, the nonce and the sender's key.\<close>

type_synonym box_open = "bytes \<Rightarrow> bytes \<Rightarrow> bytes \<Rightarrow> bytes option"

definition OpenCode :: "box_open \<Rightarrow> bytes \<Rightarrow> bytes option" where
  "OpenCode B enc =
     (case b64std_decode enc of
        None \<Rightarrow> None
      | Some raw \<Rightarrow>
          (if length raw < 32 + 24 + 16 then None
           else B (drop 56 raw) (take 24 (drop 32 raw)) (take 32 raw)))"

definition shortHash :: "crypto \<Rightarrow> bytes \<Rightarrow> bytes" where
  "shortHash C token = hex_encode (take 4 (sha256 C token))"

definition prunePendingLocked :: "time \<Rightarrow> authorizer \<Rightarrow> authorizer" where
  "prunePendingLocked now a = a\<lparr>pend := filter (\<lambda>(k, e). \<not> now - Seen e > pendingTTL) (pend a)\<rparr>"

text \<open>The update of the pending set for an opened code: a code pending for another key that is
  not approved is left alone; a new code needs room.\<close>

definition put_pending :: "time \<Rightarrow> bytes \<Rightarrow> bytes \<Rightarrow> authorizer \<Rightarrow> bool \<times> authorizer" where
  "put_pending now h key a =
     (case mget (pend a) h of
        Some e \<Rightarrow>
          (if Key e \<noteq> key \<and> mget (keys a) (Key e) = None then (False, a)
           else (Key e \<noteq> key, a\<lparr>pend := mput h \<lparr>Key = key, Seen = now\<rparr> (pend a)\<rparr>))
      | None \<Rightarrow>
          (let a = (if length (pend a) \<ge> maxPending then prunePendingLocked now a else a)
           in if length (pend a) \<ge> maxPending then (False, a)
              else (True, a\<lparr>pend := mput h \<lparr>Key = key, Seen = now\<rparr> (pend a)\<rparr>)))"

definition recordPending :: "crypto \<Rightarrow> box_open \<Rightarrow> time \<Rightarrow> bytes \<Rightarrow> bytes \<Rightarrow> authorizer \<Rightarrow> bool \<times> authorizer" where
  "recordPending C B now codeEnc key a =
     (if codeEnc = [] then (False, a)
      else case OpenCode B codeEnc of
        None \<Rightarrow> (False, a)
      | Some code \<Rightarrow> (if code = [] then (False, a) else put_pending now (shortHash C code) key a))"

section \<open>The admin commands\<close>

text \<open>The commands run under the file lock; \<open>locked\<close> tells whether it was obtained. The file
  is \<^const>\<open>None\<close> while it does not exist. Write errors of the operating system are not modelled.\<close>

datatype admin_result = BadKey | LockFailed | ReadError io_error | AlreadyApproved | Approved | NotInList | Revoked nat

definition file_open :: "bytes option \<Rightarrow> time \<Rightarrow> open_result" where
  "file_open f t = (case f of None \<Rightarrow> OpenMissing | Some content \<Rightarrow> OpenFile content t)"

definition ApproveKey :: "bool \<Rightarrow> bytes \<Rightarrow> bytes \<Rightarrow> bytes option \<Rightarrow> admin_result \<times> bytes option" where
  "ApproveKey locked key label f =
     (if \<not> validPubKey key then (BadKey, f)
      else if \<not> locked then (LockFailed, f)
      else let append = (Approved, Some ((case f of None \<Rightarrow> [] | Some c \<Rightarrow> c) @
                 (if label \<noteq> [] then key @ '' '' @ label else key) @ [newline]))
           in case readAuthorized (file_open f 0) of
                Inl NotExist \<Rightarrow> append
              | Inl e \<Rightarrow> (ReadError e, f)
              | Inr (ks, _) \<Rightarrow> (if mget ks key \<noteq> None then (AlreadyApproved, f) else append))"

definition revokes :: "bytes \<Rightarrow> bytes \<Rightarrow> bool" where
  "revokes key line \<longleftrightarrow> (case Fields (TrimSpace line) of [] \<Rightarrow> False | k # _ \<Rightarrow> k = key)"

definition RevokeKey :: "bool \<Rightarrow> bytes \<Rightarrow> bytes option \<Rightarrow> admin_result \<times> bytes option" where
  "RevokeKey locked key f =
     (if \<not> locked then (LockFailed, f)
      else case f of
        None \<Rightarrow> (ReadError NotExist, f)
      | Some content \<Rightarrow>
          (let (ls, long) = scan_lines content;
               kept = filter (\<lambda>l. \<not> revokes key l) ls;
               removed = length (filter (revokes key) ls)
           in if long then (ReadError ScanError, f)
              else if removed = 0 then (NotInList, f)
              else let out = Join kept [newline]
                   in (Revoked removed, Some (if out \<noteq> [] then out @ [newline] else out))))"

definition ListKeys :: "open_result \<Rightarrow> io_error + (bytes \<times> bytes) list" where
  "ListKeys f =
     (case readAuthorized f of
        Inl NotExist \<Rightarrow> Inr []
      | Inl e \<Rightarrow> Inl e
      | Inr (ks, _) \<Rightarrow> Inr (map (\<lambda>k. (k, case mget ks k of None \<Rightarrow> [] | Some l \<Rightarrow> l)) (sort (map fst ks))))"

end
