(* ===== verification/AuthzProps.thy ===== *)
theory AuthzProps
  imports Authz
begin

text \<open>
  Correctness of the allowlist: every table stays bounded; a registration seen once is
  recognised for the replay window, before and after its key is approved, unless the cache
  is overrun; strangers cannot touch the entries of approved keys; polling fails closed;
  and what approving and revoking do to the file.
\<close>

section \<open>Eviction\<close>

lemma fold_older:
  assumes "fold older m acc = r" and "m \<noteq> [] \<or> acc \<noteq> None"
  shows "\<exists>e. r = Some e \<and> (e \<in> set m \<or> acc = Some e) \<and> (\<forall>e' \<in> set m. snd e \<le> snd e') \<and>
    (\<forall>e'. acc = Some e' \<longrightarrow> snd e \<le> snd e')"
  using assms
proof (induction m arbitrary: acc)
  case (Cons x m)
  have ne: "older x acc \<noteq> None" by (auto simp: older_def split: option.split)
  from Cons.IH [of "older x acc"] Cons.prems(1) ne obtain e where
    e: "r = Some e" "e \<in> set m \<or> older x acc = Some e" "\<forall>e' \<in> set m. snd e \<le> snd e'"
      "\<forall>e'. older x acc = Some e' \<longrightarrow> snd e \<le> snd e'" by auto
  then show ?case by (cases x) (auto simp: older_def split: option.splits if_splits)
qed auto

lemma oldest_min: "m \<noteq> [] \<Longrightarrow> \<exists>e. oldest m = Some e \<and> e \<in> set m \<and> (\<forall>e' \<in> set m. snd e \<le> snd e')"
  using fold_older [of m None "oldest m"] by (auto simp: oldest_def)

lemma evictOldest_gomap: "gomap m \<Longrightarrow> gomap (evictOldest m)"
  by (auto simp: evictOldest_def gomap_simps split: option.split)

lemma length_evictOldest:
  assumes "m \<noteq> []"
  shows "length (evictOldest m) < length m"
proof -
  obtain e where e: "oldest m = Some e" "e \<in> set m" using oldest_min [OF assms] by blast
  then have "fst e \<in> mkeys m" by simp
  then have "length (mdel (fst e) m) < length m"
    unfolding AList.delete_eq by (intro length_filter_less [of "(fst e, snd e)"]) (use e in auto)
  with e show ?thesis by (cases e) (simp add: evictOldest_def)
qed

text \<open>The entries that are at least as recent as a given moment, a given key aside. An entry
  is evicted only when the whole rest of a full table is at least as recent.\<close>

definition younger :: "'k \<Rightarrow> time \<Rightarrow> ('k, time) gomap \<Rightarrow> nat" where
  "younger k t m = length (filter (\<lambda>(k', t'). k' \<noteq> k \<and> t \<le> t') m)"

lemma younger_filter_le: "younger k t (filter P m) \<le> younger k t m"
  unfolding younger_def by (induction m) auto

lemma younger_mdel_le: "younger k t (mdel k' m) \<le> younger k t m"
  unfolding younger_def AList.delete_eq by (induction m) auto

lemma younger_mput_le: "younger k t (mput k' t' m) \<le> Suc (younger k t m)"
  unfolding younger_def by (induction m) auto

lemma younger_mput_same: "younger k t (mput k t' m) = younger k t m"
  unfolding younger_def by (induction m) auto

lemma younger_le_length: "younger k t m \<le> length (filter (\<lambda>(k', t'). t \<le> t') m)"
  unfolding younger_def by (induction m) auto

lemma younger_all:
  "gomap m \<Longrightarrow> (k, t) \<in> set m \<Longrightarrow> \<forall>e \<in> set m. t \<le> snd e \<Longrightarrow> Suc (younger k t m) = length m"
proof (induction m)
  case (Cons e m)
  have full: "younger k t m = length m" if "k \<notin> mkeys m" "\<forall>e \<in> set m. t \<le> snd e" for m :: "('a, time) gomap"
    using that unfolding younger_def by (induction m) auto
  show ?case
  proof (cases "e = (k, t)")
    case True
    then have "k \<notin> mkeys m" using Cons.prems(1) by auto
    then show ?thesis using True Cons.prems full [of m] by (simp add: younger_def)
  next
    case False
    then have "(k, t) \<in> set m" using Cons.prems(2) by auto
    then have "k \<in> mkeys m" by (metis fst_conv image_eqI)
    then have "fst e \<noteq> k" using Cons.prems(1) by auto
    then show ?thesis using Cons \<open>(k, t) \<in> set m\<close> by (auto simp: younger_def split: prod.splits)
  qed
qed simp

lemma evictOldest_keeps:
  assumes "gomap m" and "(k, t) \<in> set m" and "Suc (younger k t m) < length m"
  shows "(k, t) \<in> set (evictOldest m)"
proof -
  obtain e where e: "oldest m = Some e" "e \<in> set m" "\<forall>e' \<in> set m. snd e \<le> snd e'"
    using oldest_min [of m] assms(2) by (metis empty_iff empty_set)
  have "fst e \<noteq> k"
  proof
    assume "fst e = k"
    then have "e = (k, t)" using e(2) assms(1,2) by (metis map_of_is_SomeI option.inject prod.collapse)
    with e(3) younger_all [OF assms(1,2)] assms(3) show False by simp
  qed
  with e assms(2) show ?thesis by (cases e) (auto simp: evictOldest_def AList.delete_eq)
qed

lemma live_regs_gomap: "gomap m \<Longrightarrow> gomap (live_regs now m)"
  by (simp add: live_regs_def gomap_filter)

lemma live_regs_keeps: "(k, t) \<in> set m \<Longrightarrow> now - t < regReplayWindow \<Longrightarrow> (k, t) \<in> set (live_regs now m)"
  by (simp add: live_regs_def)

lemma length_live_regs: "length (live_regs now m) \<le> length m"
  by (simp add: live_regs_def)

lemma younger_live_regs: "younger k t (live_regs now m) \<le> younger k t m"
  unfolding live_regs_def by (rule younger_filter_le)

lemma younger_evict: "younger k t (evictOldest m) \<le> younger k t m"
  by (auto simp: evictOldest_def younger_mdel_le split: option.split)

section \<open>The interface of an aging cache\<close>

text \<open>
  A table of first sightings inside a larger state. The provider promises that no event
  forgets a sighting within the window, unless it adds to a table whose other entries are
  all at least as recent, and that an event adds at most one entry. A client then knows
  how long a sighting is remembered whatever else happens.
\<close>

locale aging_cache =
  fixes step :: "'e \<Rightarrow> 's \<Rightarrow> 's"
    and table :: "'s \<Rightarrow> ('k, time) gomap"
    and etime :: "'e \<Rightarrow> time"
    and adds :: "'e \<Rightarrow> bool"
    and wf :: "'s \<Rightarrow> bool"
    and cap :: nat
    and window :: duration
  assumes wf_step: "wf s \<Longrightarrow> wf (step e s)"
    and wf_gomap: "wf s \<Longrightarrow> gomap (table s)"
    and remembers: "wf s \<Longrightarrow> mget (table s) k = Some t \<Longrightarrow> t \<le> etime e \<Longrightarrow> etime e - t < window \<Longrightarrow>
      adds e \<longrightarrow> Suc (younger k t (table s)) < cap \<Longrightarrow> mget (table (step e s)) k = Some t"
    and adds_one: "wf s \<Longrightarrow> younger k t (table (step e s)) \<le> younger k t (table s) + (if adds e then 1 else 0)"
begin

lemma remembers_run:
  assumes "wf s" and "mget (table s) k = Some t" and "\<forall>e \<in> set es. t \<le> etime e \<and> etime e - t < window"
    and "younger k t (table s) + length (filter adds es) < cap"
  shows "mget (table (fold step es s)) k = Some t"
  using assms
proof (induction es arbitrary: s)
  case (Cons e es)
  have "mget (table (step e s)) k = Some t"
    using Cons.prems by (intro remembers) auto
  moreover have "younger k t (table (step e s)) + length (filter adds es) < cap"
    using adds_one [OF Cons.prems(1), of k t e] Cons.prems(4) by (auto split: if_splits)
  ultimately show ?case using Cons.IH [OF wf_step [OF Cons.prems(1)]] Cons.prems(3) by simp
qed simp

end

section \<open>Events\<close>

datatype authz_event = Reg time bytes bytes | PreAuth time bytes bytes | LogPend time bytes
  | Pend time bytes bytes | Enroll time acct | Poll time stat_result open_result

fun authz_step :: "crypto \<Rightarrow> box_open \<Rightarrow> authz_event \<Rightarrow> authorizer \<Rightarrow> authorizer" where
  "authz_step C B (Reg now pk nonce) a = snd (replayed now pk nonce a)"
| "authz_step C B (PreAuth now pk nonce) a = recordPreAuth now pk nonce a"
| "authz_step C B (LogPend now pk) a = snd (logPending now pk a)"
| "authz_step C B (Pend now enc pk) a = snd (recordPending C B now enc pk a)"
| "authz_step C B (Enroll now src) a = snd (allowEnroll now src a)"
| "authz_step C B (Poll now st f) a = pollOnce now st f a"

fun etime :: "authz_event \<Rightarrow> time" where
  "etime (Reg now pk nonce) = now"
| "etime (PreAuth now pk nonce) = now"
| "etime (LogPend now pk) = now"
| "etime (Pend now enc pk) = now"
| "etime (Enroll now src) = now"
| "etime (Poll now st f) = now"

fun is_Reg :: "authz_event \<Rightarrow> bool" where
  "is_Reg (Reg now pk nonce) = True"
| "is_Reg e = False"

fun is_PreAuth :: "authz_event \<Rightarrow> bool" where
  "is_PreAuth (PreAuth now pk nonce) = True"
| "is_PreAuth e = False"

section \<open>Everything stays bounded\<close>

definition authz_inv :: "authorizer \<Rightarrow> bool" where
  "authz_inv a \<longleftrightarrow> gomap (keys a) \<and> length (keys a) \<le> maxAuthorizedKeys \<and> (\<forall>k \<in> mkeys (keys a). validPubKey k) \<and>
     length (approvedAt a) \<le> maxAuthorizedKeys \<and> mkeys (keys a) \<subseteq> mkeys (approvedAt a) \<and>
     gomap (logged a) \<and> length (logged a) \<le> maxLoggedKeys \<and> gomap (pend a) \<and> length (pend a) \<le> maxPending \<and>
     gomap (recentRegs a) \<and> length (recentRegs a) \<le> maxReplayRegs \<and>
     gomap (preAuthRegs a) \<and> length (preAuthRegs a) \<le> maxPreAuthRegs \<and> lim_wf (enroll a)"

text \<open>Making room in a full cache: prune, then evict.\<close>

definition make_room :: "nat \<Rightarrow> time \<Rightarrow> ('k, time) gomap \<Rightarrow> ('k, time) gomap" where
  "make_room cap now m =
     (if length m \<ge> cap then let m = live_regs now m in if length m \<ge> cap then evictOldest m else m else m)"

lemma make_room_gomap: "gomap m \<Longrightarrow> gomap (make_room cap now m)"
  by (simp add: make_room_def Let_def live_regs_gomap evictOldest_gomap)

lemma make_room_length:
  assumes "length m \<le> cap" and "0 < cap"
  shows "length (make_room cap now m) < cap"
proof (cases "length m \<ge> cap \<and> length (live_regs now m) \<ge> cap")
  case True
  then have "live_regs now m \<noteq> []" using assms(2) by auto
  from length_evictOldest [OF this] have "length (evictOldest (live_regs now m)) < cap"
    using assms(1) length_live_regs [of now m] by linarith
  moreover have "make_room cap now m = evictOldest (live_regs now m)" using True by (simp add: make_room_def Let_def)
  ultimately show ?thesis by metis
qed (auto simp: make_room_def Let_def)

lemma make_room_keeps:
  assumes "gomap m" and "length m \<le> cap" and "mget m k = Some t" and "now - t < regReplayWindow"
    and "Suc (younger k t m) < cap"
  shows "mget (make_room cap now m) k = Some t"
proof -
  let ?l = "live_regs now m"
  have l: "(k, t) \<in> set ?l" using mget_in_set [OF assms(3)] assms(4) by (rule live_regs_keeps)
  have g: "gomap ?l" "gomap (evictOldest ?l)" using assms(1) by (simp_all add: live_regs_gomap evictOldest_gomap)
  have "(k, t) \<in> set (evictOldest ?l)" if "length ?l \<ge> cap"
    using evictOldest_keeps [OF g(1) l] younger_live_regs [of k t now m] assms(5) that by linarith
  then have "length ?l \<ge> cap \<Longrightarrow> mget (evictOldest ?l) k = Some t" using set_mget [OF g(2)] by blast
  moreover have "mget ?l k = Some t" using set_mget [OF g(1) l] .
  ultimately show ?thesis using assms(3) by (simp add: make_room_def Let_def)
qed

lemma younger_make_room: "younger k t (make_room cap now m) \<le> younger k t m"
  using younger_evict [of k t "live_regs now m"] younger_live_regs [of k t now m]
  by (auto simp: make_room_def Let_def)

lemma younger_insert: "younger k t (mput k' t' (make_room cap now m)) \<le> Suc (younger k t m)"
  by (rule order_trans [OF younger_mput_le]) (simp add: younger_make_room)

text \<open>The two caches in terms of it.\<close>

lemma replayed_recent:
  "recentRegs (snd (replayed now pk nonce a)) =
     (if pk = [] \<or> nonce = [] \<or> fst (replayed now pk nonce a) then recentRegs a
      else mput (regKey pk nonce) now (make_room maxReplayRegs now (recentRegs a)))"
  by (simp add: replayed_def make_room_def pruneRegsLocked_def Let_def)

lemma replayed_pre:
  "preAuthRegs (snd (replayed now pk nonce a)) = preAuthRegs a \<or>
   preAuthRegs (snd (replayed now pk nonce a)) = live_regs now (preAuthRegs a)"
  by (simp add: replayed_def pruneRegsLocked_def Let_def)

lemma recordPreAuth_pre:
  "preAuthRegs (recordPreAuth now pk nonce a) =
     (if pk = [] \<or> nonce = [] \<or> mget (preAuthRegs a) (regKey pk nonce) \<noteq> None then preAuthRegs a
      else mput (regKey pk nonce) now (make_room maxPreAuthRegs now (preAuthRegs a)))"
  by (simp add: recordPreAuth_def make_room_def Let_def)

section \<open>What each operation leaves alone\<close>

lemma replayed_frame [simp]:
  "keys (snd (replayed now pk nonce a)) = keys a" "approvedAt (snd (replayed now pk nonce a)) = approvedAt a"
  "logged (snd (replayed now pk nonce a)) = logged a" "pend (snd (replayed now pk nonce a)) = pend a"
  "enroll (snd (replayed now pk nonce a)) = enroll a"
  by (simp_all add: replayed_def pruneRegsLocked_def Let_def)

lemma recordPreAuth_frame [simp]:
  "keys (recordPreAuth now pk nonce a) = keys a" "approvedAt (recordPreAuth now pk nonce a) = approvedAt a"
  "logged (recordPreAuth now pk nonce a) = logged a" "pend (recordPreAuth now pk nonce a) = pend a"
  "enroll (recordPreAuth now pk nonce a) = enroll a" "recentRegs (recordPreAuth now pk nonce a) = recentRegs a"
  by (simp_all add: recordPreAuth_def Let_def)

lemma logPending_frame [simp]:
  "keys (snd (logPending now pk a)) = keys a" "approvedAt (snd (logPending now pk a)) = approvedAt a"
  "pend (snd (logPending now pk a)) = pend a" "enroll (snd (logPending now pk a)) = enroll a"
  "recentRegs (snd (logPending now pk a)) = recentRegs a" "preAuthRegs (snd (logPending now pk a)) = preAuthRegs a"
  by (simp_all add: logPending_def pruneLoggedLocked_def Let_def)

lemma put_pending_frame:
  "keys (snd (put_pending now h pk a)) = keys a" "approvedAt (snd (put_pending now h pk a)) = approvedAt a"
  "logged (snd (put_pending now h pk a)) = logged a" "enroll (snd (put_pending now h pk a)) = enroll a"
  "recentRegs (snd (put_pending now h pk a)) = recentRegs a"
  "preAuthRegs (snd (put_pending now h pk a)) = preAuthRegs a"
  by (simp_all add: put_pending_def prunePendingLocked_def Let_def split: option.split)

lemma put_pending_bounded:
  assumes "gomap (pend a)" and "length (pend a) \<le> maxPending"
  shows "gomap (pend (snd (put_pending now h pk a))) \<and> length (pend (snd (put_pending now h pk a))) \<le> maxPending"
proof (cases "mget (pend a) h")
  case None
  have "length (filter P (pend a)) \<le> maxPending" for P
    using assms(2) length_filter_le [of P "pend a"] by linarith
  with None assms show ?thesis
    by (auto simp: put_pending_def prunePendingLocked_def gomap_simps Let_def intro: Suc_leI le_antisym)
next
  case (Some e)
  then have "h \<in> mkeys (pend a)" by (metis mget_None_iff option.distinct(1))
  with Some assms show ?thesis by (simp add: put_pending_def gomap_simps)
qed

lemma recordPending_frame [simp]:
  "keys (snd (recordPending C B now enc pk a)) = keys a"
  "approvedAt (snd (recordPending C B now enc pk a)) = approvedAt a"
  "logged (snd (recordPending C B now enc pk a)) = logged a" "enroll (snd (recordPending C B now enc pk a)) = enroll a"
  "recentRegs (snd (recordPending C B now enc pk a)) = recentRegs a"
  "preAuthRegs (snd (recordPending C B now enc pk a)) = preAuthRegs a"
  by (simp_all add: recordPending_def put_pending_frame split: option.split)

lemma allowEnroll_frame [simp]:
  "keys (snd (allowEnroll now src a)) = keys a" "approvedAt (snd (allowEnroll now src a)) = approvedAt a"
  "logged (snd (allowEnroll now src a)) = logged a" "pend (snd (allowEnroll now src a)) = pend a"
  "recentRegs (snd (allowEnroll now src a)) = recentRegs a" "preAuthRegs (snd (allowEnroll now src a)) = preAuthRegs a"
  by (simp_all add: allowEnroll_def split: prod.split)

lemma pollOnce_frame [simp]:
  "logged (pollOnce now st f a) = logged a" "pend (pollOnce now st f a) = pend a"
  "recentRegs (pollOnce now st f a) = recentRegs a" "preAuthRegs (pollOnce now st f a) = preAuthRegs a"
  "enroll (pollOnce now st f a) = enroll a"
  by (auto simp: pollOnce_def noteMissing_def noteStatError_def reload_def load_def Let_def
      split: stat_result.split sum.split io_error.split)

section \<open>The file on the way in\<close>

lemma read_keys_ok:
  "gomap m \<Longrightarrow> length m < maxAuthorizedKeys \<Longrightarrow> \<forall>k \<in> mkeys m. validPubKey k \<Longrightarrow> read_keys ls m = (m', b) \<Longrightarrow>
   gomap m' \<and> length m' \<le> maxAuthorizedKeys \<and> (\<forall>k \<in> mkeys m'. validPubKey k)"
proof (induction ls arbitrary: m)
  case (Cons l ls)
  show ?case
  proof (cases "line_key l")
    case None
    with Cons show ?thesis by simp
  next
    case (Some e)
    obtain k lab where e: "e = (k, lab)" by (cases e)
    let ?m = "mput k lab m"
    have "validPubKey k" using Some by (auto simp: e line_key_def Let_def split: if_splits list.splits)
    then have ok: "gomap ?m" "\<forall>k \<in> mkeys ?m. validPubKey k" "length ?m \<le> maxAuthorizedKeys"
      using Cons.prems(1-3) length_mput_le [of k lab m] by (auto simp: gomap_simps)
    show ?thesis
    proof (cases "length ?m \<ge> maxAuthorizedKeys")
      case True
      then have "m' = ?m" using Cons.prems(4) Some by (simp add: e Let_def)
      with ok show ?thesis by blast
    next
      case False
      then have "read_keys ls ?m = (m', b)" "length ?m < maxAuthorizedKeys"
        using Cons.prems(4) Some by (simp_all add: e Let_def)
      from Cons.IH [OF ok(1) this(2) ok(2) this(1)] show ?thesis .
    qed
  qed
qed simp

lemma readAuthorized_ok:
  assumes "readAuthorized f = Inr (ks, mt)"
  shows "gomap ks" "length ks \<le> maxAuthorizedKeys" "\<forall>k \<in> mkeys ks. validPubKey k"
proof -
  from assms obtain content ls long b where "scan_lines content = (ls, long)" "read_keys ls [] = (ks, b)"
    by (auto simp: readAuthorized_def Let_def split: open_result.splits prod.splits if_splits)
  with read_keys_ok [of "[]" ls ks b] show "gomap ks" "length ks \<le> maxAuthorizedKeys" "\<forall>k \<in> mkeys ks. validPubKey k"
    by (simp_all add: maxAuthorizedKeys_def)
qed

section \<open>Preservation\<close>

lemma load_inv:
  assumes "authz_inv a" and "load initial now f a = Inr a'"
  shows "authz_inv a'"
proof (cases "readAuthorized f")
  case (Inl e)
  with assms show ?thesis by (cases e) (auto simp: load_def authz_inv_def)
next
  case (Inr r)
  obtain ks mt where r: "r = (ks, mt)" by (cases r)
  let ?ap = "map (\<lambda>(k, _). (k, if initial then None
      else case mget (approvedAt a) k of Some was \<Rightarrow> was | None \<Rightarrow> Some now)) ks"
  have "fst ` set ?ap = mkeys ks" by force
  moreover have "a' = a\<lparr>keys := ks, approvedAt := ?ap, mtime := Some mt\<rparr>" using assms(2) Inr by (simp add: load_def r)
  ultimately show ?thesis
    using assms(1) readAuthorized_ok [OF Inr [unfolded r]] by (simp add: authz_inv_def)
qed

lemma pollOnce_inv:
  assumes "authz_inv a"
  shows "authz_inv (pollOnce now st f a)"
proof (cases st)
  case (StatOK mt)
  let ?a = "a\<lparr>missing := False\<rparr>"
  have "authz_inv ?a" using assms by (simp add: authz_inv_def)
  then show ?thesis
    using StatOK load_inv [of ?a False now f]
    by (cases "reload now f ?a") (simp_all add: pollOnce_def reload_def Let_def)
qed (use assms in \<open>simp_all add: pollOnce_def noteMissing_def noteStatError_def authz_inv_def\<close>)

lemma replayed_inv: "authz_inv a \<Longrightarrow> authz_inv (snd (replayed now pk nonce a))"
proof -
  assume a: "authz_inv a"
  have "gomap (recentRegs (snd (replayed now pk nonce a)))"
    using a by (simp add: replayed_recent authz_inv_def gomap_mput make_room_gomap)
  moreover have "length (recentRegs (snd (replayed now pk nonce a))) \<le> maxReplayRegs"
    using a make_room_length [of "recentRegs a" maxReplayRegs now]
    by (auto simp: replayed_recent authz_inv_def maxReplayRegs_def length_mput)
  moreover have "gomap (preAuthRegs (snd (replayed now pk nonce a)))"
    "length (preAuthRegs (snd (replayed now pk nonce a))) \<le> maxPreAuthRegs"
    using a replayed_pre [of now pk nonce a] length_live_regs [of now "preAuthRegs a"]
    by (auto simp: authz_inv_def live_regs_gomap)
  ultimately show ?thesis using a by (simp add: authz_inv_def)
qed

lemma recordPreAuth_inv: "authz_inv a \<Longrightarrow> authz_inv (recordPreAuth now pk nonce a)"
proof -
  assume a: "authz_inv a"
  have "gomap (preAuthRegs (recordPreAuth now pk nonce a))"
    using a by (simp add: recordPreAuth_pre authz_inv_def gomap_mput make_room_gomap)
  moreover have "length (preAuthRegs (recordPreAuth now pk nonce a)) \<le> maxPreAuthRegs"
    using a make_room_length [of "preAuthRegs a" maxPreAuthRegs now]
    by (auto simp: recordPreAuth_pre authz_inv_def maxPreAuthRegs_def length_mput)
  ultimately show ?thesis using a by (simp add: authz_inv_def)
qed

lemma logPending_inv: "authz_inv a \<Longrightarrow> authz_inv (snd (logPending now pk a))"
proof -
  assume a: "authz_inv a"
  then have "length (logged a) \<le> maxLoggedKeys" by (simp add: authz_inv_def)
  then have "length (filter P (logged a)) \<le> maxLoggedKeys" for P by (rule order_trans [OF length_filter_le])
  then have "gomap (logged (snd (logPending now pk a))) \<and> length (logged (snd (logPending now pk a))) \<le> maxLoggedKeys"
    using a by (auto simp: logPending_def pruneLoggedLocked_def authz_inv_def gomap_simps Let_def
        intro: Suc_leI le_antisym split: option.split)
  with a show ?thesis by (simp add: authz_inv_def)
qed

lemma recordPending_inv: "authz_inv a \<Longrightarrow> authz_inv (snd (recordPending C B now enc pk a))"
proof -
  assume a: "authz_inv a"
  then have "gomap (pend (snd (recordPending C B now enc pk a))) \<and>
      length (pend (snd (recordPending C B now enc pk a))) \<le> maxPending"
    using put_pending_bounded [of a] by (auto simp: recordPending_def authz_inv_def split: option.split)
  with a show ?thesis by (simp add: authz_inv_def)
qed

lemma authz_step_inv: "authz_inv a \<Longrightarrow> authz_inv (authz_step C B e a)"
proof (cases e)
  case (Enroll now src)
  assume "authz_inv a"
  with Enroll Allow_wf [of "enroll a" now src] show ?thesis
    by (auto simp: authz_inv_def allowEnroll_def split: prod.split)
qed (simp_all add: replayed_inv recordPreAuth_inv logPending_inv recordPending_inv pollOnce_inv)

interpretation authz: stepwise "authz_step C B" authz_inv "\<lambda>_. True"
  for C B
  by unfold_locales (rule authz_step_inv)

interpretation recent: aging_cache "authz_step C B" recentRegs etime is_Reg authz_inv maxReplayRegs regReplayWindow
  for C B
proof
  fix a k t e
  assume a: "authz_inv a"
  have g: "gomap (recentRegs a)" "length (recentRegs a) \<le> maxReplayRegs" using a by (simp_all add: authz_inv_def)
  show "younger k t (recentRegs (authz_step C B e a)) \<le> younger k t (recentRegs a) + (if is_Reg e then 1 else 0)"
    by (cases e) (auto simp: replayed_recent younger_insert)
  assume k: "mget (recentRegs a) k = Some t" and "t \<le> etime e" and w: "etime e - t < regReplayWindow"
    and y: "is_Reg e \<longrightarrow> Suc (younger k t (recentRegs a)) < maxReplayRegs"
  show "mget (recentRegs (authz_step C B e a)) k = Some t"
  proof (cases e)
    case (Reg now pk nonce)
    have "mget (make_room maxReplayRegs now (recentRegs a)) k = Some t"
      using make_room_keeps [OF g k] w y Reg by simp
    moreover have "\<not> fst (replayed now pk nonce a) \<Longrightarrow> pk \<noteq> [] \<Longrightarrow> nonce \<noteq> [] \<Longrightarrow> regKey pk nonce \<noteq> k"
      using k w Reg by (auto simp: replayed_def seen_recently_def Let_def split: if_splits)
    ultimately show ?thesis using Reg k by (auto simp: replayed_recent mget_mput)
  qed (use k in simp_all)
qed (simp_all add: authz_step_inv, simp add: authz_inv_def)

interpretation preauth: aging_cache "authz_step C B" preAuthRegs etime is_PreAuth authz_inv maxPreAuthRegs regReplayWindow
  for C B
proof
  fix a k t e
  assume a: "authz_inv a"
  have g: "gomap (preAuthRegs a)" "length (preAuthRegs a) \<le> maxPreAuthRegs" using a by (simp_all add: authz_inv_def)
  have r: "younger k t (preAuthRegs (snd (replayed now pk nonce a))) \<le> younger k t (preAuthRegs a)" for now pk nonce
    using replayed_pre [of now pk nonce a] younger_live_regs [of k t now "preAuthRegs a"] by auto
  show "younger k t (preAuthRegs (authz_step C B e a)) \<le> younger k t (preAuthRegs a) + (if is_PreAuth e then 1 else 0)"
    by (cases e) (auto simp: recordPreAuth_pre younger_insert r)
  assume k: "mget (preAuthRegs a) k = Some t" and "t \<le> etime e" and w: "etime e - t < regReplayWindow"
    and y: "is_PreAuth e \<longrightarrow> Suc (younger k t (preAuthRegs a)) < maxPreAuthRegs"
  show "mget (preAuthRegs (authz_step C B e a)) k = Some t"
  proof (cases e)
    case (Reg now pk nonce)
    have "(k, t) \<in> set (live_regs now (preAuthRegs a))"
      using live_regs_keeps [OF mget_in_set [OF k]] w Reg by simp
    then have "mget (live_regs now (preAuthRegs a)) k = Some t" by (rule set_mget [OF live_regs_gomap [OF g(1)]])
    then show ?thesis using Reg k replayed_pre [of now pk nonce a] by auto
  next
    case (PreAuth now pk nonce)
    have "mget (make_room maxPreAuthRegs now (preAuthRegs a)) k = Some t"
      using make_room_keeps [OF g k] w y PreAuth by simp
    then show ?thesis using PreAuth k by (auto simp: recordPreAuth_pre mget_mput)
  qed (use k in simp_all)
qed (simp_all add: authz_step_inv, simp add: authz_inv_def)

section \<open>The guarantees\<close>

text \<open>Nothing a stranger or a buddy sends grows the server without bound. From the start,
  after any sequence of registrations, enrollments and polls of the file: at most 1024 keys
  are loaded and all of them are valid; the log filter and the pending set hold at most
  1024 entries and each replay cache at most 4096.\<close>

theorem authz_bounded:
  "case newAuthorizer t0 f of
     Inl e \<Rightarrow> f \<noteq> OpenMissing
   | Inr a0 \<Rightarrow>
       let a = fold (authz_step C B) es a0 in
       length (keys a) \<le> 1024 \<and> list_all (\<lambda>(k, _). validPubKey k) (keys a) \<and> length (logged a) \<le> 1024 \<and>
       length (pend a) \<le> 1024 \<and> length (recentRegs a) \<le> 4096 \<and> length (preAuthRegs a) \<le> 4096"
proof (cases "newAuthorizer t0 f")
  case (Inl e)
  then show ?thesis by (auto simp: newAuthorizer_def load_def readAuthorized_def)
next
  case (Inr a0)
  have "authz_inv a0"
    using Inr unfolding newAuthorizer_def
    by (rule load_inv [rotated]) (simp add: authz_inv_def lim_wf_def New_def)
  then have "authz_inv (fold (authz_step C B) es a0)" by (rule authz.inv_run) simp
  then show ?thesis
    using Inr by (simp add: authz_inv_def Let_def list_all_iff maxAuthorizedKeys_def maxLoggedKeys_def maxPending_def
        maxReplayRegs_def maxPreAuthRegs_def case_prod_unfold)
qed

text \<open>C27: a registration of an approved key is accepted once. After it was accepted at time t,
  presenting the same key and nonce again within the replay window is reported as a
  replay, whatever happens in between, as long as fewer than 4096 registrations of approved
  keys are no older than it: only approved buddies can overrun the cache.\<close>

theorem replay_detected:
  assumes "authz_inv a" and "pk \<noteq> []" and "nonce \<noteq> []" and "replayed t pk nonce a = (False, a1)"
    and "\<forall>e \<in> set es. t \<le> etime e \<and> etime e - t < regReplayWindow"
    and "length (filter (\<lambda>(k', t'). t \<le> t') (recentRegs a)) + length (filter is_Reg es) < maxReplayRegs"
    and "t \<le> t'" and "t' - t < regReplayWindow"
  shows "fst (replayed t' pk nonce (fold (authz_step C B) es a1))"
proof -
  let ?k = "regKey pk nonce" and ?m = "make_room maxReplayRegs t (recentRegs a)"
  have a1: "a1 = authz_step C B (Reg t pk nonce) a" using assms(4) by simp
  have r: "recentRegs a1 = mput ?k t ?m"
    using replayed_recent [of t pk nonce a] assms(2-4) by simp
  have "younger ?k t (recentRegs a1) + length (filter is_Reg es) < maxReplayRegs"
    using younger_make_room [of ?k t maxReplayRegs t "recentRegs a"] younger_le_length [of ?k t "recentRegs a"] assms(6)
    by (simp add: r younger_mput_same)
  moreover have "mget (recentRegs a1) ?k = Some t" by (simp add: r mget_mput)
  moreover have "authz_inv a1" unfolding a1 using assms(1) by (rule authz_step_inv)
  ultimately have "mget (recentRegs (fold (authz_step C B) es a1)) ?k = Some t"
    using assms(5) by (intro recent.remembers_run)
  with assms(2,3,8) show ?thesis by (simp add: replayed_def seen_recently_def Let_def)
qed

text \<open>A registration seen before approval stays a replay afterwards. A nonce presented by a
  key that is not approved, and not seen before, is remembered for the replay window
  across the approval of the key, as long as fewer than 4096 pre-approval registrations
  are no older than it.\<close>

theorem preauth_replay_detected:
  assumes "authz_inv a" and "pk \<noteq> []" and "nonce \<noteq> []" and "mget (preAuthRegs a) (regKey pk nonce) = None"
    and "\<forall>e \<in> set es. t \<le> etime e \<and> etime e - t < regReplayWindow"
    and "length (filter (\<lambda>(k', t'). t \<le> t') (preAuthRegs a)) + length (filter is_PreAuth es) < maxPreAuthRegs"
    and "t \<le> t'" and "t' - t < regReplayWindow"
  shows "fst (replayed t' pk nonce (fold (authz_step C B) es (recordPreAuth t pk nonce a)))"
proof -
  let ?k = "regKey pk nonce" and ?a1 = "recordPreAuth t pk nonce a"
  have r: "preAuthRegs ?a1 = mput ?k t (make_room maxPreAuthRegs t (preAuthRegs a))"
    using assms(2-4) by (simp add: recordPreAuth_pre)
  have "younger ?k t (preAuthRegs ?a1) + length (filter is_PreAuth es) < maxPreAuthRegs"
    using younger_make_room [of ?k t maxPreAuthRegs t "preAuthRegs a"] younger_le_length [of ?k t "preAuthRegs a"] assms(6)
    by (simp add: r younger_mput_same)
  moreover have "mget (preAuthRegs ?a1) ?k = Some t" by (simp add: r mget_mput)
  ultimately have "mget (preAuthRegs (fold (authz_step C B) es ?a1)) ?k = Some t"
    using assms(5) recordPreAuth_inv [OF assms(1)] by (intro preauth.remembers_run)
  with assms(2,3,8) show ?thesis by (auto simp: replayed_def seen_recently_def Let_def)
qed

fun stranger_event :: "authz_event \<Rightarrow> bool" where
  "stranger_event (PreAuth now pk nonce) = True"
| "stranger_event (LogPend now pk) = True"
| "stranger_event (Pend now enc pk) = True"
| "stranger_event (Enroll now src) = True"
| "stranger_event e = False"

text \<open>Strangers have no lever on buddies. Whatever keys that are not approved send, through
  any number of enrollments, pending codes and log requests, the loaded allowlist, the
  approval times and the replay cache of approved keys stay exactly as they were.\<close>

theorem strangers_isolated:
  assumes "list_all stranger_event es"
  shows "keys (fold (authz_step C B) es a) = keys a \<and> approvedAt (fold (authz_step C B) es a) = approvedAt a \<and>
    recentRegs (fold (authz_step C B) es a) = recentRegs a"
  using assms
proof (induction es arbitrary: a)
  case (Cons e es)
  then have "keys (authz_step C B e a) = keys a \<and> approvedAt (authz_step C B e a) = approvedAt a \<and>
      recentRegs (authz_step C B e a) = recentRegs a"
    by (cases e) simp_all
  with Cons show ?case by simp
qed simp

text \<open>Polling fails closed. When the file is gone nobody is allowed. When it cannot be
  examined the loaded keys stay. When its modification time changed and it can be read,
  exactly its keys are allowed; if it vanished between the two looks, nobody is.\<close>

theorem poll_fails_closed:
  "\<not> allowed_key (pollOnce now StatMissing f a) k \<and>
   (allowed_key (pollOnce now StatFailed f a) k \<longleftrightarrow> allowed_key a k) \<and>
   (Some mt \<noteq> mtime a \<longrightarrow>
      (case readAuthorized f of
         Inr (ks, _) \<Rightarrow> allowed_key (pollOnce now (StatOK mt) f a) k \<longleftrightarrow> k \<in> mkeys ks
       | Inl NotExist \<Rightarrow> \<not> allowed_key (pollOnce now (StatOK mt) f a) k
       | Inl _ \<Rightarrow> allowed_key (pollOnce now (StatOK mt) f a) k \<longleftrightarrow> allowed_key a k))"
  by (auto simp: pollOnce_def noteMissing_def noteStatError_def allowed_key_def reload_def load_def Let_def
      mget_None_iff split: sum.split io_error.split option.split)

text \<open>A key approved while the server runs is only served registrations minted no earlier
  than one second before the moment its approval was loaded; keys that were already in the
  file at the start, or approved before, keep the constraint they had.\<close>

theorem approval_moment:
  assumes "readAuthorized f = Inr (ks, mt)" and "k \<in> mkeys ks"
  shows "(case reload now f a of Inl _ \<Rightarrow> False | Inr a' \<Rightarrow> allowed_key a' k \<and>
      (freshSinceApproval a' k ts \<longleftrightarrow>
        (if mget (approvedAt a) k \<noteq> None then freshSinceApproval a k ts else now - second \<le> ts * second))) \<and>
    (case newAuthorizer now f of Inl _ \<Rightarrow> False | Inr a' \<Rightarrow> freshSinceApproval a' k ts)"
proof -
  have g: "mget (map (\<lambda>(k, _). (k, F k)) ks) k = Some (F k)" for F :: "bytes \<Rightarrow> time option"
    using assms(2) by (induction ks) auto
  have "mget ks k \<noteq> None" using assms(2) by (simp add: mget_None_iff)
  with assms g show ?thesis
    by (auto simp: reload_def newAuthorizer_def load_def freshSinceApproval_def allowed_key_def split: option.split)
qed

text \<open>The two ways to notice a missing file differ. If the poll sees it missing, the approval
  times survive, so a key that comes back with the file keeps its old constraint; if the
  load sees it missing, they are dropped, and the same key counts as newly approved.\<close>

theorem missing_paths_differ:
  assumes "readAuthorized f = Inr (ks, mt)" and "k \<in> mkeys ks" and "mget (approvedAt a) k \<noteq> None"
  shows "(case reload now f (pollOnce t StatMissing g a) of Inl _ \<Rightarrow> False
      | Inr a' \<Rightarrow> freshSinceApproval a' k ts \<longleftrightarrow> freshSinceApproval a k ts) \<and>
    (case reload t OpenMissing a of Inl _ \<Rightarrow> False | Inr b \<Rightarrow>
       (case reload now f b of Inl _ \<Rightarrow> False | Inr b' \<Rightarrow> freshSinceApproval b' k ts \<longleftrightarrow> now - second \<le> ts * second))"
proof -
  have g: "mget (map (\<lambda>(k, _). (k, F k)) ks) k = Some (F k)" for F :: "bytes \<Rightarrow> time option"
    using assms(2) by (induction ks) auto
  show ?thesis
    using assms g
    by (auto simp: reload_def load_def readAuthorized_def [of OpenMissing] freshSinceApproval_def pollOnce_def
        noteMissing_def split: option.split)
qed

section \<open>Editing the file\<close>

lemma units_CR: "units (l @ [CHR 0x0D]) = units l @ [(True, [CHR 0x0D])]"
proof (induction l rule: units.induct)
  case (2 c s)
  have cr: "space1 (CHR 0x0D)" "\<not> space2 c (CHR 0x0D)" "\<not> space3 c (CHR 0x0D) e" "\<not> space3 c d (CHR 0x0D)" for d e
    by (simp_all add: space1_def space2_def space3_def)
  show ?case
  proof (cases "space1 c \<or> s = []")
    case True
    with 2 cr show ?thesis by (cases "space1 c") (simp_all add: space1_def)
  next
    case False
    then obtain d s' where s: "s = d # s'" by (cases s) auto
    show ?thesis
    proof (cases "space2 c d \<or> s' = []")
      case True
      with False 2 cr s show ?thesis by (cases "space2 c d") simp_all
    next
      case F: False
      then obtain e s'' where s': "s' = e # s''" by (cases s') auto
      with False F 2 s show ?thesis by (cases "space3 c d e") simp_all
    qed
  qed
qed (simp add: space1_def)

lemma TrimSpace_CR: "TrimSpace (l @ [CHR 0x0D]) = TrimSpace l"
proof (cases "\<forall>x \<in> set (units l). fst x")
  case True
  then have d: "dropWhile fst (units l) = []" "dropWhile fst (units l @ [(True, [CHR 0x0D])]) = []" by simp_all
  show ?thesis unfolding TrimSpace_def units_CR d by simp
next
  case False
  then have "dropWhile fst (units l @ [(True, [CHR 0x0D])]) = dropWhile fst (units l) @ [(True, [CHR 0x0D])]"
    by (auto simp: dropWhile_append)
  then show ?thesis by (simp add: TrimSpace_def units_CR)
qed

lemma line_key_dropCR: "line_key (dropCR l) = line_key l"
proof (cases "l \<noteq> [] \<and> List.last l = CHR 0x0D")
  case True
  then have "l = dropCR l @ [CHR 0x0D]" by (metis append_butlast_last_id dropCR_def)
  then have "TrimSpace l = TrimSpace (dropCR l)" by (metis TrimSpace_CR)
  then show ?thesis by (simp add: line_key_def)
qed (auto simp: dropCR_def)

definition named_keys :: "bytes list \<Rightarrow> bytes set" where
  "named_keys ls = {k. \<exists>l \<in> set ls. \<exists>lab. line_key l = Some (k, lab)}"

lemma named_keys_simps [simp]:
  "named_keys [] = {}" "named_keys (l # ls) = (case line_key l of None \<Rightarrow> {} | Some (k, _) \<Rightarrow> {k}) \<union> named_keys ls"
  by (auto simp: named_keys_def split: option.split)

lemma read_keys_subset: "mkeys (fst (read_keys ls m)) \<subseteq> mkeys m \<union> named_keys ls"
proof (induction ls arbitrary: m)
  case (Cons l ls)
  show ?case
  proof (cases "line_key l")
    case None
    with Cons [of m] show ?thesis by simp
  next
    case (Some e)
    obtain k lab where e: "e = (k, lab)" by (cases e)
    from Cons [of "mput k lab m"] Some show ?thesis by (auto simp: e Let_def mkeys_mput)
  qed
qed simp

text \<open>Below the key limit the file means exactly the keys it names.\<close>

lemma read_keys_exact:
  "gomap m \<Longrightarrow> card (mkeys m \<union> named_keys ls) < maxAuthorizedKeys \<Longrightarrow>
   mkeys (fst (read_keys ls m)) = mkeys m \<union> named_keys ls \<and> \<not> snd (read_keys ls m)"
proof (induction ls arbitrary: m)
  case (Cons l ls)
  show ?case
  proof (cases "line_key l")
    case None
    with Cons show ?thesis by simp
  next
    case (Some e)
    obtain k lab where e: "e = (k, lab)" by (cases e)
    let ?m = "mput k lab m"
    have g: "gomap ?m" using Cons.prems(1) by (rule gomap_mput)
    have u: "mkeys ?m \<union> named_keys ls = mkeys m \<union> named_keys (l # ls)" using Some by (auto simp: e mkeys_mput)
    have fin: "finite (named_keys xs)" for xs by (induction xs) (auto split: option.split)
    have "length ?m = card (mkeys ?m)" using g by (metis distinct_card length_map list.set_map)
    also have "\<dots> \<le> card (mkeys ?m \<union> named_keys ls)" using fin by (intro card_mono) auto
    finally have "length ?m < maxAuthorizedKeys" using Cons.prems(2) u by simp
    with Cons.IH [OF g] Cons.prems(2) u Some show ?thesis by (simp add: e Let_def)
  qed
qed simp

lemma scan_lines_named: "named_keys (fst (scan_lines s)) = named_keys (takeWhile (\<lambda>l. \<not> too_long l) (raw_lines s []))"
  by (auto simp: scan_lines_def Let_def named_keys_def line_key_dropCR)

lemma readAuthorized_scan:
  assumes "scan_lines content = (ls, False)"
  shows "\<exists>ks. readAuthorized (file_open (Some content) mt) = Inr (ks, mt) \<and> ks = fst (read_keys ls [])"
  using assms by (auto simp: readAuthorized_def file_open_def split: prod.split)

text \<open>Writing back lines that were scanned: the keys they name are the keys of the new file.\<close>

definition write_lines :: "bytes list \<Rightarrow> bytes" where
  "write_lines kept = (let out = Join kept [newline] in if out \<noteq> [] then out @ [newline] else out)"

lemma write_lines_scan:
  assumes "\<forall>l \<in> set kept. newline \<notin> set l \<and> \<not> too_long l"
  shows "\<exists>ls. scan_lines (write_lines kept) = (ls, False) \<and> named_keys ls = named_keys kept"
proof (cases "Join kept [newline] = []")
  case True
  then have "kept = [] \<or> kept = [[]]" by (cases "(kept, [newline])" rule: Join.cases) auto
  moreover have "line_key [] = None" by (simp add: line_key_def TrimSpace_def)
  ultimately show ?thesis using True by (auto simp: write_lines_def scan_lines_def)
next
  case False
  then have "kept \<noteq> []" by auto
  then have "raw_lines (write_lines kept) [] = kept"
    using False Join_newline [of kept] raw_lines_join [of kept] assms by (simp add: write_lines_def)
  moreover have "takeWhile (\<lambda>l. \<not> too_long l) kept = kept" "list_ex too_long kept = False"
    using assms by (auto simp: takeWhile_eq_all_conv list_ex_iff)
  ultimately have "scan_lines (write_lines kept) = (map dropCR kept, False)" by (simp only: scan_lines_def Let_def)
  moreover have "named_keys (map dropCR kept) = named_keys kept" by (simp add: named_keys_def line_key_dropCR)
  ultimately show ?thesis by blast
qed

lemma scan_lines_lines:
  assumes "scan_lines content = (ls, long)" and "l \<in> set ls"
  shows "newline \<notin> set l \<and> \<not> too_long l"
proof -
  obtain r where t: "r \<in> set (takeWhile (\<lambda>l. \<not> too_long l) (raw_lines content []))" and l: "l = dropCR r"
    using assms by (auto simp: scan_lines_def Let_def)
  from set_takeWhileD [OF t] l have r: "r \<in> set (raw_lines content [])" "\<not> too_long r" "l = dropCR r" by simp_all
  have "newline \<notin> set r" using raw_lines_no_newline [OF _ r(1)] by simp
  with r show ?thesis by (auto simp: dropCR_def too_long_def dest: in_set_butlastD)
qed

lemma revokes_line_key: "line_key l = Some (k, lab) \<Longrightarrow> revokes key l \<longleftrightarrow> k = key"
  by (auto simp: line_key_def revokes_def Let_def split: if_splits list.splits)

text \<open>Revoking removes the key for good and nothing else. After a successful revoke the
  file can be read and no longer names the key; if it named fewer keys than the limit, every
  other key is still there.\<close>

theorem revoke_exact:
  assumes "RevokeKey True key (Some content) = (Revoked n, f')"
  shows "\<exists>ks ks'. readAuthorized (file_open (Some content) mt) = Inr (ks, mt) \<and>
    readAuthorized (file_open f' mt) = Inr (ks', mt) \<and> key \<notin> mkeys ks' \<and>
    (card (named_keys (fst (scan_lines content))) < maxAuthorizedKeys \<longrightarrow> mkeys ks' = mkeys ks - {key})"
proof -
  obtain ls long where sc: "scan_lines content = (ls, long)" by fastforce
  let ?kept = "filter (\<lambda>l. \<not> revokes key l) ls"
  have long: "\<not> long" and f': "f' = Some (write_lines ?kept)"
    using assms by (auto simp: RevokeKey_def sc write_lines_def Let_def split: if_splits)
  have "\<forall>l \<in> set ?kept. newline \<notin> set l \<and> \<not> too_long l" using scan_lines_lines [OF sc] by simp
  from write_lines_scan [OF this] obtain ls' where
    ls': "scan_lines (write_lines ?kept) = (ls', False)" "named_keys ls' = named_keys ?kept" by blast
  have named: "named_keys ?kept = named_keys ls - {key}"
    unfolding named_keys_def using revokes_line_key [of _ _ _ key] by fastforce
  obtain ks where ks: "readAuthorized (file_open (Some content) mt) = Inr (ks, mt)" "ks = fst (read_keys ls [])"
    using readAuthorized_scan [of content ls mt] sc long by auto
  obtain ks' where ks': "readAuthorized (file_open f' mt) = Inr (ks', mt)" "ks' = fst (read_keys ls' [])"
    using readAuthorized_scan [OF ls'(1), of mt] f' by auto
  have "mkeys ks' \<subseteq> named_keys ls - {key}" using read_keys_subset [of ls' "[]"] ls'(2) named ks'(2) by simp
  moreover have "mkeys ks' = mkeys ks - {key}" if "card (named_keys ls) < maxAuthorizedKeys"
  proof -
    have "finite (named_keys ls)" by (induction ls) (auto split: option.split)
    then have "card (named_keys ls - {key}) < maxAuthorizedKeys" using that by (meson card_Diff1_le le_less_trans)
    then show ?thesis
      using read_keys_exact [of "[]" ls] read_keys_exact [of "[]" ls'] that ls'(2) named ks(2) ks'(2) by simp
  qed
  ultimately show ?thesis using ks(1) ks'(1) sc by auto
qed

lemma validPubKey_hd: "validPubKey k \<Longrightarrow> k \<noteq> [] \<and> hd k \<noteq> CHR ''#''"
proof -
  assume v: "validPubKey k"
  have "\<not> validPubKey []" by code_simp
  with v obtain c r where k: "k = c # r" by (cases k) auto
  have dec: "b64std_decode s \<noteq> None \<Longrightarrow> sextets_of StdAlphabet (takeWhile (\<lambda>c. c \<noteq> CHR ''='') (skip_newlines s)) \<noteq> None"
    for s unfolding b64std_decode_def Let_def
    by (cases "sextets_of StdAlphabet (takeWhile (\<lambda>c. c \<noteq> CHR ''='') (skip_newlines s))")
      (simp_all only: option.case if_cancel simp_thms option.distinct)
  have "sextets_of StdAlphabet (CHR ''#'' # x) = None" for x by (simp add: sextets_of_def b64_val_def)
  with dec [of "CHR ''#'' # r"] have "b64std_decode (CHR ''#'' # r) = None"
    by (cases "b64std_decode (CHR ''#'' # r)") (auto simp: skip_newlines_def)
  with v k show ?thesis by (auto simp: validPubKey_def)
qed

text \<open>A line for a key: its first word is the key.\<close>

lemma line_key_line:
  assumes "validPubKey key" and "\<forall>c \<in> set key. plain_byte c"
  shows "\<exists>lab. line_key (if label \<noteq> [] then key @ '' '' @ label else key) = Some (key, lab)"
proof -
  let ?l = "if label \<noteq> [] then key @ '' '' @ label else key"
  have ne: "key \<noteq> []" "hd key \<noteq> CHR ''#''" using validPubKey_hd [OF assms(1)] by simp_all
  have F: "Fields (TrimSpace ?l) = key # tl (Fields ?l)"
    using assms(2) ne Fields_word [of key] Fields_word_label [of key label] by (simp add: Fields_TrimSpace)
  obtain c r where k: "key = c # r" using ne by (cases key) auto
  have "units ?l = (False, [c]) # tl (units ?l)" using assms(2) by (simp add: k units_plain del: units.simps)
  then have "dropWhile fst (units ?l) = (False, [c]) # tl (units ?l)" by (metis dropWhile.simps(2) fst_conv)
  then have "\<exists>v. TrimSpace ?l = c # v"
    by (auto simp: TrimSpace_def dropWhile_append)
  then show ?thesis using F assms(1) ne k by (auto simp: line_key_def HasPrefix_def)
qed

lemma scan_lines_append:
  assumes "scan_lines content = (ls, False)" and "content = [] \<or> List.last content = newline"
    and "newline \<notin> set l" and "\<not> too_long l"
  shows "scan_lines (content @ l @ [newline]) = (ls @ [dropCR l], False)"
proof -
  have "raw_lines (content @ l @ [newline]) [] = raw_lines content [] @ [l]"
  proof (cases "content = []")
    case True
    then show ?thesis using raw_lines_line [OF assms(3), of "[]" "[]"] by simp
  next
    case False
    then obtain c where "content = c @ [newline]" using assms(2) by (metis append_butlast_last_id)
    then show ?thesis
      using raw_lines_append_nl [of c "l @ [newline]" "[]"] raw_lines_line [OF assms(3), of "[]" "[]"] by simp
  qed
  moreover have "list_ex too_long (raw_lines content []) = False"
    and "ls = map dropCR (takeWhile (\<lambda>l. \<not> too_long l) (raw_lines content []))"
    using assms(1) by (simp_all add: scan_lines_def Let_def)
  moreover from this(1) have "takeWhile (\<lambda>l. \<not> too_long l) (raw_lines content []) = raw_lines content []"
    by (auto simp: takeWhile_eq_all_conv list_ex_iff)
  ultimately show ?thesis using assms(4) by (simp add: scan_lines_def Let_def takeWhile_append)
qed

text \<open>Approving takes effect when the file ends in a newline. If the file is empty or its last
  line is complete, and the key limit is not reached, then after a successful approve the
  file names exactly one more key.\<close>

theorem approve_effective:
  assumes "ApproveKey True key label (Some content) = (Approved, f')"
    and "content = [] \<or> List.last content = newline" and "scan_lines content = (ls, False)"
    and "\<forall>c \<in> set key. plain_byte c" and "newline \<notin> set (key @ label)" and "length key + length label + 1 < MaxScanTokenSize"
    and "card (insert key (named_keys ls)) < maxAuthorizedKeys"
  shows "\<exists>ks ks'. readAuthorized (file_open (Some content) mt) = Inr (ks, mt) \<and>
    readAuthorized (file_open f' mt) = Inr (ks', mt) \<and> mkeys ks' = insert key (mkeys ks)"
proof -
  let ?l = "if label \<noteq> [] then key @ '' '' @ label else key"
  have v: "validPubKey key" and f': "f' = Some (content @ ?l @ [newline])"
    using assms(1) by (auto simp: ApproveKey_def Let_def split: if_splits sum.splits io_error.splits prod.splits)
  have "newline \<noteq> CHR '' ''" by (simp add: newline_def)
  then have nl: "newline \<notin> set ?l" "\<not> too_long ?l" using assms(5,6) by (auto simp: too_long_def)
  have named: "named_keys (ls @ [dropCR ?l]) = insert key (named_keys ls)"
    using line_key_line [OF v assms(4), of label] by (auto simp: named_keys_def line_key_dropCR)
  note sc = scan_lines_append [OF assms(3,2) nl]
  have "mkeys (fst (read_keys ls [])) = named_keys ls"
    using read_keys_exact [of "[]" ls] assms(7) card_insert_le [of "named_keys ls" key] by simp
  moreover have "mkeys (fst (read_keys (ls @ [dropCR ?l]) [])) = insert key (named_keys ls)"
    using read_keys_exact [of "[]" "ls @ [dropCR ?l]"] assms(7) named by simp
  ultimately show ?thesis
    using readAuthorized_scan [OF assms(3), of mt] readAuthorized_scan [OF sc, of mt] f' by auto
qed

subsection \<open>A concrete file\<close>

definition demo_key :: "char \<Rightarrow> bytes" where
  "demo_key c = b64std_encode (replicate 32 c)"

lemma demo_valid_a: "validPubKey (demo_key CHR ''a'')" by code_simp
lemma demo_valid_b: "validPubKey (demo_key CHR ''b'')" by code_simp
lemma demo_nl_a: "newline \<notin> set (demo_key CHR ''a'')" by code_simp
lemma demo_nl_b: "newline \<notin> set (demo_key CHR ''b'')" by code_simp
lemma demo_len_a: "length (demo_key CHR ''a'') = 44" by code_simp
lemma demo_len_b: "length (demo_key CHR ''b'') = 44" by code_simp
lemma demo_differ: "demo_key CHR ''a'' \<noteq> demo_key CHR ''b''" by code_simp
lemma demo_cr_a: "dropCR (demo_key CHR ''a'') = demo_key CHR ''a''" by code_simp
lemma demo_cr_b: "dropCR (demo_key CHR ''b'') = demo_key CHR ''b''" by code_simp

lemmas demo_keys = demo_valid_a demo_valid_b demo_nl_a demo_nl_b demo_len_a demo_len_b demo_differ
  demo_cr_a demo_cr_b

lemma demo_line: "line_key (demo_key CHR ''a'') = Some (demo_key CHR ''a'', [])"
  by code_simp

lemma demo_glued: "line_key (demo_key CHR ''a'' @ demo_key CHR ''b'') = None"
  by code_simp

lemma demo_lines:
  "raw_lines (demo_key CHR ''a'') [] = [demo_key CHR ''a'']"
  "raw_lines (demo_key CHR ''a'' @ demo_key CHR ''b'' @ [newline]) [] = [demo_key CHR ''a'' @ demo_key CHR ''b'']"
proof -
  have "demo_key CHR ''a'' \<noteq> []" using demo_len_a by auto
  then show "raw_lines (demo_key CHR ''a'') [] = [demo_key CHR ''a'']"
    using raw_lines_single [OF demo_nl_a, of "[]"] by simp
  show "raw_lines (demo_key CHR ''a'' @ demo_key CHR ''b'' @ [newline]) [] = [demo_key CHR ''a'' @ demo_key CHR ''b'']"
    using raw_lines_line [of "demo_key CHR ''a'' @ demo_key CHR ''b''" "[]" "[]"] demo_nl_a demo_nl_b by simp
qed

text \<open>Approving after an unfinished line destroys two keys. If the last line of the file has no
  newline, the new key is glued to it: the command reports success, and afterwards neither
  the old key nor the new one is approved.\<close>

theorem approve_glues_lines:
  "validPubKey (demo_key CHR ''a'') \<and> validPubKey (demo_key CHR ''b'') \<and>
   readAuthorized (file_open (Some (demo_key CHR ''a'')) 0) = Inr ([(demo_key CHR ''a'', [])], 0) \<and>
   (let r = ApproveKey True (demo_key CHR ''b'') [] (Some (demo_key CHR ''a'')) in
      fst r = Approved \<and> readAuthorized (file_open (snd r) 0) = Inr ([], 0))"
proof -
  have s1: "scan_lines (demo_key CHR ''a'') = ([demo_key CHR ''a''], False)"
    by (simp add: scan_lines_def demo_keys demo_lines too_long_def MaxScanTokenSize_def)
  have s2: "scan_lines (demo_key CHR ''a'' @ demo_key CHR ''b'' @ [newline]) =
      ([dropCR (demo_key CHR ''a'' @ demo_key CHR ''b'')], False)"
    by (simp add: scan_lines_def demo_keys demo_lines too_long_def MaxScanTokenSize_def)
  have r1: "readAuthorized (file_open (Some (demo_key CHR ''a'')) 0) = Inr ([(demo_key CHR ''a'', [])], 0)"
    by (simp add: readAuthorized_def file_open_def s1 demo_line maxAuthorizedKeys_def)
  have r2: "readAuthorized (file_open (Some (demo_key CHR ''a'' @ demo_key CHR ''b'' @ [newline])) 0) = Inr ([], 0)"
    by (simp add: readAuthorized_def file_open_def s2 line_key_dropCR demo_glued)
  show ?thesis using demo_keys r2 by (simp add: ApproveKey_def r1)
qed

section \<open>The properties at concrete inputs\<close>

definition demo_auth :: authorizer where
  "demo_auth = \<lparr>keys = [(demo_key CHR ''a'', [])], mtime = Some 0, logged = [], pend = [], recentRegs = [],
     preAuthRegs = [], approvedAt = [(demo_key CHR ''a'', None)], missing = False, lastStatWarn = None,
     enroll = New 20 2 1024 0\<rparr>"

lemma demo_auth_inv: "authz_inv demo_auth"
  by (simp add: authz_inv_def demo_auth_def demo_valid_a lim_wf_def New_def maxAuthorizedKeys_def)

lemma demo_scan: "scan_lines (demo_key CHR ''a'' @ [newline]) = ([demo_key CHR ''a''], False)"
  using raw_lines_line [OF demo_nl_a, of "[]" "[]"]
  by (simp add: scan_lines_def demo_keys too_long_def MaxScanTokenSize_def)

lemma demo_read: "readAuthorized (OpenFile (demo_key CHR ''a'' @ [newline]) mt) = Inr ([(demo_key CHR ''a'', [])], mt)"
  by (simp add: readAuthorized_def demo_scan demo_line maxAuthorizedKeys_def)

lemma demo_plain: "\<forall>c \<in> set (demo_key CHR ''b''). plain_byte c"
  by code_simp

definition demo_events :: "authz_event list" where
  "demo_events = [PreAuth second (demo_key CHR ''b'') ''n2'', LogPend second (demo_key CHR ''b''),
     Reg second (demo_key CHR ''a'') ''n3'', Enroll second (AcctRaw ''x'')]"

theorem replay_detected_witness:
  "\<forall>C B. fst (replayed (2 * second) (demo_key CHR ''a'') ''n''
     (fold (authz_step C B) demo_events (snd (replayed 0 (demo_key CHR ''a'') ''n'' demo_auth))))"
proof (intro allI)
  fix C B
  have 1: "replayed 0 (demo_key CHR ''a'') ''n'' demo_auth =
      (False, snd (replayed 0 (demo_key CHR ''a'') ''n'' demo_auth))"
    using demo_len_a by (auto simp: replayed_def demo_auth_def seen_recently_def Let_def)
  show "fst (replayed (2 * second) (demo_key CHR ''a'') ''n''
     (fold (authz_step C B) demo_events (snd (replayed 0 (demo_key CHR ''a'') ''n'' demo_auth))))"
    by (rule replay_detected [OF demo_auth_inv _ _ 1])
      (use demo_len_a in \<open>auto simp: demo_events_def regReplayWindow_def regSkew_def second_def demo_auth_def maxReplayRegs_def\<close>)
qed

theorem preauth_replay_detected_witness:
  "\<forall>C B. fst (replayed (2 * second) (demo_key CHR ''b'') ''n''
     (fold (authz_step C B) demo_events (recordPreAuth 0 (demo_key CHR ''b'') ''n'' demo_auth)))"
  by (intro allI, rule preauth_replay_detected [OF demo_auth_inv])
    (use demo_len_b in \<open>auto simp: demo_events_def regReplayWindow_def regSkew_def second_def demo_auth_def maxPreAuthRegs_def\<close>)

theorem strangers_isolated_witness:
  "\<forall>C B. keys (fold (authz_step C B) [PreAuth 0 ''k'' ''n'', Pend 0 ''c'' ''k'', Enroll 0 (AcctRaw ''x'')] demo_auth) =
     keys demo_auth"
  using strangers_isolated [of "[PreAuth 0 ''k'' ''n'', Pend 0 ''c'' ''k'', Enroll 0 (AcctRaw ''x'')]"] by simp

theorem poll_fails_closed_witness:
  "Some second \<noteq> mtime demo_auth \<and>
   allowed_key (pollOnce 0 (StatOK second) (OpenFile (demo_key CHR ''a'' @ [newline]) second) demo_auth) (demo_key CHR ''a'')"
proof
  show "Some second \<noteq> mtime demo_auth" by (simp add: demo_auth_def second_def)
  then show "allowed_key (pollOnce 0 (StatOK second) (OpenFile (demo_key CHR ''a'' @ [newline]) second) demo_auth)
      (demo_key CHR ''a'')"
    using poll_fails_closed [of 0 "OpenFile (demo_key CHR ''a'' @ [newline]) second" demo_auth "demo_key CHR ''a''" second]
    by (simp add: demo_read)
qed

theorem approval_moment_witness:
  "case reload (5 * second) (OpenFile (demo_key CHR ''a'' @ [newline]) 0) (demo_auth\<lparr>approvedAt := []\<rparr>) of
     Inl _ \<Rightarrow> False
   | Inr a' \<Rightarrow> \<not> freshSinceApproval a' (demo_key CHR ''a'') 3 \<and> freshSinceApproval a' (demo_key CHR ''a'') 4"
  using approval_moment [where k = "demo_key CHR ''a''" and now = "5 * second" and a = "demo_auth\<lparr>approvedAt := []\<rparr>" and ts = 3,
      OF demo_read [of 0]]
    approval_moment [where k = "demo_key CHR ''a''" and now = "5 * second" and a = "demo_auth\<lparr>approvedAt := []\<rparr>" and ts = 4,
      OF demo_read [of 0]]
  by (auto simp: second_def split: sum.splits)

theorem missing_paths_differ_witness:
  "case reload (9 * second) (OpenFile (demo_key CHR ''a'' @ [newline]) 0) (pollOnce second StatMissing OpenMissing demo_auth) of
     Inl _ \<Rightarrow> False
   | Inr a' \<Rightarrow> freshSinceApproval a' (demo_key CHR ''a'') 3"
proof -
  have "mget (approvedAt demo_auth) (demo_key CHR ''a'') \<noteq> None"
    and "freshSinceApproval demo_auth (demo_key CHR ''a'') 3"
    by (simp_all add: demo_auth_def freshSinceApproval_def)
  then show ?thesis
    using missing_paths_differ [where k = "demo_key CHR ''a''" and a = demo_auth and now = "9 * second" and t = second
      and g = OpenMissing and ts = 3, OF demo_read [of 0]]
    by (auto split: sum.splits)
qed

theorem revoke_exact_witness:
  "RevokeKey True (demo_key CHR ''a'') (Some (demo_key CHR ''a'' @ [newline])) = (Revoked 1, Some []) \<and>
   (\<exists>ks'. readAuthorized (file_open (Some []) 0) = Inr (ks', 0) \<and> demo_key CHR ''a'' \<notin> mkeys ks')"
proof
  have "revokes (demo_key CHR ''a'') (demo_key CHR ''a'')" by code_simp
  then show r: "RevokeKey True (demo_key CHR ''a'') (Some (demo_key CHR ''a'' @ [newline])) = (Revoked 1, Some [])"
    by (simp add: RevokeKey_def demo_scan)
  show "\<exists>ks'. readAuthorized (file_open (Some []) 0) = Inr (ks', 0) \<and> demo_key CHR ''a'' \<notin> mkeys ks'"
    using revoke_exact [OF r, of 0] by blast
qed

theorem approve_effective_witness:
  "\<exists>ks'. readAuthorized (file_open (snd (ApproveKey True (demo_key CHR ''b'') ''nas'' (Some (demo_key CHR ''a'' @ [newline])))) 0) =
     Inr (ks', 0) \<and> mkeys ks' = {demo_key CHR ''a'', demo_key CHR ''b''}"
proof -
  let ?c = "demo_key CHR ''a'' @ [newline]"
  have 1: "ApproveKey True (demo_key CHR ''b'') ''nas'' (Some ?c) =
      (Approved, snd (ApproveKey True (demo_key CHR ''b'') ''nas'' (Some ?c)))"
    using demo_differ by (simp add: ApproveKey_def demo_valid_b file_open_def demo_read)
  have "card (insert (demo_key CHR ''b'') (named_keys [demo_key CHR ''a''])) < maxAuthorizedKeys"
    using demo_differ by (simp add: named_keys_def demo_line maxAuthorizedKeys_def)
  moreover have "newline \<notin> set (demo_key CHR ''b'' @ ''nas'')" using demo_nl_b by (simp add: newline_def)
  ultimately show ?thesis
    using approve_effective [OF 1 _ demo_scan demo_plain, of 0] demo_len_b
    by (auto simp: file_open_def demo_read MaxScanTokenSize_def)
qed

end
