(* ===== verification/Protocol.thy ===== *)
theory Protocol
  imports GoText RelayWire "HOL-Library.List_Lexorder" "HOL-Library.Char_ord"
begin

text \<open>
  The control-plane messages of \<^verbatim>\<open>pkg/protocol\<close> with their JSON form and the byte strings
  that get signed, the addresses derived from keys (\<^verbatim>\<open>internal/crypto/keys.go\<close>), the
  sealed boxes (\<^verbatim>\<open>sealedcode.go\<close>), the tokens (\<^verbatim>\<open>internal/secret\<close>) and the invite
  (\<^verbatim>\<open>internal/invite\<close>).

  A message keeps the fields some component reads. The remaining ones (RELAY_OFFER and
  CONNECT payloads) are decoded only to see whether their type is right. \<^verbatim>\<open>json.Unmarshal\<close>
  keeps the old value of a member that is \<^verbatim>\<open>null\<close>, and stores an array over the elements
  an earlier member of the same name left there.
\<close>

section \<open>Messages\<close>

record candidate =
  Addr :: bytes
  V6 :: bool

record peer =
  pID :: bytes
  pPubKey :: bytes
  pVirtualIP :: bytes
  pName :: bytes
  Candidates :: "candidate list"
  pRelay :: bytes
  LastSeen :: int

record relayTicket =
  rtPayload :: bytes
  rtSig :: bytes

record message =
  Type :: bytes
  Ver :: int
  Token :: bytes
  TokenEnc :: bytes
  Role :: bytes
  ID :: bytes
  PubKey :: bytes
  VirtualIP :: bytes
  Name :: bytes
  Ts :: int
  RegNonce :: bytes
  RegSig :: bytes
  CodeEnc :: bytes
  RegEphPub :: bytes
  Peers :: "peer list"
  Sig :: bytes
  RTicket :: "relayTicket option"

definition TypeRegister :: bytes where "TypeRegister = ''REGISTER''"
definition TypePeerList :: bytes where "TypePeerList = ''PEER_LIST''"
definition RoleBuddy :: bytes where "RoleBuddy = ''buddy''"
definition Version :: int where "Version = 8"
definition NonceLen :: nat where "NonceLen = 16"
definition nonceB64Len :: nat where "nonceB64Len = (NonceLen * 8 + 5) div 6"
definition MaxNameLen :: nat where "MaxNameLen = 63"

definition zero_candidate :: candidate where
  "zero_candidate = \<lparr>Addr = [], V6 = False\<rparr>"

definition zero_peer :: peer where
  "zero_peer = \<lparr>pID = [], pPubKey = [], pVirtualIP = [], pName = [], Candidates = [], pRelay = [], LastSeen = 0\<rparr>"

definition zero_message :: message where
  "zero_message = \<lparr>Type = [], Ver = 0, Token = [], TokenEnc = [], Role = [], ID = [], PubKey = [], VirtualIP = [],
     Name = [], Ts = 0, RegNonce = [], RegSig = [], CodeEnc = [], RegEphPub = [], Peers = [], Sig = [], RTicket = None\<rparr>"

section \<open>Encoding\<close>

definition opt_int :: "bytes \<Rightarrow> int \<Rightarrow> (bytes \<times> jval) list" where
  "opt_int k i = (if i = 0 then [] else [(k, JInt i)])"

definition candidate_value :: "candidate \<Rightarrow> jval" where
  "candidate_value c = JObject ((''addr'', JString (Addr c)) # (if V6 c then [(''v6'', JBool True)] else []))"

definition peer_value :: "peer \<Rightarrow> jval" where
  "peer_value p = JObject
     ([(''id'', JString (pID p)), (''pubkey'', JString (pPubKey p)), (''virtual_ip'', JString (pVirtualIP p))] @
      opt_member ''name'' (pName p) @
      (if Candidates p = [] then [] else [(''candidates'', JArray (map candidate_value (Candidates p)))]) @
      opt_member ''relay'' (pRelay p) @ opt_int ''last_seen'' (LastSeen p))"

definition ticket_value :: "relayTicket \<Rightarrow> jval" where
  "ticket_value t = JObject [(''p'', JString (rtPayload t)), (''s'', JString (rtSig t))]"

definition opt_peers :: "peer list \<Rightarrow> (bytes \<times> jval) list" where
  "opt_peers ps = (if ps = [] then [] else [(''peers'', JArray (map peer_value ps))])"

definition opt_ticket :: "relayTicket option \<Rightarrow> (bytes \<times> jval) list" where
  "opt_ticket t = (case t of None \<Rightarrow> [] | Some t \<Rightarrow> [(''ticket'', ticket_value t)])"

text \<open>The members of a message in declaration order; \<^verbatim>\<open>Token\<close> is tagged \<^verbatim>\<open>json:"-"\<close> and never
  travels.\<close>

definition message_members :: "message \<Rightarrow> (bytes \<times> jval) list" where
  "message_members m =
     [(''type'', JString (Type m)), (''ver'', JInt (Ver m))] @
     opt_member ''token_enc'' (TokenEnc m) @ opt_member ''role'' (Role m) @ opt_member ''id'' (ID m) @
     opt_member ''pubkey'' (PubKey m) @ opt_member ''virtual_ip'' (VirtualIP m) @ opt_member ''name'' (Name m) @
     opt_int ''ts'' (Ts m) @ opt_member ''nonce'' (RegNonce m) @ opt_member ''reg_sig'' (RegSig m) @
     opt_member ''code_enc'' (CodeEnc m) @ opt_member ''epk'' (RegEphPub m) @
     opt_peers (Peers m) @ opt_member ''sig'' (Sig m) @ opt_ticket (RTicket m)"

definition MarshalMessage :: "json \<Rightarrow> message \<Rightarrow> bytes" where
  "MarshalMessage J m = render J (message_members m)"

text \<open>The roster is rendered as \<^verbatim>\<open>null\<close> when it is empty: both callers pass a nil slice then.\<close>

definition PeerListPayload :: "json \<Rightarrow> bytes \<Rightarrow> int \<Rightarrow> peer list \<Rightarrow> bytes" where
  "PeerListPayload J token ts peers =
     render J [(''token'', JString token), (''ts'', JInt ts),
       (''peers'', if peers = [] then JNull else JArray (map peer_value peers))]"

definition RegistrationPayload :: "json \<Rightarrow> message \<Rightarrow> bytes" where
  "RegistrationPayload J m =
     render J [(''ver'', JInt (Ver m)), (''role'', JString (Role m)), (''token'', JString (Token m)),
       (''id'', JString (ID m)), (''pubkey'', JString (PubKey m)), (''virtual_ip'', JString (VirtualIP m)),
       (''name'', JString (Name m)), (''ts'', JInt (Ts m)), (''nonce'', JString (RegNonce m)),
       (''code_enc'', JString (CodeEnc m)), (''epk'', JString (RegEphPub m))]"

section \<open>Decoding\<close>

text \<open>A struct is filled member by member; \<open>st\<close> stores one member and fails on a value of the
  wrong type, unknown members are ignored.\<close>

fun fill :: "(bytes \<Rightarrow> jval \<Rightarrow> 'r \<Rightarrow> 'r option) \<Rightarrow> bytes list \<Rightarrow> (bytes \<times> jval) list \<Rightarrow> 'r \<Rightarrow> 'r option" where
  "fill st names [] r = Some r"
| "fill st names ((k, v) # ms) r =
     (case field_index names k of
        None \<Rightarrow> fill st names ms r
      | Some f \<Rightarrow> (case st f v r of None \<Rightarrow> None | Some r' \<Rightarrow> fill st names ms r'))"

definition fill_object :: "(bytes \<Rightarrow> jval \<Rightarrow> 'r \<Rightarrow> 'r option) \<Rightarrow> bytes list \<Rightarrow> jval \<Rightarrow> 'r \<Rightarrow> 'r option" where
  "fill_object st names v r =
     (case v of JNull \<Rightarrow> Some r | JObject ms \<Rightarrow> fill st names ms r | _ \<Rightarrow> None)"

fun fill_elems :: "(jval \<Rightarrow> 'r \<Rightarrow> 'r option) \<Rightarrow> 'r \<Rightarrow> jval list \<Rightarrow> 'r list \<Rightarrow> 'r list option" where
  "fill_elems dec z [] old = Some []"
| "fill_elems dec z (v # vs) old =
     (case dec v (case old of [] \<Rightarrow> z | x # _ \<Rightarrow> x) of
        None \<Rightarrow> None
      | Some x \<Rightarrow> map_option ((#) x) (fill_elems dec z vs (tl old)))"

definition fill_array :: "(jval \<Rightarrow> 'r \<Rightarrow> 'r option) \<Rightarrow> 'r \<Rightarrow> jval \<Rightarrow> 'r list \<Rightarrow> 'r list option" where
  "fill_array dec z v old =
     (case v of JNull \<Rightarrow> Some [] | JArray vs \<Rightarrow> fill_elems dec z vs old | _ \<Rightarrow> None)"

definition bool_member :: "jval \<Rightarrow> bool \<Rightarrow> bool option" where
  "bool_member v old = (case v of JNull \<Rightarrow> Some old | JBool b \<Rightarrow> Some b | _ \<Rightarrow> None)"

definition set_candidate :: "bytes \<Rightarrow> jval \<Rightarrow> candidate \<Rightarrow> candidate option" where
  "set_candidate f v c =
     (if f = ''addr'' then map_option (\<lambda>x. c\<lparr>Addr := x\<rparr>) (str_member v (Addr c))
      else map_option (\<lambda>b. c\<lparr>V6 := b\<rparr>) (bool_member v (V6 c)))"

definition decode_candidate :: "jval \<Rightarrow> candidate \<Rightarrow> candidate option" where
  "decode_candidate = fill_object set_candidate [''addr'', ''v6'']"

definition set_peer_field :: "bytes \<Rightarrow> jval \<Rightarrow> peer \<Rightarrow> peer option" where
  "set_peer_field f v p =
     (if f = ''id'' then map_option (\<lambda>x. p\<lparr>pID := x\<rparr>) (str_member v (pID p))
      else if f = ''pubkey'' then map_option (\<lambda>x. p\<lparr>pPubKey := x\<rparr>) (str_member v (pPubKey p))
      else if f = ''virtual_ip'' then map_option (\<lambda>x. p\<lparr>pVirtualIP := x\<rparr>) (str_member v (pVirtualIP p))
      else if f = ''name'' then map_option (\<lambda>x. p\<lparr>pName := x\<rparr>) (str_member v (pName p))
      else if f = ''candidates'' then
        map_option (\<lambda>x. p\<lparr>Candidates := x\<rparr>) (fill_array decode_candidate zero_candidate v (Candidates p))
      else if f = ''relay'' then map_option (\<lambda>x. p\<lparr>pRelay := x\<rparr>) (str_member v (pRelay p))
      else map_option (\<lambda>i. p\<lparr>LastSeen := i\<rparr>) (int_member v (LastSeen p)))"

definition decode_peer :: "jval \<Rightarrow> peer \<Rightarrow> peer option" where
  "decode_peer = fill_object set_peer_field [''id'', ''pubkey'', ''virtual_ip'', ''name'', ''candidates'', ''relay'', ''last_seen'']"

definition set_ticket :: "bytes \<Rightarrow> jval \<Rightarrow> relayTicket \<Rightarrow> relayTicket option" where
  "set_ticket f v t =
     (if f = ''p'' then map_option (\<lambda>x. t\<lparr>rtPayload := x\<rparr>) (str_member v (rtPayload t))
      else map_option (\<lambda>x. t\<lparr>rtSig := x\<rparr>) (str_member v (rtSig t)))"

text \<open>A pointer field: \<^verbatim>\<open>null\<close> resets it, an object fills the value it points to.\<close>

definition decode_ticket :: "jval \<Rightarrow> relayTicket option \<Rightarrow> relayTicket option option" where
  "decode_ticket v old =
     (case v of
        JNull \<Rightarrow> Some None
      | JObject ms \<Rightarrow> map_option Some
          (fill set_ticket [''p'', ''s''] ms (case old of None \<Rightarrow> \<lparr>rtPayload = [], rtSig = []\<rparr> | Some t \<Rightarrow> t))
      | _ \<Rightarrow> None)"

definition message_fields :: "bytes list" where
  "message_fields = [''type'', ''ver'', ''token_enc'', ''role'', ''id'', ''pubkey'', ''virtual_ip'', ''name'', ''ts'',
     ''nonce'', ''reg_sig'', ''code_enc'', ''epk'', ''peers'', ''sig'', ''ticket'', ''from'', ''to'',
     ''relay_endpoint'', ''relay_pubkey'', ''from_pubkey'', ''to_pubkey'', ''session_token'']"

definition set_message :: "bytes \<Rightarrow> jval \<Rightarrow> message \<Rightarrow> message option" where
  "set_message f v m =
     (if f = ''type'' then map_option (\<lambda>x. m\<lparr>Type := x\<rparr>) (str_member v (Type m))
      else if f = ''ver'' then map_option (\<lambda>i. m\<lparr>Ver := i\<rparr>) (int_member v (Ver m))
      else if f = ''token_enc'' then map_option (\<lambda>x. m\<lparr>TokenEnc := x\<rparr>) (str_member v (TokenEnc m))
      else if f = ''role'' then map_option (\<lambda>x. m\<lparr>Role := x\<rparr>) (str_member v (Role m))
      else if f = ''id'' then map_option (\<lambda>x. m\<lparr>ID := x\<rparr>) (str_member v (ID m))
      else if f = ''pubkey'' then map_option (\<lambda>x. m\<lparr>PubKey := x\<rparr>) (str_member v (PubKey m))
      else if f = ''virtual_ip'' then map_option (\<lambda>x. m\<lparr>VirtualIP := x\<rparr>) (str_member v (VirtualIP m))
      else if f = ''name'' then map_option (\<lambda>x. m\<lparr>Name := x\<rparr>) (str_member v (Name m))
      else if f = ''ts'' then map_option (\<lambda>i. m\<lparr>Ts := i\<rparr>) (int_member v (Ts m))
      else if f = ''nonce'' then map_option (\<lambda>x. m\<lparr>RegNonce := x\<rparr>) (str_member v (RegNonce m))
      else if f = ''reg_sig'' then map_option (\<lambda>x. m\<lparr>RegSig := x\<rparr>) (str_member v (RegSig m))
      else if f = ''code_enc'' then map_option (\<lambda>x. m\<lparr>CodeEnc := x\<rparr>) (str_member v (CodeEnc m))
      else if f = ''epk'' then map_option (\<lambda>x. m\<lparr>RegEphPub := x\<rparr>) (str_member v (RegEphPub m))
      else if f = ''peers'' then map_option (\<lambda>x. m\<lparr>Peers := x\<rparr>) (fill_array decode_peer zero_peer v (Peers m))
      else if f = ''sig'' then map_option (\<lambda>x. m\<lparr>Sig := x\<rparr>) (str_member v (Sig m))
      else if f = ''ticket'' then map_option (\<lambda>x. m\<lparr>RTicket := x\<rparr>) (decode_ticket v (RTicket m))
      else map_option (\<lambda>x. m) (str_member v []))"

text \<open>A top-level \<^verbatim>\<open>null\<close> is left out: it would leave the zero message, which no caller takes.\<close>

definition UnmarshalMessage :: "json \<Rightarrow> bytes \<Rightarrow> message option" where
  "UnmarshalMessage J raw =
     (case scan J raw of
        None \<Rightarrow> None
      | Some (ms, rest) \<Rightarrow>
          if list_all json_space rest then fill set_message message_fields ms zero_message else None)"

section \<open>Nonces and names\<close>

definition NewNonce :: "bytes \<Rightarrow> bytes" where
  "NewNonce rnd = b64url_encode rnd"

definition ValidNonce :: "bytes \<Rightarrow> bool" where
  "ValidNonce s =
     (if length s \<noteq> nonceB64Len then False
      else case b64url_decode s of None \<Rightarrow> False | Some raw \<Rightarrow> length raw = NonceLen)"

definition label_byte :: "char \<Rightarrow> bool" where
  "label_byte c = (let n = of_char c :: nat in (97 \<le> n \<and> n \<le> 122) \<or> (48 \<le> n \<and> n \<le> 57))"

text \<open>\<^verbatim>\<open>nameRE\<close> and \<^verbatim>\<open>fpAliasRE\<close> as the predicates they decide.\<close>

definition nameRE :: "bytes \<Rightarrow> bool" where
  "nameRE s \<longleftrightarrow> s \<noteq> [] \<and> list_all (\<lambda>c. label_byte c \<or> c = CHR ''-'') s \<and> label_byte (hd s) \<and> label_byte (List.last s)"

definition lower_hex :: "char \<Rightarrow> bool" where
  "lower_hex c = (let n = of_char c :: nat in (97 \<le> n \<and> n \<le> 102) \<or> (48 \<le> n \<and> n \<le> 57))"

definition fpAliasRE :: "bytes \<Rightarrow> bool" where
  "fpAliasRE s \<longleftrightarrow> length s = 8 \<and> list_all lower_hex s"

definition ValidName :: "bytes \<Rightarrow> bool" where
  "ValidName s \<longleftrightarrow> 1 \<le> length s \<and> length s \<le> MaxNameLen \<and> nameRE s \<and> \<not> fpAliasRE s"

section \<open>Keys and addresses\<close>

text \<open>\<^verbatim>\<open>strconv.Itoa\<close> on a natural number.\<close>

fun itoa :: "nat \<Rightarrow> bytes" where
  "itoa n = (if n < 10 then [char_of (48 + n)] else itoa (n div 10) @ [char_of (48 + n mod 10)])"

declare itoa.simps [simp del]

definition VirtualIP_of :: "crypto \<Rightarrow> bytes \<Rightarrow> bytes" where
  "VirtualIP_of C pub =
     (let sum = sha256 C pub; hi = sum ! 0; lo = sum ! 1;
          lo = (if hi = CHR 0x00 \<and> lo = CHR 0x00 then CHR 0x01
                else if hi = CHR 0xFF \<and> lo = CHR 0xFF then CHR 0xFE else lo)
      in [CHR 0x0A, CHR 0x42, hi, lo])"

definition dotted :: "bytes \<Rightarrow> bytes" where
  "dotted ip = Join (map (\<lambda>c. itoa (of_char c)) ip) ''.''"

definition VirtualIPString :: "crypto \<Rightarrow> bytes \<Rightarrow> bytes" where
  "VirtualIPString C pub = dotted (VirtualIP_of C pub)"

definition PubKeyB64 :: "bytes \<Rightarrow> bytes" where
  "PubKeyB64 pub = b64std_encode pub"

definition DecodePubKey :: "bytes \<Rightarrow> bytes option" where
  "DecodePubKey b64 =
     (case b64std_decode b64 of
        None \<Rightarrow> None
      | Some raw \<Rightarrow> if length raw \<noteq> PublicKeySize then None else Some raw)"

end
