(* ===== verification/Keys.thy ===== *)
theory Keys
  imports Protocol Authz
begin

text \<open>
  Identities and secrets: the identity key file (\<^verbatim>\<open>internal/crypto/keys.go\<close>), sealed boxes
  (\<^verbatim>\<open>sealedcode.go\<close>), the scalar of an identity and the pair secret (\<^verbatim>\<open>x25519.go\<close>,
  \<^verbatim>\<open>pairsecret.go\<close>), fresh tokens (\<^verbatim>\<open>internal/secret\<close>) and the invite (\<^verbatim>\<open>internal/invite\<close>).

  A private key is its 32-byte seed. The key path appears as what is found there; what the
  operating system answers to each call is the record \<open>io\<close>. Curve25519, Edwards points,
  \<^verbatim>\<open>nacl/box\<close> and HKDF are parameters. Wiping memory is not modelled.
\<close>

section \<open>The identity key file\<close>

definition SeedSize :: nat where "SeedSize = 32"

text \<open>Mode \<^verbatim>\<open>0600\<close>: no access for group and others, whose bits are the low six.\<close>

definition private_mode :: nat where "private_mode = 384"

datatype key_path = Absent | Symlink | Inaccessible | KeyFile bytes nat

datatype key_error = KeyMissing | IsSymlink | OpenError | StatError | PermError | ReadFailed
  | DecodeError | SeedLength | RandError | CreateError | WriteError | CloseError

text \<open>\<open>written\<close> is the number of bytes that reached the file when the write failed.\<close>

record io =
  stat_ok :: bool
  chmod_ok :: bool
  read_ok :: bool
  create_ok :: bool
  written :: "nat option"
  close_ok :: bool

definition createKeyFile :: "io \<Rightarrow> bytes option \<Rightarrow> key_path \<Rightarrow> (key_error + bytes) \<times> key_path" where
  "createKeyFile w rnd f =
     (case rnd of
        None \<Rightarrow> (Inl RandError, f)
      | Some seed \<Rightarrow>
          (let text = b64std_encode seed in
           if f \<noteq> Absent \<or> \<not> create_ok w then (Inl CreateError, f)
           else case written w of
             Some n \<Rightarrow> (Inl WriteError, KeyFile (take n text) private_mode)
           | None \<Rightarrow> (if \<not> close_ok w then (Inl CloseError, KeyFile text private_mode)
                      else (Inr seed, KeyFile text private_mode))))"

definition CreateKey :: "io \<Rightarrow> bytes option \<Rightarrow> bytes \<Rightarrow> key_path \<Rightarrow> (key_error + bytes) \<times> key_path" where
  "CreateKey w rnd path f =
     (if path = [] then (case rnd of None \<Rightarrow> (Inl RandError, f) | Some seed \<Rightarrow> (Inr seed, f))
      else createKeyFile w rnd f)"

definition read_seed :: "bytes \<Rightarrow> key_error + bytes" where
  "read_seed data =
     (case b64std_decode (TrimSpace data) of
        None \<Rightarrow> Inl DecodeError
      | Some seed \<Rightarrow> if length seed \<noteq> SeedSize then Inl SeedLength else Inr seed)"

definition loadKey :: "io \<Rightarrow> bytes option \<Rightarrow> bytes \<Rightarrow> bool \<Rightarrow> key_path \<Rightarrow> (key_error + bytes \<times> bool) \<times> key_path" where
  "loadKey w rnd path create f =
     (if path = [] then (case rnd of None \<Rightarrow> (Inl RandError, f) | Some seed \<Rightarrow> (Inr (seed, True), f))
      else case f of
        KeyFile data perm \<Rightarrow>
          (let loose = (perm mod 64 \<noteq> 0); f' = (if loose then KeyFile data private_mode else f) in
           if \<not> stat_ok w then (Inl StatError, f)
           else if loose \<and> \<not> chmod_ok w then (Inl PermError, f)
           else if \<not> read_ok w then (Inl ReadFailed, f')
           else case read_seed data of Inl e \<Rightarrow> (Inl e, f') | Inr seed \<Rightarrow> (Inr (seed, False), f'))
      | Symlink \<Rightarrow> (Inl IsSymlink, f)
      | Absent \<Rightarrow>
          (if \<not> create then (Inl KeyMissing, f)
           else case createKeyFile w rnd f of
             (Inl e, f') \<Rightarrow> (Inl e, f')
           | (Inr seed, f') \<Rightarrow> (Inr (seed, True), f'))
      | Inaccessible \<Rightarrow> (Inl OpenError, f))"

definition LoadKey :: "io \<Rightarrow> bytes option \<Rightarrow> bytes \<Rightarrow> key_path \<Rightarrow> (key_error + bytes \<times> bool) \<times> key_path" where
  "LoadKey w rnd path f = loadKey w rnd path False f"

definition LoadOrCreateKey :: "io \<Rightarrow> bytes option \<Rightarrow> bytes \<Rightarrow> key_path \<Rightarrow> (key_error + bytes \<times> bool) \<times> key_path" where
  "LoadOrCreateKey w rnd path f = loadKey w rnd path True f"

section \<open>Sealed boxes\<close>

text \<open>Third-party primitives: the Montgomery form of an Edwards point, \<^verbatim>\<open>box.Seal\<close> with its
  generated key pair, Curve25519 and HKDF. SHA-512 is of the standard library and a
  parameter like the other hashes.\<close>

record curves =
  montgomery :: "bytes \<Rightarrow> bytes option"
  box_seal :: "bytes \<Rightarrow> bytes \<Rightarrow> bytes \<Rightarrow> bytes \<Rightarrow> bytes"
  x25519 :: "bytes \<Rightarrow> bytes \<Rightarrow> bytes option"
  hkdf_sha256 :: "bytes \<Rightarrow> bytes \<Rightarrow> nat \<Rightarrow> bytes"
  sha512 :: "bytes \<Rightarrow> bytes"

definition X25519FromEd25519Public :: "curves \<Rightarrow> bytes \<Rightarrow> bytes option" where
  "X25519FromEd25519Public X pub = montgomery X pub"

definition X25519FromEd25519Private :: "curves \<Rightarrow> bytes \<Rightarrow> bytes" where
  "X25519FromEd25519Private X seed =
     (let s = take 32 (sha512 X seed);
          first = of_char (s ! 0) :: nat; final = of_char (s ! 31) :: nat
      in s[0 := char_of (first - first mod 8), 31 := char_of (final mod 64 + 64)])"

text \<open>The key pair of the sender and the nonce are drawn by the call.\<close>

definition SealCode :: "curves \<Rightarrow> bytes \<times> bytes \<Rightarrow> bytes \<Rightarrow> bytes \<Rightarrow> bytes \<Rightarrow> bytes option" where
  "SealCode X eph nonce code serverEdPub =
     (case X25519FromEd25519Public X serverEdPub of
        None \<Rightarrow> None
      | Some recipient \<Rightarrow>
          (let ct = box_seal X code nonce recipient (snd eph)
           in Some (b64std_encode (fst eph @ nonce @ ct))))"

section \<open>The secret of a pair\<close>

definition pairLabel :: bytes where
  "pairLabel = ''buddynet-pair-secret-v1'' @ [CHR 0x00]"

definition PairSecret :: "crypto \<Rightarrow> curves \<Rightarrow> bytes \<Rightarrow> bytes \<Rightarrow> bytes option" where
  "PairSecret C X myPriv peerPub =
     (let myScalar = X25519FromEd25519Private X myPriv in
      case X25519FromEd25519Public X peerPub of
        None \<Rightarrow> None
      | Some peerX \<Rightarrow>
          (case x25519 X myScalar peerX of
             None \<Rightarrow> None
           | Some shared \<Rightarrow>
               (let myPub = ed_public C myPriv;
                    (lo, hi) = (if myPub > peerPub then (peerPub, myPub) else (myPub, peerPub));
                    info = pairLabel @ lo @ hi
                in Some (hkdf_sha256 X shared info 32))))"

section \<open>Tokens and invites\<close>

definition NewToken :: "bytes \<Rightarrow> bytes" where
  "NewToken rnd = b64url_encode rnd"

definition NewSessionToken :: "bytes \<Rightarrow> bytes" where
  "NewSessionToken rnd = b64url_encode rnd"

definition invite_prefix :: bytes where "invite_prefix = ''bnet1.''"

definition Mint :: "bytes \<Rightarrow> bytes \<Rightarrow> bytes" where
  "Mint tok pub = invite_prefix @ tok @ ''.'' @ b64url_encode pub"

fun Cut :: "bytes \<Rightarrow> char \<Rightarrow> (bytes \<times> bytes) option" where
  "Cut [] sep = None"
| "Cut (c # s) sep = (if c = sep then Some ([], s) else map_option (\<lambda>(a, b). (c # a, b)) (Cut s sep))"

datatype blob_error = NotBlobShape | KeyNotBase64 | KeyLength

definition invite_Parse :: "bytes \<Rightarrow> blob_error + bytes \<times> bytes option" where
  "invite_Parse s =
     (let s = TrimSpace s in
      if \<not> HasPrefix s invite_prefix then Inr (s, None)
      else case Cut (drop (length invite_prefix) s) CHR ''.'' of
        None \<Rightarrow> Inl NotBlobShape
      | Some (tok, keyPart) \<Rightarrow>
          (if tok = [] \<or> keyPart = [] then Inl NotBlobShape
           else case b64url_decode keyPart of
             None \<Rightarrow> Inl KeyNotBase64
           | Some raw \<Rightarrow> if length raw \<noteq> PublicKeySize then Inl KeyLength else Inr (tok, Some raw)))"

definition IsBlob :: "bytes \<Rightarrow> bool" where
  "IsBlob s = HasPrefix (TrimSpace s) invite_prefix"

section \<open>Standard base64\<close>

lemma takeWhile_chars:
  "\<forall>v \<in> set vs. v < 64 \<Longrightarrow>
   takeWhile (\<lambda>c. c \<noteq> CHR ''='') (map (b64_char al) vs @ replicate n CHR ''='') = map (b64_char al) vs \<and>
   dropWhile (\<lambda>c. c \<noteq> CHR ''='') (map (b64_char al) vs @ replicate n CHR ''='') = replicate n CHR ''=''"
  by (induction vs) (simp_all add: b64_char_plain)

lemma skip_newlines_pad:
  "\<forall>v \<in> set vs. v < 64 \<Longrightarrow>
   skip_newlines (map (b64_char al) vs @ replicate n CHR ''='') = map (b64_char al) vs @ replicate n CHR ''=''"
  by (induction vs) (simp_all add: skip_newlines_def b64_char_plain)

lemma encoded_len_pad:
  "(4 - b64url_encoded_len n mod 4) mod 4 \<le> 2" "(b64url_encoded_len n + (4 - b64url_encoded_len n mod 4) mod 4) mod 4 = 0"
proof -
  have m: "b64url_encoded_len n mod 4 = (n mod 3 * 8 + 5) div 6 mod 4" by (simp add: b64url_encoded_len_def)
  have "n mod 3 = 0 \<or> n mod 3 = 1 \<or> n mod 3 = 2" by linarith
  then have "b64url_encoded_len n mod 4 = 0 \<or> b64url_encoded_len n mod 4 = 2 \<or> b64url_encoded_len n mod 4 = 3"
    by (auto simp: m)
  then show "(4 - b64url_encoded_len n mod 4) mod 4 \<le> 2"
    "(b64url_encoded_len n + (4 - b64url_encoded_len n mod 4) mod 4) mod 4 = 0"
    by (auto, presburger+)
qed

lemma b64std_decode_encode [simp]: "b64std_decode (b64std_encode bs) = Some bs"
proof -
  let ?vs = "sextets (map of_char bs)" and ?p = "(4 - b64url_encoded_len (length bs) mod 4) mod 4"
  have enc: "b64std_encode bs = map (b64_char StdAlphabet) ?vs @ replicate ?p CHR ''=''"
    by (simp add: b64std_encode_def length_sextets)
  have len: "\<not> (length (map (b64_char StdAlphabet) ?vs @ replicate ?p CHR ''='') mod 4 \<noteq> 0)"
    "\<not> 2 < length (replicate ?p CHR ''='')" "\<not> (\<exists>c \<in> set (replicate ?p CHR ''=''). c \<noteq> CHR ''='')"
    using encoded_len_pad [of "length bs"] by (simp_all add: length_sextets not_less)
  have "b64std_decode (map (b64_char StdAlphabet) ?vs @ replicate ?p CHR ''='') = map_option bytes_of (unsextets ?vs)"
    unfolding b64std_decode_def Let_def skip_newlines_pad [OF sextets_bs] takeWhile_chars [OF sextets_bs, THEN conjunct1]
      takeWhile_chars [OF sextets_bs, THEN conjunct2]
    by (simp only: len sextets_of_chars [OF sextets_bs] option.case if_False simp_thms)
  then show ?thesis
    unfolding enc by (simp only: unsextets_sextets [OF of_char_bound] option.map bytes_of_of_char)
qed

interpretation b64std: codec b64std_encode b64std_decode "\<lambda>_. True"
  by unfold_locales simp

lemma b64_char_ascii: "v < 64 \<Longrightarrow> plain_byte (b64_char al v)"
  by (rule plain_ascii) (auto simp: b64_char_def of_char_of)

lemma b64std_plain: "\<forall>c \<in> set (b64std_encode bs). plain_byte c"
  using sextets_bs [of bs] b64_char_ascii plain_ascii [of "CHR ''=''"]
  by (auto simp: b64std_encode_def Let_def)

lemma b64url_plain: "\<forall>c \<in> set (b64url_encode bs). plain_byte c"
  using sextets_bs [of bs] b64_char_ascii by (auto simp: b64url_encode_def)

section \<open>The key file\<close>

text \<open>What a key path holds besides its permissions.\<close>

fun key_data :: "key_path \<Rightarrow> bytes option" where
  "key_data (KeyFile data perm) = Some data"
| "key_data f = None"

lemma length_unsextets: "unsextets vs = Some bs \<Longrightarrow> length vs mod 4 = 0 \<Longrightarrow> length bs = length vs div 4 * 3"
proof (induction vs arbitrary: bs rule: unsextets.induct)
  case (5 a b c d r)
  then obtain bs' where "unsextets r = Some bs'" "length bs = 3 + length bs'" by auto
  with 5 show ?case by simp
qed auto

lemma b64std_decode_chars:
  assumes "\<forall>v \<in> set vs. v < 64"
  shows "b64std_decode (map (b64_char StdAlphabet) vs) = (if length vs mod 4 \<noteq> 0 then None else map_option bytes_of (unsextets vs))"
proof -
  let ?s = "map (b64_char StdAlphabet) vs"
  have w: "takeWhile (\<lambda>c. c \<noteq> CHR ''='') ?s = ?s" "dropWhile (\<lambda>c. c \<noteq> CHR ''='') ?s = []"
    using takeWhile_chars [OF assms, of StdAlphabet 0] by (simp_all only: replicate_0 append_Nil2)
  have 0: "\<not> 2 < (0 :: nat)" by simp
  show ?thesis
    unfolding b64std_decode_def Let_def skip_newlines_chars [OF assms] w
    by (simp only: length_map list.size 0 list.set bex_empty simp_thms sextets_of_chars [OF assms] option.case)
qed

lemma read_seed_torn:
  assumes "length seed = SeedSize" and "n < 44"
  shows "\<exists>e. read_seed (take n (b64std_encode seed)) = Inl e"
proof -
  let ?vs = "sextets (map of_char seed)"
  have len: "length ?vs = 43" using assms(1) by (simp add: length_sextets b64url_encoded_len_def SeedSize_def)
  have "b64std_encode seed = map (b64_char StdAlphabet) ?vs @ ''=''"
    by (simp add: b64std_encode_def len)
  with assms(2) len have t: "take n (b64std_encode seed) = map (b64_char StdAlphabet) (take n ?vs)"
    by (simp add: take_map)
  have b: "\<forall>v \<in> set (take n ?vs). v < 64" using sextets_bs in_set_takeD by fast
  have plain: "TrimSpace (take n (b64std_encode seed)) = take n (b64std_encode seed)"
    by (rule TrimSpace_plain) (use b64std_plain in_set_takeD in fast)
  have "length raw \<noteq> SeedSize" if "b64std_decode (map (b64_char StdAlphabet) (take n ?vs)) = Some raw" for raw
  proof -
    have m: "length (take n ?vs) mod 4 = 0" and u: "map_option bytes_of (unsextets (take n ?vs)) = Some raw"
      using that unfolding b64std_decode_chars [OF b] by (simp_all only: option.distinct split: if_split_asm)
    then obtain bs where "unsextets (take n ?vs) = Some bs" "length raw = length bs" by (auto simp: bytes_of_def)
    with length_unsextets m have "length raw = length (take n ?vs) div 4 * 3" by metis
    moreover have "length (take n ?vs) div 4 \<le> 10" using len by simp
    ultimately show ?thesis unfolding SeedSize_def by linarith
  qed
  then show ?thesis unfolding read_seed_def plain [unfolded t] t by (auto split: option.split)
qed

lemma read_seed_encode: "length seed = SeedSize \<Longrightarrow> read_seed (b64std_encode seed) = Inr seed"
  by (simp add: read_seed_def TrimSpace_plain [OF b64std_plain])

text \<open>C28: the identity of a server is never invented. Loading a key from a path never creates
  one and never changes what the path holds, except that loose permissions are tightened;
  a key it returns is the one in the file; and creating refuses when anything exists
  there.\<close>

theorem identity_never_invented:
  assumes "path \<noteq> []"
  shows "key_data (snd (LoadKey w rnd path f)) = key_data f \<and> (snd (LoadKey w rnd path f) = Absent \<longleftrightarrow> f = Absent) \<and>
    (case fst (LoadKey w rnd path f) of
       Inl e \<Rightarrow> e = KeyMissing \<longleftrightarrow> f = Absent
     | Inr (seed, created) \<Rightarrow> \<not> created \<and> (\<exists>data. key_data f = Some data \<and> read_seed data = Inr seed)) \<and>
    (f \<noteq> Absent \<longrightarrow> snd (CreateKey w rnd path f) = f \<and> (\<exists>e. fst (CreateKey w rnd path f) = Inl e))"
proof -
  have "read_seed data \<noteq> Inl KeyMissing" for data by (simp add: read_seed_def split: option.split)
  with assms show ?thesis
    by (cases f) (auto simp: LoadKey_def loadKey_def CreateKey_def createKeyFile_def Let_def split: sum.split option.split)
qed

theorem identity_never_invented_witness:
  "snd (LoadKey \<lparr>stat_ok = True, chmod_ok = True, read_ok = True, create_ok = True, written = None, close_ok = True\<rparr>
     (Some (replicate 32 CHR ''r'')) ''id.key'' Absent) = Absent"
  using identity_never_invented [of "''id.key''"
      "\<lparr>stat_ok = True, chmod_ok = True, read_ok = True, create_ok = True, written = None, close_ok = True\<rparr>"
      "Some (replicate 32 CHR ''r'')" Absent] by simp

text \<open>C25: a new identity survives a restart, and a torn one is refused. What \<^const>\<open>CreateKey\<close>
  returned is what every later load returns. If the write stopped after any proper prefix
  of the text, every later load fails instead of coming up with another identity, also
  the one that may create keys.\<close>

theorem identity_survives:
  assumes "path \<noteq> []" and "length seed = SeedSize" and "create_ok w"
  shows "(written w = None \<and> close_ok w \<longrightarrow>
      fst (CreateKey w (Some seed) path Absent) = Inr seed \<and>
      (stat_ok w' \<and> read_ok w' \<longrightarrow>
        fst (loadKey w' rnd path create (snd (CreateKey w (Some seed) path Absent))) = Inr (seed, False))) \<and>
    (written w = Some n \<and> n < 44 \<longrightarrow>
      (\<exists>e. fst (loadKey w' rnd path create (snd (CreateKey w (Some seed) path Absent))) = Inl e))"
  using assms read_seed_encode [OF assms(2)] read_seed_torn [OF assms(2), of n]
  by (auto simp: CreateKey_def createKeyFile_def loadKey_def private_mode_def Let_def)

theorem identity_survives_witness:
  "fst (CreateKey \<lparr>stat_ok = True, chmod_ok = True, read_ok = True, create_ok = True, written = None, close_ok = True\<rparr>
     (Some (replicate 32 CHR ''r'')) ''id.key'' Absent) = Inr (replicate 32 CHR ''r'')"
  using identity_survives [of "''id.key''" "replicate 32 CHR ''r''"
      "\<lparr>stat_ok = True, chmod_ok = True, read_ok = True, create_ok = True, written = None, close_ok = True\<rparr>"]
  by (simp add: SeedSize_def)

section \<open>Sealed boxes open\<close>

text \<open>Documented behaviour of \<^verbatim>\<open>nacl/box\<close>: a box sealed to the recipient's key opens with the
  matching private key, and is 16 bytes longer than the message.\<close>

definition box_correct :: "curves \<Rightarrow> box_open \<Rightarrow> bytes \<Rightarrow> bytes \<times> bytes \<Rightarrow> bytes \<Rightarrow> bytes \<Rightarrow> bool" where
  "box_correct X B recipient eph nonce msg \<longleftrightarrow>
     length (fst eph) = 32 \<and> length nonce = 24 \<and>
     length (box_seal X msg nonce recipient (snd eph)) = length msg + 16 \<and>
     B (box_seal X msg nonce recipient (snd eph)) nonce (fst eph) = Some msg"

lemma SealCode_OpenCode:
  assumes "montgomery X serverPub = Some r" and "box_correct X B r eph nonce code"
  shows "\<exists>enc. SealCode X eph nonce code serverPub = Some enc \<and> OpenCode B enc = Some code"
  using assms by (auto simp: SealCode_def X25519FromEd25519Public_def Let_def OpenCode_def box_correct_def)

section \<open>Both ends derive the same secret\<close>

text \<open>Diffie-Hellman: both orders give the same point.\<close>

definition dh_agrees :: "crypto \<Rightarrow> curves \<Rightarrow> bytes \<Rightarrow> bytes \<Rightarrow> bool" where
  "dh_agrees C X a b \<longleftrightarrow>
     (case (montgomery X (ed_public C b), montgomery X (ed_public C a)) of
        (Some bx, Some ax) \<Rightarrow> x25519 X (X25519FromEd25519Private X a) bx = x25519 X (X25519FromEd25519Private X b) ax
      | (None, None) \<Rightarrow> True
      | _ \<Rightarrow> False)"

lemma PairSecret_agrees:
  assumes "dh_agrees C X a b"
  shows "PairSecret C X a (ed_public C b) = PairSecret C X b (ed_public C a)"
  using assms
  by (auto simp: PairSecret_def X25519FromEd25519Public_def dh_agrees_def Let_def split: option.splits)

section \<open>Invites\<close>

lemma Cut_append: "sep \<notin> set a \<Longrightarrow> Cut (a @ sep # b) sep = Some (a, b)"
  by (induction a) auto

lemma b64url_encode_Nil: "b64url_encode bs = [] \<longleftrightarrow> bs = []"
proof -
  have "b64url_encode [] = []" by (simp add: b64url_encode_def)
  then show ?thesis
    using b64url_decode_encode [of bs] by (auto simp: b64url_decode_def sextets_of_def skip_newlines_def bytes_of_def)
qed

lemma invite_roundtrip:
  assumes "tok \<noteq> []" and "list_all b64url_byte tok" and "length pub = PublicKeySize"
  shows "invite_Parse (Mint tok pub) = Inr (tok, Some pub)"
proof -
  have p: "b64url_byte c \<Longrightarrow> plain_byte c" for c
    by (rule plain_ascii) (auto simp: b64url_byte_def Let_def)
  have "\<forall>c \<in> set (Mint tok pub). plain_byte c"
    using assms(2) b64url_plain [of pub] p plain_ascii [of "CHR ''.''"]
    by (auto simp: Mint_def invite_prefix_def list_all_iff intro: plain_ascii)
  then have t: "TrimSpace (Mint tok pub) = Mint tok pub" by (rule TrimSpace_plain)
  have "CHR ''.'' \<notin> set tok" using assms(2) by (auto simp: list_all_iff b64url_byte_def Let_def)
  moreover have "pub \<noteq> []" using assms(3) by (auto simp: PublicKeySize_def)
  ultimately show ?thesis
    unfolding invite_Parse_def t using assms
    by (simp add: Mint_def HasPrefix_def Cut_append b64url_encode_Nil)
qed

end
