(* ===== verification/NetText.thy ===== *)
theory NetText
  imports Protocol Netkey
begin

text \<open>
  Addresses as text, from \<^verbatim>\<open>net\<close> and \<^verbatim>\<open>net/netip\<close>: how a \<^verbatim>\<open>net.UDPAddr\<close> prints, and how
  \<^verbatim>\<open>netip.ParseAddr\<close> and \<^verbatim>\<open>netip.ParseAddrPort\<close> read. The zone of a printed address is left out,
  as in the accounting keys; the parser keeps it.
\<close>

section \<open>Printing\<close>

fun itohex :: "nat \<Rightarrow> bytes" where
  "itohex n = (if n < 16 then [hex_digit n] else itohex (n div 16) @ [hex_digit (n mod 16)])"

declare itohex.simps [simp del]

fun groups :: "bytes \<Rightarrow> nat list" where
  "groups (a # b # r) = (256 * of_char a + of_char b) # groups r"
| "groups _ = []"

text \<open>The longest run of at least two zero groups, the first one among equals: its start and
  length.\<close>

definition zero_run :: "nat list \<Rightarrow> nat \<Rightarrow> nat" where
  "zero_run gs i = length (takeWhile (\<lambda>g. g = 0) (drop i gs))"

definition longest_run :: "nat list \<Rightarrow> (nat \<times> nat)" where
  "longest_run gs =
     fold (\<lambda>i (s, l). let r = zero_run gs i in if 2 \<le> r \<and> l < r then (i, r) else (s, l)) [0..<length gs] (0, 0)"

definition text6 :: "bytes \<Rightarrow> bytes" where
  "text6 ip =
     (let gs = groups ip; (s, l) = longest_run gs in
      if l = 0 then Join (map itohex gs) '':''
      else Join (map itohex (take s gs)) '':'' @ ''::'' @ Join (map itohex (drop (s + l) gs)) '':'')"

definition To4 :: "ipaddr \<Rightarrow> ipaddr option" where
  "To4 a = (if length a = 4 then Some a
     else if length a = 16 \<and> take 12 a = v4_in_v6_prefix then Some (drop 12 a) else None)"

text \<open>\<^verbatim>\<open>net.IP.String\<close> and \<^verbatim>\<open>net.UDPAddr.String\<close>; an address of another length prints as a question
  mark and its hex digits.\<close>

definition IP_String :: "ipaddr \<Rightarrow> bytes" where
  "IP_String a =
     (if a = [] then ''<nil>''
      else case To4 a of
        Some a4 \<Rightarrow> dotted a4
      | None \<Rightarrow> if length a = 16 then text6 a else ''?'' @ hex_encode a)"

definition JoinHostPort :: "bytes \<Rightarrow> bytes \<Rightarrow> bytes" where
  "JoinHostPort host port =
     (if CHR '':'' \<in> set host \<or> CHR ''%'' \<in> set host then ''['' @ host @ '']:'' @ port else host @ '':'' @ port)"

definition UDPAddr_String :: "udpaddr \<Rightarrow> bytes" where
  "UDPAddr_String a = JoinHostPort (if IP a = [] then [] else IP_String (IP a)) (itoa (Port a))"

section \<open>Parsing\<close>

datatype netaddr = Addr4 bytes | Addr6 bytes bytes

fun split_on :: "char \<Rightarrow> bytes \<Rightarrow> bytes list" where
  "split_on sep [] = [[]]"
| "split_on sep (c # s) =
     (if c = sep then [] # split_on sep s
      else case split_on sep s of [] \<Rightarrow> [[c]] | w # ws \<Rightarrow> (c # w) # ws)"

definition digit :: "char \<Rightarrow> nat option" where
  "digit c = (let n = of_char c :: nat in if 48 \<le> n \<and> n \<le> 57 then Some (n - 48) else None)"

definition hex_value :: "char \<Rightarrow> nat option" where
  "hex_value c =
     (let n = of_char c :: nat in
      if 48 \<le> n \<and> n \<le> 57 then Some (n - 48)
      else if 97 \<le> n \<and> n \<le> 102 then Some (n - 87)
      else if 65 \<le> n \<and> n \<le> 70 then Some (n - 55) else None)"

definition number :: "nat \<Rightarrow> (char \<Rightarrow> nat option) \<Rightarrow> bytes \<Rightarrow> nat option" where
  "number base dig s =
     (if s = [] then None else map_option (\<lambda>ds. fold (\<lambda>d acc. acc * base + d) ds 0) (those (map dig s)))"

definition field4 :: "bytes \<Rightarrow> nat option" where
  "field4 s =
     (if length s > 1 \<and> hd s = CHR ''0'' then None
      else case number 10 digit s of None \<Rightarrow> None | Some n \<Rightarrow> if n > 255 then None else Some n)"

definition fields4 :: "bytes \<Rightarrow> bytes option" where
  "fields4 s =
     (let fs = split_on CHR ''.'' s in
      if length fs \<noteq> 4 then None else map_option (map char_of) (those (map field4 fs)))"

text \<open>The loop over the groups of an IPv6 address: the bytes so far and where the ellipsis
  stands.\<close>

fun parse6_loop :: "nat \<Rightarrow> bytes \<Rightarrow> bytes \<Rightarrow> nat option \<Rightarrow> (bytes \<times> nat option) option" where
  "parse6_loop 0 s acc ell = (if s = [] then Some (acc, ell) else None)"
| "parse6_loop (Suc n) s acc ell =
     (let hs = takeWhile (\<lambda>c. hex_value c \<noteq> None) s; rest = dropWhile (\<lambda>c. hex_value c \<noteq> None) s in
      case number 16 hex_value hs of
        None \<Rightarrow> None
      | Some v \<Rightarrow>
          (if length hs > 4 then None
           else if rest \<noteq> [] \<and> hd rest = CHR ''.'' then
             (if (ell = None \<and> length acc \<noteq> 12) \<or> length acc + 4 > 16 then None
              else map_option (\<lambda>b. (acc @ b, ell)) (fields4 s))
           else let acc = acc @ [char_of (v div 256), char_of (v mod 256)] in
             if rest = [] then Some (acc, ell)
             else if hd rest \<noteq> CHR '':'' \<or> length rest = 1 then None
             else if hd (tl rest) = CHR '':'' then
               (if ell \<noteq> None then None
                else if tl (tl rest) = [] then Some (acc, Some (length acc))
                else parse6_loop n (tl (tl rest)) acc (Some (length acc)))
             else parse6_loop n (tl rest) acc ell))"

definition expand6 :: "bytes \<times> nat option \<Rightarrow> bytes option" where
  "expand6 r =
     (case r of (acc, ell) \<Rightarrow>
        if length acc < 16
        then map_option (\<lambda>e. take e acc @ replicate (16 - length acc) CHR 0x00 @ drop e acc) ell
        else if ell \<noteq> None then None else Some acc)"

definition parse6 :: "bytes \<Rightarrow> netaddr option" where
  "parse6 s =
     (let body = takeWhile (\<lambda>c. c \<noteq> CHR ''%'') s; tail = dropWhile (\<lambda>c. c \<noteq> CHR ''%'') s; zone = tl tail;
          lead = (take 2 body = ''::'') in
      if tail \<noteq> [] \<and> zone = [] then None
      else if body = ''::'' then Some (Addr6 (replicate 16 CHR 0x00) zone)
      else case parse6_loop 8 (if lead then drop 2 body else body) [] (if lead then Some 0 else None) of
        None \<Rightarrow> None
      | Some r \<Rightarrow> map_option (\<lambda>ip. Addr6 ip zone) (expand6 r))"

definition ParseAddr :: "bytes \<Rightarrow> netaddr option" where
  "ParseAddr s =
     (case find (\<lambda>c. c = CHR ''.'' \<or> c = CHR '':'' \<or> c = CHR ''%'') s of
        None \<Rightarrow> None
      | Some c \<Rightarrow>
          if c = CHR ''.'' then map_option Addr4 (fields4 s)
          else if c = CHR '':'' then parse6 s else None)"

text \<open>The port is a decimal number of 16 bits; brackets belong to IPv6.\<close>

definition ParseAddrPort :: "bytes \<Rightarrow> (netaddr \<times> nat) option" where
  "ParseAddrPort s =
     (if CHR '':'' \<notin> set s then None
      else let port = rev (takeWhile (\<lambda>c. c \<noteq> CHR '':'') (rev s));
               host = rev (tl (dropWhile (\<lambda>c. c \<noteq> CHR '':'') (rev s)));
               v6 = (host \<noteq> [] \<and> hd host = CHR ''['') in
           if host = [] \<or> (v6 \<and> (length host < 2 \<or> List.last host \<noteq> CHR '']'')) then None
           else case number 10 digit port of
             None \<Rightarrow> None
           | Some n \<Rightarrow>
               (if n > 65535 then None
                else case ParseAddr (if v6 then butlast (tl host) else host) of
                  None \<Rightarrow> None
                | Some (Addr4 ip) \<Rightarrow> if v6 then None else Some (Addr4 ip, n)
                | Some (Addr6 ip zone) \<Rightarrow> if v6 then Some (Addr6 ip zone, n) else None))"

fun addr_Unmap :: "netaddr \<Rightarrow> netaddr" where
  "addr_Unmap (Addr4 ip) = Addr4 ip"
| "addr_Unmap (Addr6 ip zone) = (if take 12 ip = v4_in_v6_prefix then Addr4 (drop 12 ip) else Addr6 ip zone)"

fun IsUnspecified :: "netaddr \<Rightarrow> bool" where
  "IsUnspecified (Addr4 ip) \<longleftrightarrow> ip = replicate 4 CHR 0x00"
| "IsUnspecified (Addr6 ip zone) \<longleftrightarrow> ip = replicate 16 CHR 0x00 \<and> zone = []"

fun IsMulticast :: "netaddr \<Rightarrow> bool" where
  "IsMulticast (Addr4 ip) \<longleftrightarrow> 224 \<le> (of_char (hd ip) :: nat) \<and> (of_char (hd ip) :: nat) < 240"
| "IsMulticast (Addr6 ip zone) \<longleftrightarrow> hd ip = CHR 0xFF"

end
