(* ===== verification/Handshake.thy ===== *)
theory Handshake
  imports Keys NetText "HOL-Library.Multiset"
begin

text \<open>
  The matchmaking server, \<^verbatim>\<open>internal/role/handshake.go\<close>: the registry that pairs two
  registrations with the same token, the checks of a registration, the relay tickets it
  issues, and the handler of one control request.

  The record \<open>hs\<close> holds what the goroutines share: the registry under its mutex, the
  counters, the allowlist of approval mode and the rate limiter. Every operation reads the
  clock once. Where the code ranges over a map and the order matters, the order is the
  argument \<open>it\<close>. Log lines are left out; the latches that decide whether a line is written
  are kept.
\<close>

section \<open>Constants and state\<close>

definition maxTokens :: nat where "maxTokens = 4096"
definition maxIDsPerToken :: nat where "maxIDsPerToken = 2"
definition maxCandsPerPeer :: nat where "maxCandsPerPeer = 8"
definition maxCodeEncLen :: nat where "maxCodeEncLen = 512"
definition evictSample :: nat where "evictSample = 8"

record hsPeer =
  hp_id :: bytes
  hp_pubkey :: bytes
  hp_virtualIP :: bytes
  hp_name :: bytes
  cands :: "(bytes, candidate) gomap"
  hp_seen :: time

type_synonym hsBucket = "(bytes, hsPeer) gomap"

record hsRegistry =
  waiting :: "(bytes, hsBucket) gomap"
  seenPKs :: "(bytes, (bytes, unit) gomap) gomap"
  pairedLogged :: "(bytes, unit) gomap"
  sids :: "(bytes, bytes) gomap"
  intruderWarned :: "(bytes, unit) gomap"
  hs_ttl :: duration

definition newHSRegistry :: "duration \<Rightarrow> hsRegistry" where
  "newHSRegistry d = \<lparr>waiting = [], seenPKs = [], pairedLogged = [], sids = [], intruderWarned = [], hs_ttl = d\<rparr>"

record hsCounters =
  c_paired :: nat
  rateLimited :: nat
  dropped :: nat
  newPubKey :: nat
  squatRejected :: nat
  c_replay :: nat
  keyMismatch :: nat
  enrollLimited :: nat

definition zero_counters :: hsCounters where
  "zero_counters = \<lparr>c_paired = 0, rateLimited = 0, dropped = 0, newPubKey = 0, squatRejected = 0, c_replay = 0,
     keyMismatch = 0, enrollLimited = 0\<rparr>"

section \<open>Peers\<close>

definition observe :: "time \<Rightarrow> udpaddr \<Rightarrow> hsPeer \<Rightarrow> hsPeer" where
  "observe now src p =
     (let p = p\<lparr>hp_seen := now\<rparr>; key = UDPAddr_String src in
      if mget (cands p) key = None \<and> length (cands p) \<ge> maxCandsPerPeer then p
      else p\<lparr>cands := mput key \<lparr>Addr = key, V6 = (To4 (IP src) = None)\<rparr> (cands p)\<rparr>)"

definition candidates :: "hsPeer \<Rightarrow> candidate list" where
  "candidates p = sort_key Addr (map snd (cands p))"

definition asProtocolPeer :: "bytes \<Rightarrow> hsPeer \<Rightarrow> peer" where
  "asProtocolPeer relay p =
     \<lparr>pID = hp_id p, pPubKey = hp_pubkey p, pVirtualIP = hp_virtualIP p, pName = hp_name p,
      Candidates = candidates p, pRelay = relay, LastSeen = unix_seconds (hp_seen p)\<rparr>"

section \<open>The registry\<close>

definition warnIntruderLocked :: "bytes \<Rightarrow> hsRegistry \<Rightarrow> hsRegistry" where
  "warnIntruderLocked tok r =
     (if mget (intruderWarned r) tok \<noteq> None then r
      else if length (intruderWarned r) \<ge> maxTokens then r
      else r\<lparr>intruderWarned := mput tok () (intruderWarned r)\<rparr>)"

text \<open>A map in the order the iteration visits it: any permutation.\<close>

definition iterate :: "('a list \<Rightarrow> 'a list) \<Rightarrow> 'a list \<Rightarrow> 'a list" where
  "iterate it m = (if mset (it m) = mset m then it m else m)"

text \<open>The freshest sighting in a bucket; \<^const>\<open>None\<close> is the zero time, before every other.\<close>

definition bucketSeen :: "hsBucket \<Rightarrow> time option" where
  "bucketSeen b =
     fold (\<lambda>(_, p) newest. case newest of None \<Rightarrow> Some (hp_seen p)
       | Some t \<Rightarrow> if hp_seen p > t then Some (hp_seen p) else newest) b None"

definition before :: "time option \<Rightarrow> time option \<Rightarrow> bool" where
  "before a b = (case (a, b) of (None, Some _) \<Rightarrow> True | (Some s, Some t) \<Rightarrow> s < t | _ \<Rightarrow> False)"

definition stalest :: "(bytes \<times> hsBucket) list \<Rightarrow> bytes option" where
  "stalest sample =
     map_option fst (fold (\<lambda>(tok, b) acc. case acc of None \<Rightarrow> Some (tok, bucketSeen b)
       | Some (v, age) \<Rightarrow> if before (bucketSeen b) age then Some (tok, bucketSeen b) else acc) sample None)"

text \<open>Forgetting a token: its bucket and every latch that lives with it.\<close>

definition forget :: "bytes \<Rightarrow> hsRegistry \<Rightarrow> hsRegistry" where
  "forget tok r = r\<lparr>waiting := mdel tok (waiting r), seenPKs := mdel tok (seenPKs r),
     intruderWarned := mdel tok (intruderWarned r), pairedLogged := mdel tok (pairedLogged r),
     sids := mdel tok (sids r)\<rparr>"

definition evictStalestLocked ::
  "((bytes \<times> hsBucket) list \<Rightarrow> (bytes \<times> hsBucket) list) \<Rightarrow> hsRegistry \<Rightarrow> hsRegistry option" where
  "evictStalestLocked it r =
     (case stalest (take evictSample (iterate it (waiting r))) of
        None \<Rightarrow> None
      | Some victim \<Rightarrow> Some (forget victim r))"

definition reap_bucket :: "time \<Rightarrow> duration \<Rightarrow> hsBucket \<Rightarrow> hsBucket" where
  "reap_bucket now d b = filter (\<lambda>(_, p). \<not> now - hp_seen p > d) b"

text \<open>One pass of the reaper.\<close>

definition reap_token :: "time \<Rightarrow> bytes \<times> hsBucket \<Rightarrow> hsRegistry \<Rightarrow> hsRegistry" where
  "reap_token now e r =
     (let b = reap_bucket now (hs_ttl r) (snd e)
      in if b = [] then forget (fst e) r else r\<lparr>waiting := mput (fst e) b (waiting r)\<rparr>)"

definition reap_pass :: "time \<Rightarrow> hsRegistry \<Rightarrow> hsRegistry" where
  "reap_pass now r = fold (reap_token now) (waiting r) r"

text \<open>Finding the bucket of a token, making room when the table is full.\<close>

definition open_bucket ::
  "((bytes \<times> hsBucket) list \<Rightarrow> (bytes \<times> hsBucket) list) \<Rightarrow> bytes \<Rightarrow> hsRegistry \<Rightarrow> hsRegistry option" where
  "open_bucket it tok r =
     (if mget (waiting r) tok \<noteq> None then Some r
      else case (if length (waiting r) \<ge> maxTokens then evictStalestLocked it r else Some r) of
        None \<Rightarrow> None
      | Some r \<Rightarrow> Some (r\<lparr>waiting := mput tok [] (waiting r)\<rparr>))"

text \<open>Tracking the keys seen on a token: at most three are recorded, the third raises the
  alarm.\<close>

definition track_key :: "message \<Rightarrow> hsRegistry \<times> hsCounters \<Rightarrow> hsRegistry \<times> hsCounters" where
  "track_key m rc =
     (let (r, c) = rc;
          known = (case mget (seenPKs r) (Token m) of None \<Rightarrow> [] | Some k \<Rightarrow> k);
          r = r\<lparr>seenPKs := mput (Token m) known (seenPKs r)\<rparr>
      in if mget known (PubKey m) = None \<and> length known < maxIDsPerToken + 1
         then let (r, c) = (if length known \<ge> maxIDsPerToken
                            then (warnIntruderLocked (Token m) r, c\<lparr>newPubKey := newPubKey c + 1\<rparr>) else (r, c))
              in (r\<lparr>seenPKs := mput (Token m) (mput (PubKey m) () known) (seenPKs r)\<rparr>, c)
         else (r, c))"

text \<open>The registration's fields over the peer it belongs to.\<close>

definition refresh :: "time \<Rightarrow> message \<Rightarrow> udpaddr \<Rightarrow> hsPeer \<Rightarrow> hsPeer" where
  "refresh now m src p =
     (let p = (if PubKey m \<noteq> [] then p\<lparr>hp_pubkey := PubKey m\<rparr> else p);
          p = (if VirtualIP m \<noteq> [] then p\<lparr>hp_virtualIP := VirtualIP m\<rparr> else p);
          p = (if Name m \<noteq> [] \<and> ValidName (Name m) then p\<lparr>hp_name := Name m\<rparr> else p)
      in observe now src p)"

text \<open>The partner: the first other peer that is alive. Expired ones met on the way are
  dropped.\<close>

fun find_partner :: "time \<Rightarrow> duration \<Rightarrow> bytes \<Rightarrow> hsBucket \<Rightarrow> hsPeer option \<times> hsBucket" where
  "find_partner now d self [] = (None, [])"
| "find_partner now d self ((i, p) # b) =
     (if i = self then (let (q, b') = find_partner now d self b in (q, (i, p) # b'))
      else if now - hp_seen p > d then find_partner now d self b
      else (Some p, (i, p) # b))"

definition upsert ::
  "((bytes \<times> hsBucket) list \<Rightarrow> (bytes \<times> hsBucket) list) \<Rightarrow> time \<Rightarrow> message \<Rightarrow> udpaddr \<Rightarrow>
   hsRegistry \<times> hsCounters \<Rightarrow> (hsPeer \<times> hsPeer option) option \<times> hsRegistry \<times> hsCounters" where
  "upsert it now m src rc =
     (let (r, c) = rc in
      case open_bucket it (Token m) r of
        None \<Rightarrow> (None, r, c)
      | Some r \<Rightarrow>
          (let bucket = (case mget (waiting r) (Token m) of None \<Rightarrow> [] | Some b \<Rightarrow> b) in
           if mget bucket (ID m) = None \<and> length bucket \<ge> maxIDsPerToken
           then (None, warnIntruderLocked (Token m) r, c\<lparr>squatRejected := squatRejected c + 1\<rparr>)
           else let self = (case mget bucket (ID m) of
                              Some p \<Rightarrow> p
                            | None \<Rightarrow> \<lparr>hp_id = ID m, hp_pubkey = [], hp_virtualIP = [], hp_name = [], cands = [],
                                       hp_seen = now\<rparr>);
                    (r, c) = (if PubKey m \<noteq> [] then track_key m (r, c) else (r, c));
                    self = refresh now m src self;
                    (partner, bucket) = find_partner now (hs_ttl r) (ID m) (mput (ID m) self bucket);
                    r = r\<lparr>waiting := mput (Token m) bucket (waiting r)\<rparr>;
                    r = (if partner = None then r\<lparr>pairedLogged := mdel (Token m) (pairedLogged r)\<rparr> else r)
                in (Some (self, partner), r, c)))"

definition notePaired :: "bytes \<Rightarrow> hsRegistry \<Rightarrow> bool \<times> hsRegistry" where
  "notePaired tok r =
     (if mget (pairedLogged r) tok \<noteq> None then (False, r)
      else if length (pairedLogged r) \<ge> maxTokens then (False, r)
      else (True, r\<lparr>pairedLogged := mput tok () (pairedLogged r)\<rparr>))"

text \<open>The id is minted from the random bytes \<open>rnd\<close>; \<^const>\<open>None\<close> is a failing generator.\<close>

definition sidFor :: "bytes option \<Rightarrow> bytes \<Rightarrow> hsRegistry \<Rightarrow> bytes option \<times> hsRegistry" where
  "sidFor rnd tok r =
     (case mget (sids r) tok of
        Some sid \<Rightarrow> (Some sid, r)
      | None \<Rightarrow>
          (if length (sids r) \<ge> maxTokens then (None, r)
           else case rnd of
             None \<Rightarrow> (None, r)
           | Some b \<Rightarrow> (Some (NewID b), r\<lparr>sids := mput tok (NewID b) (sids r)\<rparr>)))"

section \<open>Checking a registration\<close>

definition validField :: "bytes \<Rightarrow> bool" where
  "validField s = (if s = [] \<or> length s > MaxFieldLen then False else list_all b64url_byte s)"

definition parseRegister :: "json \<Rightarrow> bytes \<Rightarrow> message option" where
  "parseRegister J raw =
     (case UnmarshalMessage J raw of
        None \<Rightarrow> None
      | Some m \<Rightarrow>
          (if Type m \<noteq> TypeRegister \<or> \<not> validField (ID m) \<or> length (PubKey m) > MaxFieldLen \<or>
              length (CodeEnc m) > maxCodeEncLen \<or> length (RegNonce m) > MaxFieldLen then None
           else if TokenEnc m = [] \<or> length (TokenEnc m) > maxCodeEncLen then None
           else Some m))"

definition requireV7Fields :: "message \<Rightarrow> bool" where
  "requireV7Fields m =
     (if \<not> ValidNonce (RegNonce m) then False
      else case b64std_decode (PubKey m) of
        None \<Rightarrow> False
      | Some pub \<Rightarrow>
          (if length pub \<noteq> PublicKeySize then False
           else case b64std_decode (RegSig m) of None \<Rightarrow> False | Some sig \<Rightarrow> length sig = SignatureSize))"

definition replyIncompatible :: message where
  "replyIncompatible = zero_message\<lparr>Type := TypePeerList, Ver := Version\<rparr>"

definition resolveToken :: "box_open \<Rightarrow> message \<Rightarrow> message option" where
  "resolveToken B m =
     (case OpenCode B (TokenEnc m) of
        None \<Rightarrow> None
      | Some tok \<Rightarrow> if \<not> validField tok then None else Some (m\<lparr>Token := tok, TokenEnc := []\<rparr>))"

definition verifyRegistration :: "json \<Rightarrow> crypto \<Rightarrow> time \<Rightarrow> duration \<Rightarrow> message \<Rightarrow> bool" where
  "verifyRegistration J C now skew m =
     (if \<not> ValidNonce (RegNonce m) then False
      else let d = now - Ts m * second in
        if d > skew \<or> d < - skew then False
        else case b64std_decode (PubKey m) of
          None \<Rightarrow> False
        | Some pub \<Rightarrow>
            (if length pub \<noteq> PublicKeySize then False
             else case b64std_decode (RegSig m) of
               None \<Rightarrow> False
             | Some sig \<Rightarrow>
                 (if length sig \<noteq> SignatureSize then False
                  else ed_verify C pub (RegistrationPayload J m) sig)))"

definition registrationMatchesTLSKey :: "message \<Rightarrow> bytes \<Rightarrow> bool" where
  "registrationMatchesTLSKey m clientKey =
     (if length clientKey \<noteq> PublicKeySize then False
      else case b64std_decode (PubKey m) of
        None \<Rightarrow> False
      | Some claimed \<Rightarrow> if length claimed \<noteq> PublicKeySize then False else clientKey = claimed)"

text \<open>The message with the derived address, or nothing and whether the claim was counted as
  dropped.\<close>

definition deriveVIP :: "crypto \<Rightarrow> message \<Rightarrow> bool + message" where
  "deriveVIP C m =
     (if PubKey m = [] then Inr m
      else case DecodePubKey (PubKey m) of
        None \<Rightarrow> Inl False
      | Some pub \<Rightarrow>
          (let want = VirtualIPString C pub in
           if VirtualIP m \<noteq> [] \<and> VirtualIP m \<noteq> want then Inl True
           else Inr (m\<lparr>VirtualIP := want\<rparr>)))"

section \<open>Pairing\<close>

record hs =
  hreg :: hsRegistry
  stats :: hsCounters
  hauthz :: "authorizer option"
  hrl :: "acct limiter"

definition count_dropped :: "hs \<Rightarrow> hs" where
  "count_dropped s = s\<lparr>stats := (stats s)\<lparr>dropped := dropped (stats s) + 1\<rparr>\<rparr>"

definition count_replay :: "hs \<Rightarrow> hs" where
  "count_replay s = s\<lparr>stats := (stats s)\<lparr>c_replay := c_replay (stats s) + 1\<rparr>\<rparr>"

text \<open>The checks of approval mode for a registration whose proof verified.\<close>

definition authorize :: "crypto \<Rightarrow> box_open \<Rightarrow> time \<Rightarrow> udpaddr \<Rightarrow> message \<Rightarrow> hs \<Rightarrow> bool \<times> hs" where
  "authorize C B now src m s =
     (case hauthz s of
        None \<Rightarrow> (True, s)
      | Some a \<Rightarrow>
          (if \<not> allowed_key a (PubKey m) then
             (let (ok, a) = allowEnroll now (FromIP (IP src)) a in
              if \<not> ok then (False, s\<lparr>hauthz := Some a,
                stats := (stats s)\<lparr>enrollLimited := enrollLimited (stats s) + 1\<rparr>\<rparr>)
              else let a = recordPreAuth now (PubKey m) (RegNonce m) a;
                       a = (if CodeEnc m \<noteq> [] then snd (recordPending C B now (CodeEnc m) (PubKey m) a)
                            else snd (logPending now (PubKey m) a))
                   in (False, s\<lparr>hauthz := Some a\<rparr>))
           else if \<not> freshSinceApproval a (PubKey m) (Ts m) then (False, count_replay s)
           else let (rep, a) = replayed now (PubKey m) (RegNonce m) a; s = s\<lparr>hauthz := Some a\<rparr>
                in if rep then (False, count_replay s) else (True, s)))"

definition pairRegister ::
  "json \<Rightarrow> crypto \<Rightarrow> box_open \<Rightarrow> ((bytes \<times> hsBucket) list \<Rightarrow> (bytes \<times> hsBucket) list) \<Rightarrow> time \<Rightarrow> bytes \<Rightarrow> udpaddr \<Rightarrow>
   message \<Rightarrow> hs \<Rightarrow> peer list option \<times> hs" where
  "pairRegister J C B it now relayEndpoint src m s =
     (if \<not> verifyRegistration J C now regSkew m then (None, s)
      else let (ok, s) = authorize C B now src m s in
        if \<not> ok then (None, s)
        else case deriveVIP C m of
          Inl counted \<Rightarrow> (None, if counted then count_dropped s else s)
        | Inr m \<Rightarrow>
            (let (res, r, c) = upsert it now m src (hreg s, stats s); s = s\<lparr>hreg := r, stats := c\<rparr> in
             case res of
               None \<Rightarrow> (None, count_dropped s)
             | Some (self, None) \<Rightarrow> (Some [], s)
             | Some (self, Some partner) \<Rightarrow>
                 (let s = s\<lparr>stats := (stats s)\<lparr>c_paired := c_paired (stats s) + 1\<rparr>,
                            hreg := snd (notePaired (Token m) (hreg s))\<rparr>
                  in (Some [asProtocolPeer relayEndpoint partner], s))))"

section \<open>Tickets and replies\<close>

record relayAdvert =
  adv_endpoint :: bytes
  adv_rid :: bytes

definition relayAdvertFor :: "bytes \<Rightarrow> bytes \<Rightarrow> relayAdvert option" where
  "relayAdvertFor relayEndpoint relayId =
     (if relayId \<noteq> [] \<and> \<not> ValidID relayId then None else Some \<lparr>adv_endpoint = relayEndpoint, adv_rid = relayId\<rparr>)"

text \<open>\<open>rnd\<close> holds the random bytes of the session id and of the ticket's nonce.\<close>

definition issueTicket ::
  "json \<Rightarrow> crypto \<Rightarrow> bytes \<Rightarrow> time \<Rightarrow> bytes option \<times> bytes option \<Rightarrow> bytes \<Rightarrow> message \<Rightarrow> peer \<Rightarrow> hsRegistry \<Rightarrow>
   relayTicket option \<times> hsRegistry" where
  "issueTicket J C priv now rnd rid m partner r =
     (if rid = [] \<or> RegEphPub m = [] then (None, r)
      else case b64url_decode (RegEphPub m) of
        None \<Rightarrow> (None, r)
      | Some raw \<Rightarrow>
          (if length raw \<noteq> PublicKeySize then (None, r)
           else if PubKey m = pPubKey partner then (None, r)
           else let leg = (if PubKey m > pPubKey partner then LegB else LegA);
                    (sid, r) = sidFor (fst rnd) (Token m) r
                in case sid of
                     None \<Rightarrow> (None, r)
                   | Some sid \<Rightarrow>
                       (case snd rnd of
                          None \<Rightarrow> (None, r)
                        | Some nb \<Rightarrow>
                            (case Sign J C priv \<lparr>V = FormatVersion, RID = rid, SID = sid, Leg = leg, EPK = RegEphPub m,
                                    IAT = unix_seconds now, EXP = unix_seconds (now + MaxTTL), Nonce = NewID nb\<rparr> of
                               None \<Rightarrow> (None, r)
                             | Some (pl, sig) \<Rightarrow>
                                 (Some \<lparr>rtPayload = b64url_encode pl, rtSig = b64url_encode sig\<rparr>, r)))))"

definition signedPeerList :: "json \<Rightarrow> crypto \<Rightarrow> bytes \<Rightarrow> time \<Rightarrow> bytes \<Rightarrow> peer list \<Rightarrow> message" where
  "signedPeerList J C priv now tok peers =
     (let ts = unix_seconds now; sig = ed_sign C priv (PeerListPayload J tok ts peers)
      in zero_message\<lparr>Type := TypePeerList, Ver := Version, Peers := peers, Ts := ts, Sig := b64std_encode sig\<rparr>)"

section \<open>One control request\<close>

text \<open>What the handler does with the stream and the connection. \<open>Reply []\<close> closes the stream
  without an answer.\<close>

datatype ctl_action = Reply bytes | Drop

record hs_config =
  hpriv :: bytes
  hadvert :: relayAdvert
  hallowed :: "prefix list"

text \<open>The gates before the registration reaches the pairing: the message to pair, or the
  answer.\<close>

definition admit_request ::
  "json \<Rightarrow> box_open \<Rightarrow> hs_config \<Rightarrow> time \<Rightarrow> udpaddr \<Rightarrow> bytes \<Rightarrow> bytes \<Rightarrow> hs \<Rightarrow> (ctl_action list + message) \<times> hs" where
  "admit_request J B cfg now src clientKey payload s =
     (if \<not> cidrAllowed (hallowed cfg) (IP src) then (Inl [Drop], s)
      else let (ok, rl) = Allow now (FromIP (IP src)) (hrl s); s = s\<lparr>hrl := rl\<rparr> in
        if \<not> ok then (Inl [Reply []], s\<lparr>stats := (stats s)\<lparr>rateLimited := rateLimited (stats s) + 1\<rparr>\<rparr>)
        else case parseRegister J payload of
          None \<Rightarrow> (Inl [Drop], count_dropped s)
        | Some m \<Rightarrow>
            (if \<not> registrationMatchesTLSKey m clientKey
             then (Inl [Drop], s\<lparr>stats := (stats s)\<lparr>keyMismatch := keyMismatch (stats s) + 1\<rparr>\<rparr>)
             else if Ver m \<noteq> Version
             then (Inl [Reply (MarshalMessage J replyIncompatible), Drop], count_dropped s)
             else if \<not> requireV7Fields m then (Inl [Drop], count_dropped s)
             else case resolveToken B m of
               None \<Rightarrow> (Inl [Drop], count_dropped s)
             | Some m \<Rightarrow> (Inr m, s)))"

definition handleControlReq ::
  "json \<Rightarrow> crypto \<Rightarrow> box_open \<Rightarrow> hs_config \<Rightarrow> ((bytes \<times> hsBucket) list \<Rightarrow> (bytes \<times> hsBucket) list) \<Rightarrow> time \<Rightarrow>
   bytes option \<times> bytes option \<Rightarrow> udpaddr \<Rightarrow> bytes \<Rightarrow> bytes \<Rightarrow> hs \<Rightarrow> ctl_action list \<times> hs" where
  "handleControlReq J C B cfg it now rnd src clientKey payload s =
     (case admit_request J B cfg now src clientKey payload s of
        (Inl acts, s) \<Rightarrow> (acts, s)
      | (Inr m, s) \<Rightarrow>
          (case pairRegister J C B it now (adv_endpoint (hadvert cfg)) src m s of
             (None, s) \<Rightarrow> ([Reply []], s)
           | (Some peers, s) \<Rightarrow>
               (let reply = signedPeerList J C (hpriv cfg) now (Token m) peers in
                case peers of
                  [] \<Rightarrow> ([Reply (MarshalMessage J reply)], s)
                | p # _ \<Rightarrow>
                    (let (t, r) = issueTicket J C (hpriv cfg) now rnd (adv_rid (hadvert cfg)) m p (hreg s)
                     in ([Reply (MarshalMessage J (reply\<lparr>RTicket := t\<rparr>))], s\<lparr>hreg := r\<rparr>)))))"

text \<open>One tick of the statistics loop: the counters are read and reset, a line is written if
  anything happened. The count of recovered panics is an input.\<close>

definition stats_tick :: "nat \<Rightarrow> hs \<Rightarrow> bool \<times> hs" where
  "stats_tick panics s = (stats s \<noteq> zero_counters \<or> panics \<noteq> 0, s\<lparr>stats := zero_counters\<rparr>)"

text \<open>The tag of a token in log lines.\<close>

definition logTag :: "crypto \<Rightarrow> bytes \<Rightarrow> bytes \<Rightarrow> bytes" where
  "logTag C tokenLogKey tok = hex_encode (take 5 (hmac_sha256 C tokenLogKey tok))"

definition deriveSubkey :: "curves \<Rightarrow> bytes \<Rightarrow> bytes \<Rightarrow> bytes" where
  "deriveSubkey X seed label = hkdf_sha256 X seed label 32"

text \<open>The server at its start, from its configuration: the default liveness window is ten
  seconds, approval mode needs a loadable allowlist, and a relay id must be valid.\<close>

definition start_server ::
  "duration \<Rightarrow> open_result option \<Rightarrow> bytes \<Rightarrow> bytes \<Rightarrow> bytes \<Rightarrow> prefix list \<Rightarrow> time \<Rightarrow> (hs_config \<times> hs) option" where
  "start_server d allowfile relayEndpoint relayId priv nets now =
     (case (case allowfile of None \<Rightarrow> Inr None | Some f \<Rightarrow> map_sum id Some (newAuthorizer now f)) of
        Inl e \<Rightarrow> None
      | Inr a \<Rightarrow>
          (case relayAdvertFor relayEndpoint relayId of
             None \<Rightarrow> None
           | Some adv \<Rightarrow> Some (\<lparr>hpriv = priv, hadvert = adv, hallowed = nets\<rparr>,
               \<lparr>hreg = newHSRegistry (if d = 0 then 10 * second else d), stats = zero_counters, hauthz = a,
                hrl = New 1000 50 8192 now\<rparr>)))"

end
