(* ===== verification/HandshakeProps.thy ===== *)
theory HandshakeProps
  imports Handshake
begin

text \<open>
  What the matchmaking server guarantees: the registry stays bounded under every
  interleaving of its atomic operations; two registrations of a token find each other and a
  third is turned away; everything in the registry, and so in every signed roster, comes
  from registrations whose key was proved; nobody reaches the registry around the gates.
  Two theorems show what the lock does not cover: a session id can outlive its token, and
  the roster is rendered while another request may write the same map.
\<close>

section \<open>The registry as a transition system\<close>

text \<open>The critical sections of the registry. Requests run concurrently, so any sequence of these
  can happen.\<close>

datatype reg_event =
    Upsert "(bytes \<times> hsBucket) list \<Rightarrow> (bytes \<times> hsBucket) list" time message udpaddr
  | Paired bytes
  | MintSid "bytes option" bytes
  | RegReap time

fun reg_step :: "reg_event \<Rightarrow> hsRegistry \<times> hsCounters \<Rightarrow> hsRegistry \<times> hsCounters" where
  "reg_step (Upsert it now m src) rc = snd (upsert it now m src rc)"
| "reg_step (Paired tok) rc = (snd (notePaired tok (fst rc)), snd rc)"
| "reg_step (MintSid rnd tok) rc = (snd (sidFor rnd tok (fst rc)), snd rc)"
| "reg_step (RegReap now) rc = (reap_pass now (fst rc), snd rc)"

definition peer_ok :: "bytes \<times> hsPeer \<Rightarrow> bool" where
  "peer_ok e \<longleftrightarrow> hp_id (snd e) = fst e \<and> gomap (cands (snd e)) \<and> length (cands (snd e)) \<le> maxCandsPerPeer"

definition bucket_ok :: "hsBucket \<Rightarrow> bool" where
  "bucket_ok b \<longleftrightarrow> gomap b \<and> length b \<le> maxIDsPerToken \<and> (\<forall>e \<in> set b. peer_ok e)"

definition keys_ok :: "(bytes, unit) gomap \<Rightarrow> bool" where
  "keys_ok k \<longleftrightarrow> gomap k \<and> length k \<le> maxIDsPerToken + 1"

definition reg_inv :: "hsRegistry \<Rightarrow> bool" where
  "reg_inv r \<longleftrightarrow>
     gomap (waiting r) \<and> length (waiting r) \<le> maxTokens \<and> (\<forall>e \<in> set (waiting r). bucket_ok (snd e)) \<and>
     gomap (seenPKs r) \<and> mkeys (seenPKs r) \<subseteq> mkeys (waiting r) \<and> (\<forall>e \<in> set (seenPKs r). keys_ok (snd e)) \<and>
     gomap (intruderWarned r) \<and> mkeys (intruderWarned r) \<subseteq> mkeys (waiting r) \<and>
     gomap (pairedLogged r) \<and> length (pairedLogged r) \<le> maxTokens \<and>
     gomap (sids r) \<and> length (sids r) \<le> maxTokens"

lemma mput_ball: "\<forall>e \<in> set m. P e \<Longrightarrow> P (k, v) \<Longrightarrow> \<forall>e \<in> set (mput k v m). P e"
  by (auto dest!: set_mput_cases)

lemma mdel_ball: "\<forall>e \<in> set m. P e \<Longrightarrow> \<forall>e \<in> set (mdel k m). P e"
  by (auto simp: AList.delete_eq)

lemma length_mput_bound: "length m < n \<or> (k \<in> mkeys m \<and> length m \<le> n) \<Longrightarrow> length (mput k v m) \<le> n"
  by (auto simp: length_mput)

subsection \<open>Forgetting, evicting, reaping\<close>

lemma forget_inv: "reg_inv r \<Longrightarrow> reg_inv (forget tok r)"
  using length_mdel_le [of tok "waiting r"] length_mdel_le [of tok "pairedLogged r"] length_mdel_le [of tok "sids r"]
    mdel_ball [of "waiting r" "\<lambda>e. bucket_ok (snd e)" tok] mdel_ball [of "seenPKs r" "\<lambda>e. keys_ok (snd e)" tok]
  unfolding reg_inv_def forget_def by (simp add: gomap_mdel mkeys_mdel Diff_mono)

lemma fold_pick:
  assumes "\<And>x acc. F x acc = acc \<or> F x acc = Some (g x)"
  shows "fold F xs acc = acc \<or> (\<exists>x \<in> set xs. fold F xs acc = Some (g x))"
proof (induction xs arbitrary: acc)
  case (Cons x xs)
  show ?case using Cons [of "F x acc"] assms [of x acc] by auto
qed simp

lemma stalest_in:
  assumes "stalest xs = Some v"
  shows "v \<in> fst ` set xs"
proof -
  let ?F = "\<lambda>(tok, b) acc. case acc of None \<Rightarrow> Some (tok, bucketSeen b)
      | Some (v, age) \<Rightarrow> if before (bucketSeen b) age then Some (tok, bucketSeen b) else acc"
  have "fold ?F xs None = None \<or> (\<exists>x \<in> set xs. fold ?F xs None = Some (fst x, bucketSeen (snd x)))"
    by (rule fold_pick) (auto split: option.split prod.split)
  then show ?thesis using assms by (force simp: stalest_def)
qed

lemma set_iterate: "set (iterate it m) = set m"
  by (auto simp: iterate_def dest: mset_eq_setD)

lemma evict_victim:
  assumes "evictStalestLocked it r = Some r'"
  obtains v where "v \<in> mkeys (waiting r)" "r' = forget v r"
proof -
  from assms obtain v where "stalest (take evictSample (iterate it (waiting r))) = Some v" "r' = forget v r"
    by (auto simp: evictStalestLocked_def split: option.splits)
  moreover from this(1) have "v \<in> mkeys (waiting r)"
    using stalest_in set_iterate [of it "waiting r"] by (fastforce dest: in_set_takeD)
  ultimately show ?thesis using that by blast
qed

lemma length_mdel_less: "k \<in> mkeys m \<Longrightarrow> length (mdel k m) < length m"
  by (auto simp: AList.delete_eq intro: length_filter_less)

lemma put_bucket_inv:
  assumes "reg_inv r" and "bucket_ok b" and "length (waiting r) < maxTokens \<or> tok \<in> mkeys (waiting r)"
  shows "reg_inv (r\<lparr>waiting := mput tok b (waiting r)\<rparr>)"
proof -
  have "length (mput tok b (waiting r)) \<le> maxTokens"
    by (rule length_mput_bound) (use assms in \<open>auto simp: reg_inv_def\<close>)
  moreover have "\<forall>e \<in> set (mput tok b (waiting r)). bucket_ok (snd e)"
    by (rule mput_ball) (use assms in \<open>auto simp: reg_inv_def\<close>)
  ultimately show ?thesis
    using assms(1) unfolding reg_inv_def by (simp add: gomap_mput mkeys_mput subset_insertI2)
qed

lemma open_bucket_inv:
  assumes "open_bucket it tok r = Some r'" and "reg_inv r"
  shows "reg_inv r' \<and> tok \<in> mkeys (waiting r') \<and> hs_ttl r' = hs_ttl r"
proof (cases "mget (waiting r) tok")
  case None
  obtain q where q: "(if length (waiting r) \<ge> maxTokens then evictStalestLocked it r else Some r) = Some q"
    and r': "r' = q\<lparr>waiting := mput tok [] (waiting q)\<rparr>"
    using assms(1) None by (auto simp: open_bucket_def split: option.splits)
  have "reg_inv q \<and> length (waiting q) < maxTokens \<and> hs_ttl q = hs_ttl r"
  proof (cases "length (waiting r) \<ge> maxTokens")
    case True
    then have "evictStalestLocked it r = Some q" using q by simp
    then obtain v where v: "v \<in> mkeys (waiting r)" "q = forget v r" by (rule evict_victim)
    from length_mdel_less [OF v(1)] show ?thesis
      using assms(2) v(2) forget_inv [OF assms(2), of v] by (simp add: forget_def reg_inv_def)
  qed (use q assms(2) in auto)
  moreover have "bucket_ok []" by (simp add: bucket_ok_def)
  ultimately show ?thesis using put_bucket_inv [of q "[]" tok] by (simp add: r' mkeys_mput)
qed (use assms in \<open>auto simp: open_bucket_def dest!: mget_in_set intro: rev_image_eqI\<close>)

lemma reap_bucket_ok: "bucket_ok b \<Longrightarrow> bucket_ok (reap_bucket now d b)"
  by (auto simp: bucket_ok_def reap_bucket_def gomap_filter intro: le_trans [OF length_filter_le])

lemma reap_token_inv:
  assumes "reg_inv r" and "bucket_ok (snd e)" and "fst e \<in> mkeys (waiting r)"
  shows "reg_inv (reap_token now e r) \<and> mkeys (waiting r) - {fst e} \<subseteq> mkeys (waiting (reap_token now e r))"
proof (cases "reap_bucket now (hs_ttl r) (snd e) = []")
  case True
  then show ?thesis using forget_inv [OF assms(1)] by (simp add: reap_token_def forget_def mkeys_mdel)
next
  case False
  then show ?thesis
    using put_bucket_inv [OF assms(1) reap_bucket_ok [OF assms(2)]] assms(3) by (auto simp: reap_token_def mkeys_mput)
qed

lemma reap_fold_inv:
  "reg_inv r \<Longrightarrow> \<forall>e \<in> set es. bucket_ok (snd e) \<Longrightarrow> gomap es \<Longrightarrow> mkeys es \<subseteq> mkeys (waiting r) \<Longrightarrow>
   reg_inv (fold (reap_token now) es r)"
proof (induction es arbitrary: r)
  case (Cons e es)
  have "fst e \<notin> mkeys es" "mkeys es \<subseteq> mkeys (waiting r)" using Cons.prems(3,4) by simp_all
  then have "mkeys es \<subseteq> mkeys (waiting r) - {fst e}" by blast
  then show ?case using Cons reap_token_inv [of r e now] by auto
qed simp

lemma reap_pass_inv: "reg_inv r \<Longrightarrow> reg_inv (reap_pass now r)"
  unfolding reap_pass_def by (rule reap_fold_inv) (auto simp: reg_inv_def)

subsection \<open>Latches\<close>

lemma warn_inv: "reg_inv r \<Longrightarrow> tok \<in> mkeys (waiting r) \<Longrightarrow> reg_inv (warnIntruderLocked tok r)"
  unfolding reg_inv_def warnIntruderLocked_def by (simp add: gomap_mput mkeys_mput)

lemma warn_frame [simp]:
  "waiting (warnIntruderLocked tok r) = waiting r" "seenPKs (warnIntruderLocked tok r) = seenPKs r"
  "hs_ttl (warnIntruderLocked tok r) = hs_ttl r" "sids (warnIntruderLocked tok r) = sids r"
  by (simp_all add: warnIntruderLocked_def)

lemma notePaired_inv: "reg_inv r \<Longrightarrow> reg_inv (snd (notePaired tok r))"
  unfolding reg_inv_def notePaired_def by (auto simp: gomap_mput intro: length_mput_bound)

lemma sidFor_inv: "reg_inv r \<Longrightarrow> reg_inv (snd (sidFor rnd tok r))"
  unfolding reg_inv_def sidFor_def by (auto simp: gomap_mput intro: length_mput_bound split: option.split)

lemma put_keys_inv:
  assumes "reg_inv r" and "keys_ok k" and "tok \<in> mkeys (waiting r)"
  shows "reg_inv (r\<lparr>seenPKs := mput tok k (seenPKs r)\<rparr>)"
proof -
  have "\<forall>e \<in> set (mput tok k (seenPKs r)). keys_ok (snd e)"
    by (rule mput_ball) (use assms in \<open>auto simp: reg_inv_def\<close>)
  then show ?thesis using assms(1,3) unfolding reg_inv_def by (simp add: gomap_mput mkeys_mput)
qed

lemma track_key_inv:
  assumes "reg_inv r" and "Token m \<in> mkeys (waiting r)"
  shows "reg_inv (fst (track_key m (r, c)))" "waiting (fst (track_key m (r, c))) = waiting r"
    "hs_ttl (fst (track_key m (r, c))) = hs_ttl r"
proof -
  let ?k = "case mget (seenPKs r) (Token m) of None \<Rightarrow> [] | Some k \<Rightarrow> k"
  have k: "keys_ok ?k"
    using assms(1) by (auto simp: reg_inv_def keys_ok_def dest!: mget_in_set split: option.split)
  let ?r = "r\<lparr>seenPKs := mput (Token m) ?k (seenPKs r)\<rparr>"
  have i: "reg_inv ?r" by (rule put_keys_inv [OF assms(1) k assms(2)])
  have k': "keys_ok (mput (PubKey m) () ?k)" if "length ?k < maxIDsPerToken + 1"
    using k that by (simp add: keys_ok_def gomap_mput length_mput)
  have w: "Token m \<in> mkeys (waiting ?r)" using assms(2) by simp
  show "reg_inv (fst (track_key m (r, c)))"
    using i k' put_keys_inv [of ?r "mput (PubKey m) () ?k" "Token m"]
      put_keys_inv [of "warnIntruderLocked (Token m) ?r" "mput (PubKey m) () ?k" "Token m"] warn_inv [OF i w] w
    by (auto simp: track_key_def Let_def)
  show "waiting (fst (track_key m (r, c))) = waiting r" "hs_ttl (fst (track_key m (r, c))) = hs_ttl r"
    by (simp_all add: track_key_def Let_def)
qed

subsection \<open>Registering\<close>

lemma observe_ok: "peer_ok (i, p) \<Longrightarrow> peer_ok (i, observe now src p)"
  by (auto simp: peer_ok_def observe_def Let_def gomap_mput mget_None_iff intro: length_mput_bound)

lemma refresh_ok: "peer_ok (i, p) \<Longrightarrow> peer_ok (i, refresh now m src p)"
  unfolding refresh_def Let_def by (rule observe_ok) (simp add: peer_ok_def)

lemma find_partner_bucket:
  "find_partner now d self b = (q, b') \<Longrightarrow>
   set b' \<subseteq> set b \<and> length b' \<le> length b \<and> (gomap b \<longrightarrow> gomap b') \<and>
   (\<forall>p. mget b self = Some p \<longrightarrow> mget b' self = Some p) \<and> (q = None \<longrightarrow> mkeys b' \<subseteq> {self})"
proof (induction now d self b arbitrary: q b' rule: find_partner.induct)
  case (2 now d self i p b)
  show ?case
  proof (cases "i = self")
    case True
    then obtain b'' where b'': "find_partner now d self b = (q, b'')" "b' = (i, p) # b''"
      using "2.prems" by (auto split: prod.splits)
    from "2.IH"(1) [OF True b''(1)] show ?thesis using b''(2) True by auto
  next
    case False
    show ?thesis
    proof (cases "now - hp_seen p > d")
      case True
      then have "find_partner now d self b = (q, b')" using "2.prems" False by simp
      from "2.IH"(2) [OF False True this] False show ?thesis by auto
    next
      case live: False
      then have "q = Some p" "b' = (i, p) # b" using "2.prems" False by simp_all
      then show ?thesis by simp
    qed
  qed
qed simp

lemma find_partner_bucket_ok: "find_partner now d self b = (q, b') \<Longrightarrow> bucket_ok b \<Longrightarrow> bucket_ok b'"
  using find_partner_bucket [of now d self b q b'] by (auto simp: bucket_ok_def)

lemma upsert_bucket:
  assumes "bucket_ok b" and "\<not> (mget b (ID m) = None \<and> length b \<ge> maxIDsPerToken)"
  shows "bucket_ok (mput (ID m) (refresh now m src (case mget b (ID m) of Some p \<Rightarrow> p
     | None \<Rightarrow> \<lparr>hp_id = ID m, hp_pubkey = [], hp_virtualIP = [], hp_name = [], cands = [], hp_seen = now\<rparr>)) b)"
    (is "bucket_ok (mput _ (refresh _ _ _ ?p) _)")
proof -
  have "peer_ok (ID m, ?p)"
    using assms(1) by (auto simp: bucket_ok_def peer_ok_def dest!: mget_in_set split: option.split)
  then have "peer_ok (ID m, refresh now m src ?p)" by (rule refresh_ok)
  moreover have "length (mput (ID m) (refresh now m src ?p) b) \<le> maxIDsPerToken"
    using assms by (intro length_mput_bound) (auto simp: bucket_ok_def mget_None_iff)
  ultimately show ?thesis
    using assms(1) mput_ball [of b peer_ok "ID m" "refresh now m src ?p"] by (simp add: bucket_ok_def gomap_mput)
qed

lemma unlatch_inv: "reg_inv r \<Longrightarrow> reg_inv (r\<lparr>pairedLogged := mdel tok (pairedLogged r)\<rparr>)"
  using length_mdel_le [of tok "pairedLogged r"] unfolding reg_inv_def by (simp add: gomap_mdel)

text \<open>The branch of \<^const>\<open>upsert\<close> that registers, spelled out.\<close>

lemma upsert_registers:
  assumes "open_bucket it (Token m) r = Some r1" and "b = (case mget (waiting r1) (Token m) of None \<Rightarrow> [] | Some b \<Rightarrow> b)"
    and "\<not> (mget b (ID m) = None \<and> length b \<ge> maxIDsPerToken)"
    and "(if PubKey m \<noteq> [] then track_key m (r1, c) else (r1, c)) = (r2, c2)"
    and "p = refresh now m src (case mget b (ID m) of Some p \<Rightarrow> p
     | None \<Rightarrow> \<lparr>hp_id = ID m, hp_pubkey = [], hp_virtualIP = [], hp_name = [], cands = [], hp_seen = now\<rparr>)"
    and "find_partner now (hs_ttl r2) (ID m) (mput (ID m) p b) = (q, b')"
    and "r3 = r2\<lparr>waiting := mput (Token m) b' (waiting r2)\<rparr>"
  shows "upsert it now m src (r, c) =
    (Some (p, q), if q = None then r3\<lparr>pairedLogged := mdel (Token m) (pairedLogged r3)\<rparr> else r3, c2)"
  using assms(3,4,6,7) unfolding upsert_def
  by (simp add: assms(1) assms(2,5) [symmetric] Let_def del: de_Morgan_conj)

lemma upsert_inv:
  assumes "reg_inv (fst rc)"
  shows "reg_inv (fst (snd (upsert it now m src rc)))"
proof (cases "open_bucket it (Token m) (fst rc)")
  case None
  then show ?thesis using assms by (simp add: upsert_def case_prod_unfold)
next
  case (Some r)
  from open_bucket_inv [OF Some assms] have i: "reg_inv r" and w: "Token m \<in> mkeys (waiting r)" by auto
  define b where "b = (case mget (waiting r) (Token m) of None \<Rightarrow> [] | Some b \<Rightarrow> b)"
  have b: "bucket_ok b"
    using i w unfolding b_def by (auto simp: reg_inv_def mget_None_iff dest!: mget_in_set split: option.split)
  show ?thesis
  proof (cases "mget b (ID m) = None \<and> length b \<ge> maxIDsPerToken")
    case True
    then show ?thesis using warn_inv [OF i w] by (simp add: upsert_def Some b_def case_prod_unfold)
  next
    case False
    obtain r2 c2 where rc2: "(if PubKey m \<noteq> [] then track_key m (r, snd rc) else (r, snd rc)) = (r2, c2)" by fastforce
    then have t: "reg_inv r2" "Token m \<in> mkeys (waiting r2)"
      using i w track_key_inv [OF i w, of "snd rc"] by (auto split: if_splits)
    define p where "p = refresh now m src (case mget b (ID m) of Some p \<Rightarrow> p
     | None \<Rightarrow> \<lparr>hp_id = ID m, hp_pubkey = [], hp_virtualIP = [], hp_name = [], cands = [], hp_seen = now\<rparr>)"
    obtain q b' where f: "find_partner now (hs_ttl r2) (ID m) (mput (ID m) p b) = (q, b')" by fastforce
    have "bucket_ok b'" using find_partner_bucket_ok [OF f] upsert_bucket [OF b False] by (simp add: p_def)
    from put_bucket_inv [OF t(1) this] t(2)
    have "reg_inv (r2\<lparr>waiting := mput (Token m) b' (waiting r2)\<rparr>)" by blast
    with unlatch_inv [OF this, of "Token m"] show ?thesis
      using upsert_registers [OF Some b_def False rc2 p_def f refl] by simp
  qed
qed

lemma reg_step_inv: "reg_inv (fst rc) \<Longrightarrow> reg_inv (fst (reg_step e rc))"
  by (cases e) (simp_all add: upsert_inv notePaired_inv sidFor_inv reap_pass_inv)

interpretation registry: stepwise reg_step "\<lambda>rc. reg_inv (fst rc)" "\<lambda>_. True"
  by unfold_locales (rule reg_step_inv)

lemma new_reg_inv: "reg_inv (newHSRegistry d)"
  by (simp add: reg_inv_def newHSRegistry_def)

lemma submap_length: "gomap m \<Longrightarrow> gomap w \<Longrightarrow> mkeys m \<subseteq> mkeys w \<Longrightarrow> length m \<le> length w"
  by (metis card_mono distinct_card finite_imageI finite_set length_map list.set_map)

text \<open>C25: spoofed and hostile registrations cannot grow the server. Whatever sequence of critical
  sections the concurrent requests and the reaper run through, the registry holds at most
  4096 tokens, two peers per token and eight endpoints per peer, at most three keys are
  remembered per token, and every latch and session id table stays within 4096 entries.\<close>

theorem registry_bounded:
  "let r = fst (fold reg_step es (newHSRegistry d, zero_counters)) in
     length (waiting r) \<le> 4096 \<and>
     list_all (\<lambda>(_, b). length b \<le> 2 \<and> list_all (\<lambda>(i, p). hp_id p = i \<and> length (cands p) \<le> 8) b) (waiting r) \<and>
     length (seenPKs r) \<le> 4096 \<and> list_all (\<lambda>(_, k). length k \<le> 3) (seenPKs r) \<and>
     length (intruderWarned r) \<le> 4096 \<and> length (pairedLogged r) \<le> 4096 \<and> length (sids r) \<le> 4096"
proof -
  define r where "r = fst (fold reg_step es (newHSRegistry d, zero_counters))"
  have i: "reg_inv r" unfolding r_def by (rule registry.inv_run) (simp_all add: new_reg_inv)
  from i submap_length [of "seenPKs r" "waiting r"] submap_length [of "intruderWarned r" "waiting r"] show ?thesis
    unfolding r_def [symmetric] Let_def reg_inv_def
    by (simp add: list_all_iff case_prod_unfold bucket_ok_def peer_ok_def keys_ok_def maxTokens_def maxIDsPerToken_def
        maxCandsPerPeer_def)
qed

section \<open>Two registrations meet\<close>

lemma open_bucket_known: "mget (waiting r) tok = Some b \<Longrightarrow> open_bucket it tok r = Some r"
  by (simp add: open_bucket_def)

lemma open_bucket_room:
  "mget (waiting r) tok = None \<Longrightarrow> length (waiting r) < maxTokens \<Longrightarrow>
   open_bucket it tok r = Some (r\<lparr>waiting := mput tok [] (waiting r)\<rparr>)"
  by (simp add: open_bucket_def)

text \<open>What a registration leaves in its slot.\<close>

definition registered :: "time \<Rightarrow> message \<Rightarrow> udpaddr \<Rightarrow> hsPeer \<Rightarrow> bool" where
  "registered now m src p \<longleftrightarrow> hp_id p = ID m \<and> hp_seen p = now \<and> hp_pubkey p = PubKey m \<and>
     hp_virtualIP p = VirtualIP m \<and> UDPAddr_String src \<in> Addr ` set (candidates p) \<and>
     mget (cands p) (UDPAddr_String src) \<noteq> None"

lemma observe_frame [simp]:
  "hp_id (observe now src p) = hp_id p" "hp_pubkey (observe now src p) = hp_pubkey p"
  "hp_virtualIP (observe now src p) = hp_virtualIP p" "hp_name (observe now src p) = hp_name p"
  "hp_seen (observe now src p) = now"
  by (simp_all add: observe_def Let_def)

lemma observe_new:
  "cands p = [] \<Longrightarrow> UDPAddr_String src \<in> Addr ` set (candidates (observe now src p))"
  "cands p = [] \<Longrightarrow> mget (cands (observe now src p)) (UDPAddr_String src) \<noteq> None"
  by (simp_all add: observe_def Let_def candidates_def maxCandsPerPeer_def)

lemma refresh_new:
  assumes "cands p = []" and "hp_id p = ID m" and "PubKey m \<noteq> []" and "VirtualIP m \<noteq> []"
  shows "registered now m src (refresh now m src p)"
  using assms observe_new unfolding refresh_def registered_def Let_def by simp

text \<open>The first registration of a token, and the second one while the first is alive.\<close>

lemma upsert_first:
  assumes "mget (waiting r) (Token m) = None" and "length (waiting r) < maxTokens"
    and "PubKey m \<noteq> []" and "VirtualIP m \<noteq> []"
  shows "\<exists>p r' c'. upsert it now m src (r, c) = (Some (p, None), r', c') \<and> registered now m src p \<and>
    mget (waiting r') (Token m) = Some [(ID m, p)] \<and> hs_ttl r' = hs_ttl r \<and>
    waiting r' = mput (Token m) [(ID m, p)] (mput (Token m) [] (waiting r)) \<and>
    p = refresh now m src \<lparr>hp_id = ID m, hp_pubkey = [], hp_virtualIP = [], hp_name = [], cands = [], hp_seen = now\<rparr>"
proof -
  let ?r1 = "r\<lparr>waiting := mput (Token m) [] (waiting r)\<rparr>"
  let ?p = "refresh now m src \<lparr>hp_id = ID m, hp_pubkey = [], hp_virtualIP = [], hp_name = [], cands = [], hp_seen = now\<rparr>"
  obtain r2 c2 where rc2: "track_key m (?r1, c) = (r2, c2)" by fastforce
  then have w: "waiting r2 = waiting ?r1" "hs_ttl r2 = hs_ttl r"
    by (auto simp: track_key_def Let_def split: if_splits)
  have b: "[] = (case mget (waiting ?r1) (Token m) of None \<Rightarrow> [] | Some b \<Rightarrow> b)" by (simp add: mget_mput)
  have "upsert it now m src (r, c) = (Some (?p, None), r2\<lparr>waiting := mput (Token m) [(ID m, ?p)] (waiting r2),
      pairedLogged := mdel (Token m) (pairedLogged r2)\<rparr>, c2)"
    using upsert_registers [where p = ?p and q = None and b' = "[(ID m, ?p)]" and ?r2.0 = r2 and ?c2.0 = c2 and c = c and now = now
        and src = src, OF open_bucket_room [OF assms(1,2)] b] assms(3) rc2
    by (simp add: maxIDsPerToken_def)
  moreover have "registered now m src ?p" using assms(3,4) by (intro refresh_new) simp_all
  ultimately show ?thesis using w by (simp add: mget_mput)
qed

lemma upsert_second:
  assumes "mget (waiting r) (Token m) = Some [(i, p)]" and "i \<noteq> ID m" and "now - hp_seen p \<le> hs_ttl r"
    and "PubKey m \<noteq> []" and "VirtualIP m \<noteq> []"
  shows "\<exists>q r' c'. upsert it now m src (r, c) = (Some (q, Some p), r', c') \<and> registered now m src q \<and>
    mget (waiting r') (Token m) = Some [(i, p), (ID m, q)] \<and> hs_ttl r' = hs_ttl r \<and>
    length (waiting r') = length (waiting r)"
proof -
  let ?q = "refresh now m src \<lparr>hp_id = ID m, hp_pubkey = [], hp_virtualIP = [], hp_name = [], cands = [], hp_seen = now\<rparr>"
  obtain r2 c2 where rc2: "track_key m (r, c) = (r2, c2)" by fastforce
  then have w: "waiting r2 = waiting r" "hs_ttl r2 = hs_ttl r" by (auto simp: track_key_def Let_def split: if_splits)
  have b: "[(i, p)] = (case mget (waiting r) (Token m) of None \<Rightarrow> [] | Some b \<Rightarrow> b)" using assms(1) by simp
  have "upsert it now m src (r, c) = (Some (?q, Some p), r2\<lparr>waiting := mput (Token m) [(i, p), (ID m, ?q)] (waiting r2)\<rparr>, c2)"
    using upsert_registers [where p = ?q and q = "Some p" and b' = "[(i, p), (ID m, ?q)]" and ?r2.0 = r2 and ?c2.0 = c2 and c = c
        and now = now and src = src, OF open_bucket_known [OF assms(1)] b]
      assms(2-4) rc2 w by (simp add: maxIDsPerToken_def)
  moreover have "registered now m src ?q" using assms(4,5) by (intro refresh_new) simp_all
  moreover have "Token m \<in> mkeys (waiting r)" using mget_in_set [OF assms(1)] by (auto intro: rev_image_eqI)
  ultimately show ?thesis using w by (simp add: mget_mput length_mput)
qed

lemma find_partner_keep:
  "find_partner now d self b = (Some p, b) \<Longrightarrow> find_partner now d self (mput self q b) = (Some p, mput self q b)"
proof (induction b)
  case (Cons e b)
  obtain i x where e: "e = (i, x)" by fastforce
  show ?case
  proof (cases "i = self \<or> \<not> now - hp_seen x > d")
    case True
    then show ?thesis using Cons.prems e by (auto split: prod.splits if_splits)
  next
    case False
    then have "find_partner now d self b = (Some p, e # b)" using Cons.prems e by simp
    from find_partner_bucket [OF this] show ?thesis by simp
  qed
qed simp

text \<open>A peer that polls again finds the other one, while it is alive.\<close>

lemma upsert_again:
  assumes "mget (waiting r) (Token m) = Some b" and "mget b (ID m) \<noteq> None" and "find_partner now (hs_ttl r) (ID m) b = (Some p, b)"
  shows "\<exists>q r' c'. upsert it now m src (r, c) = (Some (q, Some p), r', c') \<and> hp_seen q = now"
proof -
  obtain q0 where q0: "mget b (ID m) = Some q0" using assms(2) by blast
  let ?q = "refresh now m src q0"
  obtain r2 c2 where rc2: "(if PubKey m \<noteq> [] then track_key m (r, c) else (r, c)) = (r2, c2)" by fastforce
  then have w: "waiting r2 = waiting r" "hs_ttl r2 = hs_ttl r" by (auto simp: track_key_def Let_def split: if_splits)
  have f: "find_partner now (hs_ttl r2) (ID m) (mput (ID m) ?q b) = (Some p, mput (ID m) ?q b)"
    using find_partner_keep [OF assms(3)] unfolding w .
  have "upsert it now m src (r, c) = (Some (?q, Some p), r2\<lparr>waiting := mput (Token m) (mput (ID m) ?q b) (waiting r2)\<rparr>, c2)"
    using upsert_registers [where b = b and src = src, OF open_bucket_known [OF assms(1)] _ _ rc2 _ f refl] assms(1) q0 by simp
  then show ?thesis by (simp add: refresh_def Let_def)
qed

subsection \<open>What other requests leave alone\<close>

lemma forget_other [simp]: "tok' \<noteq> tok \<Longrightarrow> mget (waiting (forget tok' r)) tok = mget (waiting r) tok"
  "tok' \<noteq> tok \<Longrightarrow> mget (sids (forget tok' r)) tok = mget (sids r) tok" "hs_ttl (forget tok' r) = hs_ttl r"
  by (simp_all add: forget_def mget_mdel)

lemma reap_token_other:
  "fst e \<noteq> tok \<Longrightarrow> mget (waiting (reap_token now e r)) tok = mget (waiting r) tok"
  "fst e \<noteq> tok \<Longrightarrow> mget (sids (reap_token now e r)) tok = mget (sids r) tok"
  "hs_ttl (reap_token now e r) = hs_ttl r"
  by (simp_all add: reap_token_def Let_def mget_mput)

lemma reap_fold_other:
  "tok \<notin> mkeys es \<Longrightarrow> mget (waiting (fold (reap_token now) es r)) tok = mget (waiting r) tok \<and>
     mget (sids (fold (reap_token now) es r)) tok = mget (sids r) tok"
  by (induction es arbitrary: r) (auto simp: reap_token_other)

lemma reap_fold_ttl: "hs_ttl (fold (reap_token now) es r) = hs_ttl r"
  by (induction es arbitrary: r) (simp_all add: reap_token_other)

lemma reap_fold_keeps:
  "gomap es \<Longrightarrow> (tok, b) \<in> set es \<Longrightarrow> reap_bucket now (hs_ttl r) b = b \<Longrightarrow> b \<noteq> [] \<Longrightarrow>
   mget (waiting (fold (reap_token now) es r)) tok = Some b"
proof (induction es arbitrary: r)
  case (Cons e es)
  show ?case
  proof (cases "fst e = tok")
    case True
    then have e: "e = (tok, b)" and "tok \<notin> mkeys es" using Cons.prems(1,2) by (auto simp: image_iff)
    then have "mget (waiting (fold (reap_token now) es (reap_token now e r))) tok = mget (waiting (reap_token now e r)) tok"
      using reap_fold_other by blast
    then show ?thesis using Cons.prems(3,4) e by (simp add: reap_token_def [of now "(tok, b)" r] mget_mput)
  next
    case False
    then show ?thesis using Cons by (auto simp: reap_token_other)
  qed
qed simp

lemma reap_pass_keeps:
  assumes "reg_inv r" and "mget (waiting r) tok = Some b" and "b \<noteq> []" and "\<forall>e \<in> set b. now - hp_seen (snd e) \<le> hs_ttl r"
  shows "mget (waiting (reap_pass now r)) tok = Some b"
proof -
  have "reap_bucket now (hs_ttl r) b = b" using assms(4) unfolding reap_bucket_def by (intro filter_True) force
  then show ?thesis
    unfolding reap_pass_def using assms by (intro reap_fold_keeps) (auto simp: reg_inv_def dest: mget_in_set)
qed

lemma upsert_other:
  assumes "Token m \<noteq> tok" and "length (waiting r) < maxTokens"
  shows "mget (waiting (fst (snd (upsert it now m src (r, c))))) tok = mget (waiting r) tok \<and>
    length (waiting (fst (snd (upsert it now m src (r, c))))) \<le> Suc (length (waiting r)) \<and>
    hs_ttl (fst (snd (upsert it now m src (r, c)))) = hs_ttl r"
proof -
  obtain r1 where r1: "open_bucket it (Token m) r = Some r1"
    and w1: "mget (waiting r1) tok = mget (waiting r) tok" "length (waiting r1) \<le> Suc (length (waiting r))" "hs_ttl r1 = hs_ttl r"
    and k1: "Token m \<in> mkeys (waiting r1)"
  proof (cases "mget (waiting r) (Token m)")
    case None
    show thesis
      by (rule that [OF open_bucket_room [OF None assms(2)]])
        (use assms(1) in \<open>simp_all add: mget_mput mkeys_mput length_mput\<close>)
  next
    case (Some b)
    show thesis
      by (rule that [OF open_bucket_known [OF Some]]) (use mget_in_set [OF Some] in \<open>auto intro: rev_image_eqI\<close>)
  qed
  define b where "b = (case mget (waiting r1) (Token m) of None \<Rightarrow> [] | Some b \<Rightarrow> b)"
  show ?thesis
  proof (cases "mget b (ID m) = None \<and> length b \<ge> maxIDsPerToken")
    case True
    then show ?thesis using w1 by (simp add: upsert_def r1 b_def)
  next
    case False
    obtain r2 c2 where rc2: "(if PubKey m \<noteq> [] then track_key m (r1, c) else (r1, c)) = (r2, c2)" by fastforce
    then have w2: "waiting r2 = waiting r1" "hs_ttl r2 = hs_ttl r1"
      by (auto simp: track_key_def Let_def split: if_splits)
    define p where "p = refresh now m src (case mget b (ID m) of Some p \<Rightarrow> p
     | None \<Rightarrow> \<lparr>hp_id = ID m, hp_pubkey = [], hp_virtualIP = [], hp_name = [], cands = [], hp_seen = now\<rparr>)"
    obtain q b' where f: "find_partner now (hs_ttl r2) (ID m) (mput (ID m) p b) = (q, b')" by fastforce
    show ?thesis
      using upsert_registers [OF r1 b_def False rc2 p_def f refl] assms(1) w1 w2 k1 by (simp add: mget_mput length_mput)
  qed
qed

lemma reap_fold_keys: "mkeys (waiting (fold (reap_token now) es r)) \<subseteq> mkeys es \<union> mkeys (waiting r)"
proof (induction es arbitrary: r)
  case (Cons e es)
  have "mkeys (waiting (reap_token now e r)) \<subseteq> insert (fst e) (mkeys (waiting r))"
    by (auto simp: reap_token_def Let_def forget_def mkeys_mdel mkeys_mput)
  then show ?case using Cons [of "reap_token now e r"] by (simp only: fold_simps list.set image_insert) blast
qed simp

lemma reap_pass_length: "reg_inv r \<Longrightarrow> length (waiting (reap_pass now r)) \<le> length (waiting r)"
  using reap_pass_inv [of r now] reap_fold_keys [of now "waiting r" r]
  by (intro submap_length) (auto simp: reg_inv_def reap_pass_def)

text \<open>Events that leave a token alone: registrations of other tokens, session ids and latches,
  and passes of the reaper up to a deadline.\<close>

fun quiet :: "bytes \<Rightarrow> time \<Rightarrow> reg_event \<Rightarrow> bool" where
  "quiet tok deadline (Upsert it now m src) \<longleftrightarrow> Token m \<noteq> tok"
| "quiet tok deadline (RegReap now) \<longleftrightarrow> now \<le> deadline"
| "quiet tok deadline e \<longleftrightarrow> True"

fun is_Upsert :: "reg_event \<Rightarrow> bool" where
  "is_Upsert (Upsert it now m src) \<longleftrightarrow> True"
| "is_Upsert e \<longleftrightarrow> False"

lemma latches_frame [simp]:
  "waiting (snd (notePaired tok r)) = waiting r" "waiting (snd (sidFor rnd tok r)) = waiting r"
  "hs_ttl (snd (notePaired tok r)) = hs_ttl r" "hs_ttl (snd (sidFor rnd tok r)) = hs_ttl r"
  by (simp_all add: notePaired_def sidFor_def split: option.split)

lemma quiet_step:
  assumes "reg_inv (fst rc)" and "mget (waiting (fst rc)) tok = Some b" and "b \<noteq> []"
    and "\<forall>e \<in> set b. deadline - hp_seen (snd e) \<le> hs_ttl (fst rc)" and "quiet tok deadline e"
    and "is_Upsert e \<Longrightarrow> length (waiting (fst rc)) < maxTokens"
  shows "mget (waiting (fst (reg_step e rc))) tok = Some b \<and> hs_ttl (fst (reg_step e rc)) = hs_ttl (fst rc) \<and>
    length (waiting (fst (reg_step e rc))) \<le> length (waiting (fst rc)) + (if is_Upsert e then 1 else 0)"
proof (cases e)
  case (Upsert it now m src)
  then show ?thesis using upsert_other [of m tok "fst rc" it now src "snd rc"] assms by simp
next
  case (RegReap now)
  then have "\<forall>e \<in> set b. now - hp_seen (snd e) \<le> hs_ttl (fst rc)" using assms(4,5) by fastforce
  then show ?thesis
    using RegReap reap_pass_keeps [OF assms(1-3)] reap_pass_length [OF assms(1)] by (simp add: reap_fold_ttl reap_pass_def)
qed (use assms in simp_all)

lemma quiet_run:
  assumes "reg_inv (fst rc)" and "mget (waiting (fst rc)) tok = Some b" and "b \<noteq> []"
    and "\<forall>e \<in> set b. deadline - hp_seen (snd e) \<le> hs_ttl (fst rc)" and "list_all (quiet tok deadline) es"
    and "length (waiting (fst rc)) + length (filter is_Upsert es) \<le> maxTokens"
  shows "mget (waiting (fst (fold reg_step es rc))) tok = Some b \<and> hs_ttl (fst (fold reg_step es rc)) = hs_ttl (fst rc) \<and>
    length (waiting (fst (fold reg_step es rc))) \<le> length (waiting (fst rc)) + length (filter is_Upsert es) \<and>
    reg_inv (fst (fold reg_step es rc))"
  using assms
proof (induction es arbitrary: rc)
  case (Cons e es)
  have q: "mget (waiting (fst (reg_step e rc))) tok = Some b" "hs_ttl (fst (reg_step e rc)) = hs_ttl (fst rc)"
    "length (waiting (fst (reg_step e rc))) \<le> length (waiting (fst rc)) + (if is_Upsert e then 1 else 0)"
    using quiet_step [OF Cons.prems(1-4), of e] Cons.prems(5,6) by (auto split: if_splits)
  from Cons.IH [OF reg_step_inv [OF Cons.prems(1)] q(1) Cons.prems(3)] show ?case
    using Cons.prems(4-6) q by (auto split: if_splits)
qed simp

text \<open>C9: two buddies that poll find each other. One buddy registers a new token, the other one
  registers it before the first entry expires, and the first polls again in time. Provided
  that nobody else registers this token in between and that the table has room for all the
  registrations that happen (nothing is evicted), whatever other tokens are registered and
  however often the reaper runs in between, the second buddy is given the first one's record
  and the first the second one's, each with the key, the address and the endpoint it
  registered with.\<close>

theorem buddies_meet:
  assumes "reg_inv r" and "mget (waiting r) (Token mA) = None" and "Token mB = Token mA" and "ID mA \<noteq> ID mB"
    and "PubKey mA \<noteq> []" "VirtualIP mA \<noteq> []" "PubKey mB \<noteq> []" "VirtualIP mB \<noteq> []"
    and "Token mA' = Token mA" and "ID mA' = ID mA"
    and "tB - tA \<le> hs_ttl r" and "tA' - tB \<le> hs_ttl r" and "tA' - tA \<le> hs_ttl r"
    and "list_all (quiet (Token mA) tB) es" and "list_all (quiet (Token mA) tA') es'"
    and "length (waiting r) + length (filter is_Upsert es) + length (filter is_Upsert es') < maxTokens"
  shows "\<exists>a b a' rc1 rc2 rc3.
    upsert itA tA mA srcA (r, c) = (Some (a, None), rc1) \<and> registered tA mA srcA a \<and>
    upsert itB tB mB srcB (fold reg_step es rc1) = (Some (b, Some a), rc2) \<and> registered tB mB srcB b \<and>
    upsert itA' tA' mA' srcA' (fold reg_step es' rc2) = (Some (a', Some b), rc3)"
proof -
  from upsert_first [OF assms(2) _ assms(5,6), of itA tA srcA c] assms(16) obtain a r1 c1 where
    a: "upsert itA tA mA srcA (r, c) = (Some (a, None), r1, c1)" "registered tA mA srcA a"
    "mget (waiting r1) (Token mA) = Some [(ID mA, a)]" "hs_ttl r1 = hs_ttl r"
    "waiting r1 = mput (Token mA) [(ID mA, a)] (mput (Token mA) [] (waiting r))" by auto
  have i1: "reg_inv r1" using upsert_inv [of "(r, c)" itA tA mA srcA] assms(1) a(1) by simp
  have l1: "length (waiting r1) \<le> Suc (length (waiting r))" by (simp add: a(5) length_mput mkeys_mput)
  have s: "hp_seen a = tA" using a(2) by (simp add: registered_def)
  have q1: "mget (waiting (fst (fold reg_step es (r1, c1)))) (Token mA) = Some [(ID mA, a)]"
    "hs_ttl (fst (fold reg_step es (r1, c1))) = hs_ttl r"
    "length (waiting (fst (fold reg_step es (r1, c1)))) \<le> Suc (length (waiting r)) + length (filter is_Upsert es)"
    "reg_inv (fst (fold reg_step es (r1, c1)))"
    using quiet_run [where rc = "(r1, c1)" and tok = "Token mA" and b = "[(ID mA, a)]" and deadline = tB and es = es]
      i1 a(3,4) assms(11,14,16) l1 s by auto
  obtain r2 c2 where rc2: "fold reg_step es (r1, c1) = (r2, c2)" by fastforce
  from upsert_second [of r2 mB "ID mA" a tB itB srcB c2] q1 rc2 assms(3,4,7,8,11) s obtain b r3 c3 where
    b: "upsert itB tB mB srcB (r2, c2) = (Some (b, Some a), r3, c3)" "registered tB mB srcB b"
    "mget (waiting r3) (Token mA) = Some [(ID mA, a), (ID mB, b)]" "hs_ttl r3 = hs_ttl r"
    "length (waiting r3) = length (waiting r2)" by auto
  have sb: "hp_seen b = tB" using b(2) by (simp add: registered_def)
  have i3: "reg_inv r3" using upsert_inv [of "(r2, c2)" itB tB mB srcB] q1(4) rc2 b(1) by simp
  have q3: "mget (waiting (fst (fold reg_step es' (r3, c3)))) (Token mA) = Some [(ID mA, a), (ID mB, b)]"
    "hs_ttl (fst (fold reg_step es' (r3, c3))) = hs_ttl r"
    using quiet_run [where rc = "(r3, c3)" and tok = "Token mA" and b = "[(ID mA, a), (ID mB, b)]" and deadline = tA' and es = es']
      i3 b(3-5) q1(3) rc2 assms(12,13,15,16) s sb by auto
  obtain r4 c4 where rc4: "fold reg_step es' (r3, c3) = (r4, c4)" by fastforce
  have "find_partner tA' (hs_ttl r4) (ID mA') [(ID mA, a), (ID mB, b)] = (Some b, [(ID mA, a), (ID mB, b)])"
    using assms(4,10,12) q3(2) rc4 sb by simp
  from upsert_again [OF _ _ this, of itA' srcA' c4] q3(1) rc4 assms(9,10) obtain a' r5 c5 where
    "upsert itA' tA' mA' srcA' (r4, c4) = (Some (a', Some b), r5, c5)" by auto
  then show ?thesis using a(1,2) b(1,2) rc2 rc4 by fastforce
qed

section \<open>Who gets into the registry\<close>

text \<open>The server's events, and the states they meet.\<close>

datatype hs_event =
    Control "(bytes \<times> hsBucket) list \<Rightarrow> (bytes \<times> hsBucket) list" time "bytes option \<times> bytes option" udpaddr bytes bytes
  | HReap time
  | HPoll time stat_result open_result
  | HStats nat

fun hs_step :: "json \<Rightarrow> crypto \<Rightarrow> box_open \<Rightarrow> hs_config \<Rightarrow> hs_event \<Rightarrow> hs \<Rightarrow> hs" where
  "hs_step J C B cfg (Control it now rnd src key payload) s = snd (handleControlReq J C B cfg it now rnd src key payload s)"
| "hs_step J C B cfg (HReap now) s = s\<lparr>hreg := reap_pass now (hreg s)\<rparr>"
| "hs_step J C B cfg (HPoll now st f) s = s\<lparr>hauthz := map_option (pollOnce now st f) (hauthz s)\<rparr>"
| "hs_step J C B cfg (HStats panics) s = snd (stats_tick panics s)"

fun trace :: "json \<Rightarrow> crypto \<Rightarrow> box_open \<Rightarrow> hs_config \<Rightarrow> hs_event list \<Rightarrow> hs \<Rightarrow> (hs_event \<times> hs) list" where
  "trace J C B cfg [] s = []"
| "trace J C B cfg (e # es) s = (e, s) # trace J C B cfg es (hs_step J C B cfg e s)"

text \<open>An event vouches for a message: it carried a registration that opened to it, made over a
  connection that proved its key, with a fresh and valid signature, and in approval mode
  by a key that was approved, after its approval, with a nonce not seen before.\<close>

definition approved_by :: "hs \<Rightarrow> time \<Rightarrow> message \<Rightarrow> bool" where
  "approved_by s now m \<longleftrightarrow>
     (case hauthz s of
        None \<Rightarrow> True
      | Some a \<Rightarrow> allowed_key a (PubKey m) \<and> freshSinceApproval a (PubKey m) (Ts m) \<and>
          \<not> fst (replayed now (PubKey m) (RegNonce m) a))"

definition proves_key :: "json \<Rightarrow> crypto \<Rightarrow> time \<Rightarrow> message \<Rightarrow> bool" where
  "proves_key J C now m \<longleftrightarrow> ValidNonce (RegNonce m) \<and> \<bar>now - Ts m * second\<bar> \<le> regSkew \<and>
     (\<exists>pub sig. b64std_decode (PubKey m) = Some pub \<and> length pub = PublicKeySize \<and>
        b64std_decode (RegSig m) = Some sig \<and> length sig = SignatureSize \<and> ed_verify C pub (RegistrationPayload J m) sig)"

lemma verifyRegistration_iff: "verifyRegistration J C now regSkew m \<longleftrightarrow> proves_key J C now m"
  by (auto simp: verifyRegistration_def proves_key_def Let_def split: option.splits if_splits)

fun vouches :: "json \<Rightarrow> crypto \<Rightarrow> box_open \<Rightarrow> hs_config \<Rightarrow> hs_event \<times> hs \<Rightarrow> message \<Rightarrow> udpaddr \<Rightarrow> bool" where
  "vouches J C B cfg (Control it now rnd src key payload, s) m from \<longleftrightarrow>
     from = src \<and> cidrAllowed (hallowed cfg) (IP src) \<and>
     (\<exists>m0. parseRegister J payload = Some m0 \<and> registrationMatchesTLSKey m0 key \<and> Ver m0 = Version \<and>
        resolveToken B m0 = Some m) \<and>
     proves_key J C now m \<and> approved_by s now m"
| "vouches J C B cfg _ m from \<longleftrightarrow> False"

definition derived_vip :: "crypto \<Rightarrow> bytes \<Rightarrow> bytes \<Rightarrow> bool" where
  "derived_vip C pubkey vip \<longleftrightarrow> (\<exists>pub. DecodePubKey pubkey = Some pub \<and> vip = VirtualIPString C pub)"

definition backed :: "json \<Rightarrow> crypto \<Rightarrow> box_open \<Rightarrow> hs_config \<Rightarrow> (hs_event \<times> hs) list \<Rightarrow> bytes \<Rightarrow> hsPeer \<Rightarrow> bool" where
  "backed J C B cfg tr tok p \<longleftrightarrow>
     (\<exists>x \<in> set tr. \<exists>m src. vouches J C B cfg x m src \<and> Token m = tok \<and> ID m = hp_id p \<and> PubKey m = hp_pubkey p) \<and>
     derived_vip C (hp_pubkey p) (hp_virtualIP p) \<and>
     (hp_name p \<noteq> [] \<longrightarrow> ValidName (hp_name p)) \<and>
     (\<forall>c \<in> set (candidates p). \<exists>x \<in> set tr. \<exists>m src. vouches J C B cfg x m src \<and> Token m = tok \<and> ID m = hp_id p \<and>
        Addr c = UDPAddr_String src)"

definition held :: "hsRegistry \<Rightarrow> bytes \<Rightarrow> hsPeer \<Rightarrow> bool" where
  "held r tok p \<longleftrightarrow> (\<exists>b i. (tok, b) \<in> set (waiting r) \<and> (i, p) \<in> set b)"

lemma heldI: "(tok, b) \<in> set (waiting r) \<Longrightarrow> (i, p) \<in> set b \<Longrightarrow> held r tok p"
  by (auto simp: held_def)

lemma candidates_set [simp]: "set (candidates p) = snd ` set (cands p)"
  by (simp add: candidates_def)

lemma backed_mono: "backed J C B cfg tr tok p \<Longrightarrow> set tr \<subseteq> set tr' \<Longrightarrow> backed J C B cfg tr' tok p"
  unfolding backed_def by (meson subsetD)

lemma observe_cands: "c \<in> set (cands (observe now src p)) \<Longrightarrow> c \<in> set (cands p) \<or> Addr (snd c) = UDPAddr_String src"
  by (cases c) (auto simp: observe_def Let_def dest!: set_mput_cases split: if_splits)

lemma refresh_frame [simp]:
  "hp_id (refresh now m src p) = hp_id p" "hp_seen (refresh now m src p) = now"
  "PubKey m \<noteq> [] \<Longrightarrow> hp_pubkey (refresh now m src p) = PubKey m"
  "VirtualIP m \<noteq> [] \<Longrightarrow> hp_virtualIP (refresh now m src p) = VirtualIP m"
  "hp_name (refresh now m src p) = (if Name m \<noteq> [] \<and> ValidName (Name m) then Name m else hp_name p)"
  by (simp_all add: refresh_def Let_def)

lemma refresh_cands: "c \<in> set (cands (refresh now m src p)) \<Longrightarrow> c \<in> set (cands p) \<or> Addr (snd c) = UDPAddr_String src"
  unfolding refresh_def Let_def by (drule observe_cands) (simp split: if_splits)

text \<open>What an operation of the registry can put there.\<close>

lemma forget_held: "held (forget tok' r) tok p \<Longrightarrow> held r tok p"
  by (auto simp: held_def forget_def AList.delete_eq)

lemma reap_held: "held (reap_pass now r) tok p \<Longrightarrow> held r tok p"
proof -
  have "held (fold (reap_token now) es r') tok p \<Longrightarrow> set es \<subseteq> set (waiting r) \<Longrightarrow> (\<And>t q. held r' t q \<Longrightarrow> held r t q) \<Longrightarrow> held r tok p"
    for es r'
  proof (induction es arbitrary: r')
    case (Cons e es)
    have "held r t q" if h: "held (reap_token now e r') t q" for t q
    proof (cases "reap_bucket now (hs_ttl r') (snd e) = []")
      case True
      then show ?thesis using h Cons.prems(3) forget_held by (auto simp: reap_token_def)
    next
      case False
      obtain b i where b: "(t, b) \<in> set (mput (fst e) (reap_bucket now (hs_ttl r') (snd e)) (waiting r'))" "(i, q) \<in> set b"
        using h False by (auto simp: reap_token_def held_def)
      from set_mput_cases [OF b(1)] show ?thesis
      proof
        assume "(t, b) = (fst e, reap_bucket now (hs_ttl r') (snd e))"
        then have "(t, snd e) \<in> set (waiting r)" "(i, q) \<in> set (snd e)"
          using b(2) Cons.prems(2) by (auto simp: reap_bucket_def)
        then show ?thesis by (auto simp: held_def)
      next
        assume "(t, b) \<in> set (waiting r')"
        then show ?thesis using b(2) Cons.prems(3) heldI by blast
      qed
    qed
    then show ?case using Cons by simp
  qed simp
  then show "held (reap_pass now r) tok p \<Longrightarrow> held r tok p" by (auto simp: reap_pass_def)
qed

lemma open_bucket_held: "open_bucket it tok' r = Some r1 \<Longrightarrow> held r1 tok p \<Longrightarrow> held r tok p"
proof -
  assume o: "open_bucket it tok' r = Some r1" and h: "held r1 tok p"
  show ?thesis
  proof (cases "mget (waiting r) tok'")
    case None
    then obtain q where q: "q = r \<or> evictStalestLocked it r = Some q" and r1: "r1 = q\<lparr>waiting := mput tok' [] (waiting q)\<rparr>"
      using o by (auto simp: open_bucket_def split: option.splits if_splits)
    have "held q tok p" using h unfolding r1 held_def by (force dest: set_mput_cases)
    then show ?thesis using q forget_held by (auto elim!: evict_victim)
  qed (use o h in \<open>simp add: open_bucket_def\<close>)
qed

lemma upsert_held:
  assumes "upsert it now m src (r, c) = (res, r', c')" and "held r' tok p" and "reg_inv r"
  shows "held r tok p \<or> (tok = Token m \<and> (\<exists>p0. p = refresh now m src p0 \<and> hp_id p0 = ID m \<and>
     (cands p0 = [] \<and> hp_name p0 = [] \<or> held r tok p0)))"
proof (cases "open_bucket it (Token m) r")
  case None
  then show ?thesis using assms by (simp add: upsert_def)
next
  case (Some r1)
  define b where "b = (case mget (waiting r1) (Token m) of None \<Rightarrow> [] | Some b \<Rightarrow> b)"
  show ?thesis
  proof (cases "mget b (ID m) = None \<and> length b \<ge> maxIDsPerToken")
    case True
    then have "held r1 tok p" using assms by (auto simp: upsert_def Some b_def held_def)
    then show ?thesis using open_bucket_held [OF Some] by blast
  next
    case False
    obtain r2 c2 where rc2: "(if PubKey m \<noteq> [] then track_key m (r1, c) else (r1, c)) = (r2, c2)" by fastforce
    then have w2: "waiting r2 = waiting r1" by (auto simp: track_key_def Let_def split: if_splits)
    define p0 where "p0 = (case mget b (ID m) of Some p \<Rightarrow> p
     | None \<Rightarrow> \<lparr>hp_id = ID m, hp_pubkey = [], hp_virtualIP = [], hp_name = [], cands = [], hp_seen = now\<rparr>)"
    define q where "q = refresh now m src p0"
    obtain w b' where f: "find_partner now (hs_ttl r2) (ID m) (mput (ID m) q b) = (w, b')" by fastforce
    have "waiting r' = mput (Token m) b' (waiting r1)"
      using upsert_registers [OF Some b_def False rc2 q_def [unfolded p0_def] f refl] assms(1) w2 by (auto split: if_splits)
    then obtain b1 i where b1: "(tok, b1) \<in> set (mput (Token m) b' (waiting r1))" "(i, p) \<in> set b1"
      using assms(2) by (auto simp: held_def)
    have old: "held r tok x" if "(tok, y) \<in> set (waiting r1)" "(j, x) \<in> set y" for x y j
      by (rule open_bucket_held [OF Some]) (rule heldI [OF that])
    from set_mput_cases [OF b1(1)] show ?thesis
    proof
      assume "(tok, b1) \<in> set (waiting r1)"
      then show ?thesis using b1(2) old by blast
    next
      assume e: "(tok, b1) = (Token m, b')"
      then have "(i, p) \<in> set (mput (ID m) q b)" using b1(2) find_partner_bucket [OF f] by auto
      moreover have inb: "(tok, b) \<in> set (waiting r1)" if "b \<noteq> []"
        using that e by (auto simp: b_def split: option.splits dest: mget_in_set)
      ultimately have "held r tok p \<or> p = q"
        using old by (metis Pair_inject empty_iff list.set(1) set_mput_cases)
      moreover have "hp_id p0 = ID m \<and> (cands p0 = [] \<and> hp_name p0 = [] \<or> held r tok p0)"
      proof (cases "mget b (ID m)")
        case None
        then show ?thesis by (simp add: p0_def)
      next
        case (Some x)
        then have x: "(ID m, x) \<in> set b" "p0 = x" by (simp_all add: p0_def mget_in_set)
        then have "b \<noteq> []" by auto
        then have "(tok, b) \<in> set (waiting r1)" by (rule inb)
        moreover have "reg_inv r1" using open_bucket_inv [OF \<open>open_bucket it (Token m) r = Some r1\<close> assms(3)] by blast
        ultimately show ?thesis using x old by (fastforce simp: reg_inv_def bucket_ok_def peer_ok_def)
      qed
      ultimately show ?thesis using e by (auto simp: q_def)
    qed
  qed
qed

subsection \<open>Through the handler\<close>

lemma authorize_ok:
  assumes "authorize C B now src m s = (True, s')"
  shows "approved_by s now m \<and> hreg s' = hreg s"
  using assms by (auto simp: authorize_def approved_by_def count_replay_def Let_def split: option.splits if_splits prod.splits)

lemma authorize_reg: "hreg (snd (authorize C B now src m s)) = hreg s"
  by (simp add: authorize_def count_replay_def Let_def case_prod_unfold split: option.split)

lemma deriveVIP_Inr:
  assumes "deriveVIP C m = Inr m'" and "PubKey m \<noteq> []"
  shows "derived_vip C (PubKey m') (VirtualIP m') \<and> (\<exists>v. m' = m\<lparr>VirtualIP := v\<rparr>)"
  using assms by (auto simp: deriveVIP_def derived_vip_def Let_def split: option.splits if_splits)

lemma verify_key: "verifyRegistration J C now skew m \<Longrightarrow> PubKey m \<noteq> []"
proof -
  have "b64std_decode [] = Some []" by code_simp
  then show "verifyRegistration J C now skew m \<Longrightarrow> PubKey m \<noteq> []"
    by (auto simp: verifyRegistration_def PublicKeySize_def Let_def split: if_splits)
qed

text \<open>The registry changes only by a registration that passed every check, and then by one
  \<^const>\<open>upsert\<close> with the derived address.\<close>

lemma pairRegister_reg:
  obtains (same) "hreg (snd (pairRegister J C B it now ep src m s)) = hreg s" "\<forall>ps. fst (pairRegister J C B it now ep src m s) \<noteq> Some ps"
  | (upsert) m' res r' c c' where "verifyRegistration J C now regSkew m" "approved_by s now m"
      "derived_vip C (PubKey m') (VirtualIP m')" "\<exists>v. m' = m\<lparr>VirtualIP := v\<rparr>"
      "upsert it now m' src (hreg s, c) = (res, r', c')"
      "waiting (hreg (snd (pairRegister J C B it now ep src m s))) = waiting r'"
      "\<And>r. r = hreg (snd (pairRegister J C B it now ep src m s)) \<Longrightarrow> r = r' \<or> r = snd (notePaired (Token m') r')"
      "\<And>ps. fst (pairRegister J C B it now ep src m s) = Some ps \<Longrightarrow>
         \<exists>self q. res = Some (self, q) \<and> ps = (case q of None \<Rightarrow> [] | Some p \<Rightarrow> [asProtocolPeer ep p])"
proof (cases "verifyRegistration J C now regSkew m")
  case False
  then show ?thesis by (intro same) (simp_all add: pairRegister_def)
next
  case v: True
  obtain ok s1 where a: "authorize C B now src m s = (ok, s1)" by fastforce
  have r1: "hreg s1 = hreg s" using authorize_reg [of C B now src m s] a by simp
  show ?thesis
  proof (cases ok)
    case False
    then show ?thesis using v a r1 by (intro same) (simp_all add: pairRegister_def)
  next
    case True
    then have ap: "approved_by s now m" using authorize_ok a by simp
    show ?thesis
    proof (cases "deriveVIP C m")
      case (Inl counted)
      then show ?thesis using v a True r1 by (intro same) (simp_all add: pairRegister_def count_dropped_def)
    next
      case (Inr m')
      obtain res r' c' where u: "upsert it now m' src (hreg s, stats s1) = (res, r', c')" by (metis prod.collapse)
      note d = deriveVIP_Inr [OF Inr verify_key [OF v]]
      have tok: "Token m' = Token m" using d by auto
      show ?thesis
      proof (rule upsert [OF v ap d [THEN conjunct1] d [THEN conjunct2] u])
        show "waiting (hreg (snd (pairRegister J C B it now ep src m s))) = waiting r'"
          using v a True Inr u r1 by (simp add: pairRegister_def count_dropped_def Let_def split: option.split prod.split)
        show "r = r' \<or> r = snd (notePaired (Token m') r')" if "r = hreg (snd (pairRegister J C B it now ep src m s))" for r
          using that v a True Inr u r1 by (auto simp: pairRegister_def count_dropped_def Let_def split: option.splits prod.splits)
        show "\<exists>self q. res = Some (self, q) \<and> ps = (case q of None \<Rightarrow> [] | Some p \<Rightarrow> [asProtocolPeer ep p])"
          if "fst (pairRegister J C B it now ep src m s) = Some ps" for ps
          using that v a True Inr u r1 by (auto simp: pairRegister_def count_dropped_def Let_def split: option.splits prod.splits)
      qed
    qed
  qed
qed

lemma find_partner_Some:
  "find_partner now d self b = (Some p, b') \<Longrightarrow> \<exists>i. (i, p) \<in> set b \<and> i \<noteq> self \<and> now - hp_seen p \<le> d"
  by (induction now d self b arbitrary: b' rule: find_partner.induct) (auto split: prod.splits if_splits)

lemma upsert_partner:
  assumes "upsert it now m src (r, c) = (Some (self, Some p), r', c')" and "reg_inv r"
  shows "held r (Token m) p \<and> hp_id p \<noteq> ID m \<and> now - hp_seen p \<le> hs_ttl r"
proof -
  obtain r1 where r1: "open_bucket it (Token m) r = Some r1"
    using assms(1) by (auto simp: upsert_def split: option.splits)
  note i1 = open_bucket_inv [OF r1 assms(2)]
  define b where "b = (case mget (waiting r1) (Token m) of None \<Rightarrow> [] | Some b \<Rightarrow> b)"
  have nf: "\<not> (mget b (ID m) = None \<and> length b \<ge> maxIDsPerToken)"
    using assms(1) by (auto simp: upsert_def r1 b_def)
  obtain r2 c2 where rc2: "(if PubKey m \<noteq> [] then track_key m (r1, c) else (r1, c)) = (r2, c2)" by fastforce
  then have w2: "hs_ttl r2 = hs_ttl r1" by (auto simp: track_key_def Let_def split: if_splits)
  define q where "q = refresh now m src (case mget b (ID m) of Some p \<Rightarrow> p
     | None \<Rightarrow> \<lparr>hp_id = ID m, hp_pubkey = [], hp_virtualIP = [], hp_name = [], cands = [], hp_seen = now\<rparr>)"
  obtain w b' where f: "find_partner now (hs_ttl r2) (ID m) (mput (ID m) q b) = (w, b')" by fastforce
  have "w = Some p" using upsert_registers [OF r1 b_def nf rc2 q_def f refl] assms(1) by simp
  with f find_partner_Some obtain i where
    i: "(i, p) \<in> set (mput (ID m) q b)" "i \<noteq> ID m" "now - hp_seen p \<le> hs_ttl r2" by blast
  then have ib: "(i, p) \<in> set b" using set_mput_cases by fastforce
  then have "(Token m, b) \<in> set (waiting r1)" by (auto simp: b_def split: option.splits dest: mget_in_set)
  moreover from this have "peer_ok (i, p)" using i1 ib by (fastforce simp: reg_inv_def bucket_ok_def)
  ultimately show ?thesis
    using open_bucket_held [OF r1] heldI [OF _ ib] i(2,3) i1 w2 by (auto simp: peer_ok_def)
qed

lemma admit_frame: "hreg (snd (admit_request J B cfg now src key pl s)) = hreg s"
  "hauthz (snd (admit_request J B cfg now src key pl s)) = hauthz s"
  by (simp_all add: admit_request_def count_dropped_def Let_def case_prod_unfold split: option.split)

lemma admit_Inr:
  assumes "admit_request J B cfg now src key pl s = (Inr m, s1)"
  shows "cidrAllowed (hallowed cfg) (IP src) \<and> (\<exists>m0. parseRegister J pl = Some m0 \<and> registrationMatchesTLSKey m0 key \<and>
     Ver m0 = Version \<and> requireV7Fields m0 \<and> resolveToken B m0 = Some m)"
  using assms by (auto simp: admit_request_def Let_def split: if_splits option.splits prod.splits)

lemma issueTicket_reg: "snd (issueTicket J C priv now rnd rid m partner r) = r \<or>
   snd (issueTicket J C priv now rnd rid m partner r) = snd (sidFor (fst rnd) (Token m) r)"
  by (simp add: issueTicket_def Let_def case_prod_unfold split: option.split prod.split)

lemma approved_by_cong: "hauthz s = hauthz s' \<Longrightarrow> approved_by s now m = approved_by s' now m"
  by (simp add: approved_by_def)

text \<open>The registry after a request: as before, or one \<^const>\<open>upsert\<close> of a message the request
  vouches for, up to latches.\<close>

lemma control_reg:
  obtains (same) "hreg (snd (handleControlReq J C B cfg it now rnd src key pl s)) = hreg s"
  | (upsert) m m' res r' c c' where "vouches J C B cfg (Control it now rnd src key pl, s) m src" "PubKey m \<noteq> []"
      "derived_vip C (PubKey m') (VirtualIP m')" "\<exists>v. m' = m\<lparr>VirtualIP := v\<rparr>"
      "upsert it now m' src (hreg s, c) = (res, r', c')"
      "waiting (hreg (snd (handleControlReq J C B cfg it now rnd src key pl s))) = waiting r'"
      "reg_inv r' \<Longrightarrow> reg_inv (hreg (snd (handleControlReq J C B cfg it now rnd src key pl s)))"
proof -
  obtain x s1 where a: "admit_request J B cfg now src key pl s = (x, s1)" by fastforce
  have r1: "hreg s1 = hreg s" "hauthz s1 = hauthz s" using admit_frame [of J B cfg now src key pl s] a by simp_all
  show ?thesis
  proof (cases x)
    case (Inl acts)
    then show ?thesis using a r1 by (intro same) (simp add: handleControlReq_def)
  next
    case (Inr m)
    let ?p = "pairRegister J C B it now (adv_endpoint (hadvert cfg)) src m s1"
    obtain ps s2 where p: "?p = (ps, s2)" by fastforce
    have h: "hreg (snd (handleControlReq J C B cfg it now rnd src key pl s)) = hreg (snd ?p) \<or>
        hreg (snd (handleControlReq J C B cfg it now rnd src key pl s)) = snd (sidFor (fst rnd) (Token m) (hreg (snd ?p)))"
      "fst ?p = None \<Longrightarrow> hreg (snd (handleControlReq J C B cfg it now rnd src key pl s)) = hreg (snd ?p)"
      using a Inr p issueTicket_reg [of J C "hpriv cfg" now rnd "adv_rid (hadvert cfg)" m "hd (the ps)" "hreg s2"]
      by (cases ps; cases "the ps"; simp add: handleControlReq_def case_prod_unfold Let_def)+
    show ?thesis
    proof (cases rule: pairRegister_reg [of J C B it now "adv_endpoint (hadvert cfg)" src m s1])
      case same': same
      then show ?thesis using h(2) r1 by (intro same) simp
    next
      case (upsert m' res r' c c')
      have v: "vouches J C B cfg (Control it now rnd src key pl, s) m src"
        using admit_Inr [of J B cfg now src key pl s m s1] a Inr upsert(1,2) approved_by_cong [OF r1(2)] by (auto simp: verifyRegistration_iff)
      show ?thesis
      proof (rule that(2) [OF v verify_key [OF upsert(1)] upsert(3,4) upsert(5) [unfolded r1]])
        show "waiting (hreg (snd (handleControlReq J C B cfg it now rnd src key pl s))) = waiting r'"
          using h(1) upsert(6) by auto
        show "reg_inv (hreg (snd (handleControlReq J C B cfg it now rnd src key pl s)))" if "reg_inv r'"
          using h(1) upsert(7) [OF refl] that notePaired_inv sidFor_inv by metis
      qed
    qed
  qed
qed

lemma refresh_backed:
  assumes "vouches J C B cfg x m src" and "PubKey m \<noteq> []" and "derived_vip C (PubKey m') (VirtualIP m')"
    and "m' = m\<lparr>VirtualIP := v\<rparr>" and "hp_id p0 = ID m'"
    and "cands p0 = [] \<and> hp_name p0 = [] \<or> backed J C B cfg tr (Token m) p0"
  shows "backed J C B cfg (tr @ [x]) (Token m) (refresh now m' src p0)"
proof -
  have f: "PubKey m' = PubKey m" "ID m' = ID m" "Token m' = Token m" by (simp_all add: assms(4))
  have "VirtualIP m' \<noteq> []"
  proof -
    obtain pub where "VirtualIP m' = VirtualIPString C pub" using assms(3) by (auto simp: derived_vip_def)
    moreover have "itoa n \<noteq> []" for n by (subst itoa.simps) simp
    ultimately show ?thesis by (auto simp: VirtualIPString_def dotted_def VirtualIP_of_def Let_def)
  qed
  then have k: "hp_pubkey (refresh now m' src p0) = PubKey m" "hp_virtualIP (refresh now m' src p0) = VirtualIP m'"
    using assms(2) f by simp_all
  have "\<exists>y \<in> set (tr @ [x]). \<exists>n from. vouches J C B cfg y n from \<and> Token n = Token m \<and> ID n = ID m \<and> Addr c = UDPAddr_String from"
    if "c \<in> set (candidates (refresh now m' src p0))" for c
  proof -
    from that obtain e where e: "e \<in> set (cands (refresh now m' src p0))" "c = snd e" by auto
    from refresh_cands [OF e(1)] show ?thesis
    proof
      assume "e \<in> set (cands p0)"
      then show ?thesis using assms(5,6) e(2) f unfolding backed_def by (fastforce simp: candidates_set)
    next
      assume "Addr (snd e) = UDPAddr_String src"
      then show ?thesis using assms(1) e(2) by auto
    qed
  qed
  moreover have "hp_name (refresh now m' src p0) \<noteq> [] \<longrightarrow> ValidName (hp_name (refresh now m' src p0))"
    using assms(6) by (auto simp: backed_def)
  ultimately show ?thesis
    unfolding backed_def k refresh_frame(1) using assms(1,3,5) f by auto
qed

definition reg_backed :: "json \<Rightarrow> crypto \<Rightarrow> box_open \<Rightarrow> hs_config \<Rightarrow> (hs_event \<times> hs) list \<Rightarrow> hsRegistry \<Rightarrow> bool" where
  "reg_backed J C B cfg tr r \<longleftrightarrow> reg_inv r \<and> (\<forall>tok p. held r tok p \<longrightarrow> backed J C B cfg tr tok p)"

lemma held_cong: "waiting r = waiting r' \<Longrightarrow> held r tok p = held r' tok p"
  by (simp add: held_def)

lemma reg_backed_step:
  assumes "reg_backed J C B cfg tr (hreg s)"
  shows "reg_backed J C B cfg (tr @ [(e, s)]) (hreg (hs_step J C B cfg e s))"
proof -
  have mono: "backed J C B cfg (tr @ [(e, s)]) tok p" if "held (hreg s) tok p" for tok p
    using assms that backed_mono [of J C B cfg tr tok p "tr @ [(e, s)]"] by (auto simp: reg_backed_def)
  have i: "reg_inv (hreg s)" using assms by (simp add: reg_backed_def)
  show ?thesis
  proof (cases e)
    case (Control it now rnd src key pl)
    show ?thesis
    proof (cases rule: control_reg [of J C B cfg it now rnd src key pl s])
      case same
      then show ?thesis using i mono Control by (simp add: reg_backed_def)
    next
      case (upsert m m' res r' c c')
      have "reg_inv r'" using upsert_inv [of "(hreg s, c)" it now m' src] i upsert(5) by simp
      then have "reg_inv (hreg (hs_step J C B cfg e s))" using upsert(7) Control by simp
      moreover have "backed J C B cfg (tr @ [(e, s)]) tok p" if "held (hreg (hs_step J C B cfg e s)) tok p" for tok p
      proof -
        have "held r' tok p" using that held_cong upsert(6) Control by (simp add: held_def)
        from upsert_held [OF upsert(5) this i] show ?thesis
        proof
          assume "tok = Token m' \<and> (\<exists>p0. p = refresh now m' src p0 \<and> hp_id p0 = ID m' \<and>
            (cands p0 = [] \<and> hp_name p0 = [] \<or> held (hreg s) tok p0))"
          then show ?thesis
            using refresh_backed [OF upsert(1) [folded Control] upsert(2,3), of _ _ tr now] upsert(4) assms
            by (fastforce simp: reg_backed_def)
        qed (rule mono)
      qed
      ultimately show ?thesis by (simp add: reg_backed_def)
    qed
  next
    case (HReap now)
    then show ?thesis using reap_pass_inv [OF i] mono reap_held by (auto simp: reg_backed_def)
  qed (use i mono in \<open>simp_all add: reg_backed_def stats_tick_def\<close>)
qed

lemma trace_snoc:
  "trace J C B cfg (es @ [e]) s = trace J C B cfg es s @ [(e, fold (hs_step J C B cfg) es s)]"
  by (induction es arbitrary: s) simp_all

lemma run_backed: "reg_backed J C B cfg [] (hreg s) \<Longrightarrow>
   reg_backed J C B cfg (trace J C B cfg es s) (hreg (fold (hs_step J C B cfg) es s))"
  by (induction es rule: rev_induct) (simp_all add: trace_snoc reg_backed_step)

lemma start_reg: "start_server d af ep ri priv nets now = Some (cfg, s) \<Longrightarrow> \<exists>d. hreg s = newHSRegistry d"
  by (auto simp: start_server_def split: sum.splits option.splits)

text \<open>C3: every roster entry the server signs is backed by proofs. In any run of the server, what
  it tells a buddy about its partner comes from registrations of that token and id: the
  key was proved by a fresh signature over a connection authenticated with the same key,
  the virtual address is the one derived from that key, a name is a valid label, and each
  endpoint is the source of such a registration. In approval mode each of them was made
  by an approved key, after its approval, and was not a replay.\<close>

theorem roster_backed:
  assumes "start_server d af ep ri priv nets now0 = Some (cfg, s0)"
    and "pairRegister J C B it now relay src m (fold (hs_step J C B cfg) es s0) = (Some (pp # ps), s')"
  shows "ps = [] \<and> (\<exists>p. pp = asProtocolPeer relay p \<and> hp_id p \<noteq> ID m \<and>
    backed J C B cfg (trace J C B cfg es s0) (Token m) p)"
proof -
  let ?s = "fold (hs_step J C B cfg) es s0"
  obtain d' where "hreg s0 = newHSRegistry d'" using start_reg [OF assms(1)] by blast
  then have "reg_backed J C B cfg [] (hreg s0)"
    using new_reg_inv by (simp add: reg_backed_def held_def newHSRegistry_def)
  then have rb: "reg_backed J C B cfg (trace J C B cfg es s0) (hreg ?s)" by (rule run_backed)
  show ?thesis
  proof (cases rule: pairRegister_reg [of J C B it now relay src m ?s])
    case same
    then show ?thesis using assms(2) by simp
  next
    case (upsert m' res r' c c')
    from upsert(8) assms(2) obtain self p where p: "res = Some (self, Some p)" "pp = asProtocolPeer relay p" "ps = []"
      by (fastforce split: option.splits)
    have "Token m' = Token m" "ID m' = ID m" using upsert(4) by auto
    with upsert_partner [of it now m' src "hreg ?s" c self p r' c'] upsert(5) p rb show ?thesis
      by (auto simp: reg_backed_def)
  qed
qed

end
