(* ===== verification/Register.thy ===== *)
theory Register
  imports Handshake
begin

text \<open>
  The buddy's side of the control plane: \<^verbatim>\<open>internal/role/register.go\<close> (building a signed
  registration, judging the server's reply, the polling loop) and \<^verbatim>\<open>relaycred.go\<close> (the
  throwaway key of a relay session and the ticket issued against it).

  Dialing and the QUIC round trip are inputs: an address answers or not, a poll meets no
  answer or some bytes. The list of polls is finite because the context of the call has a
  deadline.
\<close>

section \<open>Building a registration\<close>

record node =
  nd_priv :: bytes
  nd_pub :: bytes
  nd_id :: bytes
  nd_vip :: bytes
  nd_serverPub :: bytes

record buddy_config =
  cfg_Name :: bytes
  cfg_Code :: bytes

text \<open>What one attempt draws: the nonce, and for each sealed field the key pair and the nonce of
  the box.\<close>

record attempt =
  at_nonce :: "bytes option"
  at_code :: "(bytes \<times> bytes) \<times> bytes"
  at_token :: "(bytes \<times> bytes) \<times> bytes"

datatype build_error = NonceFailed | CodeSealFailed | TokenSealFailed

definition setToken :: "curves \<Rightarrow> (bytes \<times> bytes) \<times> bytes \<Rightarrow> bytes \<Rightarrow> bytes \<Rightarrow> message \<Rightarrow> build_error + message" where
  "setToken X box rendezvous serverPub m =
     (case SealCode X (fst box) (snd box) rendezvous serverPub of
        None \<Rightarrow> Inl TokenSealFailed
      | Some enc \<Rightarrow> Inr (m\<lparr>TokenEnc := enc, Token := []\<rparr>))"

definition register_message :: "time \<Rightarrow> buddy_config \<Rightarrow> node \<Rightarrow> bytes \<Rightarrow> bytes \<Rightarrow> bytes \<Rightarrow> message" where
  "register_message now cfg nd rendezvous epk nonce =
     zero_message\<lparr>Type := TypeRegister, Ver := Version, Role := RoleBuddy, Token := rendezvous, ID := nd_id nd,
       PubKey := nd_pub nd, VirtualIP := nd_vip nd, Name := cfg_Name cfg, Ts := unix_seconds now, RegNonce := nonce,
       RegEphPub := epk\<rparr>"

definition buildRegister ::
  "json \<Rightarrow> crypto \<Rightarrow> curves \<Rightarrow> attempt \<Rightarrow> time \<Rightarrow> buddy_config \<Rightarrow> node \<Rightarrow> bytes \<Rightarrow> bytes \<Rightarrow> build_error + bytes" where
  "buildRegister J C X a now cfg nd rendezvous epk =
     (case at_nonce a of
        None \<Rightarrow> Inl NonceFailed
      | Some rnd \<Rightarrow>
          (let m = register_message now cfg nd rendezvous epk (NewNonce rnd) in
           case (if cfg_Code cfg = [] then Inr m
                 else case SealCode X (fst (at_code a)) (snd (at_code a)) (cfg_Code cfg) (nd_serverPub nd) of
                   None \<Rightarrow> Inl CodeSealFailed
                 | Some enc \<Rightarrow> Inr (m\<lparr>CodeEnc := enc\<rparr>)) of
             Inl e \<Rightarrow> Inl e
           | Inr m \<Rightarrow>
               (let m = m\<lparr>RegSig := b64std_encode (ed_sign C (nd_priv nd) (RegistrationPayload J m))\<rparr> in
                case setToken X (at_token a) rendezvous (nd_serverPub nd) m of
                  Inl e \<Rightarrow> Inl e
                | Inr m \<Rightarrow> Inr (MarshalMessage J m))))"

section \<open>Relay credentials\<close>

record relayCred =
  rc_priv :: bytes
  rc_pub :: bytes
  rc_payload :: bytes
  rc_sig :: bytes
  rc_sid :: bytes

definition newRelayCred :: "crypto \<Rightarrow> bytes option \<Rightarrow> relayCred option" where
  "newRelayCred C rnd =
     map_option (\<lambda>priv. \<lparr>rc_priv = priv, rc_pub = b64url_encode (ed_public C priv), rc_payload = [], rc_sig = [],
       rc_sid = []\<rparr>) rnd"

datatype adopt_error = NoTicketGiven | PayloadEncoding | SigMalformed | TicketMalformed reason | OtherKey

definition adopt :: "json \<Rightarrow> relayTicket option \<Rightarrow> relayCred option \<Rightarrow> adopt_error + relayCred" where
  "adopt J rt c =
     (case (c, rt) of
        (Some c, Some rt) \<Rightarrow>
          (case b64url_decode (rtPayload rt) of
             None \<Rightarrow> Inl PayloadEncoding
           | Some payload \<Rightarrow>
               (case b64url_decode (rtSig rt) of
                  None \<Rightarrow> Inl SigMalformed
                | Some sig \<Rightarrow>
                    (if length sig \<noteq> SignatureSize then Inl SigMalformed
                     else case Parse J payload of
                       Inl e \<Rightarrow> Inl (TicketMalformed e)
                     | Inr p \<Rightarrow>
                         (if EPK p \<noteq> rc_pub c then Inl OtherKey
                          else Inr (c\<lparr>rc_payload := payload, rc_sig := sig, rc_sid := SID p\<rparr>)))))
      | _ \<Rightarrow> Inl NoTicketGiven)"

definition have_ticket :: "relayCred option \<Rightarrow> bool" where
  "have_ticket c = (case c of None \<Rightarrow> False | Some c \<Rightarrow> rc_sid c \<noteq> [])"

definition bindCred :: "relayCred option \<Rightarrow> bind_cred option" where
  "bindCred c =
     (case c of
        None \<Rightarrow> None
      | Some x \<Rightarrow> if \<not> have_ticket c then None
          else Some \<lparr>CredPayload = rc_payload x, CredSig = rc_sig x, CredEph = rc_priv x\<rparr>)"

definition cred_session :: "relayCred option \<Rightarrow> bytes \<Rightarrow> bytes" where
  "cred_session c derived = (case c of Some x \<Rightarrow> if have_ticket c then rc_sid x else derived | None \<Rightarrow> derived)"

definition cred_epk :: "relayCred option \<Rightarrow> bytes" where
  "cred_epk c = (case c of None \<Rightarrow> [] | Some x \<Rightarrow> rc_pub x)"

section \<open>Judging a reply\<close>

text \<open>Both sorts order by a key; elements with equal keys, which an honest server never sends,
  keep their order here.\<close>

definition canonicalPeers :: "peer list \<Rightarrow> peer list" where
  "canonicalPeers ps = sort_key pID (map (\<lambda>p. p\<lparr>Candidates := sort_key Addr (Candidates p)\<rparr>) ps)"

definition maxRosterCands :: nat where "maxRosterCands = maxCandsPerPeer"

datatype roster_error = BadID | BadName | TooManyCands | NotLiteral | NotUnicast | RelayTooLong

definition check_candidate :: "candidate \<Rightarrow> roster_error option" where
  "check_candidate c =
     (case ParseAddrPort (Addr c) of
        None \<Rightarrow> Some NotLiteral
      | Some (ap, port) \<Rightarrow>
          (let a = addr_Unmap ap in if port = 0 \<or> IsUnspecified a \<or> IsMulticast a then Some NotUnicast else None))"

fun check_candidates :: "candidate list \<Rightarrow> roster_error option" where
  "check_candidates [] = None"
| "check_candidates (c # cs) = (case check_candidate c of Some e \<Rightarrow> Some e | None \<Rightarrow> check_candidates cs)"

definition checkRosterPeer :: "peer \<Rightarrow> roster_error option" where
  "checkRosterPeer p =
     (if \<not> validField (pID p) then Some BadID
      else if pName p \<noteq> [] \<and> \<not> ValidName (pName p) then Some BadName
      else if length (Candidates p) > maxRosterCands then Some TooManyCands
      else case check_candidates (Candidates p) of
        Some e \<Rightarrow> Some e
      | None \<Rightarrow> if length (pRelay p) > MaxFieldLen then Some RelayTooLong else None)"

text \<open>What one poll leads to: try again, with the latch of the clock note, or an end of the
  loop.\<close>

datatype poll_result =
    Again bool
  | Incompatible int
  | BadSignature
  | BadRoster roster_error
  | Partner peer "relayTicket option"

definition rosterSkew :: duration where "rosterSkew = 60 * second"

definition judge_reply :: "json \<Rightarrow> crypto \<Rightarrow> bytes \<Rightarrow> bytes \<Rightarrow> time \<Rightarrow> bytes option \<Rightarrow> bool \<Rightarrow> poll_result" where
  "judge_reply J C serverPub rendezvous now resp noted =
     (case resp of
        None \<Rightarrow> Again noted
      | Some raw \<Rightarrow>
          (case UnmarshalMessage J raw of
             None \<Rightarrow> Again noted
           | Some r \<Rightarrow>
               (if Type r \<noteq> TypePeerList then Again noted
                else if Ver r \<noteq> Version then Incompatible (Ver r)
                else let peers = canonicalPeers (Peers r) in
                  case b64std_decode (Sig r) of
                    None \<Rightarrow> BadSignature
                  | Some sig \<Rightarrow>
                      (if \<not> ed_verify C serverPub (PeerListPayload J rendezvous (Ts r) peers) sig then BadSignature
                       else let d = now - Ts r * second; fresh = (d \<le> rosterSkew \<and> d \<ge> - rosterSkew) in
                         case peers of
                           p # _ \<Rightarrow>
                             (if fresh then (case checkRosterPeer p of Some e \<Rightarrow> BadRoster e | None \<Rightarrow> Partner p (RTicket r))
                              else Again True)
                         | [] \<Rightarrow> Again (noted \<or> \<not> fresh)))))"

datatype register_error =
    DialFailed
  | BuildFailed build_error
  | ServerIncompatible int
  | SignatureFailed
  | InvalidRoster roster_error
  | TimedOut

text \<open>One turn of the polling loop: what building the registration draws and when, and the answer
  with the moment it is judged.\<close>

record turn =
  tu_attempt :: attempt
  tu_built :: time
  tu_resp :: "bytes option"
  tu_judged :: time

fun poll_loop ::
  "json \<Rightarrow> crypto \<Rightarrow> curves \<Rightarrow> buddy_config \<Rightarrow> node \<Rightarrow> bytes \<Rightarrow> bytes \<Rightarrow> turn list \<Rightarrow> bool \<Rightarrow>
   register_error + peer \<times> relayTicket option" where
  "poll_loop J C X cfg nd rendezvous epk [] noted = Inl TimedOut"
| "poll_loop J C X cfg nd rendezvous epk (u # turns) noted =
     (case buildRegister J C X (tu_attempt u) (tu_built u) cfg nd rendezvous epk of
        Inl e \<Rightarrow> Inl (BuildFailed e)
      | Inr reg \<Rightarrow>
          (case judge_reply J C (nd_serverPub nd) rendezvous (tu_judged u) (tu_resp u) noted of
             Again noted \<Rightarrow> poll_loop J C X cfg nd rendezvous epk turns noted
           | Incompatible v \<Rightarrow> Inl (ServerIncompatible v)
           | BadSignature \<Rightarrow> Inl SignatureFailed
           | BadRoster e \<Rightarrow> Inl (InvalidRoster e)
           | Partner p t \<Rightarrow> Inr (p, t)))"

text \<open>The addresses of the server are dialled in order until one answers; \<open>dials\<close> says which
  would. The turns are those that fit before the deadline.\<close>

definition buddyRegister ::
  "json \<Rightarrow> crypto \<Rightarrow> curves \<Rightarrow> bool list \<Rightarrow> buddy_config \<Rightarrow> node \<Rightarrow> bytes \<Rightarrow> relayCred option \<Rightarrow> turn list \<Rightarrow>
   register_error + peer \<times> relayTicket option" where
  "buddyRegister J C X dials cfg nd rendezvous cred turns =
     (if True \<notin> set dials then Inl DialFailed
      else poll_loop J C X cfg nd rendezvous (cred_epk cred) turns False)"

end
