(* ===== verification/ProtocolProps.thy ===== *)
theory ProtocolProps
  imports Protocol
begin

text \<open>
  Round trips of the control-plane messages: decoding what was encoded gives the message
  back, member by member and through the nested rosters. The token, which is not
  serialised, comes back empty.
\<close>

section \<open>Filling structs\<close>

lemma fill_append:
  "fill st names (xs @ ys) r = (case fill st names xs r of None \<Rightarrow> None | Some r' \<Rightarrow> fill st names ys r')"
  by (induction st names xs r rule: fill.induct) (simp_all split: option.split)

lemma fill_one: "k \<in> set names \<Longrightarrow> fill st names [(k, v)] r = st k v r"
  by (simp add: field_index_def split: option.split)

lemma fill_Cons: "k \<in> set names \<Longrightarrow>
   fill st names ((k, v) # ms) r = (case st k v r of None \<Rightarrow> None | Some r' \<Rightarrow> fill st names ms r')"
  by (simp add: field_index_def)

text \<open>An optional member leaves the zero value alone.\<close>

lemma fill_opt_member:
  assumes "k \<in> set names" and "st k (JString v) r = Some (u v r)" and "v = [] \<Longrightarrow> u v r = r"
  shows "fill st names (opt_member k v) r = Some (u v r)"
  using assms by (simp add: opt_member_def fill_one del: fill.simps(2))

lemma fill_opt_int:
  assumes "k \<in> set names" and "st k (JInt i) r = Some (u i r)" and "i = 0 \<Longrightarrow> u i r = r"
  shows "fill st names (opt_int k i) r = Some (u i r)"
  using assms by (simp add: opt_int_def fill_one del: fill.simps(2))

lemma fill_elems_map:
  assumes "\<And>x. x \<in> set xs \<Longrightarrow> dec (enc x) z = Some x"
  shows "fill_elems dec z (map enc xs) [] = Some xs"
  using assms by (induction xs) simp_all

section \<open>Rosters\<close>

lemma candidate_roundtrip: "decode_candidate (candidate_value c) zero_candidate = Some c"
  by (simp add: decode_candidate_def candidate_value_def fill_object_def fill_Cons set_candidate_def str_member_def
      bool_member_def zero_candidate_def del: fill.simps(2))

lemma set_peer_field_simps:
  "set_peer_field ''id'' (JString x) p = Some (p\<lparr>pID := x\<rparr>)"
  "set_peer_field ''pubkey'' (JString x) p = Some (p\<lparr>pPubKey := x\<rparr>)"
  "set_peer_field ''virtual_ip'' (JString x) p = Some (p\<lparr>pVirtualIP := x\<rparr>)"
  "set_peer_field ''name'' (JString x) p = Some (p\<lparr>pName := x\<rparr>)"
  "set_peer_field ''relay'' (JString x) p = Some (p\<lparr>pRelay := x\<rparr>)"
  "int64 i \<Longrightarrow> set_peer_field ''last_seen'' (JInt i) p = Some (p\<lparr>LastSeen := i\<rparr>)"
  "Candidates p = [] \<Longrightarrow> set_peer_field ''candidates'' (JArray (map candidate_value cs)) p = Some (p\<lparr>Candidates := cs\<rparr>)"
  by (simp_all add: set_peer_field_def str_member_def int_member_def fill_array_def fill_elems_map candidate_roundtrip)

lemma peer_roundtrip:
  assumes "int64 (LastSeen p)"
  shows "decode_peer (peer_value p) zero_peer = Some p"
proof -
  let ?ns = "[''id'', ''pubkey'', ''virtual_ip'', ''name'', ''candidates'', ''relay'', ''last_seen'']"
  let ?p0 = "zero_peer\<lparr>pID := pID p, pPubKey := pPubKey p, pVirtualIP := pVirtualIP p\<rparr>"
  have n: "fill set_peer_field ?ns (opt_member ''name'' (pName p)) ?p0 = Some (?p0\<lparr>pName := pName p\<rparr>)"
    by (rule fill_opt_member [where u = "\<lambda>v r. r\<lparr>pName := v\<rparr>"]) (simp_all add: set_peer_field_simps zero_peer_def)
  let ?p1 = "?p0\<lparr>pName := pName p\<rparr>"
  have c: "fill set_peer_field ?ns (if Candidates p = [] then [] else [(''candidates'', JArray (map candidate_value (Candidates p)))]) ?p1 =
      Some (?p1\<lparr>Candidates := Candidates p\<rparr>)"
    by (simp add: fill_one set_peer_field_simps zero_peer_def del: fill.simps(2))
  let ?p2 = "?p1\<lparr>Candidates := Candidates p\<rparr>"
  have r: "fill set_peer_field ?ns (opt_member ''relay'' (pRelay p)) ?p2 = Some (?p2\<lparr>pRelay := pRelay p\<rparr>)"
    by (rule fill_opt_member [where u = "\<lambda>v r. r\<lparr>pRelay := v\<rparr>"]) (simp_all add: set_peer_field_simps zero_peer_def)
  let ?p3 = "?p2\<lparr>pRelay := pRelay p\<rparr>"
  have l: "fill set_peer_field ?ns (opt_int ''last_seen'' (LastSeen p)) ?p3 = Some (?p3\<lparr>LastSeen := LastSeen p\<rparr>)"
    by (rule fill_opt_int [where u = "\<lambda>v r. r\<lparr>LastSeen := v\<rparr>"]) (use assms in \<open>simp_all add: set_peer_field_simps zero_peer_def\<close>)
  have "decode_peer (peer_value p) zero_peer = Some (?p3\<lparr>LastSeen := LastSeen p\<rparr>)"
    unfolding decode_peer_def peer_value_def fill_object_def jval.case fill_append
    by (simp add: fill_Cons set_peer_field_simps n c r l del: fill.simps(2) cong: option.case_cong)
  then show ?thesis by (simp add: zero_peer_def)
qed

section \<open>Messages\<close>

lemma ticket_roundtrip: "decode_ticket (ticket_value t) None = Some (Some t)"
  by (simp add: decode_ticket_def ticket_value_def fill_Cons set_ticket_def str_member_def del: fill.simps(2))

lemma set_message_simps:
  "set_message ''type'' (JString x) m = Some (m\<lparr>Type := x\<rparr>)"
  "set_message ''token_enc'' (JString x) m = Some (m\<lparr>TokenEnc := x\<rparr>)"
  "set_message ''role'' (JString x) m = Some (m\<lparr>Role := x\<rparr>)"
  "set_message ''id'' (JString x) m = Some (m\<lparr>ID := x\<rparr>)"
  "set_message ''pubkey'' (JString x) m = Some (m\<lparr>PubKey := x\<rparr>)"
  "set_message ''virtual_ip'' (JString x) m = Some (m\<lparr>VirtualIP := x\<rparr>)"
  "set_message ''name'' (JString x) m = Some (m\<lparr>Name := x\<rparr>)"
  "set_message ''nonce'' (JString x) m = Some (m\<lparr>RegNonce := x\<rparr>)"
  "set_message ''reg_sig'' (JString x) m = Some (m\<lparr>RegSig := x\<rparr>)"
  "set_message ''code_enc'' (JString x) m = Some (m\<lparr>CodeEnc := x\<rparr>)"
  "set_message ''epk'' (JString x) m = Some (m\<lparr>RegEphPub := x\<rparr>)"
  "set_message ''sig'' (JString x) m = Some (m\<lparr>Sig := x\<rparr>)"
  "int64 i \<Longrightarrow> set_message ''ver'' (JInt i) m = Some (m\<lparr>Ver := i\<rparr>)"
  "int64 i \<Longrightarrow> set_message ''ts'' (JInt i) m = Some (m\<lparr>Ts := i\<rparr>)"
  "Peers m = [] \<Longrightarrow> \<forall>p \<in> set ps. int64 (LastSeen p) \<Longrightarrow>
     set_message ''peers'' (JArray (map peer_value ps)) m = Some (m\<lparr>Peers := ps\<rparr>)"
  "RTicket m = None \<Longrightarrow> set_message ''ticket'' (ticket_value t) m = Some (m\<lparr>RTicket := Some t\<rparr>)"
  by (simp_all add: set_message_def str_member_def int_member_def fill_array_def fill_elems_map peer_roundtrip
      ticket_roundtrip)

lemma message_opt_members:
  "TokenEnc r = [] \<Longrightarrow> fill set_message message_fields (opt_member ''token_enc'' v) r = Some (r\<lparr>TokenEnc := v\<rparr>)"
  "Role r = [] \<Longrightarrow> fill set_message message_fields (opt_member ''role'' v) r = Some (r\<lparr>Role := v\<rparr>)"
  "ID r = [] \<Longrightarrow> fill set_message message_fields (opt_member ''id'' v) r = Some (r\<lparr>ID := v\<rparr>)"
  "PubKey r = [] \<Longrightarrow> fill set_message message_fields (opt_member ''pubkey'' v) r = Some (r\<lparr>PubKey := v\<rparr>)"
  "VirtualIP r = [] \<Longrightarrow> fill set_message message_fields (opt_member ''virtual_ip'' v) r = Some (r\<lparr>VirtualIP := v\<rparr>)"
  "Name r = [] \<Longrightarrow> fill set_message message_fields (opt_member ''name'' v) r = Some (r\<lparr>Name := v\<rparr>)"
  "RegNonce r = [] \<Longrightarrow> fill set_message message_fields (opt_member ''nonce'' v) r = Some (r\<lparr>RegNonce := v\<rparr>)"
  "RegSig r = [] \<Longrightarrow> fill set_message message_fields (opt_member ''reg_sig'' v) r = Some (r\<lparr>RegSig := v\<rparr>)"
  "CodeEnc r = [] \<Longrightarrow> fill set_message message_fields (opt_member ''code_enc'' v) r = Some (r\<lparr>CodeEnc := v\<rparr>)"
  "RegEphPub r = [] \<Longrightarrow> fill set_message message_fields (opt_member ''epk'' v) r = Some (r\<lparr>RegEphPub := v\<rparr>)"
  "Sig r = [] \<Longrightarrow> fill set_message message_fields (opt_member ''sig'' v) r = Some (r\<lparr>Sig := v\<rparr>)"
  by (rule fill_opt_member; simp add: message_fields_def set_message_simps)+

lemma message_other_members:
  "Ts r = 0 \<Longrightarrow> int64 i \<Longrightarrow> fill set_message message_fields (opt_int ''ts'' i) r = Some (r\<lparr>Ts := i\<rparr>)"
  "Peers r = [] \<Longrightarrow> \<forall>p \<in> set ps. int64 (LastSeen p) \<Longrightarrow>
     fill set_message message_fields (opt_peers ps) r = Some (r\<lparr>Peers := ps\<rparr>)"
  "RTicket r = None \<Longrightarrow>
     fill set_message message_fields (opt_ticket t) r = Some (r\<lparr>RTicket := t\<rparr>)"
  "int64 i \<Longrightarrow> fill set_message message_fields [(''type'', JString x), (''ver'', JInt i)] r = Some (r\<lparr>Type := x, Ver := i\<rparr>)"
  by (auto simp: opt_int_def opt_peers_def opt_ticket_def fill_one fill_Cons message_fields_def set_message_simps simp del: fill.simps(2)
      split: option.split)

text \<open>A message whose numbers fit their fields.\<close>

definition wire_ok :: "message \<Rightarrow> bool" where
  "wire_ok m \<longleftrightarrow> int64 (Ver m) \<and> int64 (Ts m) \<and> (\<forall>p \<in> set (Peers m). int64 (LastSeen p))"

text \<open>What \<^verbatim>\<open>encoding/json\<close> promises for the members at hand: scanning what was rendered gives
  them back.\<close>

definition json_reads :: "json \<Rightarrow> (bytes \<times> jval) list \<Rightarrow> bool" where
  "json_reads J ms \<longleftrightarrow> scan J (render J ms) = Some (ms, [])"

lemma message_roundtrip:
  assumes "wire_ok m" and "json_reads J (message_members m)"
  shows "UnmarshalMessage J (MarshalMessage J m) = Some (m\<lparr>Token := []\<rparr>)"
proof -
  have "fill set_message message_fields (message_members m) zero_message =
      Some (zero_message\<lparr>Type := Type m, Ver := Ver m, TokenEnc := TokenEnc m, Role := Role m, ID := ID m, PubKey := PubKey m,
        VirtualIP := VirtualIP m, Name := Name m, Ts := Ts m, RegNonce := RegNonce m, RegSig := RegSig m,
        CodeEnc := CodeEnc m, RegEphPub := RegEphPub m, Peers := Peers m, Sig := Sig m, RTicket := RTicket m\<rparr>)"
    using assms(1) unfolding message_members_def fill_append wire_ok_def
    by (simp add: message_opt_members message_other_members zero_message_def del: fill.simps(2))
  then show ?thesis
    using assms(2) by (simp add: UnmarshalMessage_def MarshalMessage_def json_reads_def zero_message_def)
qed

interpretation wire: codec "MarshalMessage J" "UnmarshalMessage J"
  "\<lambda>m. wire_ok m \<and> json_reads J (message_members m) \<and> Token m = []"
  for J
proof
  fix m assume "wire_ok m \<and> json_reads J (message_members m) \<and> Token m = []"
  then show "UnmarshalMessage J (MarshalMessage J m) = Some m"
    using message_roundtrip [of m J] by (cases m) simp
qed

end
