(* ===== verification/Pairing.thy ===== *)
theory Pairing
  imports HandshakeProps Register ProtocolProps RelayProps
begin

text \<open>
  The buddy, the matchmaking server and the relay together: what an honest buddy sends
  passes every gate of the server, what the server answers passes every check of the
  buddy, and the tickets it issues to the two buddies of a pair bring them together at the
  relay.
\<close>

section \<open>An honest registration\<close>

text \<open>The message an attempt signs, and the one that travels.\<close>

definition code_enc :: "curves \<Rightarrow> attempt \<Rightarrow> buddy_config \<Rightarrow> node \<Rightarrow> bytes option" where
  "code_enc X a cfg nd =
     (if cfg_Code cfg = [] then Some []
      else SealCode X (fst (at_code a)) (snd (at_code a)) (cfg_Code cfg) (nd_serverPub nd))"

definition signed_message :: "json \<Rightarrow> crypto \<Rightarrow> time \<Rightarrow> buddy_config \<Rightarrow> node \<Rightarrow> bytes \<Rightarrow> bytes \<Rightarrow> bytes \<Rightarrow> bytes \<Rightarrow> message" where
  "signed_message J C now cfg nd rdv epk nonce ce =
     (let m = (register_message now cfg nd rdv epk nonce)\<lparr>CodeEnc := ce\<rparr>
      in m\<lparr>RegSig := b64std_encode (ed_sign C (nd_priv nd) (RegistrationPayload J m))\<rparr>)"

text \<open>An honest buddy: its key, address and id are its own and well formed, the clock fits a
  64-bit integer, and the primitives it uses behave as documented on what it hands them.\<close>

definition honest ::
  "json \<Rightarrow> crypto \<Rightarrow> curves \<Rightarrow> box_open \<Rightarrow> attempt \<Rightarrow> time \<Rightarrow> buddy_config \<Rightarrow> node \<Rightarrow> bytes \<Rightarrow> bytes \<Rightarrow> message \<Rightarrow> bool" where
  "honest J C X B a now cfg nd rdv epk m \<longleftrightarrow>
     nd_pub nd = PubKeyB64 (ed_public C (nd_priv nd)) \<and> nd_vip nd = VirtualIPString C (ed_public C (nd_priv nd)) \<and>
     validField (nd_id nd) \<and> validField rdv \<and> int64 (unix_seconds now) \<and>
     (\<exists>rnd ce r enc. at_nonce a = Some rnd \<and> length rnd = NonceLen \<and>
        code_enc X a cfg nd = Some ce \<and> length ce \<le> maxCodeEncLen \<and>
        m = signed_message J C now cfg nd rdv epk (NewNonce rnd) ce \<and>
        montgomery X (nd_serverPub nd) = Some r \<and> box_correct X B r (fst (at_token a)) (snd (at_token a)) rdv \<and>
        SealCode X (fst (at_token a)) (snd (at_token a)) rdv (nd_serverPub nd) = Some enc \<and>
        ed_correct C (nd_priv nd) (RegistrationPayload J m) \<and>
        json_reads J (message_members (m\<lparr>TokenEnc := enc, Token := []\<rparr>)))"

lemma RegistrationPayload_sig [simp]: "RegistrationPayload J (m\<lparr>RegSig := s\<rparr>) = RegistrationPayload J m"
  "RegistrationPayload J (m\<lparr>TokenEnc := t\<rparr>) = RegistrationPayload J m"
  by (simp_all add: RegistrationPayload_def)

lemma register_message_frame [simp]:
  "Token (register_message now cfg nd rdv epk nonce) = rdv" "ID (register_message now cfg nd rdv epk nonce) = nd_id nd"
  "PubKey (register_message now cfg nd rdv epk nonce) = nd_pub nd" "VirtualIP (register_message now cfg nd rdv epk nonce) = nd_vip nd"
  "Name (register_message now cfg nd rdv epk nonce) = cfg_Name cfg" "Ts (register_message now cfg nd rdv epk nonce) = unix_seconds now"
  "RegNonce (register_message now cfg nd rdv epk nonce) = nonce" "RegEphPub (register_message now cfg nd rdv epk nonce) = epk"
  "Type (register_message now cfg nd rdv epk nonce) = TypeRegister" "Ver (register_message now cfg nd rdv epk nonce) = Version"
  "Peers (register_message now cfg nd rdv epk nonce) = []" "TokenEnc (register_message now cfg nd rdv epk nonce) = []"
  by (simp_all add: register_message_def zero_message_def)

lemma signed_message_frame [simp]:
  "Token (signed_message J C now cfg nd rdv epk nonce ce) = rdv" "ID (signed_message J C now cfg nd rdv epk nonce ce) = nd_id nd"
  "PubKey (signed_message J C now cfg nd rdv epk nonce ce) = nd_pub nd" "VirtualIP (signed_message J C now cfg nd rdv epk nonce ce) = nd_vip nd"
  "Ts (signed_message J C now cfg nd rdv epk nonce ce) = unix_seconds now" "RegNonce (signed_message J C now cfg nd rdv epk nonce ce) = nonce"
  "Type (signed_message J C now cfg nd rdv epk nonce ce) = TypeRegister" "Ver (signed_message J C now cfg nd rdv epk nonce ce) = Version"
  "Peers (signed_message J C now cfg nd rdv epk nonce ce) = []" "TokenEnc (signed_message J C now cfg nd rdv epk nonce ce) = []"
  "CodeEnc (signed_message J C now cfg nd rdv epk nonce ce) = ce" "RegEphPub (signed_message J C now cfg nd rdv epk nonce ce) = epk"
  "Name (signed_message J C now cfg nd rdv epk nonce ce) = cfg_Name cfg"
  by (simp_all add: signed_message_def Let_def)

lemma buildRegister_signed:
  assumes "at_nonce a = Some rnd" and "code_enc X a cfg nd = Some ce"
    and "SealCode X (fst (at_token a)) (snd (at_token a)) rdv (nd_serverPub nd) = Some enc"
  shows "buildRegister J C X a now cfg nd rdv epk =
    Inr (MarshalMessage J ((signed_message J C now cfg nd rdv epk (NewNonce rnd) ce)\<lparr>TokenEnc := enc, Token := []\<rparr>))"
proof (cases "cfg_Code cfg = []")
  case True
  then have "ce = []" using assms(2) by (simp add: code_enc_def)
  moreover have "(register_message now cfg nd rdv epk (NewNonce rnd))\<lparr>CodeEnc := []\<rparr> = register_message now cfg nd rdv epk (NewNonce rnd)"
    by (simp add: register_message_def zero_message_def)
  ultimately show ?thesis
    using True assms by (simp add: buildRegister_def setToken_def signed_message_def Let_def)
next
  case False
  then show ?thesis using assms by (simp add: buildRegister_def code_enc_def setToken_def signed_message_def Let_def)
qed

lemma ValidNonce_NewNonce: "length rnd = NonceLen \<Longrightarrow> ValidNonce (NewNonce rnd)"
  by (simp add: ValidNonce_def NewNonce_def nonceB64Len_def NonceLen_def length_b64url_encode b64url_encoded_len_def)

lemma padded_length: "b64url_encoded_len n + (4 - b64url_encoded_len n mod 4) mod 4 = (n + 2) div 3 * 4"
proof -
  define q where "q = n div 3"
  have "n = 3 * q \<or> n = 3 * q + 1 \<or> n = 3 * q + 2" unfolding q_def by presburger
  moreover have "Suc (3 * q) div 3 = q" "Suc (3 * q) mod 3 = 1" "Suc (Suc (3 * q)) div 3 = q" "Suc (Suc (3 * q)) mod 3 = 2"
    "Suc (Suc (q * 4)) mod 4 = 2" "Suc (Suc (Suc (q * 4))) mod 4 = 3" by presburger+
  ultimately show ?thesis unfolding b64url_encoded_len_def by (elim disjE) simp_all
qed

lemma length_b64std_encode: "length (b64std_encode bs) = (length bs + 2) div 3 * 4"
  using padded_length [of "length bs"] by (simp add: b64std_encode_def length_sextets)

lemma honest_passes:
  assumes "honest J C X B a now cfg nd rdv epk m" and "\<bar>snow - unix_seconds now * second\<bar> \<le> regSkew"
  shows "\<exists>pl m0. buildRegister J C X a now cfg nd rdv epk = Inr pl \<and> parseRegister J pl = Some m0 \<and>
    registrationMatchesTLSKey m0 (ed_public C (nd_priv nd)) \<and> Ver m0 = Version \<and> requireV7Fields m0 \<and>
    resolveToken B m0 = Some m \<and> verifyRegistration J C snow regSkew m \<and>
    Token m = rdv \<and> ID m = nd_id nd \<and> PubKey m = nd_pub nd \<and> RegEphPub m = epk \<and>
    deriveVIP C m = Inr m"
proof -
  from assms(1) obtain rnd ce r enc where h:
    "nd_pub nd = PubKeyB64 (ed_public C (nd_priv nd))" "nd_vip nd = VirtualIPString C (ed_public C (nd_priv nd))"
    "validField (nd_id nd)" "validField rdv" "int64 (unix_seconds now)"
    "at_nonce a = Some rnd" "length rnd = NonceLen" "code_enc X a cfg nd = Some ce" "length ce \<le> maxCodeEncLen"
    "m = signed_message J C now cfg nd rdv epk (NewNonce rnd) ce"
    "montgomery X (nd_serverPub nd) = Some r" "box_correct X B r (fst (at_token a)) (snd (at_token a)) rdv"
    "SealCode X (fst (at_token a)) (snd (at_token a)) rdv (nd_serverPub nd) = Some enc"
    "ed_correct C (nd_priv nd) (RegistrationPayload J m)"
    "json_reads J (message_members (m\<lparr>TokenEnc := enc, Token := []\<rparr>))"
    unfolding honest_def by blast
  let ?w = "m\<lparr>TokenEnc := enc, Token := []\<rparr>"
  have b: "buildRegister J C X a now cfg nd rdv epk = Inr (MarshalMessage J ?w)"
    using buildRegister_signed [OF h(6,8,13)] h(10) by simp
  have pk: "length (ed_public C (nd_priv nd)) = PublicKeySize" using h(14) by (simp add: ed_correct_def)
  have "wire_ok ?w" using h(5) by (simp add: wire_ok_def h(10) int64_def Version_def)
  then have u: "UnmarshalMessage J (MarshalMessage J ?w) = Some ?w" using message_roundtrip h(15) by fastforce
  obtain enc' where "SealCode X (fst (at_token a)) (snd (at_token a)) rdv (nd_serverPub nd) = Some enc'" "OpenCode B enc' = Some rdv"
    using SealCode_OpenCode [OF h(11,12)] by blast
  then have o: "OpenCode B enc = Some rdv" using h(13) by simp
  have enc: "enc \<noteq> []" "length enc \<le> maxCodeEncLen"
  proof -
    have "length (fst (fst (at_token a)) @ snd (at_token a) @ box_seal X rdv (snd (at_token a)) r (snd (fst (at_token a)))) = 72 + length rdv"
      "length rdv \<le> 128"
      using h(4,12) by (auto simp: box_correct_def validField_def MaxFieldLen_def split: if_splits)
    then have "length enc = (72 + length rdv + 2) div 3 * 4" "length rdv \<le> 128"
      using h(11,13) length_b64std_encode by (auto simp: SealCode_def X25519FromEd25519Public_def Let_def)
    then show "length enc \<le> maxCodeEncLen" "enc \<noteq> []" by (auto simp: maxCodeEncLen_def)
  qed
  have sig: "b64std_decode (RegSig m) = Some (ed_sign C (nd_priv nd) (RegistrationPayload J m))"
    by (simp add: h(10) signed_message_def Let_def)
  have key: "length (nd_pub nd) \<le> MaxFieldLen" "b64std_decode (nd_pub nd) = Some (ed_public C (nd_priv nd))" "nd_pub nd \<noteq> []"
    using h(1) pk length_b64std_encode [of "ed_public C (nd_priv nd)"] by (auto simp: PubKeyB64_def MaxFieldLen_def PublicKeySize_def)
  have nonce: "ValidNonce (NewNonce rnd)" "length (NewNonce rnd) \<le> MaxFieldLen"
    using ValidNonce_NewNonce [OF h(7)] by (auto simp: ValidNonce_def nonceB64Len_def NonceLen_def MaxFieldLen_def split: if_splits)
  have parse: "parseRegister J (MarshalMessage J ?w) = Some ?w"
    using u h(3,9) enc key nonce by (simp add: parseRegister_def h(10))
  have "verifyRegistration J C snow regSkew m"
    using assms(2) sig key nonce pk h(14) by (simp add: verifyRegistration_def h(10) ed_correct_def abs_le_iff)
  moreover have "requireV7Fields ?w" "registrationMatchesTLSKey ?w (ed_public C (nd_priv nd))"
    using sig key nonce pk h(14) by (simp_all add: requireV7Fields_def registrationMatchesTLSKey_def h(10) ed_correct_def)
  moreover have "resolveToken B ?w = Some m" using o h(4) by (simp add: resolveToken_def h(10) signed_message_def Let_def)
  moreover have "deriveVIP C m = Inr m"
    using key pk h(2) by (simp add: deriveVIP_def DecodePubKey_def h(10) signed_message_def Let_def register_message_def)
  ultimately show ?thesis using b parse h(10) by (intro exI [of _ "MarshalMessage J ?w"] exI [of _ ?w]) simp
qed

text \<open>C7: an honest registration passes every gate. What a buddy builds is parsed by the server,
  matches the key its connection proved, carries the mandatory fields, opens to the token
  it was sealed with, and its signature verifies, as long as the two clocks differ by no
  more than the tolerance.\<close>

theorem honest_registration_passes:
  assumes "honest J C X B a now cfg nd rdv epk m" and "\<bar>snow - unix_seconds now * second\<bar> \<le> regSkew"
  shows "\<exists>pl m0. buildRegister J C X a now cfg nd rdv epk = Inr pl \<and> parseRegister J pl = Some m0 \<and>
    registrationMatchesTLSKey m0 (ed_public C (nd_priv nd)) \<and> Ver m0 = Version \<and> requireV7Fields m0 \<and>
    resolveToken B m0 = Some m \<and> verifyRegistration J C snow regSkew m \<and>
    Token m = rdv \<and> ID m = nd_id nd \<and> PubKey m = nd_pub nd \<and> RegEphPub m = epk \<and>
    deriveVIP C m = Inr m"
  using assms by (rule honest_passes)

text \<open>What the handler does with it when the source is let through: the registration reaches the
  registry, and the answer is the signed roster with a ticket.\<close>

definition let_through :: "crypto \<Rightarrow> box_open \<Rightarrow> hs_config \<Rightarrow> time \<Rightarrow> udpaddr \<Rightarrow> message \<Rightarrow> hs \<Rightarrow> bool" where
  "let_through C B cfg now src m s \<longleftrightarrow>
     cidrAllowed (hallowed cfg) (IP src) \<and> fst (Allow now (FromIP (IP src)) (hrl s)) \<and> fst (authorize C B now src m s)"

lemma authorize_frame:
  assumes "authorize C B now src m s = (True, s')"
  shows "hreg s' = hreg s \<and> stats s' = stats s \<and> hrl s' = hrl s"
  using assms by (auto simp: authorize_def Let_def split: option.splits if_splits prod.splits)

lemma authorize_hrl: "authorize C B now src m (s\<lparr>hrl := rl\<rparr>) = map_prod id (\<lambda>s. s\<lparr>hrl := rl\<rparr>) (authorize C B now src m s)"
  by (auto simp: authorize_def count_replay_def Let_def split: option.splits prod.splits)

definition answer :: "json \<Rightarrow> crypto \<Rightarrow> hs_config \<Rightarrow> time \<Rightarrow> bytes option \<times> bytes option \<Rightarrow> message \<Rightarrow> hsPeer option \<Rightarrow> hsRegistry \<Rightarrow> message" where
  "answer J C cfg now rnd m partner r =
     (case partner of
        None \<Rightarrow> signedPeerList J C (hpriv cfg) now (Token m) []
      | Some p \<Rightarrow>
          (let pp = asProtocolPeer (adv_endpoint (hadvert cfg)) p
           in (signedPeerList J C (hpriv cfg) now (Token m) [pp])
             \<lparr>RTicket := fst (issueTicket J C (hpriv cfg) now rnd (adv_rid (hadvert cfg)) m pp r)\<rparr>))"

lemma honest_control:
  assumes "honest J C X B a now bc nd rdv epk m" and "\<bar>snow - unix_seconds now * second\<bar> \<le> regSkew"
    and "let_through C B cfg snow src m s" and "buildRegister J C X a now bc nd rdv epk = Inr pl"
    and "upsert it snow m src (hreg s, stats s) = (Some (self, partner), r, c)"
  shows "\<exists>r'. fst (handleControlReq J C B cfg it snow rnd src (ed_public C (nd_priv nd)) pl s) =
      [Reply (MarshalMessage J (answer J C cfg snow rnd m partner r'))] \<and>
    waiting r' = waiting r \<and> sids r' = sids r \<and> hs_ttl r' = hs_ttl r \<and>
    hreg (snd (handleControlReq J C B cfg it snow rnd src (ed_public C (nd_priv nd)) pl s)) =
      (case partner of None \<Rightarrow> r'
       | Some p \<Rightarrow> snd (issueTicket J C (hpriv cfg) snow rnd (adv_rid (hadvert cfg)) m (asProtocolPeer (adv_endpoint (hadvert cfg)) p) r'))"
proof -
  from honest_passes [OF assms(1,2)] assms(4) obtain m0 where m0: "parseRegister J pl = Some m0"
    "registrationMatchesTLSKey m0 (ed_public C (nd_priv nd))" "Ver m0 = Version" "requireV7Fields m0" "resolveToken B m0 = Some m"
    "verifyRegistration J C snow regSkew m" "Token m = rdv" "deriveVIP C m = Inr m" by auto
  obtain rl where rl: "Allow snow (FromIP (IP src)) (hrl s) = (True, rl)" using assms(3) by (cases "Allow snow (FromIP (IP src)) (hrl s)") (simp add: let_through_def)
  obtain s1 where s1: "authorize C B snow src m s = (True, s1)" using assms(3) by (cases "authorize C B snow src m s") (simp add: let_through_def)
  note f = authorize_frame [OF s1]
  have ad: "admit_request J B cfg snow src (ed_public C (nd_priv nd)) pl s = (Inr m, s\<lparr>hrl := rl\<rparr>)"
    using assms(3) rl m0 by (simp add: admit_request_def let_through_def)
  have au: "authorize C B snow src m (s\<lparr>hrl := rl\<rparr>) = (True, s1\<lparr>hrl := rl\<rparr>)" by (simp add: authorize_hrl s1)
  show ?thesis
  proof (cases partner)
    case None
    then have "pairRegister J C B it snow (adv_endpoint (hadvert cfg)) src m (s\<lparr>hrl := rl\<rparr>) = (Some [], s1\<lparr>hrl := rl, hreg := r, stats := c\<rparr>)"
      using m0 au f assms(5) by (simp add: pairRegister_def)
    then show ?thesis
      using None ad by (intro exI [of _ r]) (simp add: handleControlReq_def answer_def Let_def)
  next
    case (Some p)
    let ?pp = "asProtocolPeer (adv_endpoint (hadvert cfg)) p" and ?r = "snd (notePaired (Token m) r)"
    have "\<exists>st. pairRegister J C B it snow (adv_endpoint (hadvert cfg)) src m (s\<lparr>hrl := rl\<rparr>) = (Some [?pp], s1\<lparr>hrl := rl, stats := st, hreg := ?r\<rparr>)"
      using m0 au f assms(5) Some by (intro exI [of _ "c\<lparr>c_paired := c_paired c + 1\<rparr>"]) (simp add: pairRegister_def Let_def)
    then show ?thesis
      using Some ad by (intro exI [of _ ?r]) (auto simp: handleControlReq_def answer_def Let_def notePaired_def split: prod.split)
  qed
qed

lemma honest_pairs:
  assumes "honest J C X B a now bc nd rdv epk m" and "\<bar>snow - unix_seconds now * second\<bar> \<le> regSkew"
    and "fst (authorize C B snow src m s)" and "upsert it snow m src (hreg s, stats s) = (Some (self, Some p), r, c)"
  shows "fst (pairRegister J C B it snow ep src m s) = Some [asProtocolPeer ep p]"
proof -
  obtain s1 where s1: "authorize C B snow src m s = (True, s1)" using assms(3) by (cases "authorize C B snow src m s") simp
  show ?thesis
    using honest_passes [OF assms(1,2)] s1 authorize_frame [OF s1] assms(4) by (auto simp: pairRegister_def Let_def)
qed

text \<open>Without an allowlist the server stays in open mode.\<close>

lemma open_mode:
  assumes "hauthz s = None"
  shows "fst (authorize C B now src m s)" "hauthz (snd (handleControlReq J C B cfg it now rnd src key pl s)) = None"
proof -
  have au: "authorize C B now src m s' = (True, s')" if "hauthz s' = None" for s' now src m using that by (simp add: authorize_def)
  then show "fst (authorize C B now src m s)" using assms by simp
  have "hauthz (snd (admit_request J B cfg now src key pl s)) = None"
    using assms by (auto simp: admit_request_def count_dropped_def Let_def split: prod.split option.split)
  moreover have "hauthz (snd (pairRegister J C B it now ep src m s')) = None" if "hauthz s' = None" for m s' ep
    using that by (auto simp: pairRegister_def au count_dropped_def Let_def split: prod.split option.split sum.split)
  ultimately show "hauthz (snd (handleControlReq J C B cfg it now rnd src key pl s)) = None"
    by (auto simp: handleControlReq_def Let_def split: prod.split sum.split option.split list.split) (metis snd_conv)+
qed

section \<open>The server's answer\<close>

text \<open>A source a packet can come from: its printed form reads back as a unicast endpoint.\<close>

definition unicast_source :: "udpaddr \<Rightarrow> bool" where
  "unicast_source a \<longleftrightarrow> check_candidate \<lparr>Addr = UDPAddr_String a, V6 = False\<rparr> = None"

lemma check_candidate_V6: "check_candidate c = check_candidate \<lparr>Addr = Addr c, V6 = False\<rparr>"
  by (simp add: check_candidate_def)

lemma check_candidates_all: "check_candidates cs = None \<longleftrightarrow> (\<forall>c \<in> set cs. check_candidate c = None)"
  by (induction cs) (auto split: option.split)

lemma vouches_ID: "vouches J C B cfg x m src \<Longrightarrow> validField (ID m)"
  by (induction J C B cfg x m src rule: vouches.induct)
    (auto simp: parseRegister_def resolveToken_def split: option.splits if_splits)

lemma backed_roster:
  assumes "backed J C B cfg tr tok p" and "length (cands p) \<le> maxCandsPerPeer" and "length relay \<le> MaxFieldLen"
    and "\<forall>x \<in> set tr. \<forall>m src. vouches J C B cfg x m src \<longrightarrow> unicast_source src"
  shows "checkRosterPeer (asProtocolPeer relay p) = None"
proof -
  have "validField (hp_id p)" using assms(1) vouches_ID unfolding backed_def by metis
  moreover have "hp_name p = [] \<or> ValidName (hp_name p)" using assms(1) by (auto simp: backed_def)
  moreover have "check_candidate c = None" if c: "c \<in> set (candidates p)" for c
  proof -
    obtain src where "unicast_source src" "Addr c = UDPAddr_String src"
      using assms(1,4) c unfolding backed_def by metis
    then show ?thesis using check_candidate_V6 [of c] by (simp add: unicast_source_def)
  qed
  then have "check_candidates (candidates p) = None" by (simp add: check_candidates_all)
  moreover have "length (candidates p) \<le> maxRosterCands" using assms(2) by (simp add: candidates_def maxRosterCands_def)
  ultimately show ?thesis using assms(3) by (auto simp: checkRosterPeer_def asProtocolPeer_def)
qed

lemma canonical_single: "canonicalPeers [asProtocolPeer relay p] = [asProtocolPeer relay p]"
  by (simp add: canonicalPeers_def asProtocolPeer_def candidates_def sort_key_id_if_sorted)

lemma judge_signed_roster:
  assumes "wire_ok reply" and "json_reads J (message_members reply)"
    and "reply = (signedPeerList J C priv snow tok [asProtocolPeer relay p])\<lparr>RTicket := t\<rparr>"
    and "ed_correct C priv (PeerListPayload J tok (unix_seconds snow) [asProtocolPeer relay p])"
    and "\<bar>cnow - unix_seconds snow * second\<bar> \<le> rosterSkew" and "checkRosterPeer (asProtocolPeer relay p) = None"
  shows "judge_reply J C (ed_public C priv) tok cnow (Some (MarshalMessage J reply)) noted = Partner (asProtocolPeer relay p) t"
proof -
  have "UnmarshalMessage J (MarshalMessage J reply) = Some reply"
    using message_roundtrip [OF assms(1,2)] by (simp add: assms(3) signedPeerList_def zero_message_def Let_def)
  then show ?thesis
    using assms(4-6) unfolding judge_reply_def
    by (simp add: assms(3) signedPeerList_def Let_def canonical_single zero_message_def ed_correct_def abs_le_iff)
qed

text \<open>C8: a buddy accepts every roster an honest server signs. In any run of the server, if a
  request is answered with a partner, the buddy that reads the answer within a minute
  verifies the signature, passes the partner's record through its own checks, and gets
  exactly that record and the ticket that came with it.\<close>

theorem roster_accepted:
  assumes "start_server d af ep ri priv nets now0 = Some (cfg, s0)"
    and "pairRegister J C B it snow ep src m (fold (hs_step J C B cfg) es s0) = (Some [pp], s')"
    and "reply = (signedPeerList J C priv snow (Token m) [pp])\<lparr>RTicket := t\<rparr>"
    and "wire_ok reply" and "json_reads J (message_members reply)"
    and "ed_correct C priv (PeerListPayload J (Token m) (unix_seconds snow) [pp])"
    and "\<bar>cnow - unix_seconds snow * second\<bar> \<le> rosterSkew" and "length ep \<le> MaxFieldLen"
    and "\<forall>x \<in> set (trace J C B cfg es s0). \<forall>n from. vouches J C B cfg x n from \<longrightarrow> unicast_source from"
  shows "judge_reply J C (ed_public C priv) (Token m) cnow (Some (MarshalMessage J reply)) noted = Partner pp t"
proof -
  let ?s = "fold (hs_step J C B cfg) es s0"
  obtain d' where "hreg s0 = newHSRegistry d'" using start_reg [OF assms(1)] by blast
  then have "reg_backed J C B cfg [] (hreg s0)"
    using new_reg_inv by (simp add: reg_backed_def held_def newHSRegistry_def)
  then have rb: "reg_backed J C B cfg (trace J C B cfg es s0) (hreg ?s)" by (rule run_backed)
  show ?thesis
  proof (cases rule: pairRegister_reg [of J C B it snow ep src m ?s])
    case same
    then show ?thesis using assms(2) by simp
  next
    case (upsert m' res r' c c')
    from upsert(8) assms(2) obtain self p where p: "res = Some (self, Some p)" "pp = asProtocolPeer ep p"
      by (fastforce split: option.splits)
    have "Token m' = Token m" using upsert(4) by auto
    with upsert_partner [of it snow m' src "hreg ?s" c self p r' c'] upsert(5) p rb
    have h: "held (hreg ?s) (Token m) p" by (auto simp: reg_backed_def)
    then have bk: "backed J C B cfg (trace J C B cfg es s0) (Token m) p" using rb by (simp add: reg_backed_def)
    have "length (cands p) \<le> maxCandsPerPeer"
      using h rb by (fastforce simp: reg_backed_def reg_inv_def held_def bucket_ok_def peer_ok_def)
    from backed_roster [OF bk this assms(8,9)] have "checkRosterPeer pp = None" by (simp add: p(2))
    then show ?thesis
      using judge_signed_roster [OF assms(4,5) assms(3) [unfolded p(2)]] assms(6,7) unfolding p(2) by simp
  qed
qed

section \<open>Tickets\<close>

text \<open>The payload a ticket carries.\<close>

definition issued_payload :: "time \<Rightarrow> bytes \<Rightarrow> bytes \<Rightarrow> bytes \<Rightarrow> message \<Rightarrow> peer \<Rightarrow> payload" where
  "issued_payload now rid sid nb m partner =
     \<lparr>V = FormatVersion, RID = rid, SID = sid, Leg = (if PubKey m > pPubKey partner then LegB else LegA),
      EPK = RegEphPub m, IAT = unix_seconds now, EXP = unix_seconds (now + MaxTTL), Nonce = NewID nb\<rparr>"

lemma issueTicket_Some:
  assumes "issueTicket J C priv now rnd rid m partner r = (Some t, r')"
  obtains raw sid nb pl sig where "b64url_decode (RegEphPub m) = Some raw" "length raw = PublicKeySize"
    "PubKey m \<noteq> pPubKey partner" "sidFor (fst rnd) (Token m) r = (Some sid, r')" "snd rnd = Some nb"
    "Sign J C priv (issued_payload now rid sid nb m partner) = Some (pl, sig)"
    "t = \<lparr>rtPayload = b64url_encode pl, rtSig = b64url_encode sig\<rparr>"
  using assms unfolding issueTicket_def issued_payload_def
  by (auto simp: Let_def split: if_splits option.splits prod.splits)

text \<open>The session ids the server holds are well formed, because they were minted.\<close>

definition sids_ok :: "hsRegistry \<Rightarrow> bool" where
  "sids_ok r \<longleftrightarrow> (\<forall>e \<in> set (sids r). ValidID (snd e))"

lemma sidFor_ok:
  assumes "sidFor rnd tok r = (Some sid, r')" and "sids_ok r" and "\<forall>b. rnd = Some b \<longrightarrow> length b = IDLen"
  shows "ValidID sid \<and> mget (sids r') tok = Some sid \<and> sids_ok r'"
proof (cases "mget (sids r) tok")
  case None
  then show ?thesis
    using assms mput_ball [of "sids r" "\<lambda>e. ValidID (snd e)" tok "NewID (the rnd)"]
    by (auto simp: sidFor_def sids_ok_def mget_mput ValidID_NewID split: option.splits if_splits)
next
  case (Some x)
  then show ?thesis using assms mget_in_set [OF Some] by (auto simp: sidFor_def sids_ok_def)
qed

text \<open>What the buddy and the primitives contribute: the throwaway key whose public half was
  registered, a server key and a scanner that behave as documented on this ticket.\<close>

definition spendable :: "json \<Rightarrow> crypto \<Rightarrow> bytes \<Rightarrow> relayCred \<Rightarrow> message \<Rightarrow> payload \<Rightarrow> bool" where
  "spendable J C priv c m p \<longleftrightarrow>
     rc_pub c = RegEphPub m \<and> b64url_decode (RegEphPub m) = Some (ed_public C (rc_priv c)) \<and>
     render J (payload_members p) \<noteq> [] \<and> json_reads J (payload_members p) \<and>
     ed_correct C priv (signedBytes (render J (payload_members p))) \<and>
     int64 (IAT p) \<and> int64 (EXP p)"

text \<open>A relay clock at which a ticket of this moment is valid.\<close>

definition in_window :: "time \<Rightarrow> time \<Rightarrow> bool" where
  "in_window now rnow \<longleftrightarrow> int64 (unix_seconds rnow + 10) \<and> int64 (unix_seconds rnow - 10) \<and>
     unix_seconds now - 10 \<le> unix_seconds rnow \<and> unix_seconds rnow \<le> unix_seconds now + 130"

lemma CheckWindow_issued:
  assumes "IAT p = unix_seconds now" and "EXP p = unix_seconds (now + MaxTTL)" and "in_window now rnow"
  shows "CheckWindow rnow p = Inr ()"
proof -
  have e: "EXP p = unix_seconds now + 120"
    unfolding assms(2) by (simp add: unix_seconds_def MaxTTL_def second_def)
  then have "wrap64 (EXP p - IAT p) = 120" by (simp add: assms(1) wrap64_def)
  moreover have "wrap64 (unix_seconds rnow + 10) = unix_seconds rnow + 10" "wrap64 (unix_seconds rnow - 10) = unix_seconds rnow - 10"
    using assms(3) by (simp_all add: wrap64_id in_window_def)
  ultimately show ?thesis
    using assms(1,3) e by (simp add: in_window_def CheckWindow_def MaxTTL_def Skew_def second_def)
qed

lemma ticket_usable:
  assumes "issueTicket J C priv now (Some sb, Some nb) rid m partner r = (Some t, r')" and "sids_ok r" and "ValidID rid"
    and "length sb = IDLen" "length nb = IDLen" and "mget (sids r') (Token m) = Some sid"
    and "spendable J C priv c m (issued_payload now rid sid nb m partner)"
  shows "\<exists>c' p. adopt J (Some t) (Some c) = Inr c' \<and> SID p = sid \<and>
    Leg p = (if PubKey m > pPubKey partner then LegB else LegA) \<and> PubKey m \<noteq> pPubKey partner \<and>
    (\<forall>s rnow ck cookie derived. ed_public C priv \<in> set (serverKeys s) \<and> relayID s = rid \<and> in_window now rnow \<and>
       ed_correct C (rc_priv c) (BindSigningBytes C (rc_payload c') (rc_sig c') cookie) \<longrightarrow>
       check_ticket_bind J C rnow (cred_bind C (bindCred (Some c')) (cred_session (Some c') derived) ck cookie) cookie s = Inr p)"
proof -
  from issueTicket_Some [OF assms(1)] obtain raw sid' pl sig where i':
    "b64url_decode (RegEphPub m) = Some raw" "length raw = PublicKeySize" "PubKey m \<noteq> pPubKey partner"
    "sidFor (Some sb) (Token m) r = (Some sid', r')"
    "Sign J C priv (issued_payload now rid sid' nb m partner) = Some (pl, sig)"
    "t = \<lparr>rtPayload = b64url_encode pl, rtSig = b64url_encode sig\<rparr>" by (metis fst_conv option.inject snd_conv)
  have ok': "ValidID sid'" "sid' = sid" using sidFor_ok [OF i'(4) assms(2)] assms(4,6) by auto
  note i = i' [unfolded ok'(2)] and sid = ok'(1) [unfolded ok'(2)]
  define p where "p = issued_payload now rid sid nb m partner"
  have sp: "spendable J C priv c m p" using assms(7) by (simp add: p_def)
  have pl: "pl = render J (payload_members p)" "sig = ed_sign C priv (signedBytes pl)"
    using i(5) by (auto simp: Sign_def p_def Let_def split: if_splits)
  have ok: "ticket_ok p"
    using sid assms(3,5) i(1,2) sp
    by (simp add: ticket_ok_def p_def issued_payload_def ValidID_NewID EphPub_def spendable_def LegA_def LegB_def)
  have vp: "Verify C keys pl sig \<and> Parse J pl = Inr p" if "ed_public C priv \<in> set keys" for keys
    using Sign_Parse [OF ok i(5) [folded p_def]] sp pl that by (auto simp: spendable_def json_reads_def)
  have parse: "Parse J pl = Inr p" using vp [of "[ed_public C priv]"] by simp
  have len: "length sig = SignatureSize" using sp pl by (simp add: spendable_def ed_correct_def)
  let ?c = "c\<lparr>rc_payload := pl, rc_sig := sig, rc_sid := sid\<rparr>"
  have ad: "adopt J (Some t) (Some c) = Inr ?c"
    using parse len sp by (simp add: adopt_def i(6) p_def issued_payload_def spendable_def)
  have "sid \<noteq> []" using sid by (auto simp: ValidID_def b64url_encoded_len_def IDLen_def)
  then have hv: "bindCred (Some ?c) = Some \<lparr>CredPayload = pl, CredSig = sig, CredEph = rc_priv c\<rparr>"
    "cred_session (Some ?c) derived = sid" for derived by (simp_all add: bindCred_def cred_session_def have_ticket_def)
  have "check_ticket_bind J C rnow (cred_bind C (bindCred (Some ?c)) (cred_session (Some ?c) derived) ck cookie) cookie s = Inr p"
    if "ed_public C priv \<in> set (serverKeys s)" "relayID s = rid" "CheckWindow rnow p = Inr ()"
      "ed_correct C (rc_priv c) (BindSigningBytes C pl sig cookie)" for s rnow ck cookie derived
  proof -
    have "EphPub p = Some (ed_public C (rc_priv c))" "length (ed_public C (rc_priv c)) = PublicKeySize"
      using sp that(4) by (simp_all add: EphPub_def p_def issued_payload_def spendable_def ed_correct_def)
    moreover have "CheckRelay rid p = Inr ()"
      using assms(3) by (auto simp: CheckRelay_def p_def issued_payload_def ValidID_def b64url_encoded_len_def IDLen_def)
    moreover have "SID p = sid" by (simp add: p_def issued_payload_def)
    ultimately show ?thesis
      using vp [OF that(1)] that len
      by (simp add: check_ticket_bind_def hv cred_bind_def Let_def zero_bind_def SignBind_def VerifyBind_def ed_correct_def)
  qed
  moreover have "CheckWindow rnow p = Inr ()" if "in_window now rnow" for rnow
    using CheckWindow_issued [OF _ _ that] by (simp add: p_def issued_payload_def)
  ultimately show ?thesis
    using ad i(3) by (intro exI [of _ ?c] exI [of _ p]) (auto simp: p_def issued_payload_def)
qed

section \<open>The pair at the relay\<close>

lemma ticket_opens:
  assumes "mget (sessions s) (SID p) = None" and "length (sessions s) < maxSessions s" and "mcount (legsPerIP s) a < maxLegsPerIP s"
    and "check_ticket_bind J C now b ck s = Inr p" and s': "s' = fst (verifyTicketBind J C now (Job b src a ck) s)"
  shows "s' = claim_leg now \<lparr>token = SID p, legs = [], paired = False, created = now\<rparr> src a (Leg p) (EPK p)
      (s\<lparr>statVerify := statVerify s + 1\<rparr>)" (is "_ = ?s")
    and "serverKeys s' = serverKeys s" "relayID s' = relayID s"
proof -
  show eq: "s' = ?s" using assms by (simp add: verifyTicketBind_def bindTicketed_def Let_def)
  have "conf s' = conf s" unfolding eq using misc_eqD [OF misc_claim_leg] by (simp add: conf_def)
  then show "serverKeys s' = serverKeys s" "relayID s' = relayID s" using conf_eqD by blast+
qed

lemma tickets_forward:
  assumes "mget (sessions s) (SID p1) = None" and "length (sessions s) < maxSessions s"
    and "mcount (legsPerIP s) a1 < maxLegsPerIP s" and "mcount (legsPerIP s) a2 + 1 < maxLegsPerIP s"
    and "addr_string src1 \<noteq> addr_string src2" and "SID p2 = SID p1" and "Leg p1 \<noteq> Leg p2"
    and "check_ticket_bind J C t1 b1 ck1 s = Inr p1" and "s1 = fst (verifyTicketBind J C t1 (Job b1 src1 a1 ck1) s)"
    and "check_ticket_bind J C t2 b2 ck2 s1 = Inr p2" and "s2 = fst (verifyTicketBind J C t2 (Job b2 src2 a2 ck2) s1)"
  shows "snd (forward t src1 pkt s2) = [(pkt, src2)]" and "snd (forward t src2 pkt s2) = [(pkt, src1)]"
proof -
  let ?s = "s\<lparr>statVerify := statVerify s + 1\<rparr>"
  let ?ses = "\<lparr>token = SID p1, legs = [], paired = False, created = t1\<rparr>"
  let ?l = "new_leg src1 a1 (Leg p1) (EPK p1) ?s"
  have s1: "s1 = claim_leg t1 ?ses src1 a1 (Leg p1) (EPK p1) ?s"
    by (rule ticket_opens(1) [OF assms(1-3,8,9)])
  have len: "length (legs ?ses) < 2" by simp
  note F = claim_leg_fields [OF len s1]
  let ?s1 = "s1\<lparr>statVerify := statVerify s1 + 1\<rparr>"
  have "mget (sessions s1) (SID p1) = Some (joined ?ses ?l)" by (simp add: F mget_mput)
  moreover have "find (\<lambda>l. leg_name l = Leg p2) (legs (joined ?ses ?l)) = None"
    using assms(7) by (simp add: joined_def new_leg_def)
  moreover have "mcount (legsPerIP s1) a2 < maxLegsPerIP s1"
    using assms(4) by (cases "a2 = a1") (simp_all add: F charge_map_def mcount_mput)
  moreover have "length (legs (joined ?ses ?l)) < maxLegsPerSes" by (simp add: joined_def maxLegsPerSes_def)
  ultimately have s2: "s2 = claim_leg t2 (joined ?ses ?l) src2 a2 (Leg p2) (EPK p2) ?s1"
    using assms(6,10,11) by (simp add: verifyTicketBind_def bindTicketed_def Let_def)
  show "snd (forward t src1 pkt s2) = [(pkt, src2)]" "snd (forward t src2 pkt s2) = [(pkt, src1)]"
    using two_claims_forward [OF s1 assms(5) _ _ _ s2] by simp_all
qed

text \<open>The bind request \<^verbatim>\<open>BindLeg\<close> sends for a credential, as the relay queues it, and a relay
  with room for the session and its two legs.\<close>

definition spend :: "crypto \<Rightarrow> relayCred \<Rightarrow> bytes \<Rightarrow> bytes \<Rightarrow> bytes \<Rightarrow> udpaddr \<Rightarrow> acct \<Rightarrow> job" where
  "spend C c derived ck cookie src a =
     Job (cred_bind C (bindCred (Some c)) (cred_session (Some c) derived) ck cookie) src a cookie"

definition relay_ready :: "crypto \<Rightarrow> bytes \<Rightarrow> bytes \<Rightarrow> bytes \<Rightarrow> acct \<Rightarrow> acct \<Rightarrow> server \<Rightarrow> bool" where
  "relay_ready C priv rid sid a1 a2 s \<longleftrightarrow>
     ed_public C priv \<in> set (serverKeys s) \<and> relayID s = rid \<and> mget (sessions s) sid = None \<and>
     length (sessions s) < maxSessions s \<and> mcount (legsPerIP s) a1 < maxLegsPerIP s \<and>
     mcount (legsPerIP s) a2 + 1 < maxLegsPerIP s"

text \<open>C4: the tickets of a pair bring the pair together. When the server issues a ticket to each
  buddy of a token while it holds the same session id for it, each buddy can adopt its own,
  and a relay that knows the server's key and has room accepts both within two minutes,
  binds them as different legs of one session, and from then on forwards every datagram of
  the one to the other and back.\<close>

theorem tickets_connect:
  assumes "issueTicket J C priv nowA (Some sbA, Some nbA) rid mA pB r = (Some tA, r1)" and "sids_ok r"
    and "issueTicket J C priv nowB (Some sbB, Some nbB) rid mB pA r2 = (Some tB, r3)" and "sids_ok r2"
    and "Token mB = Token mA" and "pPubKey pB = PubKey mB" and "pPubKey pA = PubKey mA" and "ValidID rid"
    and "mget (sids r1) (Token mA) = Some sid" and "mget (sids r2) (Token mA) = Some sid"
    and "length sbA = IDLen" and "length nbA = IDLen" and "length sbB = IDLen" and "length nbB = IDLen"
    and "spendable J C priv cA mA (issued_payload nowA rid sid nbA mA pB)"
    and "spendable J C priv cB mB (issued_payload nowB rid sid nbB mB pA)"
  shows "\<exists>cA' cB'. adopt J (Some tA) (Some cA) = Inr cA' \<and> adopt J (Some tB) (Some cB) = Inr cB' \<and>
    (\<forall>s srcA srcB aA aB ta tb dA dB ckA ckB cookieA cookieB s1 s2 t pkt.
       relay_ready C priv rid sid aA aB s \<and> addr_string srcA \<noteq> addr_string srcB \<and> in_window nowA ta \<and> in_window nowB tb \<and>
       ed_correct C (rc_priv cA) (BindSigningBytes C (rc_payload cA') (rc_sig cA') cookieA) \<and>
       ed_correct C (rc_priv cB) (BindSigningBytes C (rc_payload cB') (rc_sig cB') cookieB) \<and>
       s1 = fst (verifyTicketBind J C ta (spend C cA' dA ckA cookieA srcA aA) s) \<and>
       s2 = fst (verifyTicketBind J C tb (spend C cB' dB ckB cookieB srcB aB) s1) \<longrightarrow>
       snd (forward t srcA pkt s2) = [(pkt, srcB)] \<and> snd (forward t srcB pkt s2) = [(pkt, srcA)])"
proof -
  have "mget (sids r3) (Token mB) = Some sid"
    using assms(3,5,10) by (elim issueTicket_Some) (auto simp: sidFor_def)
  from ticket_usable [OF assms(3,4,8,13,14) this assms(16)] obtain cB' qB where B:
    "adopt J (Some tB) (Some cB) = Inr cB'" "SID qB = sid" "Leg qB = (if PubKey mB > pPubKey pA then LegB else LegA)" and useB:
    "\<And>s rnow ck cookie derived. ed_public C priv \<in> set (serverKeys s) \<and> relayID s = rid \<and> in_window nowB rnow \<and>
       ed_correct C (rc_priv cB) (BindSigningBytes C (rc_payload cB') (rc_sig cB') cookie) \<Longrightarrow>
       check_ticket_bind J C rnow (cred_bind C (bindCred (Some cB')) (cred_session (Some cB') derived) ck cookie) cookie s = Inr qB"
    by blast
  from ticket_usable [OF assms(1,2,8,11,12,9,15)] obtain cA' qA where A:
    "adopt J (Some tA) (Some cA) = Inr cA'" "SID qA = sid" "Leg qA = (if PubKey mA > pPubKey pB then LegB else LegA)"
    "PubKey mA \<noteq> pPubKey pB" and useA:
    "\<And>s rnow ck cookie derived. ed_public C priv \<in> set (serverKeys s) \<and> relayID s = rid \<and> in_window nowA rnow \<and>
       ed_correct C (rc_priv cA) (BindSigningBytes C (rc_payload cA') (rc_sig cA') cookie) \<Longrightarrow>
       check_ticket_bind J C rnow (cred_bind C (bindCred (Some cA')) (cred_session (Some cA') derived) ck cookie) cookie s = Inr qA"
    by blast
  have legs: "Leg qA \<noteq> Leg qB" using A(3,4) B(3) assms(6,7) by (auto simp: LegA_def LegB_def)
  show ?thesis
  proof (rule exI [of _ cA'], rule exI [of _ cB'], intro conjI allI impI A(1) B(1))
    fix s srcA srcB aA aB ta tb dA dB ckA ckB cookieA cookieB s1 s2 t pkt
    assume H: "relay_ready C priv rid sid aA aB s \<and> addr_string srcA \<noteq> addr_string srcB \<and> in_window nowA ta \<and> in_window nowB tb \<and>
       ed_correct C (rc_priv cA) (BindSigningBytes C (rc_payload cA') (rc_sig cA') cookieA) \<and>
       ed_correct C (rc_priv cB) (BindSigningBytes C (rc_payload cB') (rc_sig cB') cookieB) \<and>
       s1 = fst (verifyTicketBind J C ta (spend C cA' dA ckA cookieA srcA aA) s) \<and>
       s2 = fst (verifyTicketBind J C tb (spend C cB' dB ckB cookieB srcB aB) s1)"
    then have rd: "mget (sessions s) (SID qA) = None" "length (sessions s) < maxSessions s" "mcount (legsPerIP s) aA < maxLegsPerIP s"
      "mcount (legsPerIP s) aB + 1 < maxLegsPerIP s" and ad: "addr_string srcA \<noteq> addr_string srcB"
      by (simp_all add: relay_ready_def A(2))
    have a: "check_ticket_bind J C ta (cred_bind C (bindCred (Some cA')) (cred_session (Some cA') dA) ckA cookieA) cookieA s = Inr qA"
      by (rule useA) (use H in \<open>simp add: relay_ready_def\<close>)
    from H have sa: "s1 = fst (verifyTicketBind J C ta (Job (cred_bind C (bindCred (Some cA')) (cred_session (Some cA') dA) ckA cookieA) srcA aA cookieA) s)"
      and sb: "s2 = fst (verifyTicketBind J C tb (Job (cred_bind C (bindCred (Some cB')) (cred_session (Some cB') dB) ckB cookieB) srcB aB cookieB) s1)"
      unfolding spend_def by blast+
    have b: "check_ticket_bind J C tb (cred_bind C (bindCred (Some cB')) (cred_session (Some cB') dB) ckB cookieB) cookieB s1 = Inr qB"
      by (rule useB) (use H ticket_opens(2,3) [OF rd(1-3) a sa] in \<open>simp add: relay_ready_def\<close>)
    from tickets_forward [OF rd ad _ legs a sa b sb] A(2) B(2)
    show "snd (forward t srcA pkt s2) = [(pkt, srcB)]" "snd (forward t srcB pkt s2) = [(pkt, srcA)]" by simp_all
  qed
qed

end
