(* ===== verification/Shared.thy ===== *)
theory Shared
  imports HandshakeProps
begin

text \<open>
  The registry of the matchmaking server with its pointers. \<open>Handshake\<close> gives the records of peers
  by value; in \<^verbatim>\<open>handshake.go\<close> the buckets hold pointers to them, \<^verbatim>\<open>upsert\<close> changes a
  record where it lies and hands out pointers to two of them. Here the records lie in a list of
  cells, an address is a position in it, and each critical section is written over addresses.

  No two slots of the registry ever share a record, and under this invariant every critical
  section is the one of the value model: on what the addresses point to it has the same effect
  and returns the same result.
\<close>

section \<open>Registry and cells\<close>

type_synonym addr = nat
type_synonym ptrBucket = "(bytes, addr) gomap"

text \<open>The cells are never reused: what nothing points to any more is garbage. The other maps of the
  registry hold no pointers and are kept in \<open>latches\<close>, whose own table is empty.\<close>

record ptrRegistry =
  pwaiting :: "(bytes, ptrBucket) gomap"
  cells :: "hsPeer list"
  latches :: hsRegistry

definition new_ptrRegistry :: "duration \<Rightarrow> ptrRegistry" where
  "new_ptrRegistry d = \<lparr>pwaiting = [], cells = [], latches = newHSRegistry d\<rparr>"

definition load_bucket :: "hsPeer list \<Rightarrow> ptrBucket \<Rightarrow> hsBucket" where
  "load_bucket cs b = map (\<lambda>(i, a). (i, cs ! a)) b"

definition load_entry :: "hsPeer list \<Rightarrow> bytes \<times> ptrBucket \<Rightarrow> bytes \<times> hsBucket" where
  "load_entry cs = (\<lambda>(t, b). (t, load_bucket cs b))"

text \<open>What the registry holds, with every pointer followed.\<close>

definition view :: "ptrRegistry \<Rightarrow> hsRegistry" where
  "view s = (latches s)\<lparr>waiting := map (load_entry (cells s)) (pwaiting s)\<rparr>"

section \<open>The critical sections\<close>

definition pforget :: "bytes \<Rightarrow> ptrRegistry \<Rightarrow> ptrRegistry" where
  "pforget tok s = s\<lparr>pwaiting := mdel tok (pwaiting s), latches := forget tok (latches s)\<rparr>"

definition pevictStalestLocked ::
  "((bytes \<times> ptrBucket) list \<Rightarrow> (bytes \<times> ptrBucket) list) \<Rightarrow> ptrRegistry \<Rightarrow> ptrRegistry option" where
  "pevictStalestLocked it s =
     (case stalest (map (load_entry (cells s)) (take evictSample (iterate it (pwaiting s)))) of
        None \<Rightarrow> None
      | Some victim \<Rightarrow> Some (pforget victim s))"

definition popen_bucket ::
  "((bytes \<times> ptrBucket) list \<Rightarrow> (bytes \<times> ptrBucket) list) \<Rightarrow> bytes \<Rightarrow> ptrRegistry \<Rightarrow> ptrRegistry option" where
  "popen_bucket it tok s =
     (if mget (pwaiting s) tok \<noteq> None then Some s
      else case (if length (pwaiting s) \<ge> maxTokens then pevictStalestLocked it s else Some s) of
        None \<Rightarrow> None
      | Some s \<Rightarrow> Some (s\<lparr>pwaiting := mput tok [] (pwaiting s)\<rparr>))"

definition preap_token :: "time \<Rightarrow> bytes \<times> ptrBucket \<Rightarrow> ptrRegistry \<Rightarrow> ptrRegistry" where
  "preap_token now e s =
     (let b = filter (\<lambda>(_, a). \<not> now - hp_seen (cells s ! a) > hs_ttl (latches s)) (snd e)
      in if b = [] then pforget (fst e) s else s\<lparr>pwaiting := mput (fst e) b (pwaiting s)\<rparr>)"

definition preap_pass :: "time \<Rightarrow> ptrRegistry \<Rightarrow> ptrRegistry" where
  "preap_pass now s = fold (preap_token now) (pwaiting s) s"

fun pfind_partner :: "time \<Rightarrow> duration \<Rightarrow> hsPeer list \<Rightarrow> bytes \<Rightarrow> ptrBucket \<Rightarrow> addr option \<times> ptrBucket" where
  "pfind_partner now d cs self [] = (None, [])"
| "pfind_partner now d cs self ((i, a) # b) =
     (if i = self then (let (q, b') = pfind_partner now d cs self b in (q, (i, a) # b'))
      else if now - hp_seen (cs ! a) > d then pfind_partner now d cs self b
      else (Some a, (i, a) # b))"

definition blank :: "time \<Rightarrow> message \<Rightarrow> hsPeer" where
  "blank now m = \<lparr>hp_id = ID m, hp_pubkey = [], hp_virtualIP = [], hp_name = [], cands = [], hp_seen = now\<rparr>"

text \<open>The record of the caller: the one its slot points to, or a new cell.\<close>

definition self_cell :: "time \<Rightarrow> message \<Rightarrow> ptrBucket \<Rightarrow> hsPeer list \<Rightarrow> addr \<times> hsPeer list" where
  "self_cell now m bucket cs =
     (case mget bucket (ID m) of Some a \<Rightarrow> (a, cs) | None \<Rightarrow> (length cs, cs @ [blank now m]))"

text \<open>The record is changed in its cell, and the pointers to it and to the partner's are returned.\<close>

definition pupsert ::
  "((bytes \<times> ptrBucket) list \<Rightarrow> (bytes \<times> ptrBucket) list) \<Rightarrow> time \<Rightarrow> message \<Rightarrow> udpaddr \<Rightarrow>
   ptrRegistry \<times> hsCounters \<Rightarrow> (addr \<times> addr option) option \<times> ptrRegistry \<times> hsCounters" where
  "pupsert it now m src sc =
     (let (s, c) = sc in
      case popen_bucket it (Token m) s of
        None \<Rightarrow> (None, s, c)
      | Some s \<Rightarrow>
          (let bucket = (case mget (pwaiting s) (Token m) of None \<Rightarrow> [] | Some b \<Rightarrow> b) in
           if mget bucket (ID m) = None \<and> length bucket \<ge> maxIDsPerToken
           then (None, s\<lparr>latches := warnIntruderLocked (Token m) (latches s)\<rparr>, c\<lparr>squatRejected := squatRejected c + 1\<rparr>)
           else let (self, cs) = self_cell now m bucket (cells s);
                    (l, c) = (if PubKey m \<noteq> [] then track_key m (latches s, c) else (latches s, c));
                    cs = cs[self := refresh now m src (cs ! self)];
                    (partner, bucket) = pfind_partner now (hs_ttl l) cs (ID m) (mput (ID m) self bucket);
                    l = (if partner = None then l\<lparr>pairedLogged := mdel (Token m) (pairedLogged l)\<rparr> else l)
                in (Some (self, partner), s\<lparr>pwaiting := mput (Token m) bucket (pwaiting s), cells := cs, latches := l\<rparr>, c)))"

section \<open>Maps whose values are looked up\<close>

lemma mget_map: "mget (map (\<lambda>(k, v). (k, h v)) m) k = map_option h (mget m k)"
  by (induction m) auto

lemma mput_map: "mput k (h v) (map (\<lambda>(k, v). (k, h v)) m) = map (\<lambda>(k, v). (k, h v)) (mput k v m)"
  by (induction m) auto

lemma mdel_map: "mdel k (map (\<lambda>(k, v). (k, h v)) m) = map (\<lambda>(k, v). (k, h v)) (mdel k m)"
  by (induction m) auto

lemma mput_agree:
  assumes "gomap m" and "\<And>k' v'. (k', v') \<in> set m \<Longrightarrow> k' \<noteq> k \<Longrightarrow> g v' = h v'"
  shows "mput k x (map (\<lambda>(k, v). (k, g v)) m) = mput k x (map (\<lambda>(k, v). (k, h v)) m)"
  using assms
proof (induction m)
  case (Cons e m)
  obtain k' v' where e: "e = (k', v')" by fastforce
  show ?case
  proof (cases "k' = k")
    case True
    have "g w = h w" if "(j, w) \<in> set m" for j w
      using Cons.prems that e True by (intro Cons.prems(2) [of j w]) (auto simp: image_iff)
    then show ?thesis using e True by auto
  qed (use Cons e in auto)
qed simp

lemma load_bucket_get: "mget (load_bucket cs b) i = map_option ((!) cs) (mget b i)"
  unfolding load_bucket_def by (rule mget_map)

lemma load_bucket_put: "mput i (cs ! a) (load_bucket cs b) = load_bucket cs (mput i a b)"
  unfolding load_bucket_def by (rule mput_map)

lemma load_bucket_length [simp]: "length (load_bucket cs b) = length b" "load_bucket cs b = [] \<longleftrightarrow> b = []"
  by (simp_all add: load_bucket_def)

lemma view_get: "mget (waiting (view s)) t = map_option (load_bucket (cells s)) (mget (pwaiting s) t)"
  unfolding view_def load_entry_def by (simp add: mget_map)

lemma view_put:
  "view (s\<lparr>pwaiting := mput t b (pwaiting s)\<rparr>) = (view s)\<lparr>waiting := mput t (load_bucket (cells s) b) (waiting (view s))\<rparr>"
  unfolding view_def load_entry_def by (simp add: mput_map)

lemma view_simps [simp]:
  "length (waiting (view s)) = length (pwaiting s)" "hs_ttl (view s) = hs_ttl (latches s)"
  by (simp_all add: view_def)

section \<open>No two slots share a record\<close>

definition points :: "ptrRegistry \<Rightarrow> bytes \<Rightarrow> bytes \<Rightarrow> addr \<Rightarrow> bool" where
  "points s t i a \<longleftrightarrow> (\<exists>b. (t, b) \<in> set (pwaiting s) \<and> (i, a) \<in> set b)"

definition ptr_inv :: "ptrRegistry \<Rightarrow> bool" where
  "ptr_inv s \<longleftrightarrow>
     gomap (pwaiting s) \<and> (\<forall>e \<in> set (pwaiting s). gomap (snd e)) \<and>
     (\<forall>t i a. points s t i a \<longrightarrow> a < length (cells s)) \<and>
     (\<forall>t i a t' i'. points s t i a \<longrightarrow> points s t' i' a \<longrightarrow> t = t' \<and> i = i')"

lemma new_ptr_inv: "ptr_inv (new_ptrRegistry d)" "view (new_ptrRegistry d) = newHSRegistry d"
  by (simp_all add: ptr_inv_def new_ptrRegistry_def points_def view_def newHSRegistry_def)

text \<open>Buckets that only lose entries keep the invariant.\<close>

lemma ptr_inv_shrink:
  assumes "ptr_inv s" and "gomap (pwaiting s')" and "cells s' = cells s"
    and "\<And>t b. (t, b) \<in> set (pwaiting s') \<Longrightarrow> gomap b \<and> (\<forall>i a. (i, a) \<in> set b \<longrightarrow> points s t i a)"
  shows "ptr_inv s'"
proof -
  have "points s' t i a \<Longrightarrow> points s t i a" for t i a using assms(4) by (auto simp: points_def [of s'])
  then show ?thesis using assms unfolding ptr_inv_def by (metis prod.collapse)
qed

lemma ptr_inv_latches: "ptr_inv s \<Longrightarrow> ptr_inv (s\<lparr>latches := l\<rparr>)"
  by (simp add: ptr_inv_def points_def)

lemma mdel_sub: "e \<in> set (mdel k m) \<Longrightarrow> e \<in> set m"
  by (auto simp: AList.delete_eq)

lemma pforget_inv: "ptr_inv s \<Longrightarrow> ptr_inv (pforget t s)"
proof (rule ptr_inv_shrink [of s])
  assume i: "ptr_inv s"
  show "gomap (pwaiting (pforget t s))" using i by (simp add: ptr_inv_def pforget_def gomap_simps)
  show "gomap b \<and> (\<forall>i a. (i, a) \<in> set b \<longrightarrow> points s t' i a)" if "(t', b) \<in> set (pwaiting (pforget t s))" for t' b
  proof -
    have "(t', b) \<in> set (pwaiting s)" using that mdel_sub by (fastforce simp: pforget_def)
    then show ?thesis using i by (auto simp: ptr_inv_def points_def)
  qed
qed (simp_all add: pforget_def)

lemma pput_inv:
  assumes "ptr_inv s" and "gomap b" and "\<And>i a. (i, a) \<in> set b \<Longrightarrow> points s t i a"
  shows "ptr_inv (s\<lparr>pwaiting := mput t b (pwaiting s)\<rparr>)"
proof (rule ptr_inv_shrink [OF assms(1)])
  show "gomap b' \<and> (\<forall>i a. (i, a) \<in> set b' \<longrightarrow> points s t' i a)"
    if "(t', b') \<in> set (pwaiting (s\<lparr>pwaiting := mput t b (pwaiting s)\<rparr>))" for t' b'
    using set_mput_cases [of t' b' t b "pwaiting s"] that assms by (fastforce simp: ptr_inv_def points_def)
qed (use assms(1) in \<open>simp_all add: ptr_inv_def gomap_simps\<close>)

section \<open>Each critical section is that of the value model\<close>

lemma pforget_view: "view (pforget t s) = forget t (view s)"
  by (simp add: view_def pforget_def forget_def load_entry_def mdel_map)

text \<open>The order in which the value model sees the table iterated over.\<close>

definition view_order :: "((bytes \<times> ptrBucket) list \<Rightarrow> (bytes \<times> ptrBucket) list) \<Rightarrow> ptrRegistry \<Rightarrow>
    (bytes \<times> hsBucket) list \<Rightarrow> (bytes \<times> hsBucket) list" where
  "view_order it s = (\<lambda>_. map (load_entry (cells s)) (iterate it (pwaiting s)))"

lemma pevict_view: "evictStalestLocked (view_order it s) (view s) = map_option view (pevictStalestLocked it s)"
proof -
  have "mset (iterate it (pwaiting s)) = mset (pwaiting s)" by (simp add: iterate_def)
  then have "iterate (view_order it s) (waiting (view s)) = map (load_entry (cells s)) (iterate it (pwaiting s))"
    by (simp add: iterate_def [of "view_order it s"]) (simp add: view_order_def view_def)
  then show ?thesis
    by (simp add: evictStalestLocked_def pevictStalestLocked_def take_map pforget_view split: option.split)
qed

lemma popen_bucket_view: "open_bucket (view_order it s) tok (view s) = map_option view (popen_bucket it tok s)"
proof -
  have "view (u\<lparr>pwaiting := mput tok [] (pwaiting u)\<rparr>) = (view u)\<lparr>waiting := mput tok [] (waiting (view u))\<rparr>" for u
    using view_put [where s = u and t = tok and b = "[]"] by (simp add: load_bucket_def)
  then show ?thesis
    by (simp add: open_bucket_def popen_bucket_def view_get pevict_view split: option.split)
qed

lemma popen_bucket_inv: "ptr_inv s \<Longrightarrow> popen_bucket it tok s = Some s' \<Longrightarrow> ptr_inv s' \<and> cells s' = cells s"
proof -
  have "ptr_inv (u\<lparr>pwaiting := mput tok [] (pwaiting u)\<rparr>)" if "ptr_inv u" for u using pput_inv [OF that, of "[]" tok] by simp
  then show "ptr_inv s \<Longrightarrow> popen_bucket it tok s = Some s' \<Longrightarrow> ptr_inv s' \<and> cells s' = cells s"
    by (auto simp: popen_bucket_def pevictStalestLocked_def pforget_inv split: if_splits option.splits) (auto simp: pforget_def)
qed

lemma preap_token_view: "view (preap_token now e s) = reap_token now (load_entry (cells s) e) (view s)"
proof -
  have "reap_bucket now d (load_bucket cs b) = load_bucket cs (filter (\<lambda>(_, a). \<not> now - hp_seen (cs ! a) > d) b)" for cs d b
    by (induction b) (auto simp: reap_bucket_def load_bucket_def)
  then show ?thesis
    by (cases e) (simp add: preap_token_def reap_token_def Let_def load_entry_def pforget_view view_put)
qed

lemma preap_token_frame: "cells (preap_token now e s) = cells s"
  by (simp add: preap_token_def pforget_def Let_def)

lemma preap_pass_view: "view (preap_pass now s) = reap_pass now (view s)"
proof -
  have "cells u = cells s \<Longrightarrow> view (fold (preap_token now) es u) = fold (reap_token now) (map (load_entry (cells s)) es) (view u)" for es u
    by (induction es arbitrary: u) (simp_all add: preap_token_frame preap_token_view)
  from this [of s "pwaiting s"] show ?thesis by (simp add: preap_pass_def reap_pass_def view_def [of s])
qed

lemma preap_token_inv:
  assumes "ptr_inv s" and "gomap b" and "\<And>i a. (i, a) \<in> set b \<Longrightarrow> points s t i a"
  shows "ptr_inv (preap_token now (t, b) s)"
  using pforget_inv [OF assms(1)] pput_inv [OF assms(1), of "filter P b" t for P] assms(2,3)
  by (simp add: preap_token_def Let_def gomap_simps)

lemma preap_token_points: "t' \<noteq> fst e \<Longrightarrow> points (preap_token now e s) t' i a = points s t' i a"
proof -
  assume t: "t' \<noteq> fst e"
  have "(t', b) \<in> set (mput (fst e) b' m) \<longleftrightarrow> (t', b) \<in> set m" for b b' and m :: "(bytes \<times> ptrBucket) list" using t by (induction m) auto
  moreover have "(t', b) \<in> set (mdel (fst e) m) \<longleftrightarrow> (t', b) \<in> set m" for b and m :: "(bytes \<times> ptrBucket) list" using t by (induction m) auto
  ultimately show ?thesis by (simp add: points_def preap_token_def pforget_def Let_def)
qed

lemma preap_pass_inv:
  assumes "ptr_inv s"
  shows "ptr_inv (preap_pass now s)"
proof -
  have "ptr_inv (fold (preap_token now) es u)"
    if "ptr_inv u" "gomap es" "\<And>t b. (t, b) \<in> set es \<Longrightarrow> gomap b \<and> (\<forall>i a. (i, a) \<in> set b \<longrightarrow> points u t i a)" for es u
    using that
  proof (induction es arbitrary: u)
    case (Cons e es)
    obtain t b where e: "e = (t, b)" by fastforce
    have "gomap b" "\<And>i a. (i, a) \<in> set b \<Longrightarrow> points u t i a" using Cons.prems(3) [of t b] e by auto
    from preap_token_inv [OF Cons.prems(1) this] have i: "ptr_inv (preap_token now e u)" using e by blast
    have "gomap b' \<and> (\<forall>i a. (i, a) \<in> set b' \<longrightarrow> points (preap_token now e u) t' i a)" if "(t', b') \<in> set es" for t' b'
    proof -
      have "t' \<noteq> fst e" using Cons.prems(2) that e by (auto simp: image_iff)
      then show ?thesis using Cons.prems(3) [of t' b'] that by (auto simp: preap_token_points)
    qed
    then show ?case using Cons.IH [OF i] Cons.prems(2) by simp
  qed simp
  moreover have "gomap (pwaiting s)" using assms by (simp add: ptr_inv_def)
  moreover have "gomap b \<and> (\<forall>i a. (i, a) \<in> set b \<longrightarrow> points s t i a)" if "(t, b) \<in> set (pwaiting s)" for t b
    using assms that by (auto simp: ptr_inv_def points_def)
  ultimately show ?thesis using assms unfolding preap_pass_def by blast
qed

lemma pfind_partner_view:
  "find_partner now d self (load_bucket cs b) =
     (map_option ((!) cs) (fst (pfind_partner now d cs self b)), load_bucket cs (snd (pfind_partner now d cs self b)))"
  by (induction b) (auto simp: load_bucket_def split: prod.splits)

lemma pfind_partner_sub:
  "set (snd (pfind_partner now d cs self b)) \<subseteq> set b" "gomap b \<Longrightarrow> gomap (snd (pfind_partner now d cs self b))"
  "fst (pfind_partner now d cs self b) = Some a \<Longrightarrow> a \<in> snd ` set b"
proof -
  show s: "set (snd (pfind_partner now d cs self b)) \<subseteq> set b" for b by (induction b) (auto simp: case_prod_unfold Let_def split: if_splits)
  show "gomap b \<Longrightarrow> gomap (snd (pfind_partner now d cs self b))"
  proof (induction b)
    case (Cons e b)
    then show ?case using s [of b] by (cases e) (auto simp: case_prod_unfold Let_def)
  qed simp
  show "fst (pfind_partner now d cs self b) = Some a \<Longrightarrow> a \<in> snd ` set b"
    by (induction b) (auto simp: case_prod_unfold Let_def split: if_splits)
qed

lemma track_key_view:
  "track_key m (view s, c) = (view (s\<lparr>latches := fst (track_key m (latches s, c))\<rparr>), snd (track_key m (latches s, c)))"
  by (simp add: track_key_def view_def warnIntruderLocked_def Let_def)

lemma warn_view: "warnIntruderLocked tok (view s) = view (s\<lparr>latches := warnIntruderLocked tok (latches s)\<rparr>)"
  by (simp add: warnIntruderLocked_def view_def)

text \<open>Writing the cell of a slot is seen through that slot only.\<close>

lemma self_cell_writes:
  assumes "ptr_inv s" and "mget (pwaiting s) tok = Some b" and "self_cell now m b (cells s) = (self, cs)" and "cs' = cs[self := p]"
  shows "cs ! self = (case mget (load_bucket (cells s) b) (ID m) of Some p \<Rightarrow> p | None \<Rightarrow> blank now m)"
    and "self < length cs'" and "cs' ! self = p" and "length (cells s) \<le> length cs'"
    and "points s t i a \<Longrightarrow> (t, i) \<noteq> (tok, ID m) \<Longrightarrow> a \<noteq> self \<and> cs' ! a = cells s ! a"
    and "mget b (ID m) = Some self \<and> points s tok (ID m) self \<or> self = length (cells s)"
proof -
  have b: "(i, a) \<in> set b \<Longrightarrow> points s tok i a" for i a using mget_in_set [OF assms(2)] by (auto simp: points_def)
  have r: "points s t i a \<Longrightarrow> a < length (cells s)" for t i a using assms(1) by (auto simp: ptr_inv_def)
  show d: "mget b (ID m) = Some self \<and> points s tok (ID m) self \<or> self = length (cells s)"
    using assms(3) b by (auto simp: self_cell_def dest: mget_in_set split: option.splits)
  have c: "cs = cells s \<and> self < length (cells s) \<or> cs = cells s @ [blank now m] \<and> self = length (cells s)"
    using assms(3) b r by (fastforce simp: self_cell_def dest: mget_in_set split: option.splits)
  show "cs ! self = (case mget (load_bucket (cells s) b) (ID m) of Some p \<Rightarrow> p | None \<Rightarrow> blank now m)"
    using assms(3) by (auto simp: self_cell_def load_bucket_get split: option.splits)
  show "self < length cs'" "cs' ! self = p" "length (cells s) \<le> length cs'" using c assms(4) by auto
  show "points s t i a \<Longrightarrow> (t, i) \<noteq> (tok, ID m) \<Longrightarrow> a \<noteq> self \<and> cs' ! a = cells s ! a"
  proof -
    assume p: "points s t i a" "(t, i) \<noteq> (tok, ID m)"
    then have "a \<noteq> self" using d r assms(1) unfolding ptr_inv_def by (metis less_irrefl)
    then show ?thesis using r [OF p(1)] c assms(4) by (auto simp: nth_append)
  qed
qed

lemma load_bucket_cong: "(\<And>i a. (i, a) \<in> set b \<Longrightarrow> cs ! a = cs' ! a) \<Longrightarrow> load_bucket cs b = load_bucket cs' b"
  by (auto simp: load_bucket_def)

lemma slot_written:
  assumes "ptr_inv s" and "mget (pwaiting s) tok = Some b" and "self_cell now m b (cells s) = (self, cs)" and "cs' = cs[self := p]"
  shows "load_bucket cs' (mput (ID m) self b) = mput (ID m) p (load_bucket (cells s) b)"
    and "map (load_entry cs') (mput tok b' (pwaiting s)) = mput tok (load_bucket cs' b') (map (load_entry (cells s)) (pwaiting s))"
proof -
  note w = self_cell_writes [OF assms]
  have g: "gomap b" "gomap (pwaiting s)" using assms(1) mget_in_set [OF assms(2)] by (auto simp: ptr_inv_def)
  have "mput (ID m) p (load_bucket cs' b) = mput (ID m) p (load_bucket (cells s) b)"
    unfolding load_bucket_def using g(1)
  proof (rule mput_agree)
    show "cs' ! a = cells s ! a" if "(i, a) \<in> set b" "i \<noteq> ID m" for i a
      using w(5) [of tok i a] that mget_in_set [OF assms(2)] by (auto simp: points_def)
  qed
  then show "load_bucket cs' (mput (ID m) self b) = mput (ID m) p (load_bucket (cells s) b)"
    using load_bucket_put [of "ID m" cs' self b] w(3) by simp
  have "mput tok (load_bucket cs' b') (map (load_entry cs') (pwaiting s)) = mput tok (load_bucket cs' b') (map (load_entry (cells s)) (pwaiting s))"
    unfolding load_entry_def using g(2)
  proof (rule mput_agree)
    show "load_bucket cs' d = load_bucket (cells s) d" if "(t, d) \<in> set (pwaiting s)" "t \<noteq> tok" for t d
      using that w(5) by (intro load_bucket_cong) (auto simp: points_def)
  qed
  then show "map (load_entry cs') (mput tok b' (pwaiting s)) = mput tok (load_bucket cs' b') (map (load_entry (cells s)) (pwaiting s))"
    by (simp add: load_entry_def mput_map)
qed

lemma slot_inv:
  assumes "ptr_inv s" and "mget (pwaiting s) tok = Some b" and "self_cell now m b (cells s) = (self, cs)" and "cs' = cs[self := p]"
    and "set b' \<subseteq> set (mput (ID m) self b)" and "gomap b'"
  shows "ptr_inv (s\<lparr>pwaiting := mput tok b' (pwaiting s), cells := cs', latches := l\<rparr>)" (is "ptr_inv ?s")
proof -
  note w = self_cell_writes [OF assms(1-4)]
  have p: "points s t i a \<or> t = tok \<and> i = ID m \<and> a = self" if pt: "points ?s t i a" for t i a
  proof -
    obtain d where d: "(t, d) \<in> set (mput tok b' (pwaiting s))" "(i, a) \<in> set d" using pt by (auto simp: points_def)
    from set_mput_cases [OF d(1)] show ?thesis
    proof
      assume "(t, d) = (tok, b')"
      then show ?thesis using assms(5) d(2) set_mput_cases [of i a "ID m" self b] mget_in_set [OF assms(2)] by (auto simp: points_def)
    qed (use d(2) in \<open>auto simp: points_def\<close>)
  qed
  have r: "points s t i a \<Longrightarrow> a < length (cells s)" for t i a using assms(1) by (auto simp: ptr_inv_def)
  have u: "points s t i a \<Longrightarrow> points s t' i' a \<Longrightarrow> t = t' \<and> i = i'" for t i a t' i' using assms(1) by (auto simp: ptr_inv_def)
  have "a < length cs'" if "points ?s t i a" for t i a using p [OF that] r w(2,4) by (auto intro: less_le_trans)
  moreover have "t = t' \<and> i = i'" if "points ?s t i a" "points ?s t' i' a" for t i a t' i'
    using p [OF that(1)] p [OF that(2)] u w(5) [of t i a] w(5) [of t' i' a] by blast
  moreover have "gomap d" if "(t, d) \<in> set (mput tok b' (pwaiting s))" for t d
    using set_mput_cases [OF that] assms(1,6) by (auto simp: ptr_inv_def)
  ultimately show ?thesis using assms(1) by (auto simp: ptr_inv_def gomap_simps)
qed

definition followed :: "hsPeer list \<Rightarrow> addr \<times> addr option \<Rightarrow> hsPeer \<times> hsPeer option" where
  "followed cs r = (cs ! fst r, map_option ((!) cs) (snd r))"

lemma popen_bucket_present: "popen_bucket it tok s = Some s' \<Longrightarrow> mget (pwaiting s') tok \<noteq> None"
  by (auto simp: popen_bucket_def gomap_simps split: if_splits option.splits)

lemma pupsert_slot:
  assumes "popen_bucket it (Token m) s = Some s1" and "ptr_inv s1" and b: "mget (pwaiting s1) (Token m) = Some b"
    and notfull: "\<not> (mget b (ID m) = None \<and> length b \<ge> maxIDsPerToken)" and "pupsert it now m src (s, c) = (res, s', c')"
  shows "upsert (view_order it s) now m src (view s, c) = (map_option (followed (cells s')) res, view s', c') \<and> ptr_inv s'"
proof -
  note i = assms(2)
  have o: "open_bucket (view_order it s) (Token m) (view s) = Some (view s1)" by (simp add: popen_bucket_view assms(1))
  have bv: "load_bucket (cells s1) b = (case mget (waiting (view s1)) (Token m) of None \<Rightarrow> [] | Some b \<Rightarrow> b)" by (simp add: view_get b)
  have n: "mget (load_bucket (cells s1) b) (ID m) = None \<longleftrightarrow> mget b (ID m) = None" by (simp add: load_bucket_get)
  obtain self cs where sc: "self_cell now m b (cells s1) = (self, cs)" by fastforce
  obtain l c2 where t: "(if PubKey m \<noteq> [] then track_key m (latches s1, c) else (latches s1, c)) = (l, c2)" by fastforce
  define p where "p = refresh now m src (cs ! self)"
  define cs' where "cs' = cs[self := p]"
  obtain q b' where f: "pfind_partner now (hs_ttl l) cs' (ID m) (mput (ID m) self b) = (q, b')" by fastforce
  have "(res, s', c') = (Some (self, q), s1\<lparr>pwaiting := mput (Token m) b' (pwaiting s1), cells := cs',
      latches := if q = None then l\<lparr>pairedLogged := mdel (Token m) (pairedLogged l)\<rparr> else l\<rparr>, c2)"
    using assms(5,1,3) notfull sc t f unfolding p_def cs'_def by (auto simp: pupsert_def Let_def)
  then have s': "res = Some (self, q)" "c' = c2" and s'': "s' = s1\<lparr>pwaiting := mput (Token m) b' (pwaiting s1), cells := cs',
      latches := if q = None then l\<lparr>pairedLogged := mdel (Token m) (pairedLogged l)\<rparr> else l\<rparr>" by auto
  note w = self_cell_writes [OF i b sc cs'_def] and sw = slot_written [OF i b sc cs'_def]
  have pv: "p = refresh now m src (case mget (load_bucket (cells s1) b) (ID m) of Some p \<Rightarrow> p
      | None \<Rightarrow> \<lparr>hp_id = ID m, hp_pubkey = [], hp_virtualIP = [], hp_name = [], cands = [], hp_seen = now\<rparr>)"
    using w(1) by (simp add: p_def blank_def cong: option.case_cong)
  have tv: "(if PubKey m \<noteq> [] then track_key m (view s1, c) else (view s1, c)) = (view (s1\<lparr>latches := l\<rparr>), c2)"
    using t by (auto simp: track_key_view split: if_splits)
  have fv: "find_partner now (hs_ttl (view (s1\<lparr>latches := l\<rparr>))) (ID m) (mput (ID m) p (load_bucket (cells s1) b)) =
      (map_option ((!) cs') q, load_bucket cs' b')"
    using pfind_partner_view [of now "hs_ttl l" "ID m" cs' "mput (ID m) self b"] f sw(1) by simp
  have wv: "map (load_entry cs') (mput (Token m) b' (pwaiting s1)) =
      mput (Token m) (load_bucket cs' b') (waiting (view (s1\<lparr>latches := l\<rparr>)))" using sw(2) by (simp add: view_def)
  have "upsert (view_order it s) now m src (view s, c) = (map_option (followed (cells s')) res, view s', c')"
    using upsert_registers [OF o bv _ tv pv fv refl] notfull n w(3) s' wv unfolding s''
    by (auto simp: followed_def view_def)
  moreover have "set b' \<subseteq> set (mput (ID m) self b)" "gomap b'"
    using pfind_partner_sub(1,2) [where now = now and d = "hs_ttl l" and cs = cs' and self = "ID m" and b = "mput (ID m) self b"] f i mget_in_set [OF b]
    by (auto simp: ptr_inv_def gomap_simps)
  then have "ptr_inv s'" unfolding s'' by (rule slot_inv [OF i b sc cs'_def])
  ultimately show ?thesis by blast
qed

lemma pupsert_view:
  assumes "ptr_inv s" and "pupsert it now m src (s, c) = (res, s', c')"
  shows "upsert (view_order it s) now m src (view s, c) = (map_option (followed (cells s')) res, view s', c')" and "ptr_inv s'"
proof -
  have "upsert (view_order it s) now m src (view s, c) = (map_option (followed (cells s')) res, view s', c') \<and> ptr_inv s'"
  proof (cases "popen_bucket it (Token m) s")
    case None
    then show ?thesis using assms popen_bucket_view [of it s "Token m"] by (auto simp: pupsert_def upsert_def)
  next
    case (Some s1)
    have o: "open_bucket (view_order it s) (Token m) (view s) = Some (view s1)" by (simp add: popen_bucket_view Some)
    have i: "ptr_inv s1" using popen_bucket_inv [OF assms(1) Some] by simp
    obtain b where b: "mget (pwaiting s1) (Token m) = Some b" using popen_bucket_present [OF Some] by blast
    then have wb: "mget (waiting (view s1)) (Token m) = Some (load_bucket (cells s1) b)" by (simp add: view_get)
    have n: "mget (load_bucket (cells s1) b) (ID m) = None \<longleftrightarrow> mget b (ID m) = None" by (simp add: load_bucket_get)
    show ?thesis
    proof (cases "mget b (ID m) = None \<and> length b \<ge> maxIDsPerToken")
      case True
      then show ?thesis
        using assms(2) Some b wb n i o ptr_inv_latches by (auto simp: pupsert_def upsert_def warn_view Let_def)
    next
      case False
      then show ?thesis using pupsert_slot [OF Some i b _ assms(2)] by blast
    qed
  qed
  then show "upsert (view_order it s) now m src (view s, c) = (map_option (followed (cells s')) res, view s', c')" and "ptr_inv s'"
    by blast+
qed

lemma notePaired_view: "notePaired tok (view s) = (fst (notePaired tok (latches s)), view (s\<lparr>latches := snd (notePaired tok (latches s))\<rparr>))"
  by (simp add: notePaired_def view_def)

lemma sidFor_view: "sidFor rnd tok (view s) = (fst (sidFor rnd tok (latches s)), view (s\<lparr>latches := snd (sidFor rnd tok (latches s))\<rparr>))"
  by (simp add: sidFor_def view_def split: option.split)

end
