(* ===== verification/Interleave.thy ===== *)
theory Interleave
  imports Shared "HOL-Library.Sublist"
begin

text \<open>
  The matchmaking server answers every request in a goroutine of its own. This theory models
  their interleaving over the registry with its pointers: a request is a thread that runs
  \<^verbatim>\<open>upsert\<close>, \<^verbatim>\<open>notePaired\<close> and \<^verbatim>\<open>sidFor\<close> under the lock, and in between renders its partner
  (\<^verbatim>\<open>asProtocolPeer\<close>) through the pointer that \<^verbatim>\<open>upsert\<close> returned, field after field and
  without the lock.

  A schedule is a list of actions; an action that its thread is not ready for does nothing. Every
  schedule has the effect of the critical sections of the value model in the order in which the lock
  was taken, with the same results, and each request takes it in the order of its code. The
  rendering is not covered by the lock: the partner's next registration writes the map that is being
  iterated over, and the entry that is rendered need not be one that ever existed.
\<close>

section \<open>Threads\<close>

text \<open>Where a request that has passed all checks stands: before \<^verbatim>\<open>upsert\<close>; before \<^verbatim>\<open>notePaired\<close>; about
  to read the scalar fields of its partner; iterating over the endpoints; about to read the time
  stamp; with the partner rendered, before \<^verbatim>\<open>issueTicket\<close>; done.\<close>

datatype pc =
    Entering
  | Noting addr
  | Reading addr
  | Iterating addr peer
  | Dating addr peer
  | Ticketing peer
  | Done "peer list option" "relayTicket option"

record thread =
  th_msg :: message
  th_src :: udpaddr
  th_now :: time
  th_pc :: pc

record conc =
  mem :: ptrRegistry
  cnt :: hsCounters
  threads :: "thread list"

definition boot :: "duration \<Rightarrow> conc" where
  "boot d = \<lparr>mem = new_ptrRegistry d, cnt = zero_counters, threads = []\<rparr>"

datatype action =
    Arrive message udpaddr time
  | Enter nat "(bytes \<times> ptrBucket) list \<Rightarrow> (bytes \<times> ptrBucket) list"
  | Note nat
  | ReadFields nat
  | ReadCands nat
  | ReadSeen nat
  | IssueTicket nat time "bytes option \<times> bytes option"
  | ReapTick time

definition pc_of :: "nat \<Rightarrow> conc \<Rightarrow> pc option" where
  "pc_of i s = (if i < length (threads s) then Some (th_pc (threads s ! i)) else None)"

definition goto :: "nat \<Rightarrow> pc \<Rightarrow> conc \<Rightarrow> conc" where
  "goto i pc s = s\<lparr>threads := (threads s)[i := (threads s ! i)\<lparr>th_pc := pc\<rparr>]\<rparr>"

text \<open>The rest of \<^verbatim>\<open>pairRegister\<close> after \<^verbatim>\<open>upsert\<close>: the counters, and where the request goes on.\<close>

definition after_upsert :: "(addr \<times> addr option) option \<Rightarrow> hsCounters \<Rightarrow> pc \<times> hsCounters" where
  "after_upsert res c =
     (case res of
        None \<Rightarrow> (Done None None, c\<lparr>dropped := dropped c + 1\<rparr>)
      | Some (self, None) \<Rightarrow> (Done (Some []) None, c)
      | Some (self, Some p) \<Rightarrow> (Noting p, c\<lparr>c_paired := c_paired c + 1\<rparr>))"

fun act :: "json \<Rightarrow> crypto \<Rightarrow> hs_config \<Rightarrow> action \<Rightarrow> conc \<Rightarrow> conc" where
  "act J C cfg (Arrive m src now) s =
     s\<lparr>threads := threads s @ [\<lparr>th_msg = m, th_src = src, th_now = now, th_pc = Entering\<rparr>]\<rparr>"
| "act J C cfg (Enter i it) s =
     (case pc_of i s of
        Some Entering \<Rightarrow>
          (let t = threads s ! i; (res, r, c) = pupsert it (th_now t) (th_msg t) (th_src t) (mem s, cnt s); (pc, c) = after_upsert res c
           in goto i pc (s\<lparr>mem := r, cnt := c\<rparr>))
      | _ \<Rightarrow> s)"
| "act J C cfg (Note i) s =
     (case pc_of i s of
        Some (Noting a) \<Rightarrow>
          goto i (Reading a) (s\<lparr>mem := (mem s)\<lparr>latches := snd (notePaired (Token (th_msg (threads s ! i))) (latches (mem s)))\<rparr>\<rparr>)
      | _ \<Rightarrow> s)"
| "act J C cfg (ReadFields i) s =
     (case pc_of i s of
        Some (Reading a) \<Rightarrow>
          (let p = cells (mem s) ! a in
           goto i (Iterating a \<lparr>pID = hp_id p, pPubKey = hp_pubkey p, pVirtualIP = hp_virtualIP p, pName = hp_name p, Candidates = [],
             pRelay = adv_endpoint (hadvert cfg), LastSeen = 0\<rparr>) s)
      | _ \<Rightarrow> s)"
| "act J C cfg (ReadCands i) s =
     (case pc_of i s of
        Some (Iterating a q) \<Rightarrow> goto i (Dating a (q\<lparr>Candidates := candidates (cells (mem s) ! a)\<rparr>)) s
      | _ \<Rightarrow> s)"
| "act J C cfg (ReadSeen i) s =
     (case pc_of i s of
        Some (Dating a q) \<Rightarrow> goto i (Ticketing (q\<lparr>LastSeen := unix_seconds (hp_seen (cells (mem s) ! a))\<rparr>)) s
      | _ \<Rightarrow> s)"
| "act J C cfg (IssueTicket i now rnd) s =
     (case pc_of i s of
        Some (Ticketing q) \<Rightarrow>
          (let (t, l) = issueTicket J C (hpriv cfg) now rnd (adv_rid (hadvert cfg)) (th_msg (threads s ! i)) q (latches (mem s))
           in goto i (Done (Some [q]) t) (s\<lparr>mem := (mem s)\<lparr>latches := l\<rparr>\<rparr>))
      | _ \<Rightarrow> s)"
| "act J C cfg (ReapTick now) s = s\<lparr>mem := preap_pass now (mem s)\<rparr>"

section \<open>What the lock protects\<close>

datatype reg_result = Upserted "(hsPeer \<times> hsPeer option) option" | Noted bool | Minted "bytes option" | Reaped

text \<open>The result of a critical section of the value model.\<close>

fun reg_answer :: "reg_event \<Rightarrow> hsRegistry \<times> hsCounters \<Rightarrow> reg_result" where
  "reg_answer (Upsert it now m src) rc = Upserted (fst (upsert it now m src rc))"
| "reg_answer (Paired tok) rc = Noted (fst (notePaired tok (fst rc)))"
| "reg_answer (MintSid rnd tok) rc = Minted (fst (sidFor rnd tok (fst rc)))"
| "reg_answer (RegReap now) rc = Reaped"

fun answers :: "reg_event list \<Rightarrow> hsRegistry \<times> hsCounters \<Rightarrow> reg_result list" where
  "answers [] rc = []"
| "answers (e # es) rc = reg_answer e rc # answers es (reg_step e rc)"

text \<open>\<^verbatim>\<open>issueTicket\<close> asks for the session id only if a ticket can be issued at all.\<close>

definition ticket_due :: "bytes \<Rightarrow> message \<Rightarrow> peer \<Rightarrow> bool" where
  "ticket_due rid m q \<longleftrightarrow> rid \<noteq> [] \<and> RegEphPub m \<noteq> [] \<and> PubKey m \<noteq> pPubKey q \<and>
     (case b64url_decode (RegEphPub m) of None \<Rightarrow> False | Some raw \<Rightarrow> length raw = PublicKeySize)"

text \<open>The critical section that an action runs, if any: the thread, the section as one of the value
  model, and what it really returned, with pointers followed at the time the lock is released.\<close>

fun section_of :: "hs_config \<Rightarrow> action \<Rightarrow> conc \<Rightarrow> (nat option \<times> reg_event \<times> reg_result) list" where
  "section_of cfg (Enter i it) s =
     (if pc_of i s = Some Entering
      then let t = threads s ! i; (res, r, c) = pupsert it (th_now t) (th_msg t) (th_src t) (mem s, cnt s)
           in [(Some i, Upsert (view_order it (mem s)) (th_now t) (th_msg t) (th_src t), Upserted (map_option (followed (cells r)) res))]
      else [])"
| "section_of cfg (Note i) s =
     (case pc_of i s of
        Some (Noting a) \<Rightarrow> (let tok = Token (th_msg (threads s ! i)) in [(Some i, Paired tok, Noted (fst (notePaired tok (latches (mem s)))))])
      | _ \<Rightarrow> [])"
| "section_of cfg (IssueTicket i now rnd) s =
     (case pc_of i s of
        Some (Ticketing q) \<Rightarrow>
          (let m = th_msg (threads s ! i) in
           if ticket_due (adv_rid (hadvert cfg)) m q
           then [(Some i, MintSid (fst rnd) (Token m), Minted (fst (sidFor (fst rnd) (Token m) (latches (mem s)))))] else [])
      | _ \<Rightarrow> [])"
| "section_of cfg (ReapTick now) s = [(None, RegReap now, Reaped)]"
| "section_of cfg _ s = []"

fun history :: "json \<Rightarrow> crypto \<Rightarrow> hs_config \<Rightarrow> action list \<Rightarrow> conc \<Rightarrow> (nat option \<times> reg_event \<times> reg_result) list" where
  "history J C cfg [] s = []"
| "history J C cfg (a # as) s = section_of cfg a s @ history J C cfg as (act J C cfg a s)"

text \<open>The critical sections of one request, and the order its code takes them in.\<close>

definition of_thread :: "nat \<Rightarrow> (nat option \<times> reg_event \<times> reg_result) list \<Rightarrow> reg_event list" where
  "of_thread i h = map (\<lambda>e. fst (snd e)) (filter (\<lambda>e. fst e = Some i) h)"

definition program ::
  "((bytes \<times> hsBucket) list \<Rightarrow> (bytes \<times> hsBucket) list) \<Rightarrow> bytes option \<Rightarrow> thread \<Rightarrow> reg_event list" where
  "program it rnd t =
     [Upsert it (th_now t) (th_msg t) (th_src t), Paired (Token (th_msg t)), MintSid rnd (Token (th_msg t))]"

section \<open>Interleavings are sequences\<close>

abbreviation event_of :: "nat option \<times> reg_event \<times> reg_result \<Rightarrow> reg_event" where
  "event_of e \<equiv> fst (snd e)"

abbreviation result_of :: "nat option \<times> reg_event \<times> reg_result \<Rightarrow> reg_result" where
  "result_of e \<equiv> snd (snd e)"

lemma answers_append: "answers (es @ es') rc = answers es rc @ answers es' (fold reg_step es rc)"
  by (induction es arbitrary: rc) simp_all

lemma track_key_counters: "fst (track_key m (r, c)) = fst (track_key m (r, c'))"
  by (simp add: track_key_def Let_def)

text \<open>Neither what \<^const>\<open>upsert\<close> returns nor what it makes of the registry depends on the statistics.\<close>

lemma upsert_counters:
  "fst (upsert it now m src (r, c)) = fst (upsert it now m src (r, c')) \<and>
   fst (snd (upsert it now m src (r, c))) = fst (snd (upsert it now m src (r, c')))"
proof (cases "open_bucket it (Token m) r")
  case (Some s)
  let ?b = "case mget (waiting s) (Token m) of None \<Rightarrow> [] | Some b \<Rightarrow> b"
  show ?thesis
  proof (cases "mget ?b (ID m) = None \<and> length ?b \<ge> maxIDsPerToken")
    case True
    then show ?thesis using Some by (simp add: upsert_def)
  next
    case False
    obtain r2 c2 where t: "(if PubKey m \<noteq> [] then track_key m (s, c) else (s, c)) = (r2, c2)" by fastforce
    then obtain c2' where t': "(if PubKey m \<noteq> [] then track_key m (s, c') else (s, c')) = (r2, c2')"
      using track_key_counters [of m s c' c] by (cases "track_key m (s, c')") (auto split: if_splits)
    obtain q b' where f: "find_partner now (hs_ttl r2) (ID m) (mput (ID m) (refresh now m src (case mget ?b (ID m) of Some p \<Rightarrow> p
     | None \<Rightarrow> \<lparr>hp_id = ID m, hp_pubkey = [], hp_virtualIP = [], hp_name = [], cands = [], hp_seen = now\<rparr>)) ?b) = (q, b')" by fastforce
    show ?thesis
      using upsert_registers [OF Some refl False t refl f refl] upsert_registers [OF Some refl False t' refl f refl] by simp
  qed
qed (simp add: upsert_def)

lemma issueTicket_section:
  "snd (issueTicket J C priv now rnd rid m q r) = (if ticket_due rid m q then snd (sidFor (fst rnd) (Token m) r) else r)"
  by (auto simp: issueTicket_def ticket_due_def Let_def split: option.split prod.split)

lemma goto_mem [simp]: "mem (goto i pc s) = mem s" "length (threads (goto i pc s)) = length (threads s)"
  by (simp_all add: goto_def)

text \<open>One action is at most one critical section.\<close>

lemma act_section:
  assumes "ptr_inv (mem s)" and "fst rc = view (mem s)"
  shows "fst (fold reg_step (map event_of (section_of cfg a s)) rc) = view (mem (act J C cfg a s))"
    and "map result_of (section_of cfg a s) = answers (map event_of (section_of cfg a s)) rc"
    and "ptr_inv (mem (act J C cfg a s))"
proof -
  obtain c where rc: "rc = (view (mem s), c)" using assms(2) by (metis prod.collapse)
  have "fst (fold reg_step (map event_of (section_of cfg a s)) rc) = view (mem (act J C cfg a s)) \<and>
    map result_of (section_of cfg a s) = answers (map event_of (section_of cfg a s)) rc \<and> ptr_inv (mem (act J C cfg a s))"
  proof (cases a)
    case (Enter i it)
    show ?thesis
    proof (cases "pc_of i s = Some Entering")
      case True
      let ?t = "threads s ! i"
      obtain res r c' where u: "pupsert it (th_now ?t) (th_msg ?t) (th_src ?t) (mem s, cnt s) = (res, r, c')" by (metis prod_cases3)
      obtain pc c'' where af: "after_upsert res c' = (pc, c'')" by fastforce
      note v = pupsert_view [OF assms(1) u]
      show ?thesis
        using v upsert_counters [of "view_order it (mem s)" "th_now ?t" "th_msg ?t" "th_src ?t" "view (mem s)" "cnt s" c]
        by (simp add: Enter True u af rc Let_def)
    next
      case False
      then have "act J C cfg a s = s" unfolding Enter by (auto split: option.split pc.split)
      then show ?thesis using assms(1) rc Enter False by simp
    qed
  next
    case (Note i)
    then show ?thesis using assms(1)
      by (simp add: rc notePaired_view ptr_inv_latches Let_def split: option.split pc.split)
  next
    case (IssueTicket i now rnd)
    then show ?thesis
      using assms(1) issueTicket_section
      by (simp add: rc sidFor_view ptr_inv_latches Let_def case_prod_unfold split: option.split pc.split)
  next
    case (ReapTick now)
    then show ?thesis using assms(1) by (simp add: rc preap_pass_view preap_pass_inv)
  qed (use assms(1) rc in \<open>simp_all add: Let_def split: option.split pc.split\<close>)
  then show "fst (fold reg_step (map event_of (section_of cfg a s)) rc) = view (mem (act J C cfg a s))"
    and "map result_of (section_of cfg a s) = answers (map event_of (section_of cfg a s)) rc"
    and "ptr_inv (mem (act J C cfg a s))" by blast+
qed

lemma run_sections:
  assumes "ptr_inv (mem s)" and "fst rc = view (mem s)"
  shows "fst (fold reg_step (map event_of (history J C cfg as s)) rc) = view (mem (fold (act J C cfg) as s)) \<and>
    map result_of (history J C cfg as s) = answers (map event_of (history J C cfg as s)) rc \<and> ptr_inv (mem (fold (act J C cfg) as s))"
  using assms
proof (induction as arbitrary: s rc)
  case (Cons a as)
  note st = act_section [OF Cons.prems, where cfg = cfg and a = a]
  from Cons.IH [OF st(3) st(1) [where J = J and C = C]] st(2) show ?case by (simp add: answers_append)
qed simp

text \<open>How many critical sections a request has passed.\<close>

fun sections_passed :: "pc \<Rightarrow> nat set" where
  "sections_passed Entering = {0}"
| "sections_passed (Noting a) = {1}"
| "sections_passed (Done ps t) = {1, 2, 3}"
| "sections_passed _ = {2}"

definition sections_in_order :: "(nat option \<times> reg_event \<times> reg_result) list \<Rightarrow> conc \<Rightarrow> bool" where
  "sections_in_order h s \<longleftrightarrow> (\<forall>i. if i < length (threads s)
     then \<exists>it rnd. \<exists>n \<in> sections_passed (th_pc (threads s ! i)). of_thread i h = take n (program it rnd (threads s ! i))
     else of_thread i h = [])"

lemma of_thread_append: "of_thread i (h @ h') = of_thread i h @ of_thread i h'"
  by (simp add: of_thread_def)

lemma in_order_goto:
  assumes "sections_in_order h s" and "pc_of i s = Some pc" and "\<forall>e \<in> set es. fst e = Some i"
    and "\<And>it rnd n. n \<in> sections_passed pc \<Longrightarrow> \<exists>it' rnd'. \<exists>n' \<in> sections_passed pc'.
      take n (program it rnd (threads s ! i)) @ map event_of es = take n' (program it' rnd' (threads s ! i))"
    and "threads s' = threads (goto i pc' s)"
  shows "sections_in_order (h @ es) s'"
  unfolding sections_in_order_def
proof
  fix j
  have i: "i < length (threads s)" "th_pc (threads s ! i) = pc" using assms(2) by (auto simp: pc_of_def split: if_splits)
  have p: "program it rnd ((threads s ! i)\<lparr>th_pc := pc'\<rparr>) = program it rnd (threads s ! i)" for it rnd by (simp add: program_def)
  have e: "of_thread j es = (if j = i then map event_of es else [])"
    using assms(3) by (auto simp: of_thread_def filter_empty_conv intro!: filter_True)
  from assms(1) have h: "if j < length (threads s)
     then \<exists>it rnd. \<exists>n \<in> sections_passed (th_pc (threads s ! j)). of_thread j h = take n (program it rnd (threads s ! j))
     else of_thread j h = []" by (simp add: sections_in_order_def)
  show "if j < length (threads s')
     then \<exists>it rnd. \<exists>n \<in> sections_passed (th_pc (threads s' ! j)). of_thread j (h @ es) = take n (program it rnd (threads s' ! j))
     else of_thread j (h @ es) = []"
  proof (cases "j = i")
    case True
    from h i True obtain it rnd n where "n \<in> sections_passed pc" "of_thread i h = take n (program it rnd (threads s ! i))" by auto
    then show ?thesis using assms(4) [of n it rnd] i(1) e p True unfolding assms(5) by (simp add: goto_def of_thread_append)
  next
    case False
    then show ?thesis using h e unfolding assms(5) by (simp add: goto_def of_thread_append)
  qed
qed

lemma take_program:
  "take 0 (program it rnd t) = []" "take (Suc 0) (program it rnd t) = [Upsert it (th_now t) (th_msg t) (th_src t)]"
  "take 2 (program it rnd t) = [Upsert it (th_now t) (th_msg t) (th_src t), Paired (Token (th_msg t))]"
  "take 3 (program it rnd t) = program it rnd t"
  by (simp_all add: program_def)

lemma in_order_same: "sections_in_order h s \<Longrightarrow> threads s' = threads s \<Longrightarrow> \<forall>e \<in> set es. fst e = None \<Longrightarrow> sections_in_order (h @ es) s'"
proof -
  assume "\<forall>e \<in> set es. fst e = None"
  then have "of_thread i es = []" for i by (auto simp: of_thread_def filter_empty_conv)
  moreover assume "sections_in_order h s" "threads s' = threads s"
  ultimately show ?thesis by (simp add: sections_in_order_def of_thread_append)
qed

lemma in_order_read: "pc_of i s = Some pc \<Longrightarrow> sections_in_order h s \<Longrightarrow> sections_passed pc = {2} \<Longrightarrow> sections_passed pc' = {2} \<Longrightarrow> sections_in_order h (goto i pc' s)"
  using in_order_goto [where es = "[]" and pc' = pc' and s' = "goto i pc' s"] by fastforce

lemma act_sections_in_order:
  assumes "sections_in_order h s"
  shows "sections_in_order (h @ section_of cfg a s) (act J C cfg a s)"
proof (cases a)
  case (Arrive m src now)
  then show ?thesis using assms by (fastforce simp: sections_in_order_def nth_append less_Suc_eq split: if_splits)
next
  case (Enter i it)
  show ?thesis
  proof (cases "pc_of i s = Some Entering")
    case True
    obtain res r c where u: "pupsert it (th_now (threads s ! i)) (th_msg (threads s ! i)) (th_src (threads s ! i)) (mem s, cnt s) = (res, r, c)"
      by (metis prod_cases3)
    obtain pc c' where af: "after_upsert res c = (pc, c')" by fastforce
    then have "1 \<in> sections_passed pc" by (auto simp: after_upsert_def split: option.splits prod.splits)
    then have "\<exists>it' rnd'. \<exists>n' \<in> sections_passed pc. [Upsert ord (th_now t) (th_msg t) (th_src t)] = take n' (program it' rnd' t)" for ord t
      using take_program(2) by (metis One_nat_def)
    then show ?thesis
      using True u af unfolding Enter
      by (intro in_order_goto [OF assms True, where pc' = pc]) (simp_all add: take_program(1) goto_def Let_def)
  next
    case False
    then have "act J C cfg a s = s" "section_of cfg a s = []" unfolding Enter by (auto split: option.split pc.split)
    then show ?thesis using assms by simp
  qed
next
  case (Note i)
  show ?thesis
  proof (cases "\<exists>a. pc_of i s = Some (Noting a)")
    case True
    then obtain a where p: "pc_of i s = Some (Noting a)" by blast
    show ?thesis
      using p unfolding Note
      by (intro in_order_goto [OF assms p, where pc' = "Reading a"]) (auto simp: take_program goto_def Let_def)
  next
    case False
    then have "act J C cfg a s = s" "section_of cfg a s = []" unfolding Note by (auto split: option.split pc.split)
    then show ?thesis using assms by simp
  qed
next
  case (IssueTicket i now rnd)
  show ?thesis
  proof (cases "\<exists>q. pc_of i s = Some (Ticketing q)")
    case True
    then obtain q where p: "pc_of i s = Some (Ticketing q)" by blast
    obtain t l where it: "issueTicket J C (hpriv cfg) now rnd (adv_rid (hadvert cfg)) (th_msg (threads s ! i)) q (latches (mem s)) = (t, l)" by fastforce
    show ?thesis
      using p it unfolding IssueTicket
      by (intro in_order_goto [OF assms p, where pc' = "Done (Some [q]) t"]) (auto simp: take_program goto_def Let_def program_def)
  next
    case False
    then have "act J C cfg a s = s" "section_of cfg a s = []" unfolding IssueTicket by (auto split: option.split pc.split)
    then show ?thesis using assms by simp
  qed
next
  case (ReapTick now)
  then show ?thesis using in_order_same [OF assms] by simp
qed (use assms in \<open>auto simp: Let_def split: option.split pc.split elim!: in_order_read\<close>)

lemma run_in_order: "sections_in_order h s \<Longrightarrow> sections_in_order (h @ history J C cfg as s) (fold (act J C cfg) as s)"
proof (induction as arbitrary: h s)
  case (Cons a as)
  from Cons.IH [OF act_sections_in_order [OF Cons.prems, of cfg a J C]] show ?case by simp
qed simp

text \<open>C10: the concurrent server is a sequence of critical sections. Whatever requests arrive and however
  their goroutines and the reaper are interleaved, the registry, with every pointer followed, is what
  the critical sections make of the empty one when they run one after the other by value, in
  the order in which the lock was taken. Each of them returned what it returns in that
  sequence: the records that \<^verbatim>\<open>upsert\<close> handed out pointers to, the latch, the session id. And
  the sections of each request are a prefix of those in its code, with its own message,
  endpoint and time. No two slots of the registry ever point to the same record.\<close>

theorem interleavings_linearize:
  "let s = fold (act J C cfg) as (boot d); h = history J C cfg as (boot d); start = (newHSRegistry d, zero_counters) in
     view (mem s) = fst (fold reg_step (map event_of h) start) \<and>
     map result_of h = answers (map event_of h) start \<and>
     list_all (\<lambda>i. \<exists>it rnd. prefix (of_thread i h) (program it rnd (threads s ! i))) [0..<length (threads s)] \<and>
     ptr_inv (mem s)"
proof -
  have v: "ptr_inv (mem (boot d))" "fst (newHSRegistry d, zero_counters) = view (mem (boot d))" by (simp_all add: boot_def new_ptr_inv)
  have "sections_in_order [] (boot d)" by (simp add: sections_in_order_def of_thread_def boot_def)
  then have o: "sections_in_order (history J C cfg as (boot d)) (fold (act J C cfg) as (boot d))"
    using run_in_order [of "[]" "boot d" J C cfg as] by simp
  then have "\<exists>it rnd. prefix (of_thread i (history J C cfg as (boot d))) (program it rnd (threads (fold (act J C cfg) as (boot d)) ! i))"
    if "i < length (threads (fold (act J C cfg) as (boot d)))" for i
    using that unfolding sections_in_order_def by (metis take_is_prefix)
  then show ?thesis using run_sections [OF v, of J C cfg as] by (simp add: Let_def list_all_iff)
qed

section \<open>The rendering races with a registration\<close>

lemma refresh_seen: "hp_seen (refresh t m src p) = t"
  by (simp add: refresh_def observe_def Let_def)

lemma pupsert_effect:
  assumes "popen_bucket it (Token m) s = Some s1" and "mget (pwaiting s1) (Token m) = Some b"
    and "\<not> (mget b (ID m) = None \<and> length b \<ge> maxIDsPerToken)" and "self_cell now m b (cells s1) = (self, cs)"
    and "cs' = cs[self := refresh now m src (cs ! self)]"
    and "pfind_partner now (hs_ttl (latches s1)) cs' (ID m) (mput (ID m) self b) = (q, b')"
  obtains s' c' where "pupsert it now m src (s, c) = (Some (self, q), s', c')" "cells s' = cs'"
    "mget (pwaiting s') (Token m) = Some b'" "hs_ttl (latches s') = hs_ttl (latches s1)"
proof -
  obtain l c2 where t: "(if PubKey m \<noteq> [] then track_key m (latches s1, c) else (latches s1, c)) = (l, c2)" by fastforce
  then have ttl: "hs_ttl l = hs_ttl (latches s1)"
    by (auto simp: track_key_def warnIntruderLocked_def Let_def split: if_splits)
  let ?s = "s1\<lparr>pwaiting := mput (Token m) b' (pwaiting s1), cells := cs',
     latches := if q = None then l\<lparr>pairedLogged := mdel (Token m) (pairedLogged l)\<rparr> else l\<rparr>"
  have "pupsert it now m src (s, c) = (Some (self, q), ?s, c2)"
    using assms t ttl by (auto simp: pupsert_def Let_def)
  then show thesis using ttl by (intro that [of ?s c2]) (simp_all add: gomap_simps)
qed

text \<open>Two buddies register a new token: two new cells, and the second request gets the address of the
  first one's.\<close>

lemma pair_pointers:
  assumes "mget (pwaiting s) (Token mA) = None" and "length (pwaiting s) < maxTokens" and "Token mB = Token mA" and "ID mA \<noteq> ID mB"
    and "tB - tA \<le> hs_ttl (latches s)" and "a = length (cells s)"
  obtains s1 c1 s2 c2 where
    "pupsert id tA mA srcA (s, c) = (Some (a, None), s1, c1)" "pupsert id tB mB srcB (s1, after c1) = (Some (Suc a, Some a), s2, c2)"
    "cells s2 = cells s @ [refresh tA mA srcA (blank tA mA), refresh tB mB srcB (blank tB mB)]"
    "mget (pwaiting s2) (Token mA) = Some [(ID mA, a), (ID mB, Suc a)]"
proof -
  let ?pA = "refresh tA mA srcA (blank tA mA)" and ?pB = "refresh tB mB srcB (blank tB mB)"
  have o1: "popen_bucket id (Token mA) s = Some (s\<lparr>pwaiting := mput (Token mA) [] (pwaiting s)\<rparr>)"
    using assms(1,2) by (simp add: popen_bucket_def)
  obtain s1 c1 where u1: "pupsert id tA mA srcA (s, c) = (Some (a, None), s1, c1)" "cells s1 = cells s @ [?pA]"
    "mget (pwaiting s1) (Token mA) = Some [(ID mA, a)]" "hs_ttl (latches s1) = hs_ttl (latches s)"
    by (rule pupsert_effect [OF o1, where b = "[]" and self = a and cs = "cells s @ [blank tA mA]" and now = tA and src = srcA
          and cs' = "cells s @ [?pA]" and q = None and b' = "[(ID mA, a)]" and c = c])
      (simp_all add: gomap_simps self_cell_def assms(6) maxIDsPerToken_def)
  have seen: "hp_seen ?pA = tA" by (rule refresh_seen)
  have o2: "popen_bucket id (Token mB) s1 = Some s1" using u1(3) assms(3) by (simp add: popen_bucket_def)
  obtain s2 c2 where u2: "pupsert id tB mB srcB (s1, after c1) = (Some (Suc a, Some a), s2, c2)" "cells s2 = cells s1 @ [?pB]"
    "mget (pwaiting s2) (Token mB) = Some [(ID mA, a), (ID mB, Suc a)]"
    by (rule pupsert_effect [OF o2, where b = "[(ID mA, a)]" and self = "Suc a" and cs = "cells s1 @ [blank tB mB]" and now = tB
          and src = srcB and cs' = "cells s1 @ [?pB]" and q = "Some a" and b' = "[(ID mA, a), (ID mB, Suc a)]" and c = "after c1"])
      (use assms(3-6) u1 seen in \<open>simp_all add: self_cell_def maxIDsPerToken_def nth_append list_update_append\<close>)
  then show thesis using that u1 assms(3) by simp
qed

lemma refresh_again:
  assumes "UDPAddr_String src' \<noteq> UDPAddr_String src"
  shows "cands (refresh t' m' src' (refresh t m src (blank t m))) \<noteq> cands (refresh t m src (blank t m))"
    and "candidates (refresh t' m' src' (refresh t m src (blank t m))) \<noteq> candidates (refresh t m src (blank t m))"
proof -
  have c: "cands (refresh t m src (blank t m)) = [(UDPAddr_String src, \<lparr>Addr = UDPAddr_String src, V6 = (To4 (IP src) = None)\<rparr>)]"
    by (simp add: refresh_def observe_def blank_def maxCandsPerPeer_def Let_def)
  then have l: "length (cands (refresh t' m' src' (refresh t m src (blank t m)))) = 2"
    using assms by (simp add: refresh_def [of t'] observe_def maxCandsPerPeer_def Let_def)
  show "cands (refresh t' m' src' (refresh t m src (blank t m))) \<noteq> cands (refresh t m src (blank t m))"
    using c l by auto
  have "length (candidates (refresh t' m' src' (refresh t m src (blank t m)))) \<noteq> length (candidates (refresh t m src (blank t m)))"
    using c l by (simp add: candidates_def)
  then show "candidates (refresh t' m' src' (refresh t m src (blank t m))) \<noteq> candidates (refresh t m src (blank t m))" by metis
qed

text \<open>The second buddy iterates over the endpoints of the first, whose next request waits for the lock.\<close>

lemma race_prefix:
  assumes "mget (pwaiting (mem s)) (Token mA) = None" and "length (pwaiting (mem s)) < maxTokens" and "Token mB = Token mA"
    and "ID mA \<noteq> ID mB" and "tB - tA \<le> hs_ttl (latches (mem s))" and "threads s = []"
  obtains s1 a q where
    "fold (act J C cfg) [Arrive mA srcA tA, Enter 0 id, Arrive mB srcB tB, Enter 1 id, Note 1, ReadFields 1, Arrive mA' srcA' tA'] s = s1"
    "pc_of 1 s1 = Some (Iterating a q)" "pc_of 2 s1 = Some Entering" "length (threads s1) = 3"
    "threads s1 ! 2 = \<lparr>th_msg = mA', th_src = srcA', th_now = tA', th_pc = Entering\<rparr>" "threads s1 ! 1 = \<lparr>th_msg = mB, th_src = srcB, th_now = tB, th_pc = Iterating a q\<rparr>"
    "cells (mem s1) ! a = refresh tA mA srcA (blank tA mA)" "a < length (cells (mem s1))"
    "\<exists>b. mget (pwaiting (mem s1)) (Token mA) = Some b \<and> mget b (ID mA) = Some a"
proof -
  let ?after = "\<lambda>c. snd (after_upsert (Some (length (cells (mem s)), None)) c)"
  obtain m1 c1 m2 c2 where u: "pupsert id tA mA srcA (mem s, cnt s) = (Some (length (cells (mem s)), None), m1, c1)"
    "pupsert id tB mB srcB (m1, ?after c1) = (Some (Suc (length (cells (mem s))), Some (length (cells (mem s)))), m2, c2)"
    "cells m2 = cells (mem s) @ [refresh tA mA srcA (blank tA mA), refresh tB mB srcB (blank tB mB)]"
    "mget (pwaiting m2) (Token mA) = Some [(ID mA, length (cells (mem s))), (ID mB, Suc (length (cells (mem s))))]"
    by (rule pair_pointers [OF assms(1-5) refl, of srcA "cnt s" srcB ?after])
  show thesis
    by (rule that [OF refl, where a = "length (cells (mem s))"])
      (use u assms(6) in \<open>simp_all add: pc_of_def goto_def after_upsert_def Let_def nth_append\<close>)
qed

text \<open>C35: an ordinary pairing runs into a data race. While the request of the second buddy renders the
  first one's record, the first buddy registers again from another endpoint, as it does for IPv4
  and IPv6. Its \<^verbatim>\<open>upsert\<close> writes, under the lock, the very map of endpoints that the other request
  iterates over without it. And if the write falls between the iteration and the read of the time
  stamp, the rendered entry carries the old endpoints with the new time: it is the rendering of no
  state that the record was ever in.\<close>

theorem render_race:
  assumes "mget (pwaiting (mem s)) (Token mA) = None" and "length (pwaiting (mem s)) < maxTokens" and "Token mB = Token mA"
    and "ID mA \<noteq> ID mB" and "tB - tA \<le> hs_ttl (latches (mem s))" and "threads s = []"
    and "Token mA' = Token mA" and "ID mA' = ID mA" and "UDPAddr_String srcA' \<noteq> UDPAddr_String srcA" and "unix_seconds tA' \<noteq> unix_seconds tA"
  shows "\<exists>a q r. let s1 = fold (act J C cfg) [Arrive mA srcA tA, Enter 0 id, Arrive mB srcB tB, Enter 1 id, Note 1, ReadFields 1, Arrive mA' srcA' tA'] s;
      s2 = act J C cfg (Enter 2 id) s1; s3 = fold (act J C cfg) [ReadCands 1, Enter 2 id, ReadSeen 1] s1;
      old = cells (mem s1) ! a; new = cells (mem s2) ! a; entry = asProtocolPeer (adv_endpoint (hadvert cfg)) in
    pc_of 1 s1 = Some (Iterating a q) \<and> cands new \<noteq> cands old \<and>
    pc_of 1 s3 = Some (Ticketing r) \<and> cells (mem s3) ! a = new \<and>
    Candidates r = Candidates (entry old) \<and> LastSeen r = LastSeen (entry new) \<and> r \<noteq> entry old \<and> r \<noteq> entry new"
proof -
  let ?as = "[Arrive mA srcA tA, Enter 0 id, Arrive mB srcB tB, Enter 1 id, Note 1, ReadFields 1, Arrive mA' srcA' tA']"
  let ?old = "refresh tA mA srcA (blank tA mA)" let ?new = "refresh tA' mA' srcA' ?old"
  obtain s1 a q where p: "fold (act J C cfg) ?as s = s1" "pc_of 1 s1 = Some (Iterating a q)" "pc_of 2 s1 = Some Entering" "length (threads s1) = 3"
    "threads s1 ! 2 = \<lparr>th_msg = mA', th_src = srcA', th_now = tA', th_pc = Entering\<rparr>" "threads s1 ! 1 = \<lparr>th_msg = mB, th_src = srcB, th_now = tB, th_pc = Iterating a q\<rparr>"
    "cells (mem s1) ! a = ?old" "a < length (cells (mem s1))" "\<exists>b. mget (pwaiting (mem s1)) (Token mA) = Some b \<and> mget b (ID mA) = Some a"
    by (rule race_prefix [OF assms(1-6)])
  obtain b where b: "mget (pwaiting (mem s1)) (Token mA') = Some b" "mget b (ID mA') = Some a" using p(9) assms(7,8) by auto
  have o: "popen_bucket id (Token mA') (mem s1) = Some (mem s1)" using b(1) by (simp add: popen_bucket_def)
  let ?cs = "(cells (mem s1))[a := ?new]"
  obtain x b' where f: "pfind_partner tA' (hs_ttl (latches (mem s1))) ?cs (ID mA') (mput (ID mA') a b) = (x, b')" by fastforce
  obtain m2 c2 where u: "pupsert id tA' mA' srcA' (mem s1, cnt s1) = (Some (a, x), m2, c2)" "cells m2 = ?cs"
    by (rule pupsert_effect [OF o b(1), where self = a and cs = "cells (mem s1)" and now = tA' and src = srcA' and c = "cnt s1"])
      (use b(2) f p(7) in \<open>simp_all add: self_cell_def\<close>)
  obtain pc c3 where af: "after_upsert (Some (a, x)) c2 = (pc, c3)" by fastforce
  let ?s3 = "fold (act J C cfg) [ReadCands 1, Enter 2 id, ReadSeen 1] s1"
  let ?r = "q\<lparr>Candidates := candidates ?old, LastSeen := unix_seconds tA'\<rparr>"
  have new: "cells (mem (act J C cfg (Enter 2 id) s1)) ! a = ?new" using p(3,5,8) u af by simp
  have s3: "pc_of 1 ?s3 = Some (Ticketing ?r)" "cells (mem ?s3) ! a = ?new"
    using p(2-8) u af refresh_seen by (simp_all add: pc_of_def goto_def)
  have ne: "cands ?new \<noteq> cands ?old" "candidates ?new \<noteq> candidates ?old" "hp_seen ?new = tA'" "hp_seen ?old = tA"
    using refresh_again [OF assms(9)] refresh_seen by simp_all
  have "Candidates ?r = candidates ?old \<and> LastSeen ?r = unix_seconds tA'" by simp
  then have r: "Candidates ?r = Candidates (asProtocolPeer rel ?old) \<and> LastSeen ?r = LastSeen (asProtocolPeer rel ?new) \<and>
      ?r \<noteq> asProtocolPeer rel ?old \<and> ?r \<noteq> asProtocolPeer rel ?new" for rel
    using ne(2-4) assms(10) unfolding asProtocolPeer_def by (metis peer.select_convs(5,7))
  show ?thesis
    unfolding p(1) Let_def
    by (rule exI [of _ a], rule exI [of _ q], rule exI [of _ ?r], unfold new s3(2) p(7)) (use p(2) ne(1) s3(1) r in blast)
qed

section \<open>A session id outlives its token\<close>

lemma track_key_frame: "track_key m (r, c) = (r', c') \<Longrightarrow> waiting r' = waiting r \<and> sids r' = sids r \<and> hs_ttl r' = hs_ttl r"
  by (auto simp: track_key_def warnIntruderLocked_def Let_def split: if_splits)

lemma upsert_sids:
  assumes "open_bucket it (Token m) r = Some r1" and "sids r1 = sids r"
  shows "sids (fst (snd (upsert it now m src (r, c)))) = sids r"
proof -
  define b where "b = (case mget (waiting r1) (Token m) of None \<Rightarrow> [] | Some b \<Rightarrow> b)"
  show ?thesis
  proof (cases "mget b (ID m) = None \<and> length b \<ge> maxIDsPerToken")
    case True
    then show ?thesis using assms by (simp add: upsert_def b_def warnIntruderLocked_def)
  next
    case False
    obtain r2 c2 where rc2: "(if PubKey m \<noteq> [] then track_key m (r1, c) else (r1, c)) = (r2, c2)" by fastforce
    then have w2: "sids r2 = sids r1" using track_key_frame by (auto split: if_splits)
    define p where "p = refresh now m src (case mget b (ID m) of Some p \<Rightarrow> p
     | None \<Rightarrow> \<lparr>hp_id = ID m, hp_pubkey = [], hp_virtualIP = [], hp_name = [], cands = [], hp_seen = now\<rparr>)"
    obtain q b' where f: "find_partner now (hs_ttl r2) (ID m) (mput (ID m) p b) = (q, b')" by fastforce
    show ?thesis
      using upsert_registers [OF assms(1) b_def False rc2 p_def f refl] assms(2) w2 by simp
  qed
qed

text \<open>Events other than a registration of the token.\<close>

fun registers :: "bytes \<Rightarrow> reg_event \<Rightarrow> bool" where
  "registers tok (Upsert it now m src) \<longleftrightarrow> Token m = tok"
| "registers tok e \<longleftrightarrow> False"

lemma open_bucket_absent:
  assumes "open_bucket it tok' r = Some r1" and "tok \<notin> mkeys (waiting r)" and "tok' \<noteq> tok"
  shows "tok \<notin> mkeys (waiting r1) \<and> mget (sids r1) tok = mget (sids r) tok"
proof (cases "mget (waiting r) tok' \<noteq> None \<or> length (waiting r) < maxTokens")
  case True
  then have "r1 = r \<or> r1 = r\<lparr>waiting := mput tok' [] (waiting r)\<rparr>" using assms(1) by (auto simp: open_bucket_def split: if_splits)
  then show ?thesis using assms(2,3) by (elim disjE) (simp_all add: mkeys_mput)
next
  case False
  then obtain r0 where "evictStalestLocked it r = Some r0" "r1 = r0\<lparr>waiting := mput tok' [] (waiting r0)\<rparr>"
    using assms(1) by (auto simp: open_bucket_def split: option.splits)
  moreover from this(1) obtain v where "v \<in> mkeys (waiting r)" "r0 = forget v r" by (rule evict_victim)
  ultimately show ?thesis using assms(2,3) by (cases "v = tok") (simp_all add: mkeys_mput forget_def mkeys_mdel mget_mdel)
qed

lemma upsert_absent:
  assumes "tok \<notin> mkeys (waiting r)" and "Token m \<noteq> tok"
  shows "tok \<notin> mkeys (waiting (fst (snd (upsert it now m src (r, c))))) \<and>
    mget (sids (fst (snd (upsert it now m src (r, c))))) tok = mget (sids r) tok"
proof (cases "open_bucket it (Token m) r")
  case None
  then show ?thesis using assms by (simp add: upsert_def)
next
  case (Some r1)
  note w1 = open_bucket_absent [OF Some assms]
  define b where "b = (case mget (waiting r1) (Token m) of None \<Rightarrow> [] | Some b \<Rightarrow> b)"
  show ?thesis
  proof (cases "mget b (ID m) = None \<and> length b \<ge> maxIDsPerToken")
    case True
    then show ?thesis using w1 by (simp add: upsert_def Some b_def warnIntruderLocked_def)
  next
    case False
    obtain r2 c2 where rc2: "(if PubKey m \<noteq> [] then track_key m (r1, c) else (r1, c)) = (r2, c2)" by fastforce
    then have w2: "waiting r2 = waiting r1" "sids r2 = sids r1" using track_key_frame by (auto split: if_splits)
    define p where "p = refresh now m src (case mget b (ID m) of Some p \<Rightarrow> p
     | None \<Rightarrow> \<lparr>hp_id = ID m, hp_pubkey = [], hp_virtualIP = [], hp_name = [], cands = [], hp_seen = now\<rparr>)"
    obtain q b' where f: "find_partner now (hs_ttl r2) (ID m) (mput (ID m) p b) = (q, b')" by fastforce
    show ?thesis
      using upsert_registers [OF Some b_def False rc2 p_def f refl] assms(2) w1 w2 by (simp add: mkeys_mput)
  qed
qed

lemma absent_step:
  assumes "tok \<notin> mkeys (waiting (fst rc))" and "mget (sids (fst rc)) tok = Some sid" and "\<not> registers tok e"
  shows "tok \<notin> mkeys (waiting (fst (reg_step e rc))) \<and> mget (sids (fst (reg_step e rc))) tok = Some sid"
proof (cases e)
  case (Upsert it now m src)
  then show ?thesis using upsert_absent [of tok "fst rc" m it now src "snd rc"] assms by simp
next
  case (MintSid rnd tok')
  then show ?thesis using assms by (auto simp: sidFor_def mget_mput split: option.split)
next
  case (RegReap now)
  then show ?thesis
    using assms reap_fold_other [OF assms(1)] reap_fold_keys [of now "waiting (fst rc)" "fst rc"] by (auto simp: reap_pass_def)
qed (use assms in \<open>simp add: notePaired_def\<close>)

lemma absent_run:
  assumes "tok \<notin> mkeys (waiting (fst rc))" and "mget (sids (fst rc)) tok = Some sid" and "list_all (\<lambda>e. \<not> registers tok e) es"
  shows "tok \<notin> mkeys (waiting (fst (fold reg_step es rc))) \<and> mget (sids (fst (fold reg_step es rc))) tok = Some sid"
  using assms
proof (induction es arbitrary: rc)
  case (Cons e es)
  then show ?case using absent_step [of tok rc sid e] by simp
qed simp

lemma reap_fold_drops:
  "gomap es \<Longrightarrow> (tok, b) \<in> set es \<Longrightarrow> reap_bucket now (hs_ttl r) b = [] \<Longrightarrow> mget (waiting (fold (reap_token now) es r)) tok = None"
proof (induction es arbitrary: r)
  case (Cons e es)
  show ?case
  proof (cases "fst e = tok")
    case True
    then have e: "e = (tok, b)" and "tok \<notin> mkeys es" using Cons.prems(1,2) by (auto simp: image_iff)
    then have "mget (waiting (fold (reap_token now) es (reap_token now e r))) tok = mget (waiting (reap_token now e r)) tok"
      using reap_fold_other by blast
    then show ?thesis using Cons.prems(3) e by (simp add: reap_token_def [of now "(tok, b)" r] forget_def mget_mdel)
  next
    case False
    then show ?thesis using Cons by (auto simp: reap_token_other)
  qed
qed simp

lemma reap_no_sids: "sids r = [] \<Longrightarrow> sids (reap_pass now r) = []"
proof -
  have "sids r' = [] \<Longrightarrow> sids (fold (reap_token now) es r') = []" for es r'
    by (induction es arbitrary: r') (simp_all add: reap_token_def forget_def Let_def)
  then show "sids r = [] \<Longrightarrow> sids (reap_pass now r) = []" by (simp add: reap_pass_def)
qed

lemma reap_pass_drops:
  assumes "reg_inv r" and "mget (waiting r) tok = Some b" and "\<forall>e \<in> set b. now - hp_seen (snd e) > hs_ttl r"
  shows "mget (waiting (reap_pass now r)) tok = None"
proof -
  have "reap_bucket now (hs_ttl r) b = []" using assms(3) unfolding reap_bucket_def by (intro filter_False) force
  then show ?thesis unfolding reap_pass_def using assms by (intro reap_fold_drops) (auto simp: reg_inv_def dest: mget_in_set)
qed

text \<open>A session id can outlive its token. A request that is held up between finding its
  partner and minting the session id, for longer than the liveness window, mints the id
  after the reaper has forgotten the token. Nothing but a later registration of the same
  token releases it: no pass of the reaper and no eviction does.\<close>

theorem sid_outlives_token:
  fixes mA mB :: message
  assumes "reg_inv r" and "mget (waiting r) (Token mA) = None" and "length (waiting r) < maxTokens" and "Token mB = Token mA" and "ID mA \<noteq> ID mB"
    and "PubKey mA \<noteq> []" "VirtualIP mA \<noteq> []" "PubKey mB \<noteq> []" "VirtualIP mB \<noteq> []" and "tB - tA \<le> hs_ttl r" and "sids r = []"
    and "late - tA > hs_ttl r" and "late - tB > hs_ttl r" and "list_all (\<lambda>e. \<not> registers (Token mA) e) es"
  shows "let rc = fold reg_step ([Upsert id tA mA srcA, Upsert id tB mB srcB, Paired (Token mA), RegReap late, MintSid (Some b) (Token mA)] @ es) (r, c) in
    mget (waiting (fst rc)) (Token mA) = None \<and> mget (sids (fst rc)) (Token mA) = Some (NewID b)"
proof -
  let ?tok = "Token mA"
  obtain a r1 c1 where a: "upsert id tA mA srcA (r, c) = (Some (a, None), r1, c1)" "registered tA mA srcA a"
    "mget (waiting r1) ?tok = Some [(ID mA, a)]" "hs_ttl r1 = hs_ttl r"
    using upsert_first [OF assms(2,3,6,7), of id tA srcA c] by blast
  have "tB - hp_seen a \<le> hs_ttl r1" using a(2,4) assms(10) by (simp add: registered_def)
  then obtain b' r2 c2 where b: "upsert id tB mB srcB (r1, c1) = (Some (b', Some a), r2, c2)" "registered tB mB srcB b'"
    "mget (waiting r2) ?tok = Some [(ID mA, a), (ID mB, b')]" "hs_ttl r2 = hs_ttl r"
    using upsert_second [of r1 mB "ID mA" a tB id srcB c1] a(3,4) assms(4,5,8,9) by auto
  have "sids r1 = sids r" using upsert_sids [OF open_bucket_room [OF assms(2,3)], of id tA srcA c] a(1) by simp
  moreover have "sids r2 = sids r1" using upsert_sids [OF open_bucket_known, of r1 mB _ id tB srcB c1] a(3) b(1) assms(4) by simp
  ultimately have s2: "sids r2 = []" using assms(11) by simp
  have "reg_inv r2" using upsert_inv [of "(r, c)" id tA mA srcA] upsert_inv [of "(r1, c1)" id tB mB srcB] assms(1) a(1) b(1) by simp
  then have "reg_inv (snd (notePaired ?tok r2))" using notePaired_inv by simp
  moreover have "mget (waiting (snd (notePaired ?tok r2))) ?tok = Some [(ID mA, a), (ID mB, b')]" using b(3) by simp
  ultimately have gone: "mget (waiting (reap_pass late (snd (notePaired ?tok r2)))) ?tok = None"
    by (rule reap_pass_drops) (use a(2) b(2,4) assms(12,13) in \<open>simp add: registered_def\<close>)
  have "sids (reap_pass late (snd (notePaired ?tok r2))) = []" using s2 by (simp add: reap_no_sids notePaired_def)
  then have "mget (sids (snd (sidFor (Some b) ?tok (reap_pass late (snd (notePaired ?tok r2)))))) ?tok = Some (NewID b)"
    by (simp add: sidFor_def maxTokens_def)
  then show ?thesis
    using absent_run [of ?tok "(snd (sidFor (Some b) ?tok (reap_pass late (snd (notePaired ?tok r2)))), c2)" "NewID b" es] gone assms(14) a(1) b(1)
    by (simp add: mget_None_iff Let_def)
qed

end
