(* ===== verification/Scenario.thy ===== *)
theory Scenario
  imports Pairing Interleave
begin

text \<open>
  A concrete run: two buddies register the token \<^verbatim>\<open>meet\<close> with a server, are introduced to each
  other, get tickets, and meet at a relay. It shows that the hypotheses of the pairing
  properties can hold. The parameters are instantiated with small functions that have the
  documented behaviour: a scanner that reads back a fixed list of documents, signatures
  that repeat the public key, boxes that append a tag.
\<close>

section \<open>The parameters\<close>

fun position :: "(bytes \<times> jval) list \<Rightarrow> (bytes \<times> jval) list list \<Rightarrow> nat \<Rightarrow> nat" where
  "position ms [] n = n"
| "position ms (x # xs) n = (if x = ms then n else position ms xs (Suc n))"

definition table_json :: "(bytes \<times> jval) list list \<Rightarrow> json" where
  "table_json tab =
     \<lparr>scan = (\<lambda>b. case b of [c] \<Rightarrow> (if of_char c < length tab then Some (tab ! of_char c, []) else None) | _ \<Rightarrow> None),
      render = (\<lambda>ms. [char_of (position ms tab 0)])\<rparr>"

definition toy_crypto :: crypto where
  "toy_crypto = \<lparr>ed_sign = (\<lambda>priv msg. priv @ priv), ed_public = (\<lambda>priv. priv),
     ed_verify = (\<lambda>pub msg sig. sig = pub @ pub), sha256 = (\<lambda>x. take 32 (x @ replicate 32 CHR 0x00)),
     hmac_sha256 = (\<lambda>k x. take 32 (x @ k @ replicate 32 CHR 0x00))\<rparr>"

definition toy_curves :: curves where
  "toy_curves = \<lparr>montgomery = (\<lambda>p. Some p), box_seal = (\<lambda>msg n r sk. msg @ replicate 16 CHR ''t''),
     x25519 = (\<lambda>s p. Some p), hkdf_sha256 = (\<lambda>k l n. replicate n CHR ''h''), sha512 = (\<lambda>x. replicate 64 CHR ''s'')\<rparr>"

definition toy_open :: box_open where
  "toy_open ct n pk = Some (take (length ct - 16) ct)"

lemma position_in: "ms \<in> set tab \<Longrightarrow> n \<le> position ms tab n \<and> position ms tab n < n + length tab \<and> tab ! (position ms tab n - n) = ms"
proof (induction tab arbitrary: n)
  case (Cons x xs)
  show ?case
  proof (cases "x = ms")
    case False
    then have "Suc n \<le> position ms xs (Suc n)" "position ms xs (Suc n) < Suc n + length xs" "xs ! (position ms xs (Suc n) - Suc n) = ms"
      using Cons.IH [of "Suc n"] Cons.prems by simp_all
    then show ?thesis using False by (simp add: nth_Cons' Suc_diff_Suc)
  qed simp
qed simp

lemma table_reads:
  assumes "ms \<in> set tab" and "length tab \<le> 256"
  shows "json_reads (table_json tab) ms"
proof -
  have "position ms tab 0 < 256" using position_in [OF assms(1), of 0] assms(2) by simp
  then show ?thesis
    using position_in [OF assms(1), of 0] by (simp add: json_reads_def table_json_def of_char_of take_bit_eq_mod)
qed

lemma toy_signs: "length priv = 32 \<Longrightarrow> ed_correct toy_crypto priv msg"
  by (simp add: ed_correct_def toy_crypto_def PublicKeySize_def SignatureSize_def)

section \<open>The buddies\<close>

definition demo_node :: "char \<Rightarrow> node" where
  "demo_node c = \<lparr>nd_priv = replicate 32 c, nd_pub = PubKeyB64 (replicate 32 c), nd_id = [c],
     nd_vip = VirtualIPString toy_crypto (replicate 32 c), nd_serverPub = replicate 32 CHR ''S''\<rparr>"

definition demo_attempt :: "char \<Rightarrow> attempt" where
  "demo_attempt c = \<lparr>at_nonce = Some (replicate 16 c), at_code = (([], []), []),
     at_token = ((replicate 32 c, []), replicate 24 c)\<rparr>"

definition demo_now :: time where "demo_now = 1000 * second"

definition demo_eph :: "char \<Rightarrow> bytes" where "demo_eph c = replicate 32 (if c = CHR ''A'' then CHR ''E'' else CHR ''F'')"

definition demo_plain :: "char \<Rightarrow> message" where
  "demo_plain c = (register_message demo_now \<lparr>cfg_Name = [], cfg_Code = []\<rparr> (demo_node c) ''meet'' (b64url_encode (demo_eph c))
     (NewNonce (replicate 16 c)))\<lparr>RegSig := b64std_encode (replicate 64 c)\<rparr>"

definition demo_wire :: "char \<Rightarrow> message" where
  "demo_wire c = (demo_plain c)\<lparr>TokenEnc := b64std_encode (replicate 32 c @ replicate 24 c @ ''meet'' @ replicate 16 CHR ''t''), Token := []\<rparr>"

definition demo_src :: "char \<Rightarrow> udpaddr" where
  "demo_src c = \<lparr>IP = [CHR 0x0A, CHR 0x00, CHR 0x02, c], Port = 7\<rparr>"


lemma demo_fields:
  "Token (demo_plain c) = ''meet''" "ID (demo_plain c) = [c]" "PubKey (demo_plain c) = PubKeyB64 (replicate 32 c)"
  "VirtualIP (demo_plain c) = VirtualIPString toy_crypto (replicate 32 c)" "RegEphPub (demo_plain c) = b64url_encode (demo_eph c)"
  by (simp_all add: demo_plain_def demo_node_def)

lemma demo_nonempty: "PubKeyB64 (replicate 32 CHR ''A'') \<noteq> []" "PubKeyB64 (replicate 32 CHR ''B'') \<noteq> []"
  "VirtualIPString toy_crypto (replicate 32 CHR ''A'') \<noteq> []" "VirtualIPString toy_crypto (replicate 32 CHR ''B'') \<noteq> []"
  by code_simp+

section \<open>The documents\<close>

definition demo_rid :: bytes where "demo_rid = NewID (replicate 16 CHR ''r'')"

definition demo_sid :: bytes where "demo_sid = NewID (replicate 16 CHR ''s'')"

definition demo_endpoint :: bytes where "demo_endpoint = ''192.0.2.9:51821''"

definition demo_record :: "char \<Rightarrow> hsPeer" where
  "demo_record c = \<lparr>hp_id = [c], hp_pubkey = PubKeyB64 (replicate 32 c), hp_virtualIP = VirtualIPString toy_crypto (replicate 32 c),
     hp_name = [], cands = [(UDPAddr_String (demo_src c), \<lparr>Addr = UDPAddr_String (demo_src c), V6 = False\<rparr>)], hp_seen = demo_now\<rparr>"

definition demo_peer :: "char \<Rightarrow> peer" where
  "demo_peer c = asProtocolPeer demo_endpoint (demo_record c)"

definition demo_payload :: "char \<Rightarrow> char \<Rightarrow> payload" where
  "demo_payload c other = issued_payload demo_now demo_rid demo_sid (replicate 16 CHR ''n'') (demo_plain c) (demo_peer other)"

definition demo_ticket :: "bytes \<Rightarrow> relayTicket" where
  "demo_ticket pl = \<lparr>rtPayload = b64url_encode pl, rtSig = b64url_encode (replicate 64 CHR ''S'')\<rparr>"

definition demo_reply :: message where
  "demo_reply = zero_message\<lparr>Type := TypePeerList, Ver := Version, Peers := [demo_peer CHR ''A''], Ts := 1000,
     Sig := b64std_encode (replicate 64 CHR ''S'')\<rparr>"

definition demo_docs :: "(bytes \<times> jval) list list" where
  "demo_docs = [message_members (demo_wire CHR ''A''), message_members (demo_wire CHR ''B''), message_members demo_reply,
     payload_members (demo_payload CHR ''A'' CHR ''B''), payload_members (demo_payload CHR ''B'' CHR ''A'')]"

abbreviation demo_scanner :: json where "demo_scanner \<equiv> table_json demo_docs"

lemma demo_reads:
  "json_reads demo_scanner (message_members (demo_wire CHR ''A''))" "json_reads demo_scanner (message_members (demo_wire CHR ''B''))"
  "json_reads demo_scanner (message_members demo_reply)"
  "json_reads demo_scanner (payload_members (demo_payload CHR ''A'' CHR ''B''))"
  "json_reads demo_scanner (payload_members (demo_payload CHR ''B'' CHR ''A''))"
  by (rule table_reads; simp add: demo_docs_def)+

section \<open>An honest registration\<close>

abbreviation demo_cfg_b :: buddy_config where "demo_cfg_b \<equiv> \<lparr>cfg_Name = [], cfg_Code = []\<rparr>"

lemma demo_signed:
  "signed_message J toy_crypto demo_now demo_cfg_b (demo_node c) ''meet'' epk (NewNonce (replicate 16 c)) [] =
   (register_message demo_now demo_cfg_b (demo_node c) ''meet'' epk (NewNonce (replicate 16 c)))\<lparr>RegSig := b64std_encode (replicate 64 c)\<rparr>"
  by (simp add: signed_message_def register_message_def zero_message_def demo_node_def toy_crypto_def Let_def flip: replicate_add)

lemma demo_honest:
  assumes "c = CHR ''A'' \<or> c = CHR ''B''"
  shows "honest demo_scanner toy_crypto toy_curves toy_open (demo_attempt c) demo_now demo_cfg_b (demo_node c) ''meet''
    (b64url_encode (demo_eph c)) (demo_plain c)"
proof -
  have v: "validField [c]" "validField ''meet''" using assms by (elim disjE; simp; code_simp)+
  have b: "box_correct toy_curves toy_open (replicate 32 CHR ''S'') (replicate 32 c, []) (replicate 24 c) ''meet''"
    by (simp add: box_correct_def toy_curves_def toy_open_def)
  have e: "SealCode toy_curves (replicate 32 c, []) (replicate 24 c) ''meet'' (replicate 32 CHR ''S'') =
      Some (b64std_encode (replicate 32 c @ replicate 24 c @ ''meet'' @ replicate 16 CHR ''t''))"
    by (simp add: SealCode_def X25519FromEd25519Public_def toy_curves_def)
  have m: "demo_plain c = signed_message demo_scanner toy_crypto demo_now demo_cfg_b (demo_node c) ''meet'' (b64url_encode (demo_eph c))
      (NewNonce (replicate 16 c)) []"
    unfolding demo_signed demo_plain_def ..
  have "json_reads demo_scanner (message_members (demo_wire c))" using assms demo_reads by auto
  then show ?thesis
    unfolding honest_def
    by (intro conjI exI [of _ "replicate 16 c"] exI [of _ "[]"] exI [of _ "replicate 32 CHR ''S''"]
        exI [of _ "b64std_encode (replicate 32 c @ replicate 24 c @ ''meet'' @ replicate 16 CHR ''t'')"])
      (use v b e m toy_signs [of "replicate 32 c"] in \<open>simp_all add: demo_node_def [of c] demo_attempt_def NonceLen_def code_enc_def
        demo_wire_def maxCodeEncLen_def int64_def demo_now_def unix_seconds_def second_def\<close>,
       simp_all add: toy_crypto_def toy_curves_def)
qed

theorem honest_registration_passes_witness:
  "\<exists>pl m0. buildRegister demo_scanner toy_crypto toy_curves (demo_attempt CHR ''A'') demo_now demo_cfg_b (demo_node CHR ''A'') ''meet''
      (b64url_encode (demo_eph CHR ''A'')) = Inr pl \<and>
    parseRegister demo_scanner pl = Some m0 \<and> registrationMatchesTLSKey m0 (replicate 32 CHR ''A'') \<and> requireV7Fields m0 \<and>
    resolveToken toy_open m0 = Some (demo_plain CHR ''A'') \<and>
    verifyRegistration demo_scanner toy_crypto demo_now regSkew (demo_plain CHR ''A'')"
  using honest_registration_passes [OF demo_honest, of "CHR ''A''" demo_now]
  by (simp add: demo_now_def unix_seconds_def second_def regSkew_def) (auto simp: demo_node_def toy_crypto_def)

section \<open>The server\<close>

definition demo_hcfg :: hs_config where
  "demo_hcfg = \<lparr>hpriv = replicate 32 CHR ''S'', hadvert = \<lparr>adv_endpoint = demo_endpoint, adv_rid = demo_rid\<rparr>, hallowed = []\<rparr>"

definition demo_hs :: hs where
  "demo_hs = \<lparr>hreg = newHSRegistry (10 * second), stats = zero_counters, hauthz = None, hrl = New 1000 50 8192 demo_now\<rparr>"

lemma demo_start:
  "start_server (10 * second) None demo_endpoint demo_rid (replicate 32 CHR ''S'') [] demo_now = Some (demo_hcfg, demo_hs)"
  by (simp add: start_server_def relayAdvertFor_def demo_rid_def ValidID_NewID IDLen_def demo_hcfg_def demo_hs_def second_def)

definition demo_run :: "hs_event list" where
  "demo_run = [Control id demo_now (None, None) (demo_src CHR ''A'') (replicate 32 CHR ''A'')
     (MarshalMessage demo_scanner (demo_wire CHR ''A''))]"

lemma demo_refresh:
  assumes "c = CHR ''A'' \<or> c = CHR ''B''"
  shows "refresh demo_now (demo_plain c) (demo_src c)
    \<lparr>hp_id = ID (demo_plain c), hp_pubkey = [], hp_virtualIP = [], hp_name = [], cands = [], hp_seen = demo_now\<rparr> = demo_record c"
proof -
  have "Name (demo_plain c) = []" by (simp add: demo_plain_def)
  moreover have "To4 (IP (demo_src c)) \<noteq> None" by (simp add: demo_src_def To4_def)
  ultimately show ?thesis
    using assms demo_nonempty by (auto simp: refresh_def observe_def demo_record_def demo_fields maxCandsPerPeer_def Let_def)
qed

lemma demo_build:
  assumes "c = CHR ''A'' \<or> c = CHR ''B''"
  shows "buildRegister demo_scanner toy_crypto toy_curves (demo_attempt c) demo_now demo_cfg_b (demo_node c) ''meet''
    (b64url_encode (demo_eph c)) = Inr (MarshalMessage demo_scanner (demo_wire c))"
proof -
  have "buildRegister demo_scanner toy_crypto toy_curves (demo_attempt c) demo_now demo_cfg_b (demo_node c) ''meet''
    (b64url_encode (demo_eph c)) = Inr (MarshalMessage demo_scanner ((signed_message demo_scanner toy_crypto demo_now demo_cfg_b (demo_node c) ''meet''
      (b64url_encode (demo_eph c)) (NewNonce (replicate 16 c)) [])
      \<lparr>TokenEnc := b64std_encode (replicate 32 c @ replicate 24 c @ ''meet'' @ replicate 16 CHR ''t''), Token := []\<rparr>))"
    by (rule buildRegister_signed) (simp_all add: demo_attempt_def code_enc_def SealCode_def X25519FromEd25519Public_def toy_curves_def demo_node_def)
  then show ?thesis by (simp add: demo_wire_def demo_plain_def demo_signed)
qed

lemma demo_skew: "\<bar>demo_now - unix_seconds demo_now * second\<bar> \<le> regSkew"
  by (simp add: demo_now_def unix_seconds_def second_def regSkew_def)

lemma demo_admitted: "let_through toy_crypto toy_open demo_hcfg demo_now (demo_src CHR ''A'') (demo_plain CHR ''A'') demo_hs"
proof -
  have "fst (Allow demo_now (FromIP (IP (demo_src CHR ''A''))) (hrl demo_hs))" by code_simp
  moreover have "cidrAllowed (hallowed demo_hcfg) (IP (demo_src CHR ''A''))" by code_simp
  moreover have "hauthz demo_hs = None" by (simp add: demo_hs_def)
  ultimately show ?thesis using open_mode(1) by (simp add: let_through_def)
qed

lemma demo_introduced:
  "fst (pairRegister demo_scanner toy_crypto toy_open id demo_now demo_endpoint (demo_src CHR ''B'') (demo_plain CHR ''B'')
     (fold (hs_step demo_scanner toy_crypto toy_open demo_hcfg) demo_run demo_hs)) = Some [demo_peer CHR ''A'']"
proof -
  have "mget (waiting (hreg demo_hs)) (Token (demo_plain CHR ''A'')) = None" "length (waiting (hreg demo_hs)) < maxTokens"
    by (simp_all add: demo_hs_def newHSRegistry_def maxTokens_def)
  from upsert_first [OF this, of id demo_now "demo_src CHR ''A''" "stats demo_hs"] demo_refresh [of "CHR ''A''"]
  obtain r c where u: "upsert id demo_now (demo_plain CHR ''A'') (demo_src CHR ''A'') (hreg demo_hs, stats demo_hs) = (Some (demo_record CHR ''A'', None), r, c)"
    and w: "mget (waiting r) ''meet'' = Some [(''A'', demo_record CHR ''A'')]" "hs_ttl r = hs_ttl (hreg demo_hs)"
    by (auto simp: demo_fields demo_nonempty)
  let ?s = "fold (hs_step demo_scanner toy_crypto toy_open demo_hcfg) demo_run demo_hs"
  have pub: "ed_public toy_crypto (nd_priv (demo_node CHR ''A'')) = replicate 32 CHR ''A''" by (simp add: toy_crypto_def demo_node_def)
  from honest_control [OF demo_honest demo_skew demo_admitted demo_build u, of "(None, None)"] w
  have h: "mget (waiting (hreg ?s)) ''meet'' = Some [(''A'', demo_record CHR ''A'')]" "hs_ttl (hreg ?s) = hs_ttl (hreg demo_hs)"
    by (auto simp: demo_run_def pub)
  have "hauthz ?s = None" unfolding demo_run_def by (simp add: open_mode(2) demo_hs_def)
  then have au: "fst (authorize toy_crypto toy_open demo_now (demo_src CHR ''B'') (demo_plain CHR ''B'') ?s)" by (rule open_mode(1))
  from h obtain b r' c' where "upsert id demo_now (demo_plain CHR ''B'') (demo_src CHR ''B'') (hreg ?s, stats ?s) =
      (Some (b, Some (demo_record CHR ''A'')), r', c')"
    using upsert_second [of "hreg ?s" "demo_plain CHR ''B''" "''A''" "demo_record CHR ''A''" demo_now id "demo_src CHR ''B''" "stats ?s"]
    by (auto simp: demo_fields demo_nonempty demo_record_def demo_hs_def newHSRegistry_def second_def)
  from honest_pairs [OF demo_honest demo_skew au this] show ?thesis by (simp add: demo_peer_def)
qed

lemma demo_introduced_pair:
  obtains s' where "pairRegister demo_scanner toy_crypto toy_open id demo_now demo_endpoint (demo_src CHR ''B'') (demo_plain CHR ''B'')
     (fold (hs_step demo_scanner toy_crypto toy_open demo_hcfg) demo_run demo_hs) = (Some [demo_peer CHR ''A''], s')"
  using demo_introduced by (metis prod.collapse)

theorem roster_backed_witness:
  "\<exists>p. demo_peer CHR ''A'' = asProtocolPeer demo_endpoint p \<and> hp_id p \<noteq> ''B'' \<and>
     backed demo_scanner toy_crypto toy_open demo_hcfg (trace demo_scanner toy_crypto toy_open demo_hcfg demo_run demo_hs) ''meet'' p"
proof -
  obtain s' where "pairRegister demo_scanner toy_crypto toy_open id demo_now demo_endpoint (demo_src CHR ''B'') (demo_plain CHR ''B'')
     (fold (hs_step demo_scanner toy_crypto toy_open demo_hcfg) demo_run demo_hs) = (Some [demo_peer CHR ''A''], s')"
    by (rule demo_introduced_pair)
  from roster_backed [OF demo_start this] show ?thesis by (simp add: demo_fields)
qed

lemma demo_src_text: "UDPAddr_String (demo_src CHR ''A'') = ''10.0.2.65:7''"
  by code_simp

lemma demo_src_reads: "ParseAddr ''10.0.2.65'' = Some (Addr4 [CHR 0x0A, CHR 0x00, CHR 0x02, CHR ''A''])"
  by code_simp

lemma demo_unicast: "unicast_source (demo_src CHR ''A'')"
proof -
  have "number 10 digit ''7'' = Some 7" by code_simp
  then have "ParseAddrPort ''10.0.2.65:7'' = Some (Addr4 [CHR 0x0A, CHR 0x00, CHR 0x02, CHR ''A''], 7)"
    using demo_src_reads by (simp add: ParseAddrPort_def)
  then show ?thesis by (simp add: unicast_source_def check_candidate_def demo_src_text Let_def numeral_eq_Suc)
qed

theorem roster_accepted_witness:
  "judge_reply demo_scanner toy_crypto (replicate 32 CHR ''S'') ''meet'' demo_now (Some (MarshalMessage demo_scanner demo_reply)) False =
   Partner (demo_peer CHR ''A'') None"
proof -
  obtain s' where p: "pairRegister demo_scanner toy_crypto toy_open id demo_now demo_endpoint (demo_src CHR ''B'') (demo_plain CHR ''B'')
     (fold (hs_step demo_scanner toy_crypto toy_open demo_hcfg) demo_run demo_hs) = (Some [demo_peer CHR ''A''], s')"
    by (rule demo_introduced_pair)
  have r: "demo_reply = (signedPeerList demo_scanner toy_crypto (replicate 32 CHR ''S'') demo_now (Token (demo_plain CHR ''B''))
      [demo_peer CHR ''A''])\<lparr>RTicket := None\<rparr>"
    by (simp add: demo_reply_def signedPeerList_def toy_crypto_def demo_now_def unix_seconds_def second_def zero_message_def Let_def
        flip: replicate_add)
  have w: "wire_ok demo_reply"
    by (simp add: wire_ok_def demo_reply_def zero_message_def demo_peer_def asProtocolPeer_def demo_record_def int64_def Version_def
        demo_now_def unix_seconds_def second_def)
  have v: "\<forall>x \<in> set (trace demo_scanner toy_crypto toy_open demo_hcfg demo_run demo_hs).
      \<forall>n from. vouches demo_scanner toy_crypto toy_open demo_hcfg x n from \<longrightarrow> unicast_source from"
    by (simp add: demo_run_def demo_unicast)
  from roster_accepted [OF demo_start p r w demo_reads(3) _ _ _ v] show ?thesis
    by (simp add: toy_signs demo_now_def unix_seconds_def second_def rosterSkew_def demo_endpoint_def MaxFieldLen_def demo_fields)
      (simp add: toy_crypto_def)
qed

section \<open>The registry\<close>

lemma demo_reg_inv: "reg_inv (newHSRegistry (10 * second))"
  using new_reg_inv by simp

theorem buddies_meet_witness:
  "\<exists>a b a' rc1 rc2 rc3.
    upsert id demo_now (demo_plain CHR ''A'') (demo_src CHR ''A'') (newHSRegistry (10 * second), zero_counters) = (Some (a, None), rc1) \<and>
    registered demo_now (demo_plain CHR ''A'') (demo_src CHR ''A'') a \<and>
    upsert id demo_now (demo_plain CHR ''B'') (demo_src CHR ''B'') (fold reg_step [RegReap demo_now] rc1) = (Some (b, Some a), rc2) \<and>
    registered demo_now (demo_plain CHR ''B'') (demo_src CHR ''B'') b \<and>
    upsert id (demo_now + second) (demo_plain CHR ''A'') (demo_src CHR ''A'') (fold reg_step [Paired ''meet''] rc2) = (Some (a', Some b), rc3)"
  by (rule buddies_meet [OF demo_reg_inv])
    (simp_all add: demo_fields demo_nonempty newHSRegistry_def demo_now_def second_def maxTokens_def)

lemma demo_src_differ: "UDPAddr_String (demo_src CHR ''B'') \<noteq> UDPAddr_String (demo_src CHR ''A'')"
proof -
  have "UDPAddr_String (demo_src CHR ''B'') = ''10.0.2.66:7''" by code_simp
  then show ?thesis by (simp add: demo_src_text)
qed

theorem render_race_witness:
  "\<exists>a q r. let s1 = fold (act demo_scanner toy_crypto demo_hcfg)
        [Arrive (demo_plain CHR ''A'') (demo_src CHR ''A'') demo_now, Enter 0 id, Arrive (demo_plain CHR ''B'') (demo_src CHR ''C'') demo_now,
         Enter 1 id, Note 1, ReadFields 1, Arrive (demo_plain CHR ''A'') (demo_src CHR ''B'') (demo_now + second)] (boot (10 * second));
      s2 = act demo_scanner toy_crypto demo_hcfg (Enter 2 id) s1;
      s3 = fold (act demo_scanner toy_crypto demo_hcfg) [ReadCands 1, Enter 2 id, ReadSeen 1] s1;
      old = cells (mem s1) ! a; new = cells (mem s2) ! a; entry = asProtocolPeer (adv_endpoint (hadvert demo_hcfg)) in
    pc_of 1 s1 = Some (Iterating a q) \<and> cands new \<noteq> cands old \<and>
    pc_of 1 s3 = Some (Ticketing r) \<and> cells (mem s3) ! a = new \<and>
    Candidates r = Candidates (entry old) \<and> LastSeen r = LastSeen (entry new) \<and> r \<noteq> entry old \<and> r \<noteq> entry new"
  by (rule render_race [OF _ _ _ _ _ _ refl refl demo_src_differ])
    (simp_all add: demo_fields boot_def new_ptrRegistry_def newHSRegistry_def demo_now_def second_def maxTokens_def unix_seconds_def)

theorem sid_outlives_token_witness:
  "let rc = fold reg_step ([Upsert id demo_now (demo_plain CHR ''A'') (demo_src CHR ''A''), Upsert id demo_now (demo_plain CHR ''B'') (demo_src CHR ''B''),
       Paired ''meet'', RegReap (demo_now + 11 * second), MintSid (Some (replicate 16 CHR ''s'')) ''meet''] @ [RegReap (demo_now + 100 * second)])
       (newHSRegistry (10 * second), zero_counters) in
     mget (waiting (fst rc)) ''meet'' = None \<and> mget (sids (fst rc)) ''meet'' = Some (NewID (replicate 16 CHR ''s''))"
proof -
  have "Token (demo_plain CHR ''A'') = ''meet''" by (simp add: demo_fields)
  from sid_outlives_token [where mA = "demo_plain CHR ''A''" and mB = "demo_plain CHR ''B''" and tA = demo_now and tB = demo_now
      and late = "demo_now + 11 * second" and c = zero_counters and b = "replicate 16 CHR ''s''" and es = "[RegReap (demo_now + 100 * second)]",
      OF demo_reg_inv, unfolded this]
  show ?thesis by (simp add: demo_fields demo_nonempty newHSRegistry_def demo_now_def second_def maxTokens_def)
qed

section \<open>The relay\<close>

definition demo_cred :: "char \<Rightarrow> relayCred" where
  "demo_cred c = \<lparr>rc_priv = demo_eph c, rc_pub = b64url_encode (demo_eph c), rc_payload = [], rc_sig = [], rc_sid = []\<rparr>"

definition demo_registry :: hsRegistry where
  "demo_registry = (newHSRegistry (10 * second))\<lparr>sids := [(''meet'', demo_sid)]\<rparr>"

lemma demo_keys: "PubKeyB64 (replicate 32 CHR ''A'') \<noteq> PubKeyB64 (replicate 32 CHR ''B'')"
  by code_simp

lemma demo_issued:
  assumes "c = CHR ''A'' \<and> d = CHR ''B'' \<or> c = CHR ''B'' \<and> d = CHR ''A''"
    and "sidFor (Some sb) ''meet'' r = (Some demo_sid, r')"
  shows "issueTicket demo_scanner toy_crypto (replicate 32 CHR ''S'') demo_now (Some sb, Some (replicate 16 CHR ''n'')) demo_rid
    (demo_plain c) (demo_peer d) r = (Some (demo_ticket (render demo_scanner (payload_members (demo_payload c d)))), r')"
proof -
  have k: "PubKey (demo_plain c) \<noteq> pPubKey (demo_peer d)"
    using assms(1) demo_keys by (auto simp: demo_fields demo_peer_def asProtocolPeer_def demo_record_def)
  have n: "demo_rid \<noteq> []" "b64url_encode (demo_eph c) \<noteq> []" "length (demo_eph c) = PublicKeySize"
    by (simp_all add: demo_rid_def NewID_def b64url_encode_Nil demo_eph_def PublicKeySize_def)
  have "Sign demo_scanner toy_crypto (replicate 32 CHR ''S'') (demo_payload c d) =
      Some (render demo_scanner (payload_members (demo_payload c d)), replicate 64 CHR ''S'')"
    by (simp add: Sign_def table_json_def MaxPayloadLen_def toy_crypto_def Let_def flip: replicate_add)
  then show ?thesis
    using k n assms(2) unfolding issueTicket_def demo_payload_def issued_payload_def
    by (simp add: demo_fields demo_ticket_def Let_def)
qed

lemma demo_spendable:
  assumes "c = CHR ''A'' \<and> d = CHR ''B'' \<or> c = CHR ''B'' \<and> d = CHR ''A''"
  shows "spendable demo_scanner toy_crypto (replicate 32 CHR ''S'') (demo_cred c) (demo_plain c) (demo_payload c d)"
proof -
  have "json_reads demo_scanner (payload_members (demo_payload c d))" using assms demo_reads(4,5) by auto
  then show ?thesis
    unfolding spendable_def using toy_signs [of "replicate 32 CHR ''S''"]
    by (simp add: demo_cred_def demo_fields)
      (simp add: toy_crypto_def table_json_def demo_payload_def issued_payload_def int64_def demo_now_def unix_seconds_def second_def MaxTTL_def)
qed

definition demo_relay :: server where
  "demo_relay = NewServer \<lparr>TTL = 0, ServerKeys = [replicate 32 CHR ''S''], RelayID = demo_rid, AllowCIDRs = [], MaxSessions = 0,
     MaxLegsPerIP = 0, Debug = False\<rparr> (replicate 32 CHR ''k'') demo_now"

lemma demo_relay_ready: "relay_ready toy_crypto (replicate 32 CHR ''S'') demo_rid demo_sid a1 a2 demo_relay"
  by (simp add: relay_ready_def demo_relay_def NewServer_def toy_crypto_def defaultMaxSessions_def defaultMaxLegsPerIP_def mcount_def)

theorem tickets_connect_witness:
  "\<exists>cA cB s1 s2.
     adopt demo_scanner (Some (demo_ticket (render demo_scanner (payload_members (demo_payload CHR ''A'' CHR ''B'')))))
       (Some (demo_cred CHR ''A'')) = Inr cA \<and>
     adopt demo_scanner (Some (demo_ticket (render demo_scanner (payload_members (demo_payload CHR ''B'' CHR ''A'')))))
       (Some (demo_cred CHR ''B'')) = Inr cB \<and>
     s1 = fst (verifyTicketBind demo_scanner toy_crypto demo_now (spend toy_crypto cA [] [] ''c1'' (demo_src CHR ''A'') (FromIP (IP (demo_src CHR ''A''))))
       demo_relay) \<and>
     s2 = fst (verifyTicketBind demo_scanner toy_crypto demo_now (spend toy_crypto cB [] [] ''c2'' (demo_src CHR ''B'') (FromIP (IP (demo_src CHR ''B''))))
       s1) \<and>
     snd (forward demo_now (demo_src CHR ''A'') ''hello'' s2) = [(''hello'', demo_src CHR ''B'')] \<and>
     snd (forward demo_now (demo_src CHR ''B'') ''hello'' s2) = [(''hello'', demo_src CHR ''A'')]"
proof -
  let ?sb = "replicate 16 CHR ''s''"
  have sid: "sidFor (Some ?sb) ''meet'' (newHSRegistry (10 * second)) = (Some demo_sid, demo_registry)"
    "sidFor (Some ?sb) ''meet'' demo_registry = (Some demo_sid, demo_registry)"
    by (simp_all add: sidFor_def newHSRegistry_def demo_registry_def demo_sid_def maxTokens_def)
  have ok: "sids_ok (newHSRegistry (10 * second))" "sids_ok demo_registry" "ValidID demo_rid"
    by (simp_all add: sids_ok_def newHSRegistry_def demo_registry_def demo_sid_def demo_rid_def ValidID_NewID IDLen_def)
  note A = demo_issued [of "CHR ''A''" "CHR ''B''", OF _ sid(1)] and B = demo_issued [of "CHR ''B''" "CHR ''A''", OF _ sid(2)]
  have k: "pPubKey (demo_peer c) = PubKey (demo_plain c)" for c by (simp add: demo_peer_def asProtocolPeer_def demo_record_def demo_fields)
  have tok: "Token (demo_plain CHR ''B'') = Token (demo_plain CHR ''A'')" "mget (sids demo_registry) (Token (demo_plain CHR ''A'')) = Some demo_sid"
    by (simp_all add: demo_fields demo_registry_def)
  have len: "length ?sb = IDLen" "length (replicate 16 CHR ''n'') = IDLen" by (simp_all add: IDLen_def)
  note sp = demo_spendable [unfolded demo_payload_def]
  have addr: "addr_string (demo_src CHR ''A'') \<noteq> addr_string (demo_src CHR ''B'')" by code_simp
  have win: "in_window demo_now demo_now" by (simp add: in_window_def demo_now_def unix_seconds_def second_def int64_def)
  have sg: "ed_correct toy_crypto (rc_priv (demo_cred c)) msg" for c msg by (rule toy_signs) (simp add: demo_cred_def demo_eph_def)
  have pre: "CHR ''A'' = CHR ''A'' \<and> CHR ''B'' = CHR ''B'' \<or> CHR ''A'' = CHR ''B'' \<and> CHR ''B'' = CHR ''A''"
    "CHR ''B'' = CHR ''A'' \<and> CHR ''A'' = CHR ''B'' \<or> CHR ''B'' = CHR ''B'' \<and> CHR ''A'' = CHR ''A''" by simp_all
  from tickets_connect [OF A [OF pre(1)] ok(1) B [OF pre(2)] ok(2) tok(1) k k ok(3) tok(2) tok(2) len len sp [OF pre(1)] sp [OF pre(2)]]
  obtain cA cB where c: "adopt demo_scanner (Some (demo_ticket (render demo_scanner (payload_members (demo_payload CHR ''A'' CHR ''B'')))))
       (Some (demo_cred CHR ''A'')) = Inr cA"
     "adopt demo_scanner (Some (demo_ticket (render demo_scanner (payload_members (demo_payload CHR ''B'' CHR ''A'')))))
       (Some (demo_cred CHR ''B'')) = Inr cB"
    and f: "\<And>s srcA srcB aA aB ta tb dA dB ckA ckB cookieA cookieB s1 s2 t pkt.
       relay_ready toy_crypto (replicate 32 CHR ''S'') demo_rid demo_sid aA aB s \<and> addr_string srcA \<noteq> addr_string srcB \<and>
       in_window demo_now ta \<and> in_window demo_now tb \<and>
       ed_correct toy_crypto (rc_priv (demo_cred CHR ''A'')) (BindSigningBytes toy_crypto (rc_payload cA) (rc_sig cA) cookieA) \<and>
       ed_correct toy_crypto (rc_priv (demo_cred CHR ''B'')) (BindSigningBytes toy_crypto (rc_payload cB) (rc_sig cB) cookieB) \<and>
       s1 = fst (verifyTicketBind demo_scanner toy_crypto ta (spend toy_crypto cA dA ckA cookieA srcA aA) s) \<and>
       s2 = fst (verifyTicketBind demo_scanner toy_crypto tb (spend toy_crypto cB dB ckB cookieB srcB aB) s1) \<Longrightarrow>
       snd (forward t srcA pkt s2) = [(pkt, srcB)] \<and> snd (forward t srcB pkt s2) = [(pkt, srcA)]" by blast
  show ?thesis
    by (intro exI conjI, rule c(1), rule c(2), rule refl, rule refl)
      (use f [OF conjI [OF demo_relay_ready conjI [OF addr conjI [OF win conjI [OF win conjI [OF sg conjI [OF sg conjI [OF refl refl]]]]]]]] in blast)+
qed

end
