(* ===== verification/AtomicFile.thy ===== *)
theory AtomicFile
  imports NetText
begin

text \<open>
  \<^verbatim>\<open>internal/atomicfile\<close>: replacing a file so that no reader and no crash sees a torn one.

  A disk holds the directory as running processes see it and as it is on the medium, and
  for every inode its contents and whether they have reached the medium. One function per
  system call; \<open>Write\<close> performs them in the order of the code and returns every state it
  passes through, so that a crash or a reader can be placed between any two calls.
\<close>

section \<open>The disk\<close>

record disk =
  dir :: "(bytes, nat) gomap"
  ddir :: "(bytes, nat) gomap"
  cont :: "nat \<Rightarrow> bytes"
  synced :: "nat \<Rightarrow> bool"
  inodes :: nat

definition visible :: "bytes \<Rightarrow> disk \<Rightarrow> bytes option" where
  "visible path d = map_option (cont d) (mget (dir d) path)"

text \<open>What may be found after a power cut: each name as it was seen or as it was on the
  medium, each synced inode with its contents, anything in the others.\<close>

definition crash :: "disk \<Rightarrow> disk \<Rightarrow> bool" where
  "crash d d' \<longleftrightarrow>
     (\<forall>p. mget (dir d') p = mget (dir d) p \<or> mget (dir d') p = mget (ddir d) p) \<and>
     (\<forall>i. synced d i \<longrightarrow> cont d' i = cont d i)"

section \<open>System calls\<close>

definition sys_create :: "bytes \<Rightarrow> disk \<Rightarrow> disk" where
  "sys_create p d = d\<lparr>dir := mput p (inodes d) (dir d), cont := (cont d)(inodes d := []),
     synced := (synced d)(inodes d := False), inodes := Suc (inodes d)\<rparr>"

definition sys_write :: "nat \<Rightarrow> bytes \<Rightarrow> disk \<Rightarrow> disk" where
  "sys_write i data d = d\<lparr>cont := (cont d)(i := data), synced := (synced d)(i := False)\<rparr>"

definition sys_fsync :: "nat \<Rightarrow> disk \<Rightarrow> disk" where
  "sys_fsync i d = d\<lparr>synced := (synced d)(i := True)\<rparr>"

definition sys_rename :: "bytes \<Rightarrow> bytes \<Rightarrow> disk \<Rightarrow> disk" where
  "sys_rename from to d =
     (case mget (dir d) from of None \<Rightarrow> d | Some i \<Rightarrow> d\<lparr>dir := mput to i (mdel from (dir d))\<rparr>)"

definition sys_remove :: "bytes \<Rightarrow> disk \<Rightarrow> disk" where
  "sys_remove p d = d\<lparr>dir := mdel p (dir d)\<rparr>"

definition sys_dirsync :: "disk \<Rightarrow> disk" where
  "sys_dirsync d = d\<lparr>ddir := dir d\<rparr>"

section \<open>Write\<close>

text \<open>The outcome of each call. \<open>wrote\<close> is the number of bytes that reached the file when the
  write failed.\<close>

record write_io =
  cr_ok :: bool
  wrote :: "nat option"
  sync_ok :: bool
  cl_ok :: bool
  ren_ok :: bool
  dsync_ok :: bool

datatype write_error = CreateFailed | WriteFailed | FsyncFailed | CloseFailed | RenameFailed

definition tmp_name :: "bytes \<Rightarrow> nat \<Rightarrow> nat \<Rightarrow> bytes" where
  "tmp_name path pid seq = path @ ''.tmp.'' @ itoa pid @ ''.'' @ itoa seq"

text \<open>The states after each call, and the result. A failure after the creation takes the
  temporary file with it.\<close>

definition Write :: "write_io \<Rightarrow> nat \<Rightarrow> nat \<Rightarrow> bytes \<Rightarrow> bytes \<Rightarrow> disk \<Rightarrow> disk list \<times> write_error option" where
  "Write w pid seq path data d =
     (let tmp = tmp_name path pid seq; i = inodes d in
      if \<not> cr_ok w \<or> mget (dir d) tmp \<noteq> None then ([], Some CreateFailed)
      else let d1 = sys_create tmp d in
        case wrote w of
          Some n \<Rightarrow> (let d2 = sys_write i (take n data) d1 in ([d1, d2, sys_remove tmp d2], Some WriteFailed))
        | None \<Rightarrow>
            (let d2 = sys_write i data d1 in
             if \<not> sync_ok w then ([d1, d2, sys_remove tmp d2], Some FsyncFailed)
             else let d3 = sys_fsync i d2 in
               if \<not> cl_ok w then ([d1, d2, d3, sys_remove tmp d3], Some CloseFailed)
               else if \<not> ren_ok w then ([d1, d2, d3, sys_remove tmp d3], Some RenameFailed)
               else let d4 = sys_rename tmp path d3
                    in ([d1, d2, d3, d4] @ (if dsync_ok w then [sys_dirsync d4] else []), None)))"

definition after_write :: "disk \<Rightarrow> disk list \<Rightarrow> disk" where
  "after_write d ds = (if ds = [] then d else last ds)"

section \<open>Atomicity\<close>

text \<open>The names of a directory point to allocated inodes, and the file in question is durable:
  its name and its contents have reached the medium.\<close>

definition disk_ok :: "disk \<Rightarrow> bool" where
  "disk_ok d \<longleftrightarrow> (\<forall>p i. mget (dir d) p = Some i \<or> mget (ddir d) p = Some i \<longrightarrow> i < inodes d)"

definition durable :: "bytes \<Rightarrow> disk \<Rightarrow> bool" where
  "durable p d \<longleftrightarrow> mget (ddir d) p = mget (dir d) p \<and> (\<forall>i. mget (dir d) p = Some i \<longrightarrow> synced d i)"

lemma tmp_name_neq [simp]: "tmp_name path pid seq \<noteq> path" "path \<noteq> tmp_name path pid seq"
  by (simp_all add: tmp_name_def)

lemmas sys_defs = sys_create_def sys_write_def sys_fsync_def sys_rename_def sys_remove_def sys_dirsync_def

text \<open>In every state of a write the target is untouched and durable, or it names the new inode,
  complete and synced, with the old durable name still possible.\<close>

definition write_inv :: "bytes \<Rightarrow> bytes \<Rightarrow> disk \<Rightarrow> disk \<Rightarrow> bool" where
  "write_inv path data d d' \<longleftrightarrow>
     (\<forall>i < inodes d. cont d' i = cont d i \<and> synced d' i = synced d i) \<and>
     (mget (dir d') path = mget (dir d) path \<and> mget (ddir d') path = mget (ddir d) path \<or>
      mget (dir d') path = Some (inodes d) \<and> cont d' (inodes d) = data \<and> synced d' (inodes d) \<and>
        mget (ddir d') path \<in> {mget (ddir d) path, Some (inodes d)})"

lemma Write_states: "d' \<in> set (fst (Write w pid seq path data d)) \<Longrightarrow> write_inv path data d d'"
  by (auto simp: Write_def write_inv_def sys_defs mget_mput mget_mdel Let_def split: if_splits option.splits)

text \<open>Outside the target and the temporary name nothing changes.\<close>

lemma Write_frame:
  assumes "disk_ok d" and "p \<noteq> path" and "p \<noteq> tmp_name path pid seq" and "d' \<in> set (fst (Write w pid seq path data d))"
  shows "visible p d' = visible p d"
proof -
  have "mget (dir d') p = mget (dir d) p"
    using assms(2-4) by (auto simp: Write_def sys_defs mget_mput mget_mdel Let_def split: if_splits option.splits)
  moreover have "cont d' i = cont d i" if "mget (dir d) p = Some i" for i
    using Write_states [OF assms(4)] assms(1) that by (simp add: write_inv_def disk_ok_def)
  ultimately show ?thesis by (cases "mget (dir d) p") (simp_all add: visible_def)
qed

end
