(* ===== verification/Scope.thy ===== *)
theory Scope
  imports NetText "HOL-Library.Product_Lexorder"
begin

text \<open>
  \<^verbatim>\<open>internal/nft/scope.go\<close>: what a buddy may reach on this host, as the operator writes it and
  as it is rendered.
\<close>

section \<open>Scopes\<close>

record port =
  Proto :: bytes
  PortNo :: nat

record scope =
  All :: bool
  Ports :: "port list"

definition no_scope :: scope where "no_scope = \<lparr>All = False, Ports = []\<rparr>"

definition lower :: "char \<Rightarrow> char" where
  "lower c = (let n = of_char c :: nat in if 65 \<le> n \<and> n \<le> 90 then char_of (n + 32) else c)"

text \<open>\<^verbatim>\<open>strings.EqualFold\<close> and \<^verbatim>\<open>strings.ToLower\<close> against ASCII words none of whose letters has a
  folding outside ASCII.\<close>

definition EqualFold :: "bytes \<Rightarrow> bytes \<Rightarrow> bool" where
  "EqualFold s t \<longleftrightarrow> map lower s = map lower t"

definition ParseUint16 :: "bytes \<Rightarrow> nat option" where
  "ParseUint16 s = (case number 10 digit s of None \<Rightarrow> None | Some n \<Rightarrow> if n > 65535 then None else Some n)"

definition parsePort :: "bytes \<Rightarrow> port option" where
  "parsePort part =
     (let part = TrimSpace part;
          (proto, portStr) = (if CHR ''/'' \<in> set part
            then (map lower (TrimSpace (takeWhile (\<lambda>c. c \<noteq> CHR ''/'') part)), TrimSpace (tl (dropWhile (\<lambda>c. c \<noteq> CHR ''/'') part)))
            else (''tcp'', part))
      in if proto \<noteq> ''tcp'' \<and> proto \<noteq> ''udp'' then None
         else case ParseUint16 portStr of
           None \<Rightarrow> None
         | Some n \<Rightarrow> if n = 0 then None else Some \<lparr>Proto = proto, PortNo = n\<rparr>)"

definition add_port :: "port \<Rightarrow> scope \<Rightarrow> scope" where
  "add_port p s = (if p \<in> set (Ports s) then s else s\<lparr>Ports := Ports s @ [p]\<rparr>)"

definition normalize :: "scope \<Rightarrow> scope" where
  "normalize s = s\<lparr>Ports := sort_key (\<lambda>p. (Proto p, PortNo p)) (Ports s)\<rparr>"

fun parse_parts :: "bytes list \<Rightarrow> scope \<Rightarrow> scope option" where
  "parse_parts [] s = Some s"
| "parse_parts (part # parts) s =
     (case parsePort part of None \<Rightarrow> None | Some p \<Rightarrow> parse_parts parts (add_port p s))"

definition ParseScope :: "bytes \<Rightarrow> scope option" where
  "ParseScope spec =
     (let spec = TrimSpace spec in
      if spec = [] then None
      else if EqualFold spec ''all'' then Some \<lparr>All = True, Ports = []\<rparr>
      else map_option normalize (parse_parts (split_on CHR '','' spec) no_scope))"

definition port_text :: "port \<Rightarrow> bytes" where
  "port_text p = Proto p @ ''/'' @ itoa (PortNo p)"

definition Scope_String :: "scope \<Rightarrow> bytes" where
  "Scope_String s =
     (if All s then ''all'' else if Ports s = [] then ''NONE'' else Join (map port_text (Ports s)) '','')"

end
