(* ===== verification/TrustStore.thy ===== *)
theory TrustStore
  imports AtomicFile Scope Handshake
begin

text \<open>
  The local trust state of a buddy: \<^verbatim>\<open>internal/role/trustlock.go\<close> (the lock and the revocation
  list), \<^verbatim>\<open>session.go\<close> (stored sessions), \<^verbatim>\<open>trust.go\<close> (trust on first use, pins) and
  \<^verbatim>\<open>audit.go\<close> (tags).

  Files are a map from paths to contents. A write goes through \<^verbatim>\<open>atomicfile.Write\<close>, whose
  outcome is taken from the field \<open>plan\<close>: done, failed, or the process is killed, before or
  after the rename. The refinement to the system calls is proved in the theory of the
  properties. A path in \<open>denied\<close> can be stat'ed but not opened, until a write replaces the
  file by one of its own. Every writer holds the lock
  from its read to its write, so that each operation is one step.
\<close>

section \<open>Files\<close>

datatype write_outcome = Written | NotWritten | KilledBefore | KilledAfter

record fs =
  files :: "(bytes, bytes) gomap"
  denied :: "bytes list"
  plan :: "write_outcome list"

datatype trust_error =
    NoTrustPath
  | LockFailure
  | OpenFailure
  | LineTooLong
  | SaveFailure
  | Died
  | PeerRevoked
  | SessionGone
  | NoStorePath
  | ManifestTooBig
  | ManifestSyntax
  | LegacyManifest
  | TooManyBuddies nat
  | VIPCollision
  | BadPeerKey
  | BadToken
  | BadBuddyName
  | BadExpose
  | NoBuddyMatches
  | AmbiguousKey nat
  | NoManifestPath
  | PinConflict
  | NoRendezvous
  | DirectNoKey
  | PinMismatch
  | KeyChanged

datatype read_result = Missing | Denied | Contents bytes

definition read_file :: "bytes \<Rightarrow> fs \<Rightarrow> read_result" where
  "read_file path f =
     (if path = [] then Missing
      else if path \<in> set (denied f) then Denied
      else case mget (files f) path of None \<Rightarrow> Missing | Some c \<Rightarrow> Contents c)"

definition put_file :: "bytes \<Rightarrow> bytes \<Rightarrow> fs \<Rightarrow> fs" where
  "put_file path data f = f\<lparr>files := mput path data (files f), denied := removeAll path (denied f)\<rparr>"

definition write_file :: "bytes \<Rightarrow> bytes \<Rightarrow> fs \<Rightarrow> trust_error option \<times> fs" where
  "write_file path data f =
     (let g = f\<lparr>plan := tl (plan f)\<rparr> in
      case plan f of
        [] \<Rightarrow> (None, put_file path data f)
      | Written # _ \<Rightarrow> (None, put_file path data g)
      | NotWritten # _ \<Rightarrow> (Some SaveFailure, g)
      | KilledBefore # _ \<Rightarrow> (Some Died, g)
      | KilledAfter # _ \<Rightarrow> (Some Died, put_file path data g))"

section \<open>The lock\<close>

definition trustBase :: "bytes \<Rightarrow> bytes \<Rightarrow> bytes" where
  "trustBase knownPeers peersFile = (if knownPeers \<noteq> [] then knownPeers else peersFile)"

definition trustLockPath :: "bytes \<Rightarrow> bytes \<Rightarrow> trust_error + bytes" where
  "trustLockPath knownPeers peersFile =
     (let base = trustBase knownPeers peersFile in if base \<noteq> [] then Inr base else Inl NoTrustPath)"

text \<open>\<open>locked\<close> tells whether the file lock was obtained. Waiting for it is not modelled.\<close>

definition withTrustStateLock ::
  "bool \<Rightarrow> bytes \<Rightarrow> bytes \<Rightarrow> (fs \<Rightarrow> (trust_error + 'a) \<times> fs) \<Rightarrow> fs \<Rightarrow> (trust_error + 'a) \<times> fs" where
  "withTrustStateLock locked knownPeers peersFile body f =
     (case trustLockPath knownPeers peersFile of
        Inl e \<Rightarrow> (Inl e, f)
      | Inr _ \<Rightarrow> if \<not> locked then (Inl LockFailure, f) else body f)"

section \<open>The revocation list\<close>

definition revokedPath :: "bytes \<Rightarrow> bytes" where
  "revokedPath base = (if base = [] then [] else base @ ''.revoked'')"

text \<open>The part after the first \<^verbatim>\<open>#\<close>.\<close>

definition line_note :: "bytes \<Rightarrow> bytes" where
  "line_note line =
     (case dropWhile (\<lambda>c. c \<noteq> CHR ''#'') line of [] \<Rightarrow> [] | _ # rest \<Rightarrow> TrimSpace rest)"

definition revoked_line :: "bytes \<Rightarrow> (bytes \<times> bytes) option" where
  "revoked_line text =
     (let line = TrimSpace text in
      if line = [] \<or> HasPrefix line ''#'' then None
      else case DecodePubKey (hd (Fields line)) of
        None \<Rightarrow> None
      | Some pin \<Rightarrow> Some (PubKeyB64 pin, line_note line))"

fun collect_revoked :: "bytes list \<Rightarrow> (bytes, bytes) gomap \<Rightarrow> (bytes, bytes) gomap" where
  "collect_revoked [] acc = acc"
| "collect_revoked (l # ls) acc =
     (case revoked_line l of
        None \<Rightarrow> collect_revoked ls acc
      | Some (k, note) \<Rightarrow>
          if k \<in> mkeys acc then collect_revoked ls acc else collect_revoked ls (acc @ [(k, note)]))"

definition loadRevoked :: "bytes \<Rightarrow> fs \<Rightarrow> trust_error + (bytes, bytes) gomap" where
  "loadRevoked base f =
     (if revokedPath base = [] then Inr []
      else case read_file (revokedPath base) f of
        Missing \<Rightarrow> Inr []
      | Denied \<Rightarrow> Inl OpenFailure
      | Contents c \<Rightarrow>
          (let (ls, long) = scan_lines c
           in if long then Inl LineTooLong else Inr (collect_revoked ls [])))"

definition emdash :: bytes where "emdash = [CHR 0xE2, CHR 0x80, CHR 0x94]"

definition revoked_header :: bytes where
  "revoked_header =
     ''# BuddyNet revoked buddy keys '' @ emdash @ '' the presence of a key IS the revocation.'' @ [newline] @
     ''# Lift one with:  buddynet peers allow <key>'' @ [newline]"

definition revoked_entry_line :: "bytes \<Rightarrow> bytes \<times> bytes \<Rightarrow> bytes" where
  "revoked_entry_line today e =
     fst e @ ''  # '' @ (if snd e = [] then ''revoked '' @ today else snd e) @ [newline]"

definition writeRevoked :: "bytes \<Rightarrow> bytes \<Rightarrow> (bytes, bytes) gomap \<Rightarrow> fs \<Rightarrow> trust_error option \<times> fs" where
  "writeRevoked today base entries f =
     (if revokedPath base = [] then (Some NoTrustPath, f)
      else write_file (revokedPath base) (revoked_header @ concat (map (revoked_entry_line today) entries)) f)"

definition addRevoked :: "bytes \<Rightarrow> bytes \<Rightarrow> bytes \<Rightarrow> fs \<Rightarrow> (trust_error + bool) \<times> fs" where
  "addRevoked today base key f =
     (case loadRevoked base f of
        Inl e \<Rightarrow> (Inl e, f)
      | Inr entries \<Rightarrow>
          if key \<in> mkeys entries then (Inr False, f)
          else case writeRevoked today base (entries @ [(key, ''revoked '' @ today)]) f of
            (Some e, f) \<Rightarrow> (Inl e, f)
          | (None, f) \<Rightarrow> (Inr True, f))"

definition removeRevoked :: "bytes \<Rightarrow> bytes \<Rightarrow> bytes \<Rightarrow> fs \<Rightarrow> (trust_error + bool) \<times> fs" where
  "removeRevoked today base key f =
     (case loadRevoked base f of
        Inl e \<Rightarrow> (Inl e, f)
      | Inr entries \<Rightarrow>
          if key \<notin> mkeys entries then (Inr False, f)
          else case writeRevoked today base (filter (\<lambda>e. fst e \<noteq> key) entries) f of
            (Some e, f) \<Rightarrow> (Inl e, f)
          | (None, f) \<Rightarrow> (Inr True, f))"

definition revokedSet :: "bytes \<Rightarrow> fs \<Rightarrow> trust_error + bytes set" where
  "revokedSet base f = map_sum id mkeys (loadRevoked base f)"

definition isRevoked :: "bytes \<Rightarrow> bytes \<Rightarrow> fs \<Rightarrow> trust_error + bool" where
  "isRevoked base key f = map_sum id (\<lambda>entries. key \<in> mkeys entries) (loadRevoked base f)"

section \<open>Sessions\<close>

definition tokenKey :: "crypto \<Rightarrow> bytes \<Rightarrow> bytes" where
  "tokenKey C tok = hex_encode (sha256 C tok)"

definition keyTag :: "bytes \<Rightarrow> bytes" where
  "keyTag pubB64 = (if length pubB64 < 8 then pubB64 else take 8 pubB64)"

definition tokenTag :: "crypto \<Rightarrow> bytes \<Rightarrow> bytes" where
  "tokenTag C tok = hex_encode (take 5 (sha256 C tok))"

text \<open>\<open>ekm\<close> is the keying material exported from the live TLS session.\<close>

definition sessionSecretLabel :: bytes where "sessionSecretLabel = ''buddynet-session-rendezvous-v1''"

definition deriveSessionSecret :: "(bytes \<Rightarrow> bytes \<Rightarrow> nat \<Rightarrow> bytes option) \<Rightarrow> bytes \<Rightarrow> bytes \<Rightarrow> bytes option" where
  "deriveSessionSecret ekm myPub peerPub =
     (let (a, b) = (if myPub > peerPub then (peerPub, myPub) else (myPub, peerPub))
      in map_option b64url_encode (ekm sessionSecretLabel (a @ b) 32))"

text \<open>A session line of a partner: three fields, the second its key.\<close>

definition session_line_of :: "bytes \<Rightarrow> bytes \<Rightarrow> bool" where
  "session_line_of partner line \<longleftrightarrow> (let ws = Fields line in length ws \<ge> 3 \<and> ws ! 1 = partner)"

definition kept_lines :: "bytes \<Rightarrow> bytes list \<Rightarrow> bytes list" where
  "kept_lines partner ls = filter (\<lambda>l. \<not> session_line_of partner l \<and> TrimSpace l \<noteq> []) ls"

definition session_line :: "crypto \<Rightarrow> bytes \<Rightarrow> bytes \<Rightarrow> bytes \<Rightarrow> bytes" where
  "session_line C invite partner secret = tokenKey C invite @ '' '' @ partner @ '' '' @ secret"

text \<open>The error of the scanner is not looked at here.\<close>

definition saveSessionLocked :: "crypto \<Rightarrow> bytes \<Rightarrow> bytes \<Rightarrow> bytes \<Rightarrow> bytes \<Rightarrow> fs \<Rightarrow> (trust_error + unit) \<times> fs" where
  "saveSessionLocked C path invite partner secret f =
     (case isRevoked path partner f of
        Inl e \<Rightarrow> (Inl e, f)
      | Inr True \<Rightarrow> (Inl PeerRevoked, f)
      | Inr False \<Rightarrow>
          (case (case read_file path f of Missing \<Rightarrow> Some [] | Denied \<Rightarrow> None
                 | Contents c \<Rightarrow> Some (kept_lines partner (fst (scan_lines c)))) of
             None \<Rightarrow> (Inl OpenFailure, f)
           | Some kept \<Rightarrow>
               (case write_file path (Join (kept @ [session_line C invite partner secret]) [newline] @ [newline]) f of
                  (Some e, f) \<Rightarrow> (Inl e, f)
                | (None, f) \<Rightarrow> (Inr (), f))))"

definition saveSession :: "crypto \<Rightarrow> bool \<Rightarrow> bytes \<Rightarrow> bytes \<Rightarrow> bytes \<Rightarrow> bytes \<Rightarrow> fs \<Rightarrow> (trust_error + unit) \<times> fs" where
  "saveSession C locked path invite partner secret f =
     (if path = [] then (Inl NoStorePath, f)
      else withTrustStateLock locked path [] (saveSessionLocked C path invite partner secret) f)"

definition removeSessionLocked :: "bytes \<Rightarrow> bytes \<Rightarrow> fs \<Rightarrow> (trust_error + nat) \<times> fs" where
  "removeSessionLocked path partner f =
     (case read_file path f of
        Missing \<Rightarrow> (Inr 0, f)
      | Denied \<Rightarrow> (Inl OpenFailure, f)
      | Contents c \<Rightarrow>
          (let (ls, long) = scan_lines c; removed = length (filter (session_line_of partner) ls) in
           if long then (Inl LineTooLong, f)
           else if removed = 0 then (Inr 0, f)
           else let out = Join (kept_lines partner ls) [newline] in
             case write_file path (if out \<noteq> [] then out @ [newline] else out) f of
               (Some e, f) \<Rightarrow> (Inl e, f)
             | (None, f) \<Rightarrow> (Inr removed, f)))"

definition removeSession :: "bool \<Rightarrow> bytes \<Rightarrow> bytes \<Rightarrow> fs \<Rightarrow> (trust_error + nat) \<times> fs" where
  "removeSession locked path partner f =
     (if path = [] then (Inr 0, f) else withTrustStateLock locked path [] (removeSessionLocked path partner) f)"

definition stored_session :: "bytes \<Rightarrow> (bytes \<times> bytes) option" where
  "stored_session line =
     (let ws = Fields line in
      if length ws < 3 then None
      else case b64std_decode (ws ! 1) of
        None \<Rightarrow> None
      | Some pub \<Rightarrow> if length pub \<noteq> PublicKeySize then None else Some (pub, ws ! 2))"

definition loadSessions :: "bytes \<Rightarrow> fs \<Rightarrow> trust_error + (bytes \<times> bytes) list" where
  "loadSessions path f =
     (if path = [] then Inr []
      else case read_file path f of
        Missing \<Rightarrow> Inr []
      | Denied \<Rightarrow> Inl OpenFailure
      | Contents c \<Rightarrow>
          (let (ls, long) = scan_lines c in if long then Inl LineTooLong else Inr (List.map_filter stored_session ls)))"

definition loadSessionFor :: "bytes \<Rightarrow> bytes \<Rightarrow> fs \<Rightarrow> trust_error + bytes option" where
  "loadSessionFor path pin f =
     map_sum id (\<lambda>ss. map_option snd (find (\<lambda>s. fst s = pin) ss)) (loadSessions path f)"

definition loadSession :: "bytes \<Rightarrow> fs \<Rightarrow> trust_error + (bytes \<times> bytes) option" where
  "loadSession path f = map_sum id (\<lambda>ss. case ss of [] \<Rightarrow> None | s # _ \<Rightarrow> Some s) (loadSessions path f)"

section \<open>Trust on first use\<close>

text \<open>The first line of the token decides. A line that is too long is only met when no earlier
  one matches.\<close>

definition loadKnownPeer :: "crypto \<Rightarrow> bytes \<Rightarrow> bytes \<Rightarrow> fs \<Rightarrow> trust_error + bytes" where
  "loadKnownPeer C path tok f =
     (case read_file path f of
        Missing \<Rightarrow> Inr []
      | Denied \<Rightarrow> Inl OpenFailure
      | Contents c \<Rightarrow>
          (let (ls, long) = scan_lines c in
           case find (\<lambda>ws. length ws \<ge> 2 \<and> ws ! 0 = tokenKey C tok) (map Fields ls) of
             Some ws \<Rightarrow> Inr (ws ! 1)
           | None \<Rightarrow> if long then Inl LineTooLong else Inr []))"

definition learnPeerLocked :: "crypto \<Rightarrow> bytes \<Rightarrow> bytes \<Rightarrow> bytes \<Rightarrow> fs \<Rightarrow> (trust_error + unit) \<times> fs" where
  "learnPeerLocked C path tok pubB64 f =
     (case isRevoked path pubB64 f of
        Inl e \<Rightarrow> (Inl e, f)
      | Inr True \<Rightarrow> (Inl PeerRevoked, f)
      | Inr False \<Rightarrow>
          (case (case read_file path f of Missing \<Rightarrow> Some [] | Denied \<Rightarrow> None | Contents c \<Rightarrow> Some c) of
             None \<Rightarrow> (Inl OpenFailure, f)
           | Some existing \<Rightarrow>
               (let existing = (if existing \<noteq> [] \<and> List.last existing \<noteq> newline then existing @ [newline] else existing) in
                case write_file path (existing @ tokenKey C tok @ '' '' @ pubB64 @ [newline]) f of
                  (Some e, f) \<Rightarrow> (Inl e, f)
                | (None, f) \<Rightarrow> (Inr (), f))))"

definition learnPeer :: "crypto \<Rightarrow> bool \<Rightarrow> bytes \<Rightarrow> bytes \<Rightarrow> bytes \<Rightarrow> fs \<Rightarrow> (trust_error + unit) \<times> fs" where
  "learnPeer C locked path tok pubB64 f =
     (if path = [] then (Inl NoStorePath, f)
      else withTrustStateLock locked path [] (learnPeerLocked C path tok pubB64) f)"

record trustPolicy =
  pinned :: "bytes option"
  insecure :: bool
  storePath :: bytes

text \<open>The result says whether the short authentication string must be compared.\<close>

definition decide :: "crypto \<Rightarrow> trustPolicy \<Rightarrow> bytes \<Rightarrow> bytes \<Rightarrow> fs \<Rightarrow> trust_error + bool" where
  "decide C t tok partnerPub f =
     (let partnerB64 = b64std_encode partnerPub in
      case (if storePath t = [] then Inr False else isRevoked (storePath t) partnerB64 f) of
        Inl e \<Rightarrow> Inl e
      | Inr True \<Rightarrow> Inl PeerRevoked
      | Inr False \<Rightarrow>
          (case pinned t of
             Some pin \<Rightarrow> if partnerPub \<noteq> pin then Inl PinMismatch else Inr False
           | None \<Rightarrow>
               if insecure t then Inr False
               else case loadKnownPeer C (storePath t) tok f of
                 Inl e \<Rightarrow> Inl e
               | Inr known \<Rightarrow>
                   if known = [] then Inr True
                   else if known \<noteq> partnerB64 then Inl KeyChanged else Inr False))"

definition confirm :: "crypto \<Rightarrow> bool \<Rightarrow> trustPolicy \<Rightarrow> bytes \<Rightarrow> bytes \<Rightarrow> fs \<Rightarrow> (trust_error + unit) \<times> fs" where
  "confirm C locked t tok partnerPub f =
     (if pinned t \<noteq> None \<or> insecure t \<or> storePath t = [] then (Inr (), f)
      else learnPeer C locked (storePath t) tok (b64std_encode partnerPub) f)"

text \<open>How to connect in one round.\<close>

record conn_attempt =
  rendezvous :: bytes
  inviteToken :: bytes
  at_pin :: "bytes option"
  cfgPin :: "bytes option"
  firstPairing :: bool
  ifIndex :: nat
  at_expose :: "scope option"

definition enforcePins :: "conn_attempt \<Rightarrow> bytes \<Rightarrow> trust_error option" where
  "enforcePins att partnerPub =
     (if at_pin att \<noteq> None \<and> at_pin att \<noteq> Some partnerPub then Some PinMismatch
      else if cfgPin att \<noteq> None \<and> cfgPin att \<noteq> Some partnerPub then Some PinMismatch
      else None)"

end
