(* ===== verification/Manifest.thy ===== *)
theory Manifest
  imports TrustStore
begin

text \<open>
  The peers manifest and the commands that edit the trust state:
  \<^verbatim>\<open>internal/role/peersfile.go\<close>, \<^verbatim>\<open>peerscmd.go\<close> and \<^verbatim>\<open>limits.go\<close>.

  The YAML library is a parameter: it reads a document into raw entries, or reports the end
  of input or an error, and writes raw entries. The decoding of the \<^verbatim>\<open>expose\<close> field is code of
  the repository and modelled. Printed text is represented by the result of a command.
\<close>

section \<open>YAML\<close>

datatype ynode = YScalar bytes | YSeq "bytes list" | YOther

record raw_buddy =
  rb_name :: bytes
  rb_key :: bytes
  rb_token :: bytes
  rb_expose :: "ynode option"

datatype ydoc = YEof | YError | YDoc "raw_buddy list"

record yaml =
  yread :: "bytes \<Rightarrow> ydoc"
  ywrite :: "raw_buddy list \<Rightarrow> bytes"

section \<open>Entries\<close>

record peerSpec =
  ps_pin :: bytes
  ps_token :: bytes
  ps_name :: bytes
  ps_expose :: "scope option"

record manifestBuddy =
  mb_name :: bytes
  mb_key :: bytes
  mb_token :: bytes
  mb_expose :: "scope option"

definition sameScope :: "scope option \<Rightarrow> scope option \<Rightarrow> bool" where
  "sameScope a b =
     (case (a, b) of (Some x, Some y) \<Rightarrow> Scope_String x = Scope_String y | _ \<Rightarrow> a = None \<and> b = None)"

definition maxManifestBytes :: nat where "maxManifestBytes = 1048576"

definition MaxBuddies :: nat where "MaxBuddies = 48"

fun UnmarshalYAML :: "ynode \<Rightarrow> scope option" where
  "UnmarshalYAML (YScalar v) = (if EqualFold (TrimSpace v) ''all'' then Some \<lparr>All = True, Ports = []\<rparr> else None)"
| "UnmarshalYAML (YSeq items) = (if items = [] then None else ParseScope (Join items '',''))"
| "UnmarshalYAML YOther = None"

definition MarshalYAML :: "scope \<Rightarrow> ynode" where
  "MarshalYAML s =
     (if All s then YScalar ''all''
      else YSeq (map (\<lambda>p. if Proto p = ''tcp'' then itoa (PortNo p) else port_text p) (Ports s)))"

definition raw_buddy_of :: "manifestBuddy \<Rightarrow> raw_buddy" where
  "raw_buddy_of b = \<lparr>rb_name = mb_name b, rb_key = mb_key b, rb_token = mb_token b, rb_expose = map_option MarshalYAML (mb_expose b)\<rparr>"

definition buddy_of_raw :: "raw_buddy \<Rightarrow> manifestBuddy option" where
  "buddy_of_raw r =
     (let b = \<lparr>mb_name = rb_name r, mb_key = rb_key r, mb_token = rb_token r, mb_expose = None\<rparr> in
      case rb_expose r of
        None \<Rightarrow> Some b
      | Some n \<Rightarrow> map_option (\<lambda>s. b\<lparr>mb_expose := Some s\<rparr>) (UnmarshalYAML n))"

definition name_byte :: "char \<Rightarrow> bool" where
  "name_byte c =
     (let n = of_char c :: nat in (97 \<le> n \<and> n \<le> 122) \<or> (65 \<le> n \<and> n \<le> 90) \<or> (48 \<le> n \<and> n \<le> 57) \<or> c = CHR ''-'')"

definition validateBuddyName :: "bytes \<Rightarrow> bool" where
  "validateBuddyName name \<longleftrightarrow> name = [] \<or> length name \<le> 63 \<and> list_all name_byte name"

definition toSpec :: "manifestBuddy \<Rightarrow> trust_error + peerSpec" where
  "toSpec b =
     (if mb_key b = [] then Inl BadPeerKey
      else case DecodePubKey (mb_key b) of
        None \<Rightarrow> Inl BadPeerKey
      | Some pin \<Rightarrow>
          if mb_token b \<noteq> [] \<and> \<not> validField (mb_token b) then Inl BadToken
          else if \<not> validateBuddyName (mb_name b) then Inl BadBuddyName
          else Inr \<lparr>ps_pin = pin, ps_token = mb_token b, ps_name = mb_name b, ps_expose = mb_expose b\<rparr>)"

definition toManifest :: "peerSpec \<Rightarrow> manifestBuddy" where
  "toManifest s = \<lparr>mb_name = ps_name s, mb_key = PubKeyB64 (ps_pin s), mb_token = ps_token s, mb_expose = ps_expose s\<rparr>"

section \<open>Reading\<close>

definition readManifest :: "bytes \<Rightarrow> fs \<Rightarrow> trust_error + bytes option" where
  "readManifest path f =
     (case mget (files f) path of
        None \<Rightarrow> Inr None
      | Some c \<Rightarrow>
          if length c > maxManifestBytes then Inl ManifestTooBig
          else case read_file path f of Contents c \<Rightarrow> Inr (Some c) | _ \<Rightarrow> Inl OpenFailure)"

definition content_line :: "bytes \<Rightarrow> bool" where
  "content_line l \<longleftrightarrow> TrimSpace l \<noteq> [] \<and> \<not> HasPrefix (TrimSpace l) ''#''"

definition manifestIsLegacy :: "bytes \<Rightarrow> bool" where
  "manifestIsLegacy data =
     (case find content_line (fst (scan_lines data)) of
        None \<Rightarrow> False
      | Some l \<Rightarrow> DecodePubKey (hd (Fields (TrimSpace l))) \<noteq> None)"

fun legacy_lines :: "bytes list \<Rightarrow> bytes list \<Rightarrow> peerSpec list \<Rightarrow> trust_error + peerSpec list" where
  "legacy_lines [] seen specs = Inr specs"
| "legacy_lines (l # ls) seen specs =
     (if \<not> content_line l then legacy_lines ls seen specs
      else let ws = Fields (TrimSpace l) in
        if length ws > 2 then Inl ManifestSyntax
        else case DecodePubKey (hd ws) of
          None \<Rightarrow> Inl BadPeerKey
        | Some pin \<Rightarrow>
            let key = PubKeyB64 pin in
            if key \<in> set seen then Inl ManifestSyntax
            else legacy_lines ls (key # seen)
              (specs @ [\<lparr>ps_pin = pin, ps_token = (if length ws = 2 then ws ! 1 else []), ps_name = [], ps_expose = None\<rparr>]))"

definition parseLegacyManifest :: "bytes \<Rightarrow> trust_error + peerSpec list" where
  "parseLegacyManifest data =
     (let (ls, long) = scan_lines data in
      case legacy_lines ls [] [] of
        Inl e \<Rightarrow> Inl e
      | Inr specs \<Rightarrow> if long then Inl LineTooLong else Inr specs)"

fun yaml_entries :: "manifestBuddy list \<Rightarrow> bytes list \<Rightarrow> peerSpec list \<Rightarrow> trust_error + peerSpec list" where
  "yaml_entries [] seen specs = Inr specs"
| "yaml_entries (b # bs) seen specs =
     (case toSpec b of
        Inl e \<Rightarrow> Inl e
      | Inr spec \<Rightarrow>
          let key = PubKeyB64 (ps_pin spec) in
          if key \<in> set seen then Inl ManifestSyntax else yaml_entries bs (key # seen) (specs @ [spec]))"

definition parseYAMLManifest :: "yaml \<Rightarrow> bytes \<Rightarrow> trust_error + peerSpec list" where
  "parseYAMLManifest Y data =
     (case yread Y data of
        YEof \<Rightarrow> Inr []
      | YError \<Rightarrow> Inl ManifestSyntax
      | YDoc rs \<Rightarrow>
          (case those (map buddy_of_raw rs) of
             None \<Rightarrow> Inl BadExpose
           | Some bs \<Rightarrow> yaml_entries bs [] []))"

definition loadPeersFile :: "yaml \<Rightarrow> bytes \<Rightarrow> fs \<Rightarrow> trust_error + peerSpec list" where
  "loadPeersFile Y path f =
     (if path = [] then Inr []
      else case readManifest path f of
        Inl e \<Rightarrow> Inl e
      | Inr None \<Rightarrow> Inr []
      | Inr (Some data) \<Rightarrow> if manifestIsLegacy data then parseLegacyManifest data else parseYAMLManifest Y data)"

definition manifestNeedsMigration :: "bytes \<Rightarrow> fs \<Rightarrow> trust_error + bool" where
  "manifestNeedsMigration path f =
     (case readManifest path f of
        Inl e \<Rightarrow> Inl e
      | Inr None \<Rightarrow> Inr False
      | Inr (Some data) \<Rightarrow> Inr (manifestIsLegacy data))"

section \<open>Writing\<close>

definition manifestHeader :: bytes where
  \<open>manifestHeader =
     ''# BuddyNet peers manifest (YAML). Managed by 'peers add/remove/list'; hand-editable.'' @ [newline] @
     ''# NOTE: 'peers add/remove' rewrite this file and drop custom comments.'' @ [newline] @
     ''# One entry per buddy:'' @ [newline] @
     ''#   - name: alice             # optional (display / .buddy hint)'' @ [newline] @
     ''#     key: <pubkey-base64>    # required '' @ emdash @ '' the buddy's pinned Ed25519 identity'' @ [newline] @
     ''#     token: <bootstrap>      # optional, only needed until the first pairing'' @ [newline] @
     ''#     expose: [873]           # optional (WireGuard): ports this buddy may reach'' @ [newline] @
     ''#                             # on THIS host, e.g. [873, "udp/51820"]; 'all' ='' @ [newline] @
     ''#                             # explicit whole host; omitted = inherit --expose,'' @ [newline] @
     ''#                             # else fail-closed (nothing exposed)'' @ [newline]\<close>

definition manifest_text :: "yaml \<Rightarrow> peerSpec list \<Rightarrow> bytes" where
  "manifest_text Y specs = manifestHeader @ ywrite Y (map (raw_buddy_of \<circ> toManifest) specs)"

definition saveManifestLocked :: "yaml \<Rightarrow> bytes \<Rightarrow> peerSpec list \<Rightarrow> fs \<Rightarrow> trust_error option \<times> fs" where
  "saveManifestLocked Y path specs f = write_file path (manifest_text Y specs) f"

definition saveManifest :: "yaml \<Rightarrow> bool \<Rightarrow> bytes \<Rightarrow> bytes \<Rightarrow> peerSpec list \<Rightarrow> fs \<Rightarrow> (trust_error + unit) \<times> fs" where
  "saveManifest Y locked knownPeers path specs f =
     withTrustStateLock locked knownPeers path
       (\<lambda>f. case saveManifestLocked Y path specs f of (Some e, f) \<Rightarrow> (Inl e, f) | (None, f) \<Rightarrow> (Inr (), f)) f"

section \<open>The peers of the supervisor\<close>

record trust_cfg =
  KnownPeers :: bytes
  PeersFile :: bytes

abbreviation spec_key :: "peerSpec \<Rightarrow> bytes" where "spec_key s \<equiv> PubKeyB64 (ps_pin s)"

definition session_spec :: "bytes \<Rightarrow> peerSpec" where
  "session_spec pin = \<lparr>ps_pin = pin, ps_token = [], ps_name = [], ps_expose = None\<rparr>"

definition assemblePeers :: "yaml \<Rightarrow> crypto \<Rightarrow> 'a trust_cfg_scheme \<Rightarrow> fs \<Rightarrow> trust_error + peerSpec list" where
  "assemblePeers Y C cfg f =
     (case loadPeersFile Y (PeersFile cfg) f of
        Inl e \<Rightarrow> Inl e
      | Inr manifest \<Rightarrow>
     (case revokedSet (trustBase (KnownPeers cfg) (PeersFile cfg)) f of
        Inl e \<Rightarrow> Inl e
      | Inr revoked \<Rightarrow>
     (case loadSessions (KnownPeers cfg) f of
        Inl e \<Rightarrow> Inl e
      | Inr ss \<Rightarrow>
          (let listed = filter (\<lambda>s. spec_key s \<notin> revoked) manifest;
               paired = filter (\<lambda>s. PubKeyB64 (fst s) \<notin> revoked \<and> PubKeyB64 (fst s) \<notin> spec_key ` set listed) ss;
               specs = listed @ map (session_spec \<circ> fst) paired
           in if length specs > MaxBuddies then Inl (TooManyBuddies (length specs))
              else if \<not> distinct (map (VirtualIP_of C \<circ> ps_pin) specs) then Inl VIPCollision
              else Inr specs))))"

section \<open>The commands\<close>

datatype cmd_result =
    AlreadyListed
  | AllowedAgain
  | Added
  | NotRevoked
  | AllowedBuddy
  | AlreadyRevoked
  | RevokedBuddy nat nat
  | RevokedUnfinished trust_error
  | NothingToMigrate
  | MigratedBuddies nat

text \<open>The steps under the lock: the entry is written before the tombstone is lifted.\<close>

definition add_steps :: "yaml \<Rightarrow> bytes \<Rightarrow> bytes \<Rightarrow> bytes \<Rightarrow> peerSpec \<Rightarrow> fs \<Rightarrow> (trust_error + cmd_result) \<times> fs" where
  "add_steps Y today peersFile knownPeers spec f =
     (case loadPeersFile Y peersFile f of
        Inl e \<Rightarrow> (Inl e, f)
      | Inr existing \<Rightarrow>
          (let base = trustBase knownPeers peersFile; keyB64 = spec_key spec; listed = keyB64 \<in> spec_key ` set existing in
           case isRevoked base keyB64 f of
             Inl e \<Rightarrow> (Inl e, f)
           | Inr revoked \<Rightarrow>
               if listed \<and> \<not> revoked then (Inr AlreadyListed, f)
               else if \<not> listed \<and> length existing \<ge> MaxBuddies then (Inl (TooManyBuddies (length existing + 1)), f)
               else case (if listed then (None, f) else saveManifestLocked Y peersFile (existing @ [spec]) f) of
                 (Some e, f) \<Rightarrow> (Inl e, f)
               | (None, f) \<Rightarrow>
                   if revoked
                   then (case removeRevoked today base keyB64 f of (Inl e, f) \<Rightarrow> (Inl e, f) | (Inr _, f) \<Rightarrow> (Inr AllowedAgain, f))
                   else (Inr Added, f)))"

definition PeersAdd ::
  "yaml \<Rightarrow> bytes \<Rightarrow> bool \<Rightarrow> bytes \<Rightarrow> bytes \<Rightarrow> bytes \<Rightarrow> bytes \<Rightarrow> bytes \<Rightarrow> bytes \<Rightarrow> fs \<Rightarrow> (trust_error + cmd_result) \<times> fs" where
  "PeersAdd Y today locked peersFile knownPeers key tok name expose f =
     (if peersFile = [] then (Inl NoManifestPath, f)
      else case DecodePubKey key of
        None \<Rightarrow> (Inl BadPeerKey, f)
      | Some pin \<Rightarrow>
          if CHR '' '' \<in> set tok \<or> CHR 0x09 \<in> set tok then (Inl BadToken, f)
          else if \<not> validateBuddyName name then (Inl BadBuddyName, f)
          else if expose \<noteq> [] \<and> ParseScope expose = None then (Inl BadExpose, f)
          else case manifestNeedsMigration peersFile f of
            Inl e \<Rightarrow> (Inl e, f)
          | Inr True \<Rightarrow> (Inl LegacyManifest, f)
          | Inr False \<Rightarrow>
              withTrustStateLock locked knownPeers peersFile
                (add_steps Y today peersFile knownPeers
                   \<lparr>ps_pin = pin, ps_token = tok, ps_name = name, ps_expose = (if expose = [] then None else ParseScope expose)\<rparr>) f)"

text \<open>A full key stands for itself; anything else is a prefix of exactly one known key.\<close>

definition known_keys :: "peerSpec list \<Rightarrow> (bytes \<times> bytes) list \<Rightarrow> bytes list \<Rightarrow> bytes list" where
  "known_keys specs ss gone = remdups (map spec_key specs @ map (PubKeyB64 \<circ> fst) ss @ gone)"

definition resolveKeyRef :: "yaml \<Rightarrow> bytes \<Rightarrow> bytes \<Rightarrow> bytes \<Rightarrow> fs \<Rightarrow> trust_error + bytes" where
  "resolveKeyRef Y peersFile knownPeers ref f =
     (case DecodePubKey ref of
        Some pin \<Rightarrow> Inr (PubKeyB64 pin)
      | None \<Rightarrow>
     (case loadPeersFile Y peersFile f of
        Inl e \<Rightarrow> Inl e
      | Inr specs \<Rightarrow>
     (case loadSessions knownPeers f of
        Inl e \<Rightarrow> Inl e
      | Inr ss \<Rightarrow>
     (case loadRevoked (trustBase knownPeers peersFile) f of
        Inl e \<Rightarrow> Inl e
      | Inr gone \<Rightarrow>
          (case sort (filter (\<lambda>k. HasPrefix k ref) (known_keys specs ss (map fst gone))) of
             [] \<Rightarrow> Inl NoBuddyMatches
           | [k] \<Rightarrow> Inr k
           | ks \<Rightarrow> Inl (AmbiguousKey (length ks)))))))"

definition PeersAllow :: "yaml \<Rightarrow> bytes \<Rightarrow> bool \<Rightarrow> bytes \<Rightarrow> bytes \<Rightarrow> bytes \<Rightarrow> fs \<Rightarrow> (trust_error + cmd_result) \<times> fs" where
  "PeersAllow Y today locked peersFile knownPeers ref f =
     (case resolveKeyRef Y peersFile knownPeers ref f of
        Inl e \<Rightarrow> (Inl e, f)
      | Inr key \<Rightarrow>
          withTrustStateLock locked knownPeers peersFile
            (\<lambda>f. case removeRevoked today (trustBase knownPeers peersFile) key f of
               (Inl e, f) \<Rightarrow> (Inl e, f)
             | (Inr lifted, f) \<Rightarrow> (Inr (if lifted then AllowedBuddy else NotRevoked), f)) f)"

definition removeManifestEntryLocked :: "yaml \<Rightarrow> bytes \<Rightarrow> bytes \<Rightarrow> fs \<Rightarrow> (trust_error + nat) \<times> fs" where
  "removeManifestEntryLocked Y peersFile key f =
     (if peersFile = [] then (Inr 0, f)
      else case manifestNeedsMigration peersFile f of
        Inl e \<Rightarrow> (Inl e, f)
      | Inr True \<Rightarrow> (Inl LegacyManifest, f)
      | Inr False \<Rightarrow>
          (case loadPeersFile Y peersFile f of
             Inl e \<Rightarrow> (Inl e, f)
           | Inr specs \<Rightarrow>
               (let removed = length (filter (\<lambda>s. spec_key s = key) specs) in
                if removed = 0 then (Inr 0, f)
                else case saveManifestLocked Y peersFile (filter (\<lambda>s. spec_key s \<noteq> key) specs) f of
                  (Some e, f) \<Rightarrow> (Inl e, f)
                | (None, f) \<Rightarrow> (Inr removed, f))))"

text \<open>The steps under the lock, in the order of the code: tombstone, session, manifest. A failure
  after the tombstone is reported as a revocation in effect whose cleanup is unfinished.\<close>

definition remove_steps :: "yaml \<Rightarrow> bytes \<Rightarrow> bytes \<Rightarrow> bytes \<Rightarrow> bytes \<Rightarrow> fs \<Rightarrow> (trust_error + cmd_result) \<times> fs" where
  "remove_steps Y today peersFile knownPeers key f =
     (case addRevoked today (trustBase knownPeers peersFile) key f of
        (Inl e, f) \<Rightarrow> (Inl e, f)
      | (Inr added, f) \<Rightarrow>
          (case removeSessionLocked knownPeers key f of
             (Inl e, f) \<Rightarrow> (Inr (RevokedUnfinished e), f)
           | (Inr sessionRemoved, f) \<Rightarrow>
               (case removeManifestEntryLocked Y peersFile key f of
                  (Inl e, f) \<Rightarrow> (Inr (RevokedUnfinished e), f)
                | (Inr manifestRemoved, f) \<Rightarrow>
                    (Inr (if manifestRemoved = 0 \<and> sessionRemoved = 0 \<and> \<not> added then AlreadyRevoked
                          else RevokedBuddy manifestRemoved sessionRemoved), f))))"

definition PeersRemove :: "yaml \<Rightarrow> bytes \<Rightarrow> bool \<Rightarrow> bytes \<Rightarrow> bytes \<Rightarrow> bytes \<Rightarrow> fs \<Rightarrow> (trust_error + cmd_result) \<times> fs" where
  "PeersRemove Y today locked peersFile knownPeers ref f =
     (case resolveKeyRef Y peersFile knownPeers ref f of
        Inl e \<Rightarrow> (Inl e, f)
      | Inr key \<Rightarrow> withTrustStateLock locked knownPeers peersFile (remove_steps Y today peersFile knownPeers key) f)"

definition PeersMigrate :: "yaml \<Rightarrow> bool \<Rightarrow> bytes \<Rightarrow> bytes \<Rightarrow> fs \<Rightarrow> (trust_error + cmd_result) \<times> fs" where
  "PeersMigrate Y locked peersFile knownPeers f =
     (if peersFile = [] then (Inl NoManifestPath, f)
      else case manifestNeedsMigration peersFile f of
        Inl e \<Rightarrow> (Inl e, f)
      | Inr False \<Rightarrow> (Inr NothingToMigrate, f)
      | Inr True \<Rightarrow>
          (case loadPeersFile Y peersFile f of
             Inl e \<Rightarrow> (Inl e, f)
           | Inr specs \<Rightarrow>
               (case read_file peersFile f of
                  Contents data \<Rightarrow>
                    (case write_file (peersFile @ ''.bak'') data f of
                       (Some e, f) \<Rightarrow> (Inl e, f)
                     | (None, f) \<Rightarrow>
                         (case saveManifest Y locked knownPeers peersFile specs f of
                            (Inl e, f) \<Rightarrow> (Inl e, f)
                          | (Inr _, f) \<Rightarrow> (Inr (MigratedBuddies (length specs)), f)))
                | _ \<Rightarrow> (Inl OpenFailure, f))))"

text \<open>The rows of \<^verbatim>\<open>peers list\<close>: address, name, status, short key, token, exposure, source. \<open>names\<close>
  holds the names in the peer cache.\<close>

definition shortKeyTag :: "bytes \<Rightarrow> bytes" where
  "shortKeyTag key = (if length key < 6 then key else take 6 key)"

definition list_row ::
  "crypto \<Rightarrow> (bytes, bytes) gomap \<Rightarrow> bytes \<Rightarrow> bytes \<Rightarrow> bytes \<Rightarrow> bytes \<Rightarrow> bytes \<Rightarrow> bytes \<Rightarrow> bytes list" where
  "list_row C names pin name status tok expose source =
     (let key = PubKeyB64 pin;
          name = (if name \<noteq> [] then name else case mget names key of Some n \<Rightarrow> n | None \<Rightarrow> []);
          name = (if name = [] then emdash else name)
      in [VirtualIPString C pin, name, status, shortKeyTag key, tok, expose, source])"

definition manifest_row :: "crypto \<Rightarrow> (bytes, bytes) gomap \<Rightarrow> bytes set \<Rightarrow> bytes set \<Rightarrow> peerSpec \<Rightarrow> bytes list" where
  "manifest_row C names paired revoked s =
     list_row C names (ps_pin s) (ps_name s)
       (if spec_key s \<in> revoked then ''REVOKED'' else if spec_key s \<in> paired then ''paired'' else ''unpaired'')
       (if ps_token s \<noteq> [] then ''token-set'' else ''no-token'')
       (case ps_expose s of None \<Rightarrow> ''(inherit)'' | Some sc \<Rightarrow> Scope_String sc) ''manifest''"

fun session_rows :: "crypto \<Rightarrow> (bytes, bytes) gomap \<Rightarrow> bytes set \<Rightarrow> (bytes \<times> bytes) list \<Rightarrow> bytes set \<Rightarrow> bytes list list \<times> bytes set" where
  "session_rows C names revoked [] shown = ([], shown)"
| "session_rows C names revoked ((pin, _) # ss) shown =
     (let key = PubKeyB64 pin in
      if key \<in> shown then session_rows C names revoked ss shown
      else let (rows, shown) = session_rows C names revoked ss (insert key shown)
           in (list_row C names pin [] (if key \<in> revoked then ''REVOKED'' else ''paired'') emdash ''(inherit)'' ''session-only'' # rows,
               shown))"

definition PeersList :: "yaml \<Rightarrow> crypto \<Rightarrow> (bytes, bytes) gomap \<Rightarrow> bytes \<Rightarrow> bytes \<Rightarrow> fs \<Rightarrow> trust_error + bytes list list" where
  "PeersList Y C names peersFile knownPeers f =
     (case loadPeersFile Y peersFile f of
        Inl e \<Rightarrow> Inl e
      | Inr specs \<Rightarrow>
     (case loadSessions knownPeers f of
        Inl e \<Rightarrow> Inl e
      | Inr ss \<Rightarrow>
     (case loadRevoked (trustBase knownPeers peersFile) f of
        Inl e \<Rightarrow> Inl e
      | Inr gone \<Rightarrow>
          (let paired = set (map (PubKeyB64 \<circ> fst) ss); revoked = mkeys gone;
               (srows, shown) = session_rows C names revoked ss (set (map spec_key specs));
               rest = sort (filter (\<lambda>k. k \<notin> shown) (map fst gone))
           in Inr (map (manifest_row C names paired revoked) specs @ srows @
                List.map_filter (\<lambda>k. map_option (\<lambda>pin. list_row C names pin [] ''REVOKED'' emdash emdash ''revoked'') (DecodePubKey k)) rest)))))"

end
