(* ===== verification/TrustText.thy ===== *)
theory TrustText
  imports Manifest
begin

text \<open>
  What the revocation list and the session store written by the program read back as: lines
  written one by one are the lines read, a trailing carriage return changes no field, and an
  entry of the revocation list is recognised whatever its note says.
\<close>

section \<open>Lines and fields\<close>

lemma scan_lines_written:
  assumes "\<forall>l \<in> set ls. newline \<notin> set l \<and> \<not> too_long l"
  shows "scan_lines (concat (map (\<lambda>l. l @ [newline]) ls)) = (map dropCR ls, False)"
proof -
  have "takeWhile (\<lambda>l. \<not> too_long l) ls = ls" using assms by (auto simp: takeWhile_eq_all_conv)
  moreover have "\<not> list_ex too_long ls" using assms by (auto simp: list_ex_iff)
  moreover have "raw_lines (concat (map (\<lambda>l. l @ [newline]) ls)) [] = ls" using assms by (intro raw_lines_join) blast
  ultimately show ?thesis by (simp only: scan_lines_def Let_def)
qed

text \<open>Without a bound on the lengths: when the scan succeeds it gives these lines.\<close>

lemma scan_lines_complete:
  assumes "\<forall>l \<in> set ls. newline \<notin> set l" and "scan_lines (concat (map (\<lambda>l. l @ [newline]) ls)) = (ls', False)"
  shows "ls' = map dropCR ls"
proof -
  have "\<not> list_ex too_long ls" using assms raw_lines_join [of ls] by (simp add: scan_lines_def Let_def)
  then have "\<forall>l \<in> set ls. newline \<notin> set l \<and> \<not> too_long l" using assms(1) by (auto simp: list_ex_iff)
  from scan_lines_written [OF this] assms(2) show ?thesis by simp
qed

lemma scanned_line:
  assumes "l \<in> set (fst (scan_lines s))"
  shows "newline \<notin> set l" "\<not> too_long l"
proof -
  obtain r where r: "r \<in> set (takeWhile (\<lambda>l. \<not> too_long l) (raw_lines s []))" "l = dropCR r"
    using assms by (auto simp: scan_lines_def Let_def)
  then have "newline \<notin> set r" "\<not> too_long r"
    using raw_lines_no_newline [of "[]" r s] by (auto dest: set_takeWhileD)
  then show "newline \<notin> set l" "\<not> too_long l"
    using r(2) by (auto simp: dropCR_def too_long_def dest: in_set_butlastD)
qed

lemma units_white_end: "units (s @ [CHR 0x0D]) = units s @ [(True, [CHR 0x0D])]"
proof (induction "length s" arbitrary: s rule: less_induct)
  case less
  show ?case
  proof (cases s)
    case Nil
    then show ?thesis by (simp add: space1_def)
  next
    case (Cons c t)
    show ?thesis
    proof (cases rule: units_Cons_cases [of c t])
      case (white w r)
      then have "units (r @ [CHR 0x0D]) = units r @ [(True, [CHR 0x0D])]" using less Cons by simp
      then show ?thesis using white Cons by (metis append.assoc append_Cons)
    next
      case byte
      have "units (c # t @ [CHR 0x0D]) = (False, [c]) # units (t @ [CHR 0x0D])"
        using byte(2-4) by (intro units_byte [where v = "[]"]) (auto simp: Cons_eq_append_conv append_eq_Cons_conv space2_def space3_def)
      then show ?thesis using less Cons byte(1) by simp
    qed
  qed
qed

lemma Fields_dropCR: "Fields (dropCR l) = Fields l"
proof (cases "l \<noteq> [] \<and> List.last l = CHR 0x0D")
  case True
  then obtain k where l: "l = k @ [CHR 0x0D]" by (metis append_butlast_last_id)
  then show ?thesis by (simp add: dropCR_def Fields_def units_white_end split_fields_white_end)
qed (auto simp: dropCR_def)

lemma Fields_blank: "TrimSpace l = [] \<Longrightarrow> Fields l = []"
  using Fields_TrimSpace [of l] by (simp add: Fields_def)

lemma TrimSpace_no_newline: "newline \<notin> set s \<Longrightarrow> newline \<notin> set (TrimSpace s)"
proof -
  have "set (TrimSpace s) \<subseteq> set (concat (map snd (units s)))"
    by (auto simp: TrimSpace_def dest!: set_dropWhileD)
  then show "newline \<notin> set s \<Longrightarrow> newline \<notin> set (TrimSpace s)" by (auto simp: units_concat)
qed

lemma TrimSpace_plain_Cons: "plain_byte c \<Longrightarrow> \<exists>r. TrimSpace (c # s) = c # r"
proof -
  assume "plain_byte c"
  then have u: "dropWhile fst (units (c # s)) = (False, [c]) # units s" by (simp add: units_plain del: units.simps)
  have "rev (dropWhile fst (rev us @ [(False, [c])])) = (False, [c]) # rev (dropWhile fst (rev us))" for us
    by (simp add: dropWhile_append)
  then show ?thesis unfolding TrimSpace_def u by (simp del: units.simps)
qed

section \<open>Keys in a line\<close>

lemma DecodePubKey_roundtrip: "length pin = 32 \<Longrightarrow> DecodePubKey (PubKeyB64 pin) = Some pin"
  by (simp add: DecodePubKey_def PubKeyB64_def PublicKeySize_def)

lemma DecodePubKey_length: "DecodePubKey s = Some pin \<Longrightarrow> length pin = 32"
  by (simp add: DecodePubKey_def PublicKeySize_def split: option.splits if_splits)

lemma PubKeyB64_plain: "\<forall>c \<in> set (PubKeyB64 pin). plain_byte c"
  by (simp add: PubKeyB64_def b64std_plain)

lemma b64std_no_hash: "CHR ''#'' \<notin> set (b64std_encode bs)"
proof -
  have "b64_char al v \<noteq> CHR ''#''" if "v < 64" for al v
    using that by (auto simp: b64_char_def of_char_of dest!: arg_cong [where f = "of_char :: char \<Rightarrow> nat"])
  then show ?thesis using sextets_bs [of bs] by (fastforce simp: b64std_encode_def Let_def)
qed

text \<open>An entry of the revocation list, in the spelling of the program.\<close>

definition key_ok :: "bytes \<Rightarrow> bool" where
  "key_ok k \<longleftrightarrow> (\<exists>pin. length pin = 32 \<and> k = PubKeyB64 pin)"

lemma key_ok_Decode: "DecodePubKey s = Some pin \<Longrightarrow> key_ok (PubKeyB64 pin)"
  using DecodePubKey_length by (auto simp: key_ok_def)

lemma key_ok_nonempty: "key_ok k \<Longrightarrow> k \<noteq> []"
proof
  assume "key_ok k" "k = []"
  then obtain pin where "length pin = 32" "[] = PubKeyB64 pin" by (auto simp: key_ok_def)
  moreover have "DecodePubKey [] = None" by code_simp
  ultimately show False using DecodePubKey_roundtrip [of pin] by simp
qed

lemma key_ok_plain: "key_ok k \<Longrightarrow> \<forall>c \<in> set k. plain_byte c"
  using PubKeyB64_plain by (auto simp: key_ok_def)

text \<open>Whatever follows the key after a blank, the line names the key.\<close>

lemma revoked_line_key:
  assumes "key_ok k"
  shows "\<exists>n. revoked_line (dropCR (k @ CHR '' '' # s)) = Some (k, n)"
proof -
  let ?t = "dropCR (k @ CHR '' '' # s)"
  obtain pin where pin: "length pin = 32" "k = PubKeyB64 pin" using assms by (auto simp: key_ok_def)
  obtain c k' where k: "k = c # k'" using key_ok_nonempty [OF assms] by (cases k) auto
  have c: "plain_byte c" using key_ok_plain [OF assms] k by simp
  have nh: "c \<noteq> CHR ''#''" using b64std_no_hash [of pin] pin k by (metis PubKeyB64_def list.set_intros(1))
  have "\<exists>r. ?t = c # r" using k by (auto simp: dropCR_def)
  then obtain r where t: "TrimSpace ?t = c # r" using TrimSpace_plain_Cons [OF c] by metis
  have "Fields (TrimSpace ?t) = k # Fields s"
    using Fields_word_label [OF key_ok_plain [OF assms] key_ok_nonempty [OF assms], of s] by (simp add: Fields_TrimSpace Fields_dropCR)
  then show ?thesis using t nh DecodePubKey_roundtrip [OF pin(1)] pin(2) by (simp add: revoked_line_def HasPrefix_def)
qed

lemma collect_revoked_acc: "mkeys acc \<subseteq> mkeys (collect_revoked ls acc)"
proof (induction ls arbitrary: acc)
  case (Cons l ls)
  have "mkeys acc \<subseteq> mkeys (collect_revoked ls (acc @ [e]))" for e using Cons.IH [of "acc @ [e]"] by auto
  then show ?case using Cons.IH [of acc] by (cases "revoked_line l"; cases "the (revoked_line l)") simp_all
qed simp

lemma collect_revoked_key: "l \<in> set ls \<Longrightarrow> revoked_line l = Some (k, n) \<Longrightarrow> k \<in> mkeys (collect_revoked ls acc)"
proof (induction ls arbitrary: acc)
  case (Cons l' ls)
  show ?case
  proof (cases "l = l'")
    case True
    then show ?thesis
      using Cons.prems collect_revoked_acc [of acc ls] collect_revoked_acc [of "acc @ [(k, n)]" ls] by auto
  next
    case False
    then show ?thesis using Cons by (cases "revoked_line l'"; cases "the (revoked_line l')") simp_all
  qed
qed simp

lemma collect_revoked_from:
  "(k, n) \<in> set (collect_revoked ls acc) \<Longrightarrow> (k, n) \<in> set acc \<or> (\<exists>l \<in> set ls. revoked_line l = Some (k, n))"
proof (induction ls arbitrary: acc)
  case (Cons l ls)
  show ?case
  proof (cases "revoked_line l")
    case None
    then show ?thesis using Cons by auto
  next
    case (Some e)
    then show ?thesis using Cons.IH [of acc] Cons.IH [of "acc @ [e]"] Cons.prems by (cases e) (auto split: if_splits)
  qed
qed simp

lemma revoked_line_ok: "revoked_line l = Some (k, n) \<Longrightarrow> newline \<notin> set l \<Longrightarrow> key_ok k \<and> newline \<notin> set n"
proof -
  assume a: "revoked_line l = Some (k, n)" "newline \<notin> set l"
  have "newline \<notin> set (line_note (TrimSpace l))"
    using TrimSpace_no_newline [OF a(2)]
    by (auto simp: line_note_def split: list.splits intro!: TrimSpace_no_newline dest!: arg_cong [where f = set] dest: set_dropWhileD)
  then show ?thesis using a by (auto simp: revoked_line_def Let_def key_ok_Decode split: if_splits option.splits)
qed

text \<open>Loaded entries can be written back.\<close>

definition entry_ok :: "bytes \<times> bytes \<Rightarrow> bool" where
  "entry_ok e \<longleftrightarrow> key_ok (fst e) \<and> newline \<notin> set (snd e)"

lemma loadRevoked_entries: "loadRevoked base f = Inr es \<Longrightarrow> e \<in> set es \<Longrightarrow> entry_ok e"
proof -
  assume a: "loadRevoked base f = Inr es" "e \<in> set es"
  have "\<exists>c. es = collect_revoked (fst (scan_lines c)) []"
  proof (cases "read_file (revokedPath base) f")
    case (Contents c)
    then show ?thesis using a by (cases "scan_lines c") (auto simp: loadRevoked_def split: if_splits intro: exI [of _ c])
  qed (use a in \<open>auto simp: loadRevoked_def split: if_splits\<close>)
  then obtain c where c: "es = collect_revoked (fst (scan_lines c)) []" by blast
  then obtain l where "l \<in> set (fst (scan_lines c))" "revoked_line l = Some e"
    using a(2) collect_revoked_from [of "fst e" "snd e" "fst (scan_lines c)" "[]"] by auto
  then show ?thesis using scanned_line(1) revoked_line_ok by (cases e) (auto simp: entry_ok_def)
qed

end
