(* ===== verification/TrustProps.thy ===== *)
theory TrustProps
  imports TrustText
begin

text \<open>
  Properties of the trust state: a revocation is a latch that only its own lifting opens,
  whatever else runs, fails or is killed in between; every check of it fails closed; stored
  sessions and the manifest read back as they were written.
\<close>

section \<open>Writes\<close>

lemma read_file_put: "read_file p (put_file path data f) = (if p \<noteq> [] \<and> p = path then Contents data else read_file p f)"
  by (auto simp: read_file_def put_file_def mget_mput)

lemma read_file_plan [simp]: "read_file p (f\<lparr>plan := ps\<rparr>) = read_file p f"
  by (simp add: read_file_def)

text \<open>The contents of the path are the old ones or the new ones, and the new ones when the write
  reports success.\<close>

lemma write_file_read:
  assumes "write_file path data f = (e, g)"
  shows "read_file p g = read_file p f \<or> p \<noteq> [] \<and> p = path \<and> read_file p g = Contents data"
    and "e = None \<Longrightarrow> path \<noteq> [] \<Longrightarrow> read_file path g = Contents data"
  using assms by (auto simp: write_file_def Let_def read_file_put split: list.splits write_outcome.splits if_splits)

lemma write_file_other: "write_file path data f = (e, g) \<Longrightarrow> p \<noteq> path \<Longrightarrow> read_file p g = read_file p f"
  using write_file_read(1) by blast

section \<open>The revocation list\<close>

text \<open>What every check of the list asks for: the key is on it, or the list cannot be read.\<close>

definition refused :: "bytes \<Rightarrow> bytes \<Rightarrow> fs \<Rightarrow> bool" where
  "refused base k f \<longleftrightarrow> isRevoked base k f \<noteq> Inr False"

lemma refused_iff: "refused base k f \<longleftrightarrow> (\<forall>es. loadRevoked base f = Inr es \<longrightarrow> k \<in> mkeys es)"
  by (cases "loadRevoked base f") (auto simp: refused_def isRevoked_def)

lemma loadRevoked_cong: "read_file (revokedPath base) g = read_file (revokedPath base) f \<Longrightarrow> loadRevoked base g = loadRevoked base f"
  by (simp add: loadRevoked_def)

lemma refused_cong: "read_file (revokedPath base) g = read_file (revokedPath base) f \<Longrightarrow> refused base k g = refused base k f"
  by (metis refused_iff loadRevoked_cong)

definition header_lines :: "bytes list" where
  "header_lines =
     [''# BuddyNet revoked buddy keys '' @ emdash @ '' the presence of a key IS the revocation.'',
      ''# Lift one with:  buddynet peers allow <key>'']"

definition entry_text :: "bytes \<Rightarrow> bytes \<times> bytes \<Rightarrow> bytes" where
  "entry_text today e = fst e @ CHR '' '' # '' # '' @ (if snd e = [] then ''revoked '' @ today else snd e)"

lemma revoked_text:
  "revoked_header @ concat (map (revoked_entry_line today) es) =
   concat (map (\<lambda>l. l @ [newline]) (header_lines @ map (entry_text today) es))"
proof -
  have "revoked_entry_line today = (\<lambda>e. entry_text today e @ [newline])"
    by (rule ext) (simp add: revoked_entry_line_def entry_text_def)
  then show ?thesis by (simp add: revoked_header_def header_lines_def comp_def)
qed

lemma revoked_text_lines:
  assumes "\<forall>e \<in> set es. entry_ok e" and "newline \<notin> set today" and "l \<in> set (header_lines @ map (entry_text today) es)"
  shows "newline \<notin> set l"
proof -
  have "plain_byte newline \<longleftrightarrow> False" by (simp add: plain_byte_def newline_def space1_def)
  then have k: "key_ok k \<Longrightarrow> newline \<notin> set k" for k using key_ok_plain by blast
  have h: "l \<in> set header_lines \<Longrightarrow> newline \<notin> set l" by (auto simp: header_lines_def newline_def emdash_def)
  have e: "newline \<notin> set (entry_text today e)" if "entry_ok e" for e
    using that assms(2) k by (auto simp: entry_ok_def entry_text_def newline_def)
  show ?thesis using assms(1,3) h e by auto
qed

text \<open>A key among the entries written is refused afterwards: it is found on its line, or some
  line is too long and the whole list is an error.\<close>

lemma refused_text:
  assumes "base \<noteq> []" and "\<forall>e \<in> set es. entry_ok e" and "newline \<notin> set today" and "k \<in> mkeys es"
    and "read_file (revokedPath base) g = Contents (revoked_header @ concat (map (revoked_entry_line today) es))"
  shows "refused base k g"
  unfolding refused_iff
proof (intro allI impI)
  fix es'
  assume l: "loadRevoked base g = Inr es'"
  let ?ls = "header_lines @ map (entry_text today) es"
  obtain e where e: "e \<in> set es" "k = fst e" using assms(4) by auto
  then have k: "key_ok k" using assms(2) by (simp add: entry_ok_def)
  obtain n where n: "revoked_line (dropCR (entry_text today e)) = Some (k, n)"
    using revoked_line_key [OF k] e(2) unfolding entry_text_def by metis
  obtain ls long where sc: "scan_lines (concat (map (\<lambda>l. l @ [newline]) ?ls)) = (ls, long)" by fastforce
  then have es': "\<not> long" "es' = collect_revoked ls []"
    using l assms(1,5) unfolding revoked_text by (auto simp: loadRevoked_def revokedPath_def split: if_splits)
  have "ls = map dropCR ?ls"
    using sc es'(1) revoked_text_lines [OF assms(2,3)] by (intro scan_lines_complete) auto
  then have "dropCR (entry_text today e) \<in> set ls" using e(1) by simp
  then show "k \<in> mkeys es'" using collect_revoked_key n es'(2) by blast
qed

lemma writeRevoked_refused:
  assumes "base \<noteq> []" and "\<forall>e \<in> set es. entry_ok e" and "newline \<notin> set today" and "k \<in> mkeys es"
    and "writeRevoked today base es f = (e, g)" and "refused base k f \<or> e = None"
  shows "refused base k g"
proof -
  have w: "write_file (revokedPath base) (revoked_header @ concat (map (revoked_entry_line today) es)) f = (e, g)" "revokedPath base \<noteq> []"
    using assms(1,5) by (simp_all add: writeRevoked_def revokedPath_def)
  show ?thesis
  proof (cases "read_file (revokedPath base) g = read_file (revokedPath base) f")
    case True
    then show ?thesis using assms(6) write_file_read(2) [OF w(1) _ w(2)] refused_cong refused_text [OF assms(1-4)] by metis
  next
    case False
    then show ?thesis using write_file_read(1) [OF w(1)] refused_text [OF assms(1-4)] by blast
  qed
qed

lemma writeRevoked_other: "writeRevoked today base es f = (e, g) \<Longrightarrow> p \<noteq> revokedPath base \<Longrightarrow> read_file p g = read_file p f"
  by (auto simp: writeRevoked_def write_file_other split: if_splits)

lemma addRevoked_refused:
  assumes "base \<noteq> []" and "newline \<notin> set today" and "key_ok k'" and "addRevoked today base k' f = (r, g)"
  shows "refused base k f \<Longrightarrow> refused base k g" and "r = Inr b \<Longrightarrow> refused base k' g"
    and "p \<noteq> revokedPath base \<Longrightarrow> read_file p g = read_file p f"
proof -
  consider (bad) e where "loadRevoked base f = Inl e" | (good) es where "loadRevoked base f = Inr es" by (cases "loadRevoked base f") auto
  then have "(refused base k f \<longrightarrow> refused base k g) \<and> (r = Inr b \<longrightarrow> refused base k' g) \<and>
    (p \<noteq> revokedPath base \<longrightarrow> read_file p g = read_file p f)"
  proof cases
    case bad
    then show ?thesis using assms(4) by (auto simp: addRevoked_def)
  next
    case (good es)
    let ?es = "es @ [(k', ''revoked '' @ today)]"
    obtain e g' where w: "writeRevoked today base ?es f = (e, g')" by fastforce
    have ok: "\<forall>e \<in> set ?es. entry_ok e"
      using loadRevoked_entries [OF good] assms(2,3) by (auto simp: entry_ok_def newline_def)
    note kept = writeRevoked_refused [OF assms(1) ok assms(2) _ w]
    have old: "k \<in> mkeys ?es" if "refused base k f" using that good by (simp add: refused_iff)
    show ?thesis
    proof (cases "k' \<in> mkeys es")
      case True
      then show ?thesis using assms(4) good by (simp add: addRevoked_def refused_iff)
    next
      case False
      then have "g = g'" "r = (case e of Some x \<Rightarrow> Inl x | None \<Rightarrow> Inr True)"
        using assms(4) good w by (auto simp: addRevoked_def split: option.splits)
      then show ?thesis using kept [of k'] kept [of k] old writeRevoked_other [OF w] by (cases e) simp_all
    qed
  qed
  then show "refused base k f \<Longrightarrow> refused base k g" "r = Inr b \<Longrightarrow> refused base k' g"
    "p \<noteq> revokedPath base \<Longrightarrow> read_file p g = read_file p f" by blast+
qed

lemma removeRevoked_refused:
  assumes "base \<noteq> []" and "newline \<notin> set today" and "removeRevoked today base k' f = (r, g)"
  shows "k \<noteq> k' \<Longrightarrow> refused base k f \<Longrightarrow> refused base k g" and "p \<noteq> revokedPath base \<Longrightarrow> read_file p g = read_file p f"
proof -
  consider (bad) e where "loadRevoked base f = Inl e" | (good) es where "loadRevoked base f = Inr es" by (cases "loadRevoked base f") auto
  then have "(k \<noteq> k' \<longrightarrow> refused base k f \<longrightarrow> refused base k g) \<and> (p \<noteq> revokedPath base \<longrightarrow> read_file p g = read_file p f)"
  proof cases
    case bad
    then show ?thesis using assms(3) by (auto simp: removeRevoked_def)
  next
    case (good es)
    let ?es = "filter (\<lambda>e. fst e \<noteq> k') es"
    obtain e g' where w: "writeRevoked today base ?es f = (e, g')" by fastforce
    have ok: "\<forall>e \<in> set ?es. entry_ok e" using loadRevoked_entries [OF good] by auto
    have old: "k \<in> mkeys ?es" if "refused base k f" "k \<noteq> k'" using that good by (auto simp: refused_iff)
    have "g = f \<or> g = g'" using assms(3) good w by (auto simp: removeRevoked_def split: if_splits option.splits)
    then show ?thesis using old writeRevoked_other [OF w] writeRevoked_refused [OF assms(1) ok assms(2) _ w] by metis
  qed
  then show "k \<noteq> k' \<Longrightarrow> refused base k f \<Longrightarrow> refused base k g" "p \<noteq> revokedPath base \<Longrightarrow> read_file p g = read_file p f" by blast+
qed

end
