(* ===== verification/Attempts.thy ===== *)
theory Attempts
  imports Manifest "HOL-Library.Word"
begin

text \<open>
  Which partner a buddy tries next and when: \<^verbatim>\<open>nextAttempt\<close> and \<^verbatim>\<open>jitter\<close> of
  \<^verbatim>\<open>internal/role/buddy.go\<close>, \<^verbatim>\<open>peerSource\<close> and \<^verbatim>\<open>peerLoop\<close> of \<^verbatim>\<open>supervisor.go\<close>.

  The files an attempt is drawn from are those at that moment, so every round of the loop
  carries its own. A run of the tunnel is represented by how it ended and how long it took.
\<close>

record buddy_cfg = trust_cfg +
  PeerKey :: bytes
  InviteToken :: bytes
  Insecure :: bool
  Direct :: bool
  Ephemeral :: bool
  InviteTimeout :: int

definition revoked_gate :: "bytes \<Rightarrow> bytes \<Rightarrow> fs \<Rightarrow> trust_error option" where
  "revoked_gate base key f =
     (case isRevoked base key f of Inl e \<Rightarrow> Some e | Inr True \<Rightarrow> Some PeerRevoked | Inr False \<Rightarrow> None)"

section \<open>The single peer\<close>

definition configured_pin :: "buddy_cfg \<Rightarrow> trust_error + bytes option" where
  "configured_pin cfg =
     (if PeerKey cfg = [] then Inr None
      else case DecodePubKey (PeerKey cfg) of None \<Rightarrow> Inl BadPeerKey | Some pin \<Rightarrow> Inr (Some pin))"

definition no_attempt :: conn_attempt where
  "no_attempt = \<lparr>rendezvous = [], inviteToken = [], at_pin = None, cfgPin = None, firstPairing = False, ifIndex = 0, at_expose = None\<rparr>"

definition nextAttempt :: "buddy_cfg \<Rightarrow> fs \<Rightarrow> trust_error + conn_attempt" where
  "nextAttempt cfg f =
     (case configured_pin cfg of
        Inl e \<Rightarrow> Inl e
      | Inr cpin \<Rightarrow>
     (let base = trustBase (KnownPeers cfg) (PeersFile cfg) in
      case (case cpin of None \<Rightarrow> None | Some pin \<Rightarrow> revoked_gate base (PubKeyB64 pin) f) of
        Some e \<Rightarrow> Inl e
      | None \<Rightarrow>
          if Direct cfg
          then (if cpin = None then Inl DirectNoKey else Inr (no_attempt\<lparr>at_pin := cpin, cfgPin := cpin\<rparr>))
          else case loadSession (KnownPeers cfg) f of
            Inl e \<Rightarrow> Inl e
          | Inr (Some (pin, secret)) \<Rightarrow>
              (case revoked_gate base (PubKeyB64 pin) f of
                 Some e \<Rightarrow> Inl e
               | None \<Rightarrow>
                   if cpin \<noteq> None \<and> cpin \<noteq> Some pin then Inl PinConflict
                   else Inr (no_attempt\<lparr>rendezvous := secret, at_pin := Some pin, cfgPin := cpin\<rparr>))
          | Inr None \<Rightarrow>
              if InviteToken cfg \<noteq> []
              then Inr (no_attempt\<lparr>rendezvous := InviteToken cfg, inviteToken := InviteToken cfg,
                                  firstPairing := Ephemeral cfg, cfgPin := cpin\<rparr>)
              else Inl NoRendezvous))"

section \<open>One of many peers\<close>

definition sessionFallbackAfter :: nat where "sessionFallbackAfter = 3"

definition bootstrap :: "peerSpec \<Rightarrow> scope option \<Rightarrow> bytes \<Rightarrow> conn_attempt" where
  "bootstrap spec expose tok =
     no_attempt\<lparr>rendezvous := tok, inviteToken := tok, at_pin := Some (ps_pin spec), firstPairing := True, at_expose := expose\<rparr>"

text \<open>The token is the one the manifest has now; a manifest that cannot be read has none.\<close>

definition live_token :: "yaml \<Rightarrow> buddy_cfg \<Rightarrow> peerSpec \<Rightarrow> fs \<Rightarrow> bytes" where
  "live_token Y cfg spec f =
     (if PeersFile cfg = [] then ps_token spec
      else case loadPeersFile Y (PeersFile cfg) f of
        Inl _ \<Rightarrow> []
      | Inr live \<Rightarrow> (case find (\<lambda>s. ps_pin s = ps_pin spec) live of None \<Rightarrow> [] | Some s \<Rightarrow> ps_token s))"

definition peerSource :: "yaml \<Rightarrow> buddy_cfg \<Rightarrow> peerSpec \<Rightarrow> scope option \<Rightarrow> nat \<Rightarrow> fs \<Rightarrow> trust_error + conn_attempt" where
  "peerSource Y cfg spec expose failures f =
     (case revoked_gate (trustBase (KnownPeers cfg) (PeersFile cfg)) (spec_key spec) f of
        Some e \<Rightarrow> Inl e
      | None \<Rightarrow>
     (let tok = live_token Y cfg spec f in
      case loadSessionFor (KnownPeers cfg) (ps_pin spec) f of
        Inl e \<Rightarrow> Inl e
      | Inr (Some secret) \<Rightarrow>
          if tok \<noteq> [] \<and> \<not> Insecure cfg \<and> failures \<ge> sessionFallbackAfter \<and> failures mod 2 = 1
          then Inr (bootstrap spec expose tok)
          else Inr (no_attempt\<lparr>rendezvous := secret, at_pin := Some (ps_pin spec), at_expose := expose\<rparr>)
      | Inr None \<Rightarrow> if tok = [] then Inl SessionGone else Inr (bootstrap spec expose tok)))"

section \<open>The reconnect loop\<close>

definition reconnectBase :: int where "reconnectBase = 3 * 1000000000"
definition reconnectMax :: int where "reconnectMax = 60 * 1000000000"

text \<open>\<open>r\<close> is the 64-bit number drawn, \<open>None\<close> when the generator fails.\<close>

definition jitter :: "64 word option \<Rightarrow> int \<Rightarrow> int" where
  "jitter r d =
     (if d \<le> 0 then 0
      else case r of
        None \<Rightarrow> d
      | Some b \<Rightarrow> wrap64 (d div 2 + wrap64 (uint (b mod (word_of_int (d div 2) + 1)))))"

datatype run_result = RunOk | RunFailed | SASRejected | SASTimeout

datatype loop_error = AttemptError trust_error | InviteExpired | SASAborted

record round =
  rd_woken :: bool
  rd_files :: fs
  rd_since :: int
  rd_run :: run_result
  rd_cancelled :: bool
  rd_lasted :: int
  rd_draw :: "64 word option"
  rd_stopped :: bool

text \<open>The loop as long as rounds are given: the attempts it ran, the waits, and how it returned,
  \<open>None\<close> when it is still going.\<close>

fun peerLoop ::
  "buddy_cfg \<Rightarrow> bool \<Rightarrow> (nat \<Rightarrow> fs \<Rightarrow> trust_error + conn_attempt) \<Rightarrow> nat \<Rightarrow> round list \<Rightarrow> int \<Rightarrow> nat \<Rightarrow>
   conn_attempt list \<times> int list \<times> loop_error option option" where
  "peerLoop cfg lazy nxt ifx [] backoff failures = ([], [], None)"
| "peerLoop cfg lazy nxt ifx (rd # rds) backoff failures =
     (if lazy \<and> \<not> rd_woken rd then ([], [], Some None)
      else case nxt failures (rd_files rd) of
        Inl e \<Rightarrow> ([], [], Some (Some (AttemptError e)))
      | Inr a \<Rightarrow>
          let att = a\<lparr>ifIndex := ifx\<rparr> in
          if Ephemeral cfg \<and> firstPairing att \<and> rd_since rd > InviteTimeout cfg
          then ([], [], Some (Some InviteExpired))
          else if (rd_run rd = SASRejected \<or> rd_run rd = SASTimeout) \<and> \<not> rd_cancelled rd
          then ([att], [], Some (Some SASAborted))
          else if rd_cancelled rd then ([att], [], Some None)
          else let (backoff, failures) = (if rd_lasted rd > reconnectMax then (reconnectBase, 0) else (backoff, failures + 1));
                   wait = jitter (rd_draw rd) backoff
               in if rd_stopped rd then ([att], [wait], Some None)
                  else let (as, ws, r) = peerLoop cfg lazy nxt ifx rds (min (backoff * 2) reconnectMax) failures
                       in (att # as, wait # ws, r))"

end
