(* ===== verification/Revocation.thy ===== *)
theory Revocation
  imports TrustProps Attempts
begin

text \<open>
  Revocation over the life of the trust state. An event is one operation that changes the
  files, by the running buddy or by a command of the operator, on an occasion that decides
  whether the lock is obtained and how each write ends.
\<close>

section \<open>Keys the commands work on\<close>

lemma legacy_pins:
  "legacy_lines ls seen specs = Inr out \<Longrightarrow> \<forall>s \<in> set specs. length (ps_pin s) = 32 \<Longrightarrow> \<forall>s \<in> set out. length (ps_pin s) = 32"
  by (induction ls seen specs rule: legacy_lines.induct)
    (auto simp: Let_def DecodePubKey_length split: if_splits option.splits)

lemma yaml_pins:
  "yaml_entries bs seen specs = Inr out \<Longrightarrow> \<forall>s \<in> set specs. length (ps_pin s) = 32 \<Longrightarrow> \<forall>s \<in> set out. length (ps_pin s) = 32"
proof (induction bs arbitrary: seen specs)
  case (Cons b bs)
  then obtain spec where s: "toSpec b = Inr spec" by (cases "toSpec b") auto
  then have "length (ps_pin spec) = 32" by (auto simp: toSpec_def DecodePubKey_length split: if_splits option.splits)
  then show ?case using Cons.IH [of _ "specs @ [spec]"] Cons.prems s by (auto simp: Let_def split: if_splits)
qed simp

lemma loadPeersFile_pins: "loadPeersFile Y path f = Inr specs \<Longrightarrow> s \<in> set specs \<Longrightarrow> key_ok (spec_key s)"
proof -
  assume a: "loadPeersFile Y path f = Inr specs" "s \<in> set specs"
  have "\<forall>s \<in> set specs. length (ps_pin s) = 32"
    using a(1) legacy_pins [of _ "[]" "[]"] yaml_pins [of _ "[]" "[]"]
    by (auto simp: loadPeersFile_def parseLegacyManifest_def parseYAMLManifest_def split: if_splits sum.splits option.splits prod.splits ydoc.splits)
  then show ?thesis using a(2) by (auto simp: key_ok_def)
qed

lemma stored_session_pin: "stored_session l = Some (pin, secret) \<Longrightarrow> length pin = 32"
  by (auto simp: stored_session_def Let_def PublicKeySize_def split: if_splits option.splits)

lemma loadSessions_pins: "loadSessions path f = Inr ss \<Longrightarrow> s \<in> set ss \<Longrightarrow> length (fst s) = 32"
proof -
  assume a: "loadSessions path f = Inr ss" "s \<in> set ss"
  then obtain ls where "ss = List.map_filter stored_session ls"
    by (cases "read_file path f") (auto simp: loadSessions_def map_filter_simps split: if_splits prod.splits)
  then show ?thesis using a(2) stored_session_pin [of _ "fst s" "snd s"] by (auto simp: List.map_filter_def)
qed

text \<open>A reference names a key in the program's spelling, itself or one it is a prefix of.\<close>

definition names_key :: "bytes \<Rightarrow> bytes \<Rightarrow> bool" where
  "names_key ref k = (case DecodePubKey ref of Some pin \<Rightarrow> PubKeyB64 pin = k | None \<Rightarrow> HasPrefix k ref)"

lemma resolveKeyRef_key:
  assumes "resolveKeyRef Y pf kp ref f = Inr k"
  shows "key_ok k" and "names_key ref k"
proof -
  have "key_ok k \<and> names_key ref k"
  proof (cases "DecodePubKey ref")
    case (Some pin)
    then show ?thesis using assms key_ok_Decode by (auto simp: resolveKeyRef_def names_key_def)
  next
    case None
    then obtain specs ss es where l: "loadPeersFile Y pf f = Inr specs" "loadSessions kp f = Inr ss" "loadRevoked (trustBase kp pf) f = Inr es"
      using assms by (auto simp: resolveKeyRef_def split: sum.splits)
    have "sort (filter (\<lambda>k. HasPrefix k ref) (known_keys specs ss (map fst es))) = [k]"
      using assms None l by (auto simp: resolveKeyRef_def split: list.splits)
    then have "k \<in> set (sort (filter (\<lambda>k. HasPrefix k ref) (known_keys specs ss (map fst es))))" by simp
    then have "HasPrefix k ref" "k \<in> set (known_keys specs ss (map fst es))" by simp_all
    moreover have "key_ok x" if "x \<in> set (known_keys specs ss (map fst es))" for x
      using that loadPeersFile_pins [OF l(1)] loadSessions_pins [OF l(2)] loadRevoked_entries [OF l(3)]
      by (auto simp: known_keys_def key_ok_def entry_ok_def)
    ultimately show ?thesis using None by (simp add: names_key_def)
  qed
  then show "key_ok k" "names_key ref k" by blast+
qed

section \<open>Events\<close>

record occasion =
  oc_locked :: bool
  oc_plan :: "write_outcome list"
  oc_today :: bytes

datatype trust_op =
    StoreSession bytes bytes bytes
  | LearnPeer bytes bytes
  | RemovePeer bytes
  | AllowPeer bytes
  | AddPeer bytes bytes bytes bytes
  | MigrateManifest

fun trust_step :: "yaml \<Rightarrow> crypto \<Rightarrow> buddy_cfg \<Rightarrow> occasion \<times> trust_op \<Rightarrow> fs \<Rightarrow> fs" where
  "trust_step Y C cfg (oc, op) f =
     (let f = f\<lparr>plan := oc_plan oc\<rparr>; kp = KnownPeers cfg; pf = PeersFile cfg in
      case op of
        StoreSession pub invite ekm \<Rightarrow> snd (saveSession C (oc_locked oc) kp invite (b64std_encode pub) (b64url_encode ekm) f)
      | LearnPeer tok pub \<Rightarrow> snd (learnPeer C (oc_locked oc) kp tok (b64std_encode pub) f)
      | RemovePeer ref \<Rightarrow> snd (PeersRemove Y (oc_today oc) (oc_locked oc) pf kp ref f)
      | AllowPeer ref \<Rightarrow> snd (PeersAllow Y (oc_today oc) (oc_locked oc) pf kp ref f)
      | AddPeer key tok name expose \<Rightarrow> snd (PeersAdd Y (oc_today oc) (oc_locked oc) pf kp key tok name expose f)
      | MigrateManifest \<Rightarrow> snd (PeersMigrate Y (oc_locked oc) pf kp f))"

text \<open>The operator does not lift the revocation of \<open>k\<close>: no \<^verbatim>\<open>peers allow\<close> that could mean it, no
  \<^verbatim>\<open>peers add\<close> of it.\<close>

fun spares :: "bytes \<Rightarrow> occasion \<times> trust_op \<Rightarrow> bool" where
  "spares k (oc, op) \<longleftrightarrow>
     newline \<notin> set (oc_today oc) \<and>
     (case op of
        AllowPeer ref \<Rightarrow> \<not> names_key ref k
      | AddPeer key _ _ _ \<Rightarrow> map_option PubKeyB64 (DecodePubKey key) \<noteq> Some k
      | _ \<Rightarrow> True)"

text \<open>The files of the trust state are different files.\<close>

definition separate :: "buddy_cfg \<Rightarrow> bool" where
  "separate cfg \<longleftrightarrow>
     KnownPeers cfg \<noteq> [] \<and>
     PeersFile cfg \<notin> {KnownPeers cfg, revokedPath (KnownPeers cfg)} \<and>
     PeersFile cfg @ ''.bak'' \<notin> {KnownPeers cfg, revokedPath (KnownPeers cfg)}"

section \<open>What each operation touches\<close>

lemma write_file_snd: "p \<noteq> path \<Longrightarrow> read_file p (snd (write_file path data f)) = read_file p f"
  using write_file_other by (cases "write_file path data f") auto

lemmas trust_frame = write_file_snd withTrustStateLock_def

lemma snd_result: "snd (case x of (Some e, f) \<Rightarrow> (Inl e, f) | (None, f) \<Rightarrow> (Inr v, f)) = snd x"
  by (cases x) (simp split: option.split)

lemma saveSession_frame: "p \<noteq> path \<Longrightarrow> read_file p (snd (saveSession C l path invite k secret f)) = read_file p f"
  by (auto simp: saveSession_def saveSessionLocked_def trust_frame snd_result split: sum.split bool.split option.split read_result.split)

lemma learnPeer_frame: "p \<noteq> path \<Longrightarrow> read_file p (snd (learnPeer C l path tok k f)) = read_file p f"
  by (auto simp: learnPeer_def learnPeerLocked_def trust_frame snd_result Let_def split: sum.split bool.split option.split read_result.split)

lemma removeSessionLocked_frame: "p \<noteq> path \<Longrightarrow> read_file p (snd (removeSessionLocked path k f)) = read_file p f"
  by (auto simp: removeSessionLocked_def trust_frame snd_result Let_def split: prod.split read_result.split)

lemma removeManifestEntryLocked_frame: "p \<noteq> path \<Longrightarrow> read_file p (snd (removeManifestEntryLocked Y path k f)) = read_file p f"
  by (auto simp: removeManifestEntryLocked_def saveManifestLocked_def trust_frame snd_result Let_def split: sum.split bool.split)

lemma saveManifest_frame: "p \<noteq> path \<Longrightarrow> read_file p (snd (saveManifest Y l kp path specs f)) = read_file p f"
  by (auto simp: saveManifest_def saveManifestLocked_def trust_frame snd_result split: sum.split)

lemma PeersMigrate_frame: "p \<noteq> path \<Longrightarrow> p \<noteq> path @ ''.bak'' \<Longrightarrow> read_file p (snd (PeersMigrate Y l path kp f)) = read_file p f"
proof -
  assume a: "p \<noteq> path" "p \<noteq> path @ ''.bak''"
  have "read_file p (snd (case write_file (path @ ''.bak'') data f of
      (Some e, f) \<Rightarrow> (Inl e, f)
    | (None, f) \<Rightarrow> (case saveManifest Y l kp path specs f of
          (Inl e, f) \<Rightarrow> (Inl e, f)
        | (Inr _, f) \<Rightarrow> (Inr (MigratedBuddies (length specs)), f)))) = read_file p f" for data specs
  proof -
    obtain e g where w: "write_file (path @ ''.bak'') data f = (e, g)" by fastforce
    have g: "read_file p g = read_file p f" using write_file_other [OF w] a(2) by blast
    have "read_file p (snd (saveManifest Y l kp path specs g)) = read_file p g" using saveManifest_frame a(1) by blast
    then show ?thesis using g w by (cases e; cases "saveManifest Y l kp path specs g") (auto split: sum.split)
  qed
  then show ?thesis by (auto simp: PeersMigrate_def split: sum.split bool.split read_result.split)
qed

section \<open>Revocation through the commands\<close>

lemma trustBase_known: "kp \<noteq> [] \<Longrightarrow> trustBase kp pf = kp"
  by (simp add: trustBase_def)

text \<open>Interrupted or not, adding an entry changes nothing or has the key refused.\<close>

lemma addRevoked_atomic:
  assumes "base \<noteq> []" and "newline \<notin> set today" and "key_ok k'" and "addRevoked today base k' f = (r, g)"
  shows "(\<forall>p. read_file p g = read_file p f) \<or> refused base k' g"
proof (cases "refused base k' g")
  case False
  then obtain e where r: "r = Inl e" using addRevoked_refused(2) [OF assms] by (cases r) auto
  show ?thesis
  proof (cases "loadRevoked base f")
    case (Inr es)
    let ?es = "es @ [(k', ''revoked '' @ today)]"
    have nk: "k' \<notin> mkeys es" using assms(4) Inr r by (cases "k' \<in> mkeys es") (simp_all add: addRevoked_def)
    have ok: "\<forall>e \<in> set ?es. entry_ok e" using loadRevoked_entries [OF Inr] assms(2,3) by (auto simp: entry_ok_def newline_def)
    obtain e' where w: "write_file (revokedPath base) (revoked_header @ concat (map (revoked_entry_line today) ?es)) f = (e', g)"
      using assms(1,4) Inr nk by (auto simp: addRevoked_def writeRevoked_def revokedPath_def split: prod.splits option.splits)
    then show ?thesis using write_file_read(1) [OF w] refused_text [OF assms(1) ok assms(2)] False by auto
  qed (use assms(4) in \<open>simp add: addRevoked_def\<close>)
qed simp

lemma remove_steps_rest:
  assumes "kp \<noteq> []" and "pf \<noteq> revokedPath kp" and "addRevoked today kp k' f = (Inr b, g)"
  shows "read_file (revokedPath kp) (snd (remove_steps Y today pf kp k' f)) = read_file (revokedPath kp) g"
proof -
  have n: "revokedPath kp \<noteq> kp" using assms(1) by (simp add: revokedPath_def)
  have s: "read_file (revokedPath kp) (snd (removeSessionLocked kp k' g)) = read_file (revokedPath kp) g"
    using removeSessionLocked_frame n by blast
  obtain r h where rs: "removeSessionLocked kp k' g = (r, h)" by fastforce
  have m: "read_file (revokedPath kp) (snd (removeManifestEntryLocked Y pf k' h)) = read_file (revokedPath kp) h"
    using removeManifestEntryLocked_frame assms(2) by metis
  obtain r' h' where rm: "removeManifestEntryLocked Y pf k' h = (r', h')" by fastforce
  show ?thesis using s m rs rm assms(3)
    by (cases r; cases r') (simp_all add: remove_steps_def trustBase_known [OF assms(1)])
qed

lemma remove_steps_refused:
  assumes "kp \<noteq> []" and "pf \<noteq> revokedPath kp" and "newline \<notin> set today" and "key_ok k'"
    and "remove_steps Y today pf kp k' f = (r, g)"
  shows "refused kp k f \<Longrightarrow> refused kp k g" and "r = Inr x \<Longrightarrow> refused kp k' g"
    and "(\<forall>p. read_file p g = read_file p f) \<or> refused kp k' g"
proof -
  obtain r1 f1 where a: "addRevoked today kp k' f = (r1, f1)" by fastforce
  note add = addRevoked_refused [OF assms(1,3,4) a] addRevoked_atomic [OF assms(1,3,4) a]
  have "(refused kp k f \<longrightarrow> refused kp k g) \<and> (r = Inr x \<longrightarrow> refused kp k' g) \<and> ((\<forall>p. read_file p g = read_file p f) \<or> refused kp k' g)"
  proof (cases r1)
    case (Inl e)
    then have "g = f1" "r = Inl e" using assms(5) a by (simp_all add: remove_steps_def trustBase_known [OF assms(1)])
    then show ?thesis using add(1,4) by simp
  next
    case (Inr b)
    then have "read_file (revokedPath kp) g = read_file (revokedPath kp) f1"
      using remove_steps_rest [OF assms(1,2), of today k' f b f1 Y] a assms(5) by simp
    then show ?thesis using add(1) add(2) [OF Inr] refused_cong by metis
  qed
  then show "refused kp k f \<Longrightarrow> refused kp k g" "r = Inr x \<Longrightarrow> refused kp k' g" "(\<forall>p. read_file p g = read_file p f) \<or> refused kp k' g"
    by blast+
qed

lemma withLock_cases:
  assumes "withTrustStateLock l kp pf body f = (r, g)"
  obtains (ran) "body f = (r, g)" | (not) e where "r = Inl e" "g = f"
  using assms by (auto simp: withTrustStateLock_def split: sum.splits if_splits)

lemma PeersRemove_refused:
  assumes "kp \<noteq> []" and "pf \<noteq> revokedPath kp" and "newline \<notin> set today" and "PeersRemove Y today l pf kp ref f = (r, g)"
  shows "refused kp k f \<Longrightarrow> refused kp k g"
    and "resolveKeyRef Y pf kp ref f = Inr k' \<Longrightarrow> r = Inr x \<Longrightarrow> refused kp k' g"
    and "resolveKeyRef Y pf kp ref f = Inr k' \<Longrightarrow> (\<forall>p. read_file p g = read_file p f) \<or> refused kp k' g"
proof -
  have steps: "remove_steps Y today pf kp k' f = (r, g) \<or> g = f \<and> (\<exists>e. r = Inl e)" if "resolveKeyRef Y pf kp ref f = Inr k'" for k'
    using assms(4) that by (auto simp: PeersRemove_def elim: withLock_cases)
  have same: "g = f" if "resolveKeyRef Y pf kp ref f = Inl e" for e
    using assms(4) that by (simp add: PeersRemove_def)
  show "refused kp k f \<Longrightarrow> refused kp k g"
    using steps same remove_steps_refused(1) [OF assms(1-3)] resolveKeyRef_key(1) by (metis sum.exhaust)
  show "resolveKeyRef Y pf kp ref f = Inr k' \<Longrightarrow> r = Inr x \<Longrightarrow> refused kp k' g"
    using steps remove_steps_refused(2) [OF assms(1-3)] resolveKeyRef_key(1) by blast
  show "resolveKeyRef Y pf kp ref f = Inr k' \<Longrightarrow> (\<forall>p. read_file p g = read_file p f) \<or> refused kp k' g"
    using steps remove_steps_refused(3) [OF assms(1-3)] resolveKeyRef_key(1) by blast
qed

lemma PeersAllow_refused:
  assumes "kp \<noteq> []" and "newline \<notin> set today" and "\<not> names_key ref k" and "refused kp k f"
  shows "refused kp k (snd (PeersAllow Y today l pf kp ref f))"
proof (cases "resolveKeyRef Y pf kp ref f")
  case (Inr k')
  obtain r g where w: "removeRevoked today kp k' f = (r, g)" by fastforce
  have "k \<noteq> k'" using assms(3) resolveKeyRef_key(2) [OF Inr] by blast
  then have "refused kp k g" using removeRevoked_refused(1) [OF assms(1,2) w] assms(4) by blast
  then show ?thesis using Inr w assms(4)
    by (cases r) (auto simp: PeersAllow_def withTrustStateLock_def trustBase_known [OF assms(1)] split: sum.split)
qed (simp add: PeersAllow_def assms(4))

lemma add_steps_refused:
  assumes "kp \<noteq> []" and "pf \<noteq> revokedPath kp" and "newline \<notin> set today" and "spec_key spec \<noteq> k" and "refused kp k f"
  shows "refused kp k (snd (add_steps Y today pf kp spec f))"
proof -
  have rr: "refused kp k (snd (case removeRevoked today kp (spec_key spec) g of (Inl e, f) \<Rightarrow> (Inl e, f) | (Inr _, f) \<Rightarrow> (Inr AllowedAgain, f)))"
    if "refused kp k g" for g
  proof -
    obtain r h where w: "removeRevoked today kp (spec_key spec) g = (r, h)" by fastforce
    show ?thesis using removeRevoked_refused(1) [OF assms(1,3) w, of k] that assms(4) w by (cases r) simp_all
  qed
  have sm: "refused kp k (snd (if b then (None, f) else saveManifestLocked Y pf specs f))" for b specs
    using assms(5) refused_cong [OF write_file_snd [OF assms(2) [symmetric]]] by (simp add: saveManifestLocked_def)
  have fin: "refused kp k (snd (case x of (Some e, f) \<Rightarrow> (Inl e, f) | (None, f) \<Rightarrow>
      if v then (case removeRevoked today kp (spec_key spec) f of (Inl e, f) \<Rightarrow> (Inl e, f) | (Inr _, f) \<Rightarrow> (Inr AllowedAgain, f)) else (Inr Added, f)))"
    if "refused kp k (snd x)" for x v
    using rr that by (cases x; cases "fst x") simp_all
  show ?thesis
    unfolding add_steps_def trustBase_known [OF assms(1)] Let_def
    by (cases "loadPeersFile Y pf f"; cases "isRevoked kp (spec_key spec) f")
      (simp_all only: sum.case snd_conv assms(5) if_distrib [where f = "\<lambda>x. refused kp k (snd x)"] fin [OF sm] if_cancel)
qed

lemma PeersAdd_refused:
  assumes "kp \<noteq> []" and "pf \<noteq> revokedPath kp" and "newline \<notin> set today"
    and "map_option PubKeyB64 (DecodePubKey key) \<noteq> Some k" and "refused kp k f"
  shows "refused kp k (snd (PeersAdd Y today l pf kp key tok name expose f))"
proof (cases "DecodePubKey key")
  case (Some pin)
  show ?thesis
    using Some add_steps_refused [OF assms(1-3) _ assms(5)] assms(4,5)
    by (simp add: PeersAdd_def withTrustStateLock_def split: sum.split bool.split)
qed (simp add: PeersAdd_def assms(5))

text \<open>A step of anything but its lifting leaves a refused key refused.\<close>

lemma trust_step_refused:
  assumes "separate cfg" and "refused (KnownPeers cfg) k f" and "spares k ev"
  shows "refused (KnownPeers cfg) k (trust_step Y C cfg ev f)"
proof -
  obtain oc op where ev: "ev = (oc, op)" by fastforce
  let ?f = "f\<lparr>plan := oc_plan oc\<rparr>" and ?kp = "KnownPeers cfg" and ?pf = "PeersFile cfg"
  have kp: "?kp \<noteq> []" "?pf \<noteq> revokedPath ?kp" "revokedPath ?kp \<noteq> ?pf" "revokedPath ?kp \<noteq> ?pf @ ''.bak''" "revokedPath ?kp \<noteq> ?kp"
    using assms(1) by (auto simp: separate_def revokedPath_def)
  have r: "refused ?kp k ?f" using assms(2) refused_cong [of ?kp ?f f k] by simp
  have keep: "refused ?kp k g" if "read_file (revokedPath ?kp) g = read_file (revokedPath ?kp) ?f" for g
    using r refused_cong [OF that] by blast
  show ?thesis
  proof (cases op)
    case (RemovePeer ref)
    then show ?thesis using assms(3) ev PeersRemove_refused(1) [OF kp(1,2) _ _ r] by (simp add: Let_def) (metis prod.collapse)
  next
    case (AllowPeer ref)
    then show ?thesis using assms(3) ev r PeersAllow_refused [OF kp(1)] by (simp add: Let_def)
  next
    case (AddPeer key tok name expose)
    then show ?thesis using assms(3) ev r PeersAdd_refused [OF kp(1,2)] by (simp add: Let_def)
  next
    case (StoreSession pub invite ekm)
    then show ?thesis using ev keep [OF saveSession_frame [OF kp(5)]] by (simp add: Let_def)
  next
    case (LearnPeer tok pub)
    then show ?thesis using ev keep [OF learnPeer_frame [OF kp(5)]] by (simp add: Let_def)
  next
    case MigrateManifest
    then show ?thesis using ev keep [OF PeersMigrate_frame [OF kp(3,4)]] by (simp add: Let_def)
  qed
qed

section \<open>Refusal everywhere\<close>

lemma revoked_gate_refused: "refused base k f \<Longrightarrow> revoked_gate base k f \<noteq> None"
  by (auto simp: refused_def revoked_gate_def split: sum.splits bool.splits)

lemma saveSession_refused:
  "refused path k f \<Longrightarrow> path \<noteq> [] \<Longrightarrow> \<exists>e. saveSession C l path invite k secret f = (Inl e, f)"
  by (auto simp: refused_def saveSession_def withTrustStateLock_def saveSessionLocked_def split: sum.split bool.split)

lemma learnPeer_refused:
  "refused path k f \<Longrightarrow> path \<noteq> [] \<Longrightarrow> \<exists>e. learnPeer C l path tok k f = (Inl e, f)"
  by (auto simp: refused_def learnPeer_def withTrustStateLock_def learnPeerLocked_def split: sum.split bool.split)

lemma decide_refused:
  "refused (storePath t) (b64std_encode pub) f \<Longrightarrow> storePath t \<noteq> [] \<Longrightarrow> \<exists>e. decide C t tok pub f = Inl e"
  by (auto simp: refused_def decide_def Let_def split: sum.split bool.split)

lemma assemblePeers_refused:
  assumes "refused (trustBase (KnownPeers cfg) (PeersFile cfg)) k f" and "assemblePeers Y C cfg f = Inr specs"
  shows "k \<notin> spec_key ` set specs"
proof -
  obtain manifest es ss where l: "loadPeersFile Y (PeersFile cfg) f = Inr manifest"
    "loadRevoked (trustBase (KnownPeers cfg) (PeersFile cfg)) f = Inr es" "loadSessions (KnownPeers cfg) f = Inr ss"
    using assms(2) by (cases "loadRevoked (trustBase (KnownPeers cfg) (PeersFile cfg)) f") (auto simp: assemblePeers_def revokedSet_def split: sum.splits)
  have "k \<in> mkeys es" using assms(1) l(2) by (simp add: refused_iff)
  moreover have "\<forall>s \<in> set specs. spec_key s \<notin> mkeys es"
  proof -
    let ?listed = "filter (\<lambda>s. spec_key s \<notin> mkeys es) manifest"
    have "specs = ?listed @ map (session_spec \<circ> fst)
        (filter (\<lambda>s. PubKeyB64 (fst s) \<notin> mkeys es \<and> PubKeyB64 (fst s) \<notin> spec_key ` set ?listed) ss)"
      using assms(2) l by (simp add: assemblePeers_def revokedSet_def Let_def split: if_splits)
    then show ?thesis by (simp add: ball_Un session_spec_def)
  qed
  ultimately show ?thesis by blast
qed

lemma peerSource_refused:
  "refused (trustBase (KnownPeers cfg) (PeersFile cfg)) (spec_key spec) f \<Longrightarrow> \<exists>e. peerSource Y cfg spec expose failures f = Inl e"
  using revoked_gate_refused by (fastforce simp: peerSource_def)

lemma nextAttempt_refused:
  assumes "refused (trustBase (KnownPeers cfg) (PeersFile cfg)) (PubKeyB64 pub) f" and "nextAttempt cfg f = Inr att"
  shows "at_pin att \<noteq> Some pub \<and> cfgPin att \<noteq> Some pub"
proof -
  have g: "revoked_gate (trustBase (KnownPeers cfg) (PeersFile cfg)) (PubKeyB64 pub) f \<noteq> None"
    by (rule revoked_gate_refused [OF assms(1)])
  obtain cpin where c: "configured_pin cfg = Inr cpin" using assms(2) by (cases "configured_pin cfg") (auto simp: nextAttempt_def)
  have n: "cpin \<noteq> Some pub" using assms(2) c g by (auto simp: nextAttempt_def)
  show ?thesis
    using assms(2) c g n
    by (auto simp: nextAttempt_def no_attempt_def Let_def split: option.splits if_splits sum.splits prod.splits)
qed

interpretation revoked: stepwise "trust_step Y C cfg" "\<lambda>f. separate cfg \<and> refused (KnownPeers cfg) k f" "spares k" for Y C cfg k
  by unfold_locales (auto intro: trust_step_refused)

section \<open>Properties\<close>

text \<open>C1: a revocation sticks. Once \<^verbatim>\<open>peers remove\<close> has reported anything but an error for a key, then
  after every sequence of operations on the trust state that does not lift it, by any process
  and with any write failing or any process killed, the key is not among the peers to
  supervise, no attempt is made to reach it, its handshake is refused, and neither a session
  nor a first-use pin is stored for it.\<close>

theorem revocation_sticks:
  assumes "separate cfg" and "newline \<notin> set today" and "\<forall>ev \<in> set evs. spares (PubKeyB64 pub) ev"
    and "resolveKeyRef Y (PeersFile cfg) (KnownPeers cfg) ref f = Inr (PubKeyB64 pub)"
    and "PeersRemove Y today l (PeersFile cfg) (KnownPeers cfg) ref f = (Inr done, f1)"
  shows "let g = fold (trust_step Y C cfg) evs f1; kp = KnownPeers cfg in
    (\<forall>specs. assemblePeers Y C cfg g = Inr specs \<longrightarrow> PubKeyB64 pub \<notin> spec_key ` set specs) \<and>
    (\<forall>spec expose n. ps_pin spec = pub \<longrightarrow> (\<exists>e. peerSource Y cfg spec expose n g = Inl e)) \<and>
    (\<forall>att. nextAttempt cfg g = Inr att \<longrightarrow> at_pin att \<noteq> Some pub \<and> cfgPin att \<noteq> Some pub) \<and>
    (\<forall>t tok. storePath t = kp \<longrightarrow> (\<exists>e. decide C t tok pub g = Inl e)) \<and>
    (\<forall>l' invite secret. \<exists>e. saveSession C l' kp invite (PubKeyB64 pub) secret g = (Inl e, g)) \<and>
    (\<forall>l' tok. \<exists>e. learnPeer C l' kp tok (PubKeyB64 pub) g = (Inl e, g))"
proof -
  let ?kp = "KnownPeers cfg" and ?g = "fold (trust_step Y C cfg) evs f1"
  have kp: "?kp \<noteq> []" "PeersFile cfg \<noteq> revokedPath ?kp" using assms(1) by (auto simp: separate_def)
  have "refused ?kp (PubKeyB64 pub) f1" using PeersRemove_refused(2) [OF kp assms(2,5,4)] by blast
  then have g: "refused ?kp (PubKeyB64 pub) ?g" using revoked.inv_run [of cfg "PubKeyB64 pub" f1 evs Y C] assms(1,3) by blast
  then have b: "refused (trustBase ?kp (PeersFile cfg)) (PubKeyB64 pub) ?g" by (simp add: trustBase_known kp(1))
  have "\<forall>t tok. storePath t = ?kp \<longrightarrow> (\<exists>e. decide C t tok pub ?g = Inl e)"
    using decide_refused [of _ pub ?g C] g kp(1) by (simp add: PubKeyB64_def)
  then show ?thesis
    unfolding Let_def
    using assemblePeers_refused [OF b, of Y C] peerSource_refused [of cfg _ ?g Y] nextAttempt_refused [OF b]
      saveSession_refused [OF g kp(1)] learnPeer_refused [OF g kp(1)] b by blast
qed

text \<open>Revoking is all or nothing for trust: however the writes of \<^verbatim>\<open>peers remove\<close> end, either every
  file reads as before or the key is refused already, and it is refused whenever the command
  reports success, also one whose cleanup is unfinished.\<close>

theorem revoke_all_or_nothing:
  assumes "separate cfg" and "newline \<notin> set today"
    and "resolveKeyRef Y (PeersFile cfg) (KnownPeers cfg) ref f = Inr k"
    and "PeersRemove Y today l (PeersFile cfg) (KnownPeers cfg) ref f = (r, g)"
  shows "case r of Inr _ \<Rightarrow> refused (KnownPeers cfg) k g | Inl _ \<Rightarrow> (\<forall>p. read_file p g = read_file p f) \<or> refused (KnownPeers cfg) k g"
proof -
  have kp: "KnownPeers cfg \<noteq> []" "PeersFile cfg \<noteq> revokedPath (KnownPeers cfg)" using assms(1) by (auto simp: separate_def)
  show ?thesis
    using PeersRemove_refused(2,3) [OF kp assms(2,4,3)] by (auto split: sum.split)
qed

end
