(* ===== verification/Stores.thy ===== *)
theory Stores
  imports Revocation
begin

text \<open>
  The session store and the manifest read back as they were written, the type of the session
  store, and two ways in which a file the program itself wrote is not read back.
\<close>

section \<open>Session lines\<close>

lemma hex_digit_plain: "n < 16 \<Longrightarrow> plain_byte (hex_digit n)"
  by (rule plain_ascii) (auto simp: hex_digit_def of_char_of)

lemma hex_encode_plain: "\<forall>c \<in> set (hex_encode s). plain_byte c"
proof -
  have "of_char c div 16 < (16::nat)" "of_char c mod 16 < (16::nat)" for c :: char
    using of_char_bound [of "[c]"] by (simp_all add: less_mult_imp_div_less)
  then show ?thesis by (auto simp: hex_encode_def Let_def hex_digit_plain)
qed

lemma length_hex_encode: "length (hex_encode s) = 2 * length s"
  by (induction s) (simp_all add: hex_encode_def Let_def)

lemma length_b64std: "length (b64std_encode s) \<le> 2 * length s + 4"
  by (simp add: b64std_encode_def Let_def length_sextets b64url_encoded_len_def)

lemma length_b64url: "length (b64url_encode s) \<le> 2 * length s + 1"
  by (simp add: b64url_encode_def length_sextets b64url_encoded_len_def) presburger

text \<open>The key of a session line is in the spelling the program uses.\<close>

definition line_ok :: "bytes \<Rightarrow> bool" where
  "line_ok l \<longleftrightarrow> (let ws = Fields l in length ws \<ge> 3 \<longrightarrow> (case b64std_decode (ws ! 1) of None \<Rightarrow> True | Some pub \<Rightarrow> ws ! 1 = b64std_encode pub))"

definition text_ok :: "bytes \<Rightarrow> bool" where
  "text_ok c = (let (ls, long) = scan_lines c in list_all line_ok ls \<and> \<not> long)"

definition store_ok :: "bytes \<Rightarrow> fs \<Rightarrow> bool" where
  "store_ok path f = (case read_file path f of Missing \<Rightarrow> True | Denied \<Rightarrow> False | Contents c \<Rightarrow> text_ok c)"

lemma stored_session_dropCR: "stored_session (dropCR l) = stored_session l"
  by (simp add: stored_session_def Fields_dropCR)

lemma line_ok_dropCR: "line_ok (dropCR l) = line_ok l"
  by (simp add: line_ok_def Fields_dropCR)

lemma stored_session_line_of:
  assumes "line_ok l" and "stored_session l = Some (p, s)" and "length pub = 32"
  shows "\<not> session_line_of (PubKeyB64 pub) l \<and> TrimSpace l \<noteq> [] \<longleftrightarrow> p \<noteq> pub"
proof -
  have f: "length (Fields l) \<ge> 3" "b64std_decode (Fields l ! 1) = Some p"
    using assms(2) by (auto simp: stored_session_def Let_def split: if_splits option.splits)
  then have "Fields l ! 1 = b64std_encode p" using assms(1) by (simp add: line_ok_def Let_def)
  moreover have "TrimSpace l \<noteq> []" using f(1) Fields_blank by fastforce
  ultimately show ?thesis using f(1) b64std.enc_inj [of p pub] by (auto simp: session_line_of_def PubKeyB64_def)
qed

lemma kept_sessions:
  assumes "list_all line_ok ls" and "length pub = 32"
  shows "List.map_filter stored_session (kept_lines (PubKeyB64 pub) ls) = filter (\<lambda>s. fst s \<noteq> pub) (List.map_filter stored_session ls)"
  using assms(1)
proof (induction ls)
  case (Cons l ls)
  then show ?case
    using stored_session_line_of [of l _ _ pub] assms(2)
    by (cases "stored_session l") (auto simp: kept_lines_def map_filter_simps)
qed (simp add: kept_lines_def map_filter_simps)

text \<open>What the program stores: a hash, a public key and exported keying material, of 32 bytes each.\<close>

definition session_parts :: "crypto \<Rightarrow> bytes \<Rightarrow> bytes \<Rightarrow> bytes \<Rightarrow> bool" where
  "session_parts C invite pub ekm \<longleftrightarrow> length (sha256 C invite) = 32 \<and> length pub = 32 \<and> length ekm = 32"

lemma Fields_session_line:
  assumes "session_parts C invite pub ekm"
  shows "Fields (session_line C invite (PubKeyB64 pub) (b64url_encode ekm)) = [tokenKey C invite, PubKeyB64 pub, b64url_encode ekm]"
proof -
  have n: "tokenKey C invite \<noteq> []" "PubKeyB64 pub \<noteq> []" "b64url_encode ekm \<noteq> []"
    using assms length_hex_encode [of "sha256 C invite"] key_ok_nonempty [of "PubKeyB64 pub"]
    by (auto simp: session_parts_def tokenKey_def key_ok_def b64url_encode_Nil)
  show ?thesis
    using Fields_word_label [OF hex_encode_plain n(1) [unfolded tokenKey_def]] Fields_word_label [OF PubKeyB64_plain n(2)]
      Fields_word [OF b64url_plain n(3)]
    by (simp add: session_line_def tokenKey_def)
qed

lemma session_line_stored:
  assumes "session_parts C invite pub ekm"
  shows "stored_session (session_line C invite (PubKeyB64 pub) (b64url_encode ekm)) = Some (pub, b64url_encode ekm)"
    and "line_ok (session_line C invite (PubKeyB64 pub) (b64url_encode ekm))"
proof -
  let ?l = "session_line C invite (PubKeyB64 pub) (b64url_encode ekm)"
  have f: "length (Fields ?l) = 3" "Fields ?l ! 1 = b64std_encode pub" "Fields ?l ! 2 = b64url_encode ekm"
    unfolding Fields_session_line [OF assms] by (simp_all add: PubKeyB64_def)
  have "length pub = PublicKeySize" using assms by (simp add: session_parts_def PublicKeySize_def)
  then show "stored_session ?l = Some (pub, b64url_encode ekm)" "line_ok ?l"
    unfolding stored_session_def line_ok_def Let_def f b64std_decode_encode option.case by simp_all
qed

lemma not_plain_newline: "\<forall>c \<in> set s. plain_byte c \<Longrightarrow> newline \<notin> set s"
proof -
  have "\<not> plain_byte newline" by (simp add: plain_byte_def newline_def space1_def)
  then show "\<forall>c \<in> set s. plain_byte c \<Longrightarrow> newline \<notin> set s" by blast
qed

lemma session_line_short:
  assumes "session_parts C invite pub ekm"
  shows "newline \<notin> set (session_line C invite (PubKeyB64 pub) (b64url_encode ekm))"
    and "\<not> too_long (session_line C invite (PubKeyB64 pub) (b64url_encode ekm))"
proof -
  show "newline \<notin> set (session_line C invite (PubKeyB64 pub) (b64url_encode ekm))"
    using not_plain_newline [OF hex_encode_plain] not_plain_newline [OF PubKeyB64_plain] not_plain_newline [OF b64url_plain]
    by (simp add: session_line_def tokenKey_def newline_def)
  show "\<not> too_long (session_line C invite (PubKeyB64 pub) (b64url_encode ekm))"
    using assms length_hex_encode [of "sha256 C invite"] length_b64std [of pub] length_b64url [of ekm]
    by (simp add: session_parts_def session_line_def too_long_def MaxScanTokenSize_def tokenKey_def PubKeyB64_def)
qed

section \<open>The session store\<close>

text \<open>A readable store as the lines it holds.\<close>

lemma loadSessions_lines:
  assumes "loadSessions path f = Inr ss" and "path \<noteq> []"
  obtains (none) "read_file path f = Missing" "ss = []"
  | (some) c ls where "read_file path f = Contents c" "scan_lines c = (ls, False)" "ss = List.map_filter stored_session ls"
  using assms by (cases "read_file path f") (auto simp: loadSessions_def split: prod.splits if_splits)

lemma loadSessions_written:
  assumes "read_file path g = Contents (concat (map (\<lambda>l. l @ [newline]) ls))" and "path \<noteq> []"
    and "\<forall>l \<in> set ls. newline \<notin> set l \<and> \<not> too_long l"
  shows "loadSessions path g = Inr (List.map_filter stored_session ls)"
  using assms scan_lines_written [OF assms(3)]
  by (simp add: loadSessions_def List.map_filter_def filter_map comp_def stored_session_dropCR)

lemma kept_lines_ok:
  assumes "scan_lines c = (ls, b)" and "l \<in> set (kept_lines k ls)"
  shows "newline \<notin> set l \<and> \<not> too_long l \<and> l \<noteq> []"
proof -
  have "l \<in> set (fst (scan_lines c))" "TrimSpace l \<noteq> []" using assms by (auto simp: kept_lines_def)
  then show ?thesis using scanned_line [of l c] by (auto simp: TrimSpace_def)
qed

lemma saveSession_wrote:
  assumes "path \<noteq> []" and "saveSession C l path invite k secret f = (Inr (), g)"
  shows "read_file path g = Contents (Join ((case read_file path f of Contents c \<Rightarrow> kept_lines k (fst (scan_lines c)) | _ \<Rightarrow> []) @
     [session_line C invite k secret]) [newline] @ [newline])"
proof -
  have "saveSessionLocked C path invite k secret f = (Inr (), g)"
    using assms by (auto simp: saveSession_def elim: withLock_cases)
  then show ?thesis
    using write_file_read(2) [OF _ refl assms(1)]
    by (auto simp: saveSessionLocked_def split: sum.splits bool.splits option.splits read_result.splits prod.splits)
qed

lemma session_saved:
  assumes "path \<noteq> []" and "session_parts C invite pub ekm" and "store_ok path f" and "loadSessions path f = Inr ss"
    and "saveSession C l path invite (PubKeyB64 pub) (b64url_encode ekm) f = (Inr (), g)"
  shows "loadSessions path g = Inr (filter (\<lambda>s. fst s \<noteq> pub) ss @ [(pub, b64url_encode ekm)])"
proof -
  let ?k = "PubKeyB64 pub" and ?new = "session_line C invite (PubKeyB64 pub) (b64url_encode ekm)"
  let ?kept = "case read_file path f of Contents c \<Rightarrow> kept_lines ?k (fst (scan_lines c)) | _ \<Rightarrow> []"
  have w: "read_file path g = Contents (concat (map (\<lambda>l. l @ [newline]) (?kept @ [?new])))"
    using saveSession_wrote [OF assms(1,5)] Join_newline [of "?kept @ [?new]"] by simp
  have k: "\<forall>l \<in> set ?kept. newline \<notin> set l \<and> \<not> too_long l"
    using kept_lines_ok [OF prod.collapse [symmetric]] by (auto split: read_result.split)
  have "List.map_filter stored_session ?kept = filter (\<lambda>s. fst s \<noteq> pub) ss"
    using assms(4,1)
  proof (cases rule: loadSessions_lines)
    case (some c ls)
    then show ?thesis using assms(3) kept_sessions [of ls pub] assms(2) by (simp add: store_ok_def text_ok_def session_parts_def)
  qed (simp add: map_filter_simps)
  then show ?thesis
    using loadSessions_written [OF w assms(1)] k session_line_short [OF assms(2)] session_line_stored(1) [OF assms(2)]
    by (simp add: ball_Un List.map_filter_def)
qed

text \<open>A store with a line too long for the scanner: nothing is reported, and the sessions from that
  line on are gone.\<close>

theorem save_truncates:
  assumes "path \<noteq> []" and "session_parts C invite pub ekm" and "read_file path f = Contents c" and "scan_lines c = (ls, True)"
    and "list_all line_ok ls" and "saveSession C l path invite (PubKeyB64 pub) (b64url_encode ekm) f = (Inr (), g)"
  shows "loadSessions path f = Inl LineTooLong \<and>
    loadSessions path g = Inr (filter (\<lambda>s. fst s \<noteq> pub) (List.map_filter stored_session ls) @ [(pub, b64url_encode ekm)])"
proof -
  let ?kept = "kept_lines (PubKeyB64 pub) ls" and ?new = "session_line C invite (PubKeyB64 pub) (b64url_encode ekm)"
  have w: "read_file path g = Contents (concat (map (\<lambda>l. l @ [newline]) (?kept @ [?new])))"
    using saveSession_wrote [OF assms(1,6)] assms(3,4) Join_newline [of "?kept @ [?new]"] by simp
  have "length pub = 32" using assms(2) by (simp add: session_parts_def)
  then have "List.map_filter stored_session ?kept = filter (\<lambda>s. fst s \<noteq> pub) (List.map_filter stored_session ls)"
    using kept_sessions [OF assms(5)] by blast
  then have "loadSessions path g = Inr (filter (\<lambda>s. fst s \<noteq> pub) (List.map_filter stored_session ls) @ [(pub, b64url_encode ekm)])"
    using loadSessions_written [OF w assms(1)] kept_lines_ok [OF assms(4)] session_line_short [OF assms(2)] session_line_stored(1) [OF assms(2)]
    by (simp add: ball_Un List.map_filter_def)
  then show ?thesis using assms(1,3,4) by (simp add: loadSessions_def)
qed

lemma no_session_line:
  assumes "list_all line_ok ls" and "length pub = 32" and "filter (session_line_of (PubKeyB64 pub)) ls = []"
  shows "filter (\<lambda>s. fst s \<noteq> pub) (List.map_filter stored_session ls) = List.map_filter stored_session ls"
  using assms(1,3)
proof (induction ls)
  case (Cons l ls)
  have "p \<noteq> pub" if "stored_session l = Some (p, s)" for p s
  proof -
    have "TrimSpace l \<noteq> []" using that Fields_blank [of l] by (auto simp: stored_session_def)
    then show ?thesis using stored_session_line_of [OF _ that assms(2)] Cons.prems by (simp split: if_splits)
  qed
  then show ?case using Cons by (cases "stored_session l") (auto simp: map_filter_simps split: if_splits)
qed (simp add: map_filter_simps)

lemma session_removed:
  assumes "path \<noteq> []" and "length pub = 32" and "store_ok path f" and "loadSessions path f = Inr ss"
    and "removeSessionLocked path (PubKeyB64 pub) f = (Inr n, g)"
  shows "loadSessions path g = Inr (filter (\<lambda>s. fst s \<noteq> pub) ss)"
  using assms(4,1)
proof (cases rule: loadSessions_lines)
  case none
  then show ?thesis using assms(4,5) by (simp add: removeSessionLocked_def)
next
  case (some c ls)
  let ?k = "PubKeyB64 pub"
  have ok: "list_all line_ok ls" using assms(3) some by (simp add: store_ok_def text_ok_def)
  show ?thesis
  proof (cases "filter (session_line_of ?k) ls = []")
    case True
    then show ?thesis using assms(4,5) some no_session_line [OF ok assms(2)] by (simp add: removeSessionLocked_def)
  next
    case False
    let ?out = "Join (kept_lines ?k ls) [newline]"
    have k: "l \<in> set (kept_lines ?k ls) \<Longrightarrow> newline \<notin> set l \<and> \<not> too_long l \<and> l \<noteq> []" for l
      using kept_lines_ok [OF some(2)] by blast
    then have j: "(if ?out \<noteq> [] then ?out @ [newline] else ?out) = concat (map (\<lambda>l. l @ [newline]) (kept_lines ?k ls))"
      using Join_newline [of "kept_lines ?k ls"] by (cases "kept_lines ?k ls"; cases "tl (kept_lines ?k ls)") auto
    have "read_file path g = Contents (if ?out \<noteq> [] then ?out @ [newline] else ?out)"
      using assms(5) some False write_file_read(2) [OF _ refl assms(1)]
      by (auto simp: removeSessionLocked_def Let_def split: option.splits prod.splits if_splits)
    then show ?thesis
      using loadSessions_written [OF _ assms(1)] k kept_sessions [OF ok assms(2)] some(3) unfolding j by simp
  qed
qed

section \<open>The type of the store\<close>

lemma text_ok_lines: "\<forall>l \<in> set ls. newline \<notin> set l \<and> \<not> too_long l \<and> line_ok l \<Longrightarrow> text_ok (concat (map (\<lambda>l. l @ [newline]) ls))"
  by (simp add: text_ok_def scan_lines_written list_all_iff line_ok_dropCR)

lemma store_ok_readable: "store_ok path f \<Longrightarrow> \<exists>ss. loadSessions path f = Inr ss"
  by (auto simp: store_ok_def text_ok_def loadSessions_def split: read_result.splits prod.splits)

lemma store_ok_write: "write_file path data f = (e, g) \<Longrightarrow> text_ok data \<Longrightarrow> store_ok path f \<Longrightarrow> store_ok path g"
  using write_file_read(1) [of path data f e g path] by (auto simp: store_ok_def)

lemma store_ok_cong: "read_file path g = read_file path f \<Longrightarrow> store_ok path g = store_ok path f"
  by (simp add: store_ok_def)

lemma kept_text_ok:
  assumes "text_ok c" and "\<forall>l \<in> set ls. newline \<notin> set l \<and> \<not> too_long l \<and> line_ok l"
  shows "text_ok (concat (map (\<lambda>l. l @ [newline]) (kept_lines k (fst (scan_lines c)) @ ls)))"
proof (rule text_ok_lines, intro ballI)
  fix l
  assume l: "l \<in> set (kept_lines k (fst (scan_lines c)) @ ls)"
  have "line_ok x" if "x \<in> set (kept_lines k (fst (scan_lines c)))" for x
    using assms(1) that by (auto simp: text_ok_def kept_lines_def list_all_iff split: prod.splits)
  then show "newline \<notin> set l \<and> \<not> too_long l \<and> line_ok l"
    using l assms(2) kept_lines_ok [OF prod.collapse [symmetric], of l k c] by auto
qed

lemma saveSession_store_ok:
  assumes "store_ok path f" and "session_parts C invite pub ekm"
  shows "store_ok path (snd (saveSession C l path invite (PubKeyB64 pub) (b64url_encode ekm) f))"
proof -
  let ?k = "PubKeyB64 pub" and ?new = "session_line C invite (PubKeyB64 pub) (b64url_encode ekm)"
  have new: "\<forall>l \<in> set [?new]. newline \<notin> set l \<and> \<not> too_long l \<and> line_ok l"
    using session_line_short [OF assms(2)] session_line_stored(2) [OF assms(2)] by simp
  have w: "store_ok path (snd (write_file path (Join (kept @ [?new]) [newline] @ [newline]) f))"
    if "kept = [] \<or> (\<exists>c. read_file path f = Contents c \<and> kept = kept_lines ?k (fst (scan_lines c)))" for kept
  proof -
    have "text_ok (concat (map (\<lambda>l. l @ [newline]) (kept @ [?new])))"
      using that assms(1) kept_text_ok [OF _ new] text_ok_lines [OF new] by (auto simp: store_ok_def)
    then show ?thesis
      using store_ok_write [OF prod.collapse [symmetric] _ assms(1)] Join_newline [of "kept @ [?new]"] by simp
  qed
  have "store_ok path (snd (saveSessionLocked C path invite ?k (b64url_encode ekm) f))"
    using assms(1) w by (auto simp: saveSessionLocked_def snd_result split: sum.split bool.split option.split read_result.split)
  then show ?thesis using assms(1) by (auto simp: saveSession_def withTrustStateLock_def split: sum.split)
qed

lemma removeSessionLocked_store_ok:
  assumes "store_ok path f"
  shows "store_ok path (snd (removeSessionLocked path k f))"
proof (cases "read_file path f")
  case (Contents c)
  obtain ls where sc: "scan_lines c = (ls, False)" using assms Contents by (auto simp: store_ok_def text_ok_def)
  let ?out = "Join (kept_lines k ls) [newline]"
  have "(if ?out \<noteq> [] then ?out @ [newline] else ?out) = concat (map (\<lambda>l. l @ [newline]) (kept_lines k ls))"
    using kept_lines_ok [OF sc, of _ k] Join_newline [of "kept_lines k ls"] by (cases "kept_lines k ls"; cases "tl (kept_lines k ls)") auto
  moreover have "text_ok (concat (map (\<lambda>l. l @ [newline]) (kept_lines k ls)))"
    using kept_text_ok [of c "[]" k] assms Contents sc by (simp add: store_ok_def)
  ultimately have "store_ok path (snd (write_file path (if ?out \<noteq> [] then ?out @ [newline] else ?out) f))"
    using store_ok_write [OF prod.collapse [symmetric] _ assms] by simp
  then show ?thesis using Contents sc assms by (simp add: removeSessionLocked_def snd_result Let_def)
qed (simp_all add: removeSessionLocked_def assms)

lemma learn_line:
  assumes "length (sha256 C tok) = 32" and "length pub = 32"
  shows "Fields (tokenKey C tok @ '' '' @ PubKeyB64 pub) = [tokenKey C tok, PubKeyB64 pub]"
    and "newline \<notin> set (tokenKey C tok @ '' '' @ PubKeyB64 pub)" and "\<not> too_long (tokenKey C tok @ '' '' @ PubKeyB64 pub)"
proof -
  have n: "hex_encode (sha256 C tok) \<noteq> []" "PubKeyB64 pub \<noteq> []"
    using assms length_hex_encode [of "sha256 C tok"] key_ok_nonempty [of "PubKeyB64 pub"] by (auto simp: key_ok_def)
  show "Fields (tokenKey C tok @ '' '' @ PubKeyB64 pub) = [tokenKey C tok, PubKeyB64 pub]"
    using Fields_word_label [OF hex_encode_plain n(1)] Fields_word [OF PubKeyB64_plain n(2)] by (simp add: tokenKey_def)
  show "newline \<notin> set (tokenKey C tok @ '' '' @ PubKeyB64 pub)"
    using not_plain_newline [OF hex_encode_plain] not_plain_newline [OF PubKeyB64_plain] by (simp add: tokenKey_def newline_def)
  show "\<not> too_long (tokenKey C tok @ '' '' @ PubKeyB64 pub)"
    using assms length_hex_encode [of "sha256 C tok"] length_b64std [of pub]
    by (simp add: too_long_def MaxScanTokenSize_def tokenKey_def PubKeyB64_def)
qed

lemma raw_lines_end:
  assumes "c = [] \<or> List.last c = newline" and "newline \<notin> set l"
  shows "raw_lines (c @ l @ [newline]) [] = raw_lines c [] @ [l]"
proof (cases c rule: rev_cases)
  case Nil
  then show ?thesis using raw_lines_line [OF assms(2), of "[]"] by simp
next
  case (snoc c' x)
  then have "c = c' @ [newline]" using assms(1) by simp
  then show ?thesis using raw_lines_append_nl [of c' "l @ [newline]" "[]"] raw_lines_line [OF assms(2), of "[]"] by simp
qed

lemma raw_lines_closed: "c \<noteq> [] \<Longrightarrow> List.last c \<noteq> newline \<Longrightarrow> raw_lines (c @ [newline]) acc = raw_lines c acc"
  by (induction c arbitrary: acc) (auto split: if_splits)

lemma text_ok_append:
  assumes "text_ok c" and "newline \<notin> set l" and "\<not> too_long l" and "line_ok l"
  shows "text_ok ((if c \<noteq> [] \<and> List.last c \<noteq> newline then c @ [newline] else c) @ l @ [newline])"
proof -
  let ?c = "if c \<noteq> [] \<and> List.last c \<noteq> newline then c @ [newline] else c"
  have "raw_lines ?c [] = raw_lines c []" by (simp add: raw_lines_closed)
  then have "raw_lines (?c @ l @ [newline]) [] = raw_lines c [] @ [l]" using raw_lines_end [of ?c l] assms(2) by auto
  moreover have "\<forall>l \<in> set (raw_lines c []). \<not> too_long l \<and> line_ok l"
    using assms(1) by (auto simp: text_ok_def scan_lines_def Let_def list_all_iff list_ex_iff line_ok_dropCR takeWhile_eq_all_conv [THEN iffD2])
  ultimately show ?thesis
    using assms(3,4) by (auto simp: text_ok_def scan_lines_def Let_def list_all_iff list_ex_iff line_ok_dropCR dest: set_takeWhileD)
qed

lemma learnPeer_store_ok:
  assumes "store_ok path f" and "length (sha256 C tok) = 32" and "length pub = 32"
  shows "store_ok path (snd (learnPeer C l path tok (PubKeyB64 pub) f))"
proof -
  have lo: "line_ok (tokenKey C tok @ '' '' @ PubKeyB64 pub)" using learn_line(1) [OF assms(2,3)] by (simp add: line_ok_def)
  have w: "store_ok path (snd (write_file path ((if c \<noteq> [] \<and> List.last c \<noteq> newline then c @ [newline] else c) @ tokenKey C tok @ '' '' @ PubKeyB64 pub @ [newline]) f))"
    if "text_ok c" for c
    using store_ok_write [OF prod.collapse [symmetric] _ assms(1)] text_ok_append [OF that learn_line(2,3) [OF assms(2,3)] lo] by simp
  have e: "text_ok []" by (simp add: text_ok_def scan_lines_def)
  have "store_ok path (snd (learnPeerLocked C path tok (PubKeyB64 pub) f))"
    using assms(1) w [OF e] w
    by (cases "read_file path f") (auto simp: learnPeerLocked_def snd_result store_ok_def Let_def split: sum.split bool.split)
  then show ?thesis using assms(1) by (auto simp: learnPeer_def withTrustStateLock_def split: sum.split)
qed

text \<open>The commands touch the store only to remove session lines.\<close>

lemma PeersRemove_store_ok:
  assumes "kp \<noteq> []" and "pf \<noteq> kp" and "newline \<notin> set today" and "store_ok kp f"
  shows "store_ok kp (snd (PeersRemove Y today l pf kp ref f))"
proof (cases "resolveKeyRef Y pf kp ref f")
  case (Inr k)
  obtain r1 f1 where a: "addRevoked today kp k f = (r1, f1)" by fastforce
  have n: "kp \<noteq> revokedPath kp" "kp \<noteq> pf" using assms(1,2) by (auto simp: revokedPath_def)
  have "read_file kp f1 = read_file kp f"
    using addRevoked_refused(3) [OF assms(1,3) resolveKeyRef_key(1) [OF Inr] a n(1)] .
  then have s1: "store_ok kp f1" using assms(4) store_ok_cong by blast
  obtain r2 f2 where b: "removeSessionLocked kp k f1 = (r2, f2)" by fastforce
  then have s2: "store_ok kp f2" using removeSessionLocked_store_ok [OF s1, of k] by simp
  obtain r3 f3 where c: "removeManifestEntryLocked Y pf k f2 = (r3, f3)" by fastforce
  then have s3: "store_ok kp f3"
    using s2 store_ok_cong [of kp f3 f2] removeManifestEntryLocked_frame [OF n(2), of Y k f2] by simp
  have "store_ok kp (snd (remove_steps Y today pf kp k f))"
    using a b c s1 s2 s3 by (cases r1; cases r2; cases r3) (simp_all add: remove_steps_def trustBase_known [OF assms(1)])
  then show ?thesis using Inr assms(4) by (simp add: PeersRemove_def withTrustStateLock_def split: sum.split)
qed (simp add: PeersRemove_def assms(4))

lemma removeRevoked_frame: "p \<noteq> revokedPath base \<Longrightarrow> read_file p (snd (removeRevoked today base k f)) = read_file p f"
  using writeRevoked_other by (auto simp: removeRevoked_def split: sum.split prod.split option.split)

lemma PeersAllow_frame: "kp \<noteq> [] \<Longrightarrow> p \<noteq> revokedPath kp \<Longrightarrow> read_file p (snd (PeersAllow Y today l pf kp ref f)) = read_file p f"
proof -
  assume a: "kp \<noteq> []" "p \<noteq> revokedPath kp"
  have "snd (case x of (Inl e, f) \<Rightarrow> (Inl e, f) | (Inr v, f) \<Rightarrow> (Inr (h v), f)) = snd x" for x :: "(trust_error + bool) \<times> fs" and h :: "bool \<Rightarrow> cmd_result"
    by (cases x) (simp split: sum.split)
  then show ?thesis using removeRevoked_frame [OF a(2)]
    by (simp add: PeersAllow_def withTrustStateLock_def trustBase_known [OF a(1)] split: sum.split)
qed

lemma add_steps_frame:
  assumes "kp \<noteq> []" and "p \<noteq> pf" and "p \<noteq> revokedPath kp"
  shows "read_file p (snd (add_steps Y today pf kp spec f)) = read_file p f"
proof -
  have rr: "read_file p (snd (case removeRevoked today kp k g of (Inl e, f) \<Rightarrow> (Inl e, f) | (Inr _, f) \<Rightarrow> (Inr AllowedAgain, f))) = read_file p g" for k g
    using removeRevoked_frame [OF assms(3), of today k g] by (cases "removeRevoked today kp k g") (simp split: sum.split)
  have sm: "read_file p (snd (if b then (None, f) else saveManifestLocked Y pf specs f)) = read_file p f" for b specs
    using write_file_snd [OF assms(2)] by (simp add: saveManifestLocked_def)
  have fin: "read_file p (snd (case x of (Some e, f) \<Rightarrow> (Inl e, f) | (None, f) \<Rightarrow>
      if v then (case removeRevoked today kp k f of (Inl e, f) \<Rightarrow> (Inl e, f) | (Inr _, f) \<Rightarrow> (Inr AllowedAgain, f)) else (Inr Added, f))) = read_file p f"
    if "read_file p (snd x) = read_file p f" for x v k
    using rr that by (cases x; cases "fst x") simp_all
  show ?thesis
    unfolding add_steps_def trustBase_known [OF assms(1)] Let_def
    by (cases "loadPeersFile Y pf f"; cases "isRevoked kp (spec_key spec) f")
      (simp_all only: sum.case snd_conv if_distrib [where f = "\<lambda>x. read_file p (snd x) = read_file p f"] fin [OF sm] if_cancel)
qed

lemma PeersAdd_frame:
  "kp \<noteq> [] \<Longrightarrow> p \<noteq> pf \<Longrightarrow> p \<noteq> revokedPath kp \<Longrightarrow> read_file p (snd (PeersAdd Y today l pf kp key tok name expose f)) = read_file p f"
  using add_steps_frame by (auto simp: PeersAdd_def withTrustStateLock_def split: option.split sum.split bool.split)

text \<open>What the running buddy passes in: hashes, keys and keying material of their lengths.\<close>

fun op_typed :: "crypto \<Rightarrow> occasion \<times> trust_op \<Rightarrow> bool" where
  "op_typed C (oc, op) \<longleftrightarrow>
     newline \<notin> set (oc_today oc) \<and>
     (case op of
        StoreSession pub invite ekm \<Rightarrow> session_parts C invite pub ekm
      | LearnPeer tok pub \<Rightarrow> length (sha256 C tok) = 32 \<and> length pub = 32
      | _ \<Rightarrow> True)"

lemma trust_step_store_ok:
  assumes "separate cfg" and "store_ok (KnownPeers cfg) f" and "op_typed C ev"
  shows "store_ok (KnownPeers cfg) (trust_step Y C cfg ev f)"
proof -
  obtain oc op where ev: "ev = (oc, op)" by fastforce
  let ?f = "f\<lparr>plan := oc_plan oc\<rparr>" and ?kp = "KnownPeers cfg" and ?pf = "PeersFile cfg"
  have kp: "?kp \<noteq> []" "?pf \<noteq> ?kp" "?kp \<noteq> ?pf" "?kp \<noteq> ?pf @ ''.bak''" "?kp \<noteq> revokedPath ?kp"
    using assms(1) by (auto simp: separate_def revokedPath_def)
  have s: "store_ok ?kp ?f" using assms(2) store_ok_cong [of ?kp ?f f] by simp
  have keep: "store_ok ?kp g" if "read_file ?kp g = read_file ?kp ?f" for g using s store_ok_cong [OF that] by blast
  show ?thesis
  proof (cases op)
    case (StoreSession pub invite ekm)
    then show ?thesis using ev assms(3) saveSession_store_ok [OF s] by (simp add: Let_def PubKeyB64_def)
  next
    case (LearnPeer tok pub)
    then show ?thesis using ev assms(3) learnPeer_store_ok [OF s] by (simp add: Let_def PubKeyB64_def)
  next
    case (RemovePeer ref)
    then show ?thesis using ev assms(3) PeersRemove_store_ok [OF kp(1,2) _ s] by (simp add: Let_def)
  next
    case (AllowPeer ref)
    then show ?thesis using ev keep [OF PeersAllow_frame [OF kp(1,5)]] by (simp add: Let_def)
  next
    case (AddPeer key tok name expose)
    then show ?thesis using ev keep [OF PeersAdd_frame [OF kp(1,3,5)]] by (simp add: Let_def)
  next
    case MigrateManifest
    then show ?thesis using ev keep [OF PeersMigrate_frame [OF kp(3,4)]] by (simp add: Let_def)
  qed
qed

interpretation typed: stepwise "trust_step Y C cfg" "\<lambda>f. separate cfg \<and> store_ok (KnownPeers cfg) f" "op_typed C" for Y C cfg
  by unfold_locales (auto intro: trust_step_store_ok)

text \<open>C14: stored sessions are exact. From a store that does not exist yet, after any sequence of
  operations by the buddy and the operator, with any write failing or any process killed, the
  session store can be read, and a session then saved is added, replacing the one for the
  same partner and leaving those of all others as they are.\<close>

theorem sessions_exact:
  assumes "separate cfg" and "read_file (KnownPeers cfg) f = Missing" and "\<forall>ev \<in> set evs. op_typed C ev"
    and "session_parts C invite pub ekm"
    and "saveSession C l (KnownPeers cfg) invite (PubKeyB64 pub) (b64url_encode ekm) (fold (trust_step Y C cfg) evs f) = (Inr (), g)"
  shows "\<exists>ss. loadSessions (KnownPeers cfg) (fold (trust_step Y C cfg) evs f) = Inr ss \<and>
    loadSessions (KnownPeers cfg) g = Inr (filter (\<lambda>s. fst s \<noteq> pub) ss @ [(pub, b64url_encode ekm)])"
proof -
  have "store_ok (KnownPeers cfg) f" using assms(2) by (simp add: store_ok_def)
  then have s: "store_ok (KnownPeers cfg) (fold (trust_step Y C cfg) evs f)" using typed.inv_run [of cfg f evs C Y] assms(1,3) by blast
  have "KnownPeers cfg \<noteq> []" using assms(1) by (simp add: separate_def)
  then show ?thesis using store_ok_readable [OF s] session_saved [OF _ assms(4) s _ assms(5)] by blast
qed

end
