(* ===== verification/ScopeProps.thy ===== *)
theory ScopeProps
  imports TrustText
begin

text \<open>
  Exposure scopes: what the parser returns is in normal form, and a scope in normal form is
  read back from its rendering, in the manifest and on the command line.
\<close>

section \<open>Numbers and lists in text\<close>

lemma digit_le: "n mod 10 \<le> (9 :: nat)"
  by presburger

lemma itoa_Suc: "itoa n \<noteq> []" "\<forall>c \<in> set (itoa n). 48 \<le> (of_char c :: nat) \<and> (of_char c :: nat) \<le> 57"
proof (induction n rule: itoa.induct)
  case (1 n)
  have "of_char (char_of (48 + d) :: char) = 48 + d" if "d < 10" for d :: nat using that by (simp add: of_char_of)
  then show "itoa n \<noteq> []" "\<forall>c \<in> set (itoa n). 48 \<le> (of_char c :: nat) \<and> (of_char c :: nat) \<le> 57"
    using 1 digit_le [of n] by (simp_all add: itoa.simps [of n])
qed

lemma those_append: "those (xs @ ys) = (case those xs of None \<Rightarrow> None | Some a \<Rightarrow> map_option ((@) a) (those ys))"
proof (induction xs)
  case (Cons x xs)
  then show ?case by (cases x; cases "those xs"; cases "those ys") simp_all
qed (cases "those ys"; simp)

lemma digit_char: "d < 10 \<Longrightarrow> digit (char_of (48 + d)) = Some d"
  by (simp add: digit_def of_char_of)

lemma number_itoa: "number 10 digit (itoa n) = Some n"
proof -
  have "\<exists>ds. those (map digit (itoa n)) = Some ds \<and> fold (\<lambda>d acc. acc * 10 + d) ds 0 = n"
  proof (induction n rule: itoa.induct)
    case (1 n)
    show ?case
    proof (cases "n < 10")
      case False
      then obtain ds where "those (map digit (itoa (n div 10))) = Some ds" "fold (\<lambda>d acc. acc * 10 + d) ds 0 = n div 10" using 1 by blast
      then show ?thesis using False by (simp add: itoa.simps [of n] those_append digit_char)
    qed (simp add: itoa.simps [of n] digit_char)
  qed
  then show ?thesis using itoa_Suc(1) by (auto simp: number_def)
qed

lemma split_on_word: "sep \<notin> set w \<Longrightarrow> split_on sep w = [w]"
  by (induction w) auto

lemma split_on_sep: "sep \<notin> set w \<Longrightarrow> split_on sep (w @ sep # s) = w # split_on sep s"
  by (induction w) auto

lemma split_on_Join: "ws \<noteq> [] \<Longrightarrow> \<forall>w \<in> set ws. sep \<notin> set w \<Longrightarrow> split_on sep (Join ws [sep]) = ws"
  by (induction ws "[sep]" rule: Join.induct) (simp_all add: split_on_word split_on_sep)

lemma split_on_nonempty: "split_on sep s \<noteq> []"
  by (induction s) (auto split: list.splits)

section \<open>Ports\<close>

definition port_ok :: "port \<Rightarrow> bool" where
  "port_ok p \<longleftrightarrow> Proto p \<in> {''tcp'', ''udp''} \<and> 1 \<le> PortNo p \<and> PortNo p \<le> 65535"

definition scope_ok :: "scope \<Rightarrow> bool" where
  "scope_ok s \<longleftrightarrow>
     (if All s then Ports s = []
      else Ports s \<noteq> [] \<and> distinct (Ports s) \<and> sorted (map (\<lambda>p. (Proto p, PortNo p)) (Ports s)) \<and> list_all port_ok (Ports s))"

text \<open>How the manifest writes a port: the protocol is left out when it is TCP.\<close>

definition short_port :: "port \<Rightarrow> bytes" where
  "short_port p = (if Proto p = ''tcp'' then itoa (PortNo p) else port_text p)"

lemma digit_char_plain:
  assumes "48 \<le> (of_char c :: nat)" and "(of_char c :: nat) \<le> 57"
  shows "plain_byte c" and "c \<noteq> CHR ''/''" and "c \<noteq> CHR '',''" and "lower c = c" and "c \<noteq> CHR ''a''"
proof -
  show "plain_byte c" using assms by (intro plain_ascii) auto
  show "lower c = c" using assms by (simp add: lower_def)
  show "c \<noteq> CHR ''/''" using assms by (rule_tac notI) simp
  show "c \<noteq> CHR '',''" using assms by (rule_tac notI) simp
  show "c \<noteq> CHR ''a''" using assms by (rule_tac notI) simp
qed

lemma digits_plain: "\<forall>c \<in> set (itoa n). plain_byte c \<and> c \<noteq> CHR ''/'' \<and> c \<noteq> CHR '','' \<and> lower c = c \<and> c \<noteq> CHR ''a''"
proof
  fix c
  assume "c \<in> set (itoa n)"
  then show "plain_byte c \<and> c \<noteq> CHR ''/'' \<and> c \<noteq> CHR '','' \<and> lower c = c \<and> c \<noteq> CHR ''a''"
    using itoa_Suc(2) [of n] by (intro conjI digit_char_plain) simp_all
qed

lemma port_text_plain:
  assumes "port_ok p"
  shows "\<forall>c \<in> set (port_text p). plain_byte c \<and> c \<noteq> CHR '',''" and "\<forall>c \<in> set (short_port p). plain_byte c \<and> c \<noteq> CHR '',''"
proof -
  have d: "\<forall>c \<in> set (itoa (PortNo p)). plain_byte c \<and> c \<noteq> CHR '',''" using digits_plain [of "PortNo p"] by simp
  have "\<forall>c \<in> set ''tcp/''. plain_byte c \<and> c \<noteq> CHR '',''" "\<forall>c \<in> set ''udp/''. plain_byte c \<and> c \<noteq> CHR '',''"
    by (simp_all add: plain_ascii)
  then show t: "\<forall>c \<in> set (port_text p). plain_byte c \<and> c \<noteq> CHR '',''"
    using assms d by (cases "Proto p = ''tcp''") (simp_all add: port_ok_def port_text_def ball_Un)
  show "\<forall>c \<in> set (short_port p). plain_byte c \<and> c \<noteq> CHR '',''" using t d by (simp add: short_port_def)
qed

lemma ParseUint16_itoa: "n \<le> 65535 \<Longrightarrow> ParseUint16 (itoa n) = Some n"
  by (simp add: ParseUint16_def number_itoa)

lemma parsePort_port_text:
  assumes "port_ok p"
  shows "parsePort (port_text p) = Some p"
proof -
  have t: "TrimSpace (port_text p) = port_text p" "TrimSpace (itoa (PortNo p)) = itoa (PortNo p)"
    using port_text_plain(1) [OF assms] digits_plain by (simp_all add: TrimSpace_plain)
  have s: "CHR ''/'' \<in> set (port_text p)" "takeWhile (\<lambda>c. c \<noteq> CHR ''/'') (port_text p) = Proto p"
    "tl (dropWhile (\<lambda>c. c \<noteq> CHR ''/'') (port_text p)) = itoa (PortNo p)"
    using assms by (auto simp: port_ok_def port_text_def)
  have pr: "map lower (TrimSpace (Proto p)) = Proto p"
  proof -
    have "map lower (TrimSpace ''tcp'') = ''tcp''" "map lower (TrimSpace ''udp'') = ''udp''" by code_simp+
    then show ?thesis using assms by (auto simp: port_ok_def)
  qed
  show ?thesis
    using assms by (simp add: parsePort_def t s pr ParseUint16_itoa port_ok_def)
qed

lemma parsePort_short:
  assumes "port_ok p"
  shows "parsePort (short_port p) = Some p"
proof (cases "Proto p = ''tcp''")
  case True
  have "TrimSpace (itoa (PortNo p)) = itoa (PortNo p)" "CHR ''/'' \<notin> set (itoa (PortNo p))"
    using digits_plain [of "PortNo p"] by (auto simp: TrimSpace_plain)
  then show ?thesis using assms True by (simp add: parsePort_def short_port_def ParseUint16_itoa port_ok_def)
qed (simp add: short_port_def parsePort_port_text [OF assms])

lemma parsePort_ok: "parsePort part = Some p \<Longrightarrow> port_ok p"
  by (auto simp: parsePort_def ParseUint16_def port_ok_def Let_def split: if_splits option.splits prod.splits)

section \<open>Scopes\<close>

lemma parse_parts_texts:
  assumes "\<forall>p \<in> set ps. parsePort (g p) = Some p" and "distinct (Ports s @ ps)"
  shows "parse_parts (map g ps) s = Some (s\<lparr>Ports := Ports s @ ps\<rparr>)"
  using assms by (induction ps arbitrary: s) (auto simp: add_port_def)

lemma parse_parts_ok:
  "parse_parts parts s = Some s' \<Longrightarrow> distinct (Ports s) \<Longrightarrow> list_all port_ok (Ports s) \<Longrightarrow>
   distinct (Ports s') \<and> list_all port_ok (Ports s') \<and> All s' = All s \<and> (parts \<noteq> [] \<or> Ports s \<noteq> [] \<longrightarrow> Ports s' \<noteq> [])"
proof (induction parts arbitrary: s)
  case (Cons part parts)
  then obtain p where p: "parsePort part = Some p" by (auto split: option.splits)
  then have "distinct (Ports (add_port p s))" "list_all port_ok (Ports (add_port p s))" "All (add_port p s) = All s" "Ports (add_port p s) \<noteq> []"
    using Cons.prems parsePort_ok [OF p] by (auto simp: add_port_def)
  then show ?case using Cons.IH [of "add_port p s"] Cons.prems p by simp
qed auto

lemma sort_key_nonempty: "sort_key f xs = [] \<longleftrightarrow> xs = []"
  by (metis set_empty set_sort)

lemma ParseScope_ok: "ParseScope spec = Some s \<Longrightarrow> scope_ok s"
proof -
  assume a: "ParseScope spec = Some s"
  show ?thesis
  proof (cases "EqualFold (TrimSpace spec) ''all''")
    case True
    then show ?thesis using a by (auto simp: ParseScope_def scope_ok_def Let_def split: if_splits)
  next
    case False
    then obtain s' where s': "parse_parts (split_on CHR '','' (TrimSpace spec)) no_scope = Some s'" "s = normalize s'"
      using a by (auto simp: ParseScope_def Let_def split: if_splits)
    have "distinct (Ports s') \<and> list_all port_ok (Ports s') \<and> All s' = False \<and> Ports s' \<noteq> []"
      using parse_parts_ok [OF s'(1)] split_on_nonempty by (auto simp: no_scope_def)
    then show ?thesis using s'(2) by (simp add: scope_ok_def Scope.normalize_def list_all_iff sort_key_nonempty)
  qed
qed

lemma not_all_word:
  assumes "port_ok p" and "g = port_text \<or> g = short_port"
  shows "\<not> EqualFold (Join (map g (p # ps)) '','') ''all''"
proof -
  have "lower (hd (itoa n)) \<noteq> CHR ''a''" for n using digits_plain [of n] itoa_Suc(1) [of n] by (metis hd_in_set)
  moreover have "lower CHR ''t'' \<noteq> CHR ''a''" "lower CHR ''u'' \<noteq> CHR ''a''" by (simp_all add: lower_def)
  ultimately have h: "g p \<noteq> []" "lower (hd (g p)) \<noteq> CHR ''a''"
    using assms itoa_Suc(1) by (auto simp: port_ok_def short_port_def port_text_def)
  have "lower CHR ''a'' = CHR ''a''" by (simp add: lower_def)
  moreover obtain r where "Join (map g (p # ps)) '','' = g p @ r" by (cases ps) auto
  ultimately show ?thesis using h by (cases "g p") (auto simp: EqualFold_def)
qed

lemma scope_texts:
  assumes "scope_ok s" and "\<not> All s" and "g = port_text \<or> g = short_port"
  shows "ParseScope (Join (map g (Ports s)) '','') = Some s"
proof -
  let ?t = "Join (map g (Ports s)) '',''"
  have ok: "Ports s \<noteq> []" "distinct (Ports s)" "sorted (map (\<lambda>p. (Proto p, PortNo p)) (Ports s))" "\<forall>p \<in> set (Ports s). port_ok p"
    using assms(1,2) by (auto simp: scope_ok_def list_all_iff)
  have w: "\<forall>w \<in> set (map g (Ports s)). (\<forall>c \<in> set w. plain_byte c) \<and> CHR '','' \<notin> set w"
  proof -
    have "\<forall>p \<in> set (Ports s). \<forall>c \<in> set (g p). plain_byte c \<and> c \<noteq> CHR '',''" using ok(4) assms(3) port_text_plain by metis
    then show ?thesis by auto
  qed
  have "\<forall>c \<in> set (Join ws '',''). plain_byte c" if "\<forall>w \<in> set ws. \<forall>c \<in> set w. plain_byte c" for ws
    using that by (induction ws "'',''" rule: Join.induct) (auto intro: plain_ascii)
  then have t: "TrimSpace ?t = ?t" using w by (intro TrimSpace_plain) blast
  have a: "\<not> EqualFold ?t ''all''" using ok(1,4) not_all_word [OF _ assms(3)] by (cases "Ports s") auto
  have n: "?t \<noteq> []" using ok(1) split_on_Join [of "map g (Ports s)" "CHR '',''"] w a itoa_Suc(1) assms(3)
    by (cases "Ports s"; cases "tl (Ports s)") (auto simp: port_text_def short_port_def split: if_splits)
  have "parse_parts (map g (Ports s)) no_scope = Some (no_scope\<lparr>Ports := Ports s\<rparr>)"
    using parse_parts_texts [of "Ports s" g no_scope] ok(2,4) assms(3) parsePort_port_text parsePort_short by (auto simp: no_scope_def)
  moreover have "split_on CHR '','' ?t = map g (Ports s)" using split_on_Join w ok(1) by simp
  moreover have "normalize (no_scope\<lparr>Ports := Ports s\<rparr>) = s"
    using assms(2) ok(3) by (simp add: Scope.normalize_def no_scope_def sort_key_id_if_sorted)
  ultimately show ?thesis using t a n by (simp add: ParseScope_def)
qed

lemma scope_yaml: "scope_ok s \<Longrightarrow> UnmarshalYAML (MarshalYAML s) = Some s"
proof (cases "All s")
  case True
  assume "scope_ok s"
  then have "s = \<lparr>All = True, Ports = []\<rparr>" using True by (simp add: scope_ok_def)
  moreover have "EqualFold (TrimSpace ''all'') ''all''" by code_simp
  ultimately show ?thesis by (simp add: MarshalYAML_def)
next
  case False
  assume a: "scope_ok s"
  have "(\<lambda>p. if Proto p = ''tcp'' then itoa (PortNo p) else port_text p) = short_port"
    by (rule ext) (simp add: short_port_def)
  then show ?thesis using a False scope_texts [OF a False, of short_port] by (simp add: MarshalYAML_def scope_ok_def)
qed

lemma scope_string: "scope_ok s \<Longrightarrow> ParseScope (Scope_String s) = Some s"
proof (cases "All s")
  case True
  assume "scope_ok s"
  then have "s = \<lparr>All = True, Ports = []\<rparr>" using True by (simp add: scope_ok_def)
  moreover have "ParseScope ''all'' = Some \<lparr>All = True, Ports = []\<rparr>" by code_simp
  ultimately show ?thesis by (simp add: Scope_String_def)
next
  case False
  assume a: "scope_ok s"
  then show ?thesis using False scope_texts [OF a False, of port_text] by (simp add: Scope_String_def scope_ok_def)
qed

text \<open>Exposure scopes have a normal form. Whatever text the parser accepts, the scope it
  returns is whole-host without ports, or a sorted list without duplicates of TCP and UDP
  ports between 1 and 65535; and that scope is read back from what \<^verbatim>\<open>peers list\<close> prints of it and
  from what the manifest stores of it.\<close>

theorem scope_roundtrip:
  assumes "ParseScope spec = Some s"
  shows "scope_ok s \<and> ParseScope (Scope_String s) = Some s \<and> UnmarshalYAML (MarshalYAML s) = Some s"
  using ParseScope_ok [OF assms] scope_string scope_yaml by blast

theorem scope_roundtrip_witness:
  "\<exists>s. ParseScope '' udp/53, 22,22'' = Some s \<and> map PortNo (Ports s) = [22, 53] \<and> ParseScope (Scope_String s) = Some s"
proof -
  let ?u = "\<lparr>Proto = ''udp'', PortNo = 53\<rparr>" and ?t = "\<lparr>Proto = ''tcp'', PortNo = 22\<rparr>"
  have split: "split_on CHR '','' (TrimSpace '' udp/53, 22,22'') = [''udp/53'', '' 22'', ''22'']" "\<not> EqualFold (TrimSpace '' udp/53, 22,22'') ''all''"
    "TrimSpace '' udp/53, 22,22'' \<noteq> []" by code_simp+
  have trim: "TrimSpace '' 22'' = ''22''" "TrimSpace ''22'' = ''22''" "port_text ?u = ''udp/53''" by code_simp+
  have "parsePort ''udp/53'' = Some ?u" using parsePort_port_text [of ?u] trim(3) by (simp add: port_ok_def)
  moreover have "parsePort '' 22'' = Some ?t" "parsePort ''22'' = Some ?t"
    by (simp_all add: parsePort_def trim ParseUint16_def number_def digit_def)
  ultimately have "ParseScope '' udp/53, 22,22'' = Some (Scope.normalize \<lparr>All = False, Ports = [?u, ?t]\<rparr>)"
    using split by (simp add: ParseScope_def no_scope_def add_port_def)
  moreover have "Scope.normalize \<lparr>All = False, Ports = [?u, ?t]\<rparr> = \<lparr>All = False, Ports = [?t, ?u]\<rparr>" by code_simp
  ultimately have "ParseScope '' udp/53, 22,22'' = Some \<lparr>All = False, Ports = [?t, ?u]\<rparr>" by simp
  from this scope_roundtrip [OF this] show ?thesis by (intro exI conjI) (assumption, simp, blast)
qed

end
