(* ===== verification/ManifestProps.thy ===== *)
theory ManifestProps
  imports Stores ScopeProps
begin

text \<open>
  The manifest is read back as it was written, and what \<^verbatim>\<open>peers add\<close> and \<^verbatim>\<open>peers remove\<close> leave
  behind. The YAML library is constrained only on the documents at hand: the text it writes
  starts with the one key of the document, and reading it after the comment header gives the
  entries back.
\<close>

definition yaml_faithful :: "yaml \<Rightarrow> raw_buddy list \<Rightarrow> bool" where
  "yaml_faithful Y rs \<longleftrightarrow> HasPrefix (ywrite Y rs) ''buddies:'' \<and> yread Y (manifestHeader @ ywrite Y rs) = YDoc rs"

abbreviation raws :: "peerSpec list \<Rightarrow> raw_buddy list" where "raws specs \<equiv> map (raw_buddy_of \<circ> toManifest) specs"

definition spec_ok :: "peerSpec \<Rightarrow> bool" where
  "spec_ok s \<longleftrightarrow>
     length (ps_pin s) = 32 \<and> (ps_token s = [] \<or> validField (ps_token s)) \<and> validateBuddyName (ps_name s) \<and>
     (case ps_expose s of None \<Rightarrow> True | Some sc \<Rightarrow> scope_ok sc)"

section \<open>The text is not taken for the old format\<close>

definition manifest_comments :: "bytes list" where
  \<open>manifest_comments =
     [''# BuddyNet peers manifest (YAML). Managed by 'peers add/remove/list'; hand-editable.'',
      ''# NOTE: 'peers add/remove' rewrite this file and drop custom comments.'',
      ''# One entry per buddy:'',
      ''#   - name: alice             # optional (display / .buddy hint)'',
      ''#     key: <pubkey-base64>    # required '' @ emdash @ '' the buddy's pinned Ed25519 identity'',
      ''#     token: <bootstrap>      # optional, only needed until the first pairing'',
      ''#     expose: [873]           # optional (WireGuard): ports this buddy may reach'',
      ''#                             # on THIS host, e.g. [873, "udp/51820"]; 'all' ='',
      ''#                             # explicit whole host; omitted = inherit --expose,'',
      ''#                             # else fail-closed (nothing exposed)'']\<close>

lemma manifestHeader_lines: "manifestHeader = concat (map (\<lambda>l. l @ [newline]) manifest_comments)"
  by (simp add: manifestHeader_def manifest_comments_def)

lemma manifest_comments_ok: "c \<in> set manifest_comments \<Longrightarrow> newline \<notin> set c \<and> length c < 100 \<and> (\<exists>r. c = CHR ''#'' # r)"
  by (auto simp: manifest_comments_def emdash_def newline_def)

lemma raw_lines_prefix:
  "\<forall>l \<in> set ls. newline \<notin> set l \<Longrightarrow> raw_lines (concat (map (\<lambda>l. l @ [newline]) ls) @ t) [] = ls @ raw_lines t []"
  by (induction ls) (simp_all add: raw_lines_line)

lemma raw_lines_first: "acc \<noteq> [] \<Longrightarrow> \<exists>x rest. raw_lines t acc = (acc @ x) # rest"
proof (induction t arbitrary: acc)
  case (Cons c t)
  then show ?case using Cons.IH [of "acc @ [c]"] by (cases "c = newline") auto
qed auto

lemma raw_lines_word: "newline \<notin> set w \<Longrightarrow> raw_lines (w @ t) acc = raw_lines t (acc @ w)"
  by (induction w arbitrary: acc) auto

lemma split_fields_first: "acc \<noteq> [] \<Longrightarrow> \<exists>x rest. split_fields us acc = (acc @ x) # rest"
proof (induction us arbitrary: acc)
  case (Cons u us)
  then show ?case using Cons.IH [of "acc @ snd u"] by (cases u; cases "fst u") auto
qed auto

lemma comment_not_content: "\<not> content_line (dropCR (CHR ''#'' # r))"
proof -
  have "plain_byte CHR ''#''" by (rule plain_ascii) simp_all
  then have "\<exists>r'. TrimSpace (CHR ''#'' # r'') = CHR ''#'' # r'" for r'' by (rule TrimSpace_plain_Cons)
  moreover have "\<exists>r''. dropCR (CHR ''#'' # r) = CHR ''#'' # r''" by (auto simp: dropCR_def)
  ultimately show ?thesis by (metis content_line_def HasPrefix_def list.size(3,4) take_Suc_Cons take0 One_nat_def add.commute plus_1_eq_Suc)
qed

lemma those_None: "None \<in> set xs \<Longrightarrow> those xs = None"
  by (induction xs) (auto split: option.split)

lemma colon_no_key: "DecodePubKey (''buddies:'' @ x) = None"
proof -
  have "b64_val StdAlphabet CHR '':'' = None" by code_simp
  then have "sextets_of StdAlphabet (''buddies:'' @ y) = None" for y
    unfolding sextets_of_def by (intro those_None) simp
  moreover have "takeWhile (\<lambda>c. c \<noteq> CHR ''='') (skip_newlines (''buddies:'' @ x)) = ''buddies:'' @ takeWhile (\<lambda>c. c \<noteq> CHR ''='') (skip_newlines x)"
    by (simp add: skip_newlines_def)
  ultimately have "b64std_decode (''buddies:'' @ x) = None" unfolding b64std_decode_def Let_def by (simp only: option.case if_cancel)
  then show ?thesis by (simp add: DecodePubKey_def)
qed

lemma manifest_not_legacy:
  assumes "HasPrefix t ''buddies:''"
  shows "\<not> manifestIsLegacy (manifestHeader @ t)"
proof -
  obtain r where t: "t = ''buddies:'' @ r" using assms by (metis HasPrefix_def append_take_drop_id)
  have nl: "newline \<notin> set ''buddies:''" by (simp add: newline_def)
  obtain x rest where first: "raw_lines t [] = (''buddies:'' @ x) # rest"
    using raw_lines_word [OF nl, of r "[]"] raw_lines_first [of "''buddies:''" r] t by auto
  have raw: "raw_lines (manifestHeader @ t) [] = manifest_comments @ (''buddies:'' @ x) # rest"
    using raw_lines_prefix [of manifest_comments t] manifest_comments_ok first by (simp add: manifestHeader_lines)
  have short: "\<forall>c \<in> set manifest_comments. \<not> too_long c" using manifest_comments_ok by (fastforce simp: too_long_def MaxScanTokenSize_def)
  have comments: "\<forall>c \<in> set manifest_comments. \<not> content_line (dropCR c)" using manifest_comments_ok comment_not_content by metis
  have "\<forall>c \<in> set cs. \<not> content_line (dropCR c) \<Longrightarrow> find content_line (map dropCR cs @ ls) = find content_line ls" for cs ls
    by (induction cs) auto
  then have skip: "find content_line (map dropCR manifest_comments @ ls) = find content_line ls" for ls using comments by blast
  have "\<exists>r. dropCR (''buddies:'' @ x) = CHR ''b'' # r" by (auto simp: dropCR_def)
  then have "\<exists>r. TrimSpace (dropCR (''buddies:'' @ x)) = CHR ''b'' # r" using TrimSpace_plain_Cons [OF plain_ascii, of "CHR ''b''"] by auto
  then have content: "content_line (dropCR (''buddies:'' @ x))" by (auto simp: content_line_def HasPrefix_def)
  have "\<exists>ls'. fst (scan_lines (manifestHeader @ t)) = map dropCR manifest_comments @ (if too_long (''buddies:'' @ x) then [] else dropCR (''buddies:'' @ x) # ls')"
    unfolding scan_lines_def Let_def raw using short by (auto simp: takeWhile_append)
  moreover have "DecodePubKey (hd (Fields (TrimSpace (dropCR (''buddies:'' @ x))))) = None"
  proof -
    have pl: "\<forall>c \<in> set ''buddies:''. plain_byte c" by (auto intro!: plain_ascii)
    obtain y ws where "split_fields (units x) ''buddies:'' = (''buddies:'' @ y) # ws" using split_fields_first by blast
    then have "Fields (''buddies:'' @ x) = (''buddies:'' @ y) # ws" using split_fields_plain [OF pl, of x "[]"] by (simp add: Fields_def)
    then show ?thesis using colon_no_key by (simp add: Fields_TrimSpace Fields_dropCR)
  qed
  ultimately show ?thesis
    using skip [of "[]"] skip content by (auto simp: manifestIsLegacy_def split: if_splits)
qed

section \<open>Round trip\<close>

lemma toSpec_toManifest: "spec_ok s \<Longrightarrow> toSpec (toManifest s) = Inr s"
proof -
  assume a: "spec_ok s"
  then have "key_ok (PubKeyB64 (ps_pin s))" by (auto simp: spec_ok_def key_ok_def)
  then show ?thesis
    using a key_ok_nonempty DecodePubKey_roundtrip [of "ps_pin s"] by (auto simp: toSpec_def toManifest_def spec_ok_def)
qed

lemma buddy_of_raw_of: "(\<And>sc. mb_expose b = Some sc \<Longrightarrow> scope_ok sc) \<Longrightarrow> buddy_of_raw (raw_buddy_of b) = Some b"
  using scope_yaml by (cases "mb_expose b") (auto simp: buddy_of_raw_def raw_buddy_of_def)

lemma those_Some: "(\<And>x. x \<in> set xs \<Longrightarrow> g x = Some (h x)) \<Longrightarrow> those (map g xs) = Some (map h xs)"
  by (induction xs) auto

lemma raws_read:
  assumes "\<forall>s \<in> set specs. case ps_expose s of None \<Rightarrow> True | Some sc \<Rightarrow> scope_ok sc"
  shows "those (map buddy_of_raw (raws specs)) = Some (map toManifest specs)"
proof -
  have "buddy_of_raw (raw_buddy_of (toManifest s)) = Some (toManifest s)" if "s \<in> set specs" for s
    using assms that by (intro buddy_of_raw_of) (auto simp: toManifest_def split: option.splits)
  then show ?thesis using those_Some [of specs "buddy_of_raw \<circ> (raw_buddy_of \<circ> toManifest)" toManifest] by simp
qed

lemma yaml_entries_specs:
  assumes "\<forall>s \<in> set specs. spec_ok s" and "distinct (map spec_key specs)" and "spec_key ` set specs \<inter> set seen = {}"
  shows "yaml_entries (map toManifest specs @ rest) seen done = yaml_entries rest (rev (map spec_key specs) @ seen) (done @ specs)"
  using assms by (induction specs arbitrary: seen "done") (auto simp: toSpec_toManifest)

lemma manifest_read:
  assumes "path \<noteq> []" and "yaml_faithful Y (raws specs)" and "length (manifest_text Y specs) \<le> maxManifestBytes"
    and "write_file path (manifest_text Y specs) f = (None, g)"
    and "\<forall>s \<in> set specs. case ps_expose s of None \<Rightarrow> True | Some sc \<Rightarrow> scope_ok sc"
  shows "loadPeersFile Y path g = yaml_entries (map toManifest specs) [] []"
proof -
  have r: "read_file path g = Contents (manifest_text Y specs)" using write_file_read(2) [OF assms(4) refl assms(1)] .
  then have "mget (files g) path = Some (manifest_text Y specs)" by (auto simp: read_file_def split: if_splits option.splits)
  then have rm: "readManifest path g = Inr (Some (manifest_text Y specs))" using r assms(3) by (simp add: readManifest_def)
  have "\<not> manifestIsLegacy (manifest_text Y specs)" "yread Y (manifest_text Y specs) = YDoc (raws specs)"
    using assms(2) manifest_not_legacy by (simp_all add: manifest_text_def yaml_faithful_def)
  then show ?thesis using assms(1) rm raws_read [OF assms(5)] by (simp add: loadPeersFile_def parseYAMLManifest_def)
qed

lemma spec_ok_expose: "spec_ok s \<Longrightarrow> case ps_expose s of None \<Rightarrow> True | Some sc \<Rightarrow> scope_ok sc"
  by (simp add: spec_ok_def)

lemma manifest_saved:
  assumes "path \<noteq> []" and "yaml_faithful Y (raws specs)" and "length (manifest_text Y specs) \<le> maxManifestBytes"
    and "write_file path (manifest_text Y specs) f = (None, g)" and "\<forall>s \<in> set specs. spec_ok s" and "distinct (map spec_key specs)"
  shows "loadPeersFile Y path g = Inr specs"
  using manifest_read [OF assms(1-4)] assms(5) spec_ok_expose yaml_entries_specs [OF assms(5,6), of "[]" "[]" "[]"] by simp

section \<open>What a manifest holds\<close>

lemma UnmarshalYAML_ok: "UnmarshalYAML n = Some sc \<Longrightarrow> scope_ok sc"
  by (cases n) (auto simp: scope_ok_def dest: ParseScope_ok split: if_splits)

lemma buddy_of_raw_ok: "buddy_of_raw r = Some b \<Longrightarrow> toSpec b = Inr s \<Longrightarrow> spec_ok s"
  by (auto simp: buddy_of_raw_def toSpec_def spec_ok_def Let_def DecodePubKey_length UnmarshalYAML_ok split: option.splits if_splits)

lemma those_member: "those xs = Some ys \<Longrightarrow> y \<in> set ys \<Longrightarrow> Some y \<in> set xs"
  by (induction xs arbitrary: ys) (auto split: option.splits)

lemma yaml_entries_ok:
  assumes "yaml_entries bs seen specs = Inr out" and "\<And>b s. b \<in> set bs \<Longrightarrow> toSpec b = Inr s \<Longrightarrow> spec_ok s"
    and "\<forall>s \<in> set specs. spec_ok s" and "distinct (map spec_key specs)" and "set seen = spec_key ` set specs"
  shows "(\<forall>s \<in> set out. spec_ok s) \<and> distinct (map spec_key out)"
  using assms
proof (induction bs arbitrary: seen specs)
  case (Cons b bs)
  then obtain s where s: "toSpec b = Inr s" by (cases "toSpec b") auto
  then have n: "spec_key s \<notin> set seen" and r: "yaml_entries bs (spec_key s # seen) (specs @ [s]) = Inr out"
    using Cons.prems(1) by (auto simp: Let_def split: if_splits)
  show ?case using Cons.IH [OF r] Cons.prems(2-5) n s by auto
qed simp

lemma loadPeersFile_ok:
  assumes "loadPeersFile Y path f = Inr specs" and "manifestNeedsMigration path f = Inr False"
  shows "(\<forall>s \<in> set specs. spec_ok s) \<and> distinct (map spec_key specs)"
proof (cases "specs = []")
  case False
  then obtain rs bs where "those (map buddy_of_raw rs) = Some bs" "yaml_entries bs [] [] = Inr specs"
    using assms by (auto simp: loadPeersFile_def manifestNeedsMigration_def parseYAMLManifest_def split: if_splits sum.splits option.splits ydoc.splits)
  moreover from this(1) have "spec_ok s" if "b \<in> set bs" "toSpec b = Inr s" for b s
  proof -
    have "Some b \<in> set (map buddy_of_raw rs)" using those_member [OF \<open>those (map buddy_of_raw rs) = Some bs\<close> that(1)] .
    then obtain r where "buddy_of_raw r = Some b" by auto
    then show ?thesis using buddy_of_raw_ok that(2) by blast
  qed
  ultimately show ?thesis using yaml_entries_ok [of bs "[]" "[]" specs] by simp
qed simp

section \<open>The commands\<close>

text \<open>Changes elsewhere do not matter to a manifest that can be opened.\<close>

lemma readManifest_cong:
  assumes "read_file path g = read_file path f" and "read_file path f \<noteq> Denied" and "path \<noteq> []"
  shows "readManifest path g = readManifest path f"
  using assms by (auto simp: readManifest_def read_file_def split: if_splits option.splits)

lemma loadPeersFile_cong:
  assumes "read_file path g = read_file path f" and "read_file path f \<noteq> Denied"
  shows "loadPeersFile Y path g = loadPeersFile Y path f" and "path \<noteq> [] \<Longrightarrow> manifestNeedsMigration path g = manifestNeedsMigration path f"
  using readManifest_cong [OF assms] by (auto simp: loadPeersFile_def manifestNeedsMigration_def)

lemma loadSessions_cong: "read_file path g = read_file path f \<Longrightarrow> loadSessions path g = loadSessions path f"
  by (simp add: loadSessions_def)

lemma filter_pins: "\<forall>s \<in> set specs. length (ps_pin s) = 32 \<Longrightarrow> length pub = 32 \<Longrightarrow>
  filter (\<lambda>s. spec_key s \<noteq> PubKeyB64 pub) specs = filter (\<lambda>s. ps_pin s \<noteq> pub) specs"
  using b64std.enc_inj by (intro filter_cong) (auto simp: PubKeyB64_def)

text \<open>The entry of a key and nothing else leaves the manifest.\<close>

lemma manifest_entry_removed:
  assumes "removeManifestEntryLocked Y pf (PubKeyB64 pub) f = (Inr n, g)" and "pf \<noteq> []" and "length pub = 32"
    and "loadPeersFile Y pf f = Inr specs" and "yaml_faithful Y (raws (filter (\<lambda>s. ps_pin s \<noteq> pub) specs))"
    and "length (manifest_text Y (filter (\<lambda>s. ps_pin s \<noteq> pub) specs)) \<le> maxManifestBytes"
  shows "loadPeersFile Y pf g = Inr (filter (\<lambda>s. ps_pin s \<noteq> pub) specs)"
proof -
  have m: "manifestNeedsMigration pf f = Inr False"
    using assms(1,2) by (auto simp: removeManifestEntryLocked_def split: sum.splits bool.splits)
  note ok = loadPeersFile_ok [OF assms(4) m]
  have pins: "filter (\<lambda>s. spec_key s \<noteq> PubKeyB64 pub) specs = filter (\<lambda>s. ps_pin s \<noteq> pub) specs"
    using ok assms(3) by (intro filter_pins) (auto simp: spec_ok_def)
  show ?thesis
  proof (cases "filter (\<lambda>s. spec_key s = PubKeyB64 pub) specs = []")
    case True
    then have "filter (\<lambda>s. spec_key s \<noteq> PubKeyB64 pub) specs = specs" by (simp add: filter_empty_conv filter_id_conv)
    then show ?thesis using assms(1,2,4) m True pins by (simp add: removeManifestEntryLocked_def)
  next
    case False
    then have "write_file pf (manifest_text Y (filter (\<lambda>s. ps_pin s \<noteq> pub) specs)) f = (None, g)"
      using assms(1,2,4) m pins by (auto simp: removeManifestEntryLocked_def saveManifestLocked_def Let_def split: option.splits prod.splits)
    then show ?thesis using manifest_saved [OF assms(2,5,6)] ok by (simp add: distinct_map_filter)
  qed
qed

lemma resolve_pub: "length pub = 32 \<Longrightarrow> resolveKeyRef Y pf kp (PubKeyB64 pub) f = Inr (PubKeyB64 pub)"
  by (simp add: resolveKeyRef_def DecodePubKey_roundtrip)

text \<open>The steps of a complete removal.\<close>

lemma PeersRemove_steps:
  assumes "kp \<noteq> []" and "length pub = 32" and "PeersRemove Y today l pf kp (PubKeyB64 pub) f = (Inr (RevokedBuddy m n), g)"
  obtains b f1 f2 where "addRevoked today kp (PubKeyB64 pub) f = (Inr b, f1)" "removeSessionLocked kp (PubKeyB64 pub) f1 = (Inr n, f2)"
    "removeManifestEntryLocked Y pf (PubKeyB64 pub) f2 = (Inr m, g)"
proof -
  have "remove_steps Y today pf kp (PubKeyB64 pub) f = (Inr (RevokedBuddy m n), g)"
    using assms(3) by (auto simp: PeersRemove_def resolve_pub [OF assms(2)] elim: withLock_cases)
  then show thesis using that
    by (auto simp: remove_steps_def trustBase_known [OF assms(1)] split: sum.splits prod.splits if_splits)
qed

text \<open>C15: a removal is exact. When \<^verbatim>\<open>peers remove\<close> reports a buddy as removed, its key is refused,
  the manifest holds the entries it held without that buddy's, and the session store the
  sessions it held without that buddy's.\<close>

theorem remove_exact:
  assumes "separate cfg" and "newline \<notin> set today" and "length pub = 32"
    and "PeersRemove Y today l (PeersFile cfg) (KnownPeers cfg) (PubKeyB64 pub) f = (Inr (RevokedBuddy m n), g)"
    and "store_ok (KnownPeers cfg) f" and "loadSessions (KnownPeers cfg) f = Inr ss"
    and "PeersFile cfg \<noteq> []" and "read_file (PeersFile cfg) f \<noteq> Denied" and "loadPeersFile Y (PeersFile cfg) f = Inr specs"
    and "yaml_faithful Y (raws (filter (\<lambda>s. ps_pin s \<noteq> pub) specs))"
    and "length (manifest_text Y (filter (\<lambda>s. ps_pin s \<noteq> pub) specs)) \<le> maxManifestBytes"
  shows "refused (KnownPeers cfg) (PubKeyB64 pub) g \<and>
    loadPeersFile Y (PeersFile cfg) g = Inr (filter (\<lambda>s. ps_pin s \<noteq> pub) specs) \<and>
    loadSessions (KnownPeers cfg) g = Inr (filter (\<lambda>s. fst s \<noteq> pub) ss)"
proof -
  let ?kp = "KnownPeers cfg" and ?pf = "PeersFile cfg" and ?k = "PubKeyB64 pub"
  have kp: "?kp \<noteq> []" "?pf \<noteq> revokedPath ?kp" "?pf \<noteq> ?kp" "?kp \<noteq> revokedPath ?kp" "?kp \<noteq> ?pf"
    using assms(1) by (auto simp: separate_def revokedPath_def)
  have k: "key_ok ?k" using assms(3) by (auto simp: key_ok_def)
  obtain b f1 f2 where st: "addRevoked today ?kp ?k f = (Inr b, f1)" "removeSessionLocked ?kp ?k f1 = (Inr n, f2)"
    "removeManifestEntryLocked Y ?pf ?k f2 = (Inr m, g)" using PeersRemove_steps [OF kp(1) assms(3,4)] .
  have r1: "p \<noteq> revokedPath ?kp \<Longrightarrow> read_file p f1 = read_file p f" for p using addRevoked_refused(3) [OF kp(1) assms(2) k st(1)] .
  have r2: "p \<noteq> ?kp \<Longrightarrow> read_file p f2 = read_file p f1" for p using removeSessionLocked_frame [of p ?kp ?k f1] st(2) by simp
  have r3: "p \<noteq> ?pf \<Longrightarrow> read_file p g = read_file p f2" for p using removeManifestEntryLocked_frame [of p ?pf Y ?k f2] st(3) by simp
  have "loadPeersFile Y ?pf f2 = Inr specs" using loadPeersFile_cong(1) [of ?pf f2 f] r1 [OF kp(2)] r2 [OF kp(3)] assms(8,9) by simp
  then have "loadPeersFile Y ?pf g = Inr (filter (\<lambda>s. ps_pin s \<noteq> pub) specs)"
    using manifest_entry_removed [OF st(3) assms(7,3) _ assms(10,11)] by blast
  moreover have "loadSessions ?kp f1 = Inr ss" "store_ok ?kp f1"
    using loadSessions_cong [OF r1 [OF kp(4)]] store_ok_cong [OF r1 [OF kp(4)]] assms(5,6) by simp_all
  then have "loadSessions ?kp f2 = Inr (filter (\<lambda>s. fst s \<noteq> pub) ss)" using session_removed [OF kp(1) assms(3) _ _ st(2)] by blast
  then have "loadSessions ?kp g = Inr (filter (\<lambda>s. fst s \<noteq> pub) ss)" using loadSessions_cong [OF r3 [OF kp(5)]] by simp
  moreover have "refused ?kp ?k g" using PeersRemove_refused(2) [OF kp(1,2) assms(2,4) resolve_pub [OF assms(3)]] by blast
  ultimately show ?thesis by blast
qed

text \<open>The entry that \<^verbatim>\<open>peers add\<close> writes.\<close>

definition added_spec :: "bytes \<Rightarrow> bytes \<Rightarrow> bytes \<Rightarrow> bytes \<Rightarrow> peerSpec" where
  "added_spec pin tok name expose =
     \<lparr>ps_pin = pin, ps_token = tok, ps_name = name, ps_expose = (if expose = [] then None else ParseScope expose)\<rparr>"

lemma PeersAdd_wrote:
  assumes "PeersAdd Y today l pf kp key tok name expose f = (Inr Added, g)" and "loadPeersFile Y pf f = Inr existing"
    and "DecodePubKey key = Some pin"
  shows "write_file pf (manifest_text Y (existing @ [added_spec pin tok name expose])) f = (None, g)"
    and "pf \<noteq> []" and "validateBuddyName name" and "expose = [] \<or> ParseScope expose \<noteq> None"
    and "manifestNeedsMigration pf f = Inr False" and "PubKeyB64 pin \<notin> spec_key ` set existing"
proof -
  have st: "add_steps Y today pf kp (added_spec pin tok name expose) f = (Inr Added, g) \<and> pf \<noteq> [] \<and> validateBuddyName name \<and>
    (expose = [] \<or> ParseScope expose \<noteq> None) \<and> manifestNeedsMigration pf f = Inr False"
    using assms(1,3) by (auto simp: PeersAdd_def added_spec_def elim!: withLock_cases split: if_splits sum.splits bool.splits)
  then show "pf \<noteq> []" "validateBuddyName name" "expose = [] \<or> ParseScope expose \<noteq> None" "manifestNeedsMigration pf f = Inr False" by blast+
  have nl: "PubKeyB64 pin \<notin> spec_key ` set existing \<and> write_file pf (manifest_text Y (existing @ [added_spec pin tok name expose])) f = (None, g)"
  proof (cases "PubKeyB64 pin \<in> spec_key ` set existing")
    case True
    then show ?thesis using st assms(2) by (auto simp: add_steps_def added_spec_def Let_def split: sum.splits bool.splits prod.splits if_splits)
  next
    case False
    obtain e h where "write_file pf (manifest_text Y (existing @ [added_spec pin tok name expose])) f = (e, h)" by fastforce
    then show ?thesis using st assms(2) False
      by (cases e) (auto simp: add_steps_def added_spec_def saveManifestLocked_def Let_def split: sum.splits bool.splits prod.splits if_splits)
  qed
  then show "write_file pf (manifest_text Y (existing @ [added_spec pin tok name expose])) f = (None, g)"
    "PubKeyB64 pin \<notin> spec_key ` set existing" by blast+
qed

text \<open>C29: an addition is exact, and says too much. When \<^verbatim>\<open>peers add\<close> reports a new buddy, the manifest
  reads back as it was with the new entry at its end; unless the token given has a byte that
  the reader of the manifest does not accept in a token, or is too long for it, which the
  command does not check: then the whole manifest cannot be read any more.\<close>

theorem add_exact:
  assumes "PeersAdd Y today l pf kp key tok name expose f = (Inr Added, g)" and "loadPeersFile Y pf f = Inr existing"
    and "DecodePubKey key = Some pin"
    and "yaml_faithful Y (raws (existing @ [added_spec pin tok name expose]))"
    and "length (manifest_text Y (existing @ [added_spec pin tok name expose])) \<le> maxManifestBytes"
  shows "loadPeersFile Y pf g =
    (if tok = [] \<or> validField tok then Inr (existing @ [added_spec pin tok name expose]) else Inl BadToken)"
proof -
  let ?s = "added_spec pin tok name expose"
  note w = PeersAdd_wrote [OF assms(1-3)]
  note ok = loadPeersFile_ok [OF assms(2) w(5)]
  have len: "length pin = 32" using DecodePubKey_length [OF assms(3)] .
  have e: "case ps_expose ?s of None \<Rightarrow> True | Some sc \<Rightarrow> scope_ok sc"
    using ParseScope_ok by (auto simp: added_spec_def split: option.splits)
  then have "\<forall>s \<in> set (existing @ [?s]). case ps_expose s of None \<Rightarrow> True | Some sc \<Rightarrow> scope_ok sc"
    using ok spec_ok_expose by auto
  then have r: "loadPeersFile Y pf g = yaml_entries (map toManifest (existing @ [?s])) [] []"
    using manifest_read [OF w(2) assms(4,5) w(1)] by blast
  have split: "yaml_entries (map toManifest (existing @ [?s])) [] [] = yaml_entries [toManifest ?s] (rev (map spec_key existing)) existing"
    using yaml_entries_specs [of existing "[]" "[toManifest ?s]" "[]"] ok by simp
  show ?thesis
  proof (cases "tok = [] \<or> validField tok")
    case True
    then have "spec_ok ?s" using e len w(3) by (simp add: spec_ok_def added_spec_def)
    then have "yaml_entries [toManifest ?s] (rev (map spec_key existing)) existing = Inr (existing @ [?s])"
      using toSpec_toManifest w(6) by (simp add: added_spec_def)
    then show ?thesis using r split True by simp
  next
    case False
    have "PubKeyB64 pin \<noteq> []" using key_ok_nonempty len by (auto simp: key_ok_def)
    then have "toSpec (toManifest ?s) = Inl BadToken"
      using False DecodePubKey_roundtrip [OF len] by (simp add: toSpec_def toManifest_def added_spec_def)
    then show ?thesis using r split False by simp
  qed
qed

end
