(* ===== verification/Supervisor.thy ===== *)
theory Supervisor
  imports Attempts
begin

text \<open>
  \<^verbatim>\<open>supervise\<close> of \<^verbatim>\<open>internal/role/supervisor.go\<close>: one worker per buddy, the channel on which workers
  announce that they are done, the interface index of each buddy, and the reload on SIGHUP.

  A goroutine is in \<open>workers\<close> while its \<^verbatim>\<open>peerLoop\<close> runs and in \<open>senders\<close> from its return until its
  send on \<^verbatim>\<open>exited\<close> completes; the wait group counts both. The iteration order over Go maps is
  the order of the list given to a reload. Whether programming the packet filter succeeds is
  an input.
\<close>

section \<open>State\<close>

record handle =
  h_gen :: nat
  h_spec :: peerSpec
  h_scope :: "scope option"

record worker =
  w_key :: bytes
  w_gen :: nat
  w_if :: nat
  w_cancelled :: bool

datatype sup_phase = Serving | Draining | Returned

record sup =
  running :: "(bytes, handle) gomap"
  gen :: nat
  ifIndexOf :: "(bytes, nat) gomap"
  workers :: "worker list"
  senders :: "(bytes \<times> nat) list"
  exited :: "(bytes \<times> nat) list"
  rules :: "(nat, scope option) gomap"
  phase :: sup_phase

definition exitedCap :: nat where "exitedCap = 16"

definition idle_sup :: sup where
  "idle_sup = \<lparr>running = [], gen = 0, ifIndexOf = [], workers = [], senders = [], exited = [], rules = [], phase = Serving\<rparr>"

section \<open>Interface indices\<close>

text \<open>The first index from \<open>i\<close> on that is not in use.\<close>

function lowest_free :: "nat list \<Rightarrow> nat \<Rightarrow> nat" where
  "lowest_free used i = (if i \<in> set used then lowest_free used (i + 1) else i)"
  by pat_completeness auto

termination
proof (relation "measure (\<lambda>(used, i). Suc (Max (set used)) - i)")
  fix used :: "nat list" and i
  assume "i \<in> set used"
  then have "i \<le> Max (set used)" by simp
  then show "((used, i + 1), used, i) \<in> measure (\<lambda>(used, i). Suc (Max (set used)) - i)" by simp
qed simp

declare lowest_free.simps [simp del]

definition allocIf :: "bytes \<Rightarrow> sup \<Rightarrow> nat \<times> sup" where
  "allocIf key s =
     (case mget (ifIndexOf s) key of
        Some idx \<Rightarrow> (idx, s)
      | None \<Rightarrow>
          let idx = lowest_free (map snd (ifIndexOf s)) 0
          in (idx, s\<lparr>ifIndexOf := mput key idx (ifIndexOf s)\<rparr>))"

definition wgIfName :: "nat \<Rightarrow> bytes" where
  "wgIfName idx = ''bnet'' @ itoa idx"

section \<open>Operations\<close>

definition start :: "peerSpec \<Rightarrow> sup \<Rightarrow> sup" where
  "start spec s =
     (let key = spec_key spec in
      if key \<in> mkeys (running s) then s
      else let s = s\<lparr>gen := gen s + 1\<rparr>; (idx, s) = allocIf key s
           in s\<lparr>running := mput key \<lparr>h_gen = gen s, h_spec = spec, h_scope = ps_expose spec\<rparr> (running s),
                workers := workers s @ [\<lparr>w_key = key, w_gen = gen s, w_if = idx, w_cancelled = False\<rparr>]\<rparr>)"

definition cancel_gens :: "nat set \<Rightarrow> worker list \<Rightarrow> worker list" where
  "cancel_gens gs ws = map (\<lambda>w. if w_gen w \<in> gs then w\<lparr>w_cancelled := True\<rparr> else w) ws"

definition receive_exit :: "bytes \<times> nat \<Rightarrow> sup \<Rightarrow> sup" where
  "receive_exit e s =
     (case mget (running s) (fst e) of
        None \<Rightarrow> s
      | Some h \<Rightarrow>
          if h_gen h = snd e
          then s\<lparr>workers := cancel_gens {h_gen h} (workers s), running := mdel (fst e) (running s),
                 ifIndexOf := mdel (fst e) (ifIndexOf s)\<rparr>
          else s)"

definition stop_unwanted :: "bytes set \<Rightarrow> sup \<Rightarrow> sup" where
  "stop_unwanted want s =
     s\<lparr>workers := cancel_gens (h_gen ` snd ` set (filter (\<lambda>kh. fst kh \<notin> want) (running s))) (workers s),
       running := filter (\<lambda>kh. fst kh \<in> want) (running s)\<rparr>"

text \<open>A running buddy gets its new scope: in its cell, in the packet filter if that succeeds, and
  in the handle in any case.\<close>

definition rescope :: "(nat \<Rightarrow> bool) \<Rightarrow> peerSpec \<Rightarrow> handle \<Rightarrow> sup \<Rightarrow> sup" where
  "rescope nft_ok spec h s =
     (let key = spec_key spec; idx = (case mget (ifIndexOf s) key of Some i \<Rightarrow> i | None \<Rightarrow> 0);
          s = (if nft_ok idx then s\<lparr>rules := mput idx (ps_expose spec) (rules s)\<rparr> else s)
      in s\<lparr>running := mput key (h\<lparr>h_scope := ps_expose spec, h_spec := (h_spec h)\<lparr>ps_expose := ps_expose spec\<rparr>\<rparr>) (running s)\<rparr>)"

definition reload_one :: "(nat \<Rightarrow> bool) \<Rightarrow> peerSpec \<Rightarrow> sup \<Rightarrow> sup" where
  "reload_one nft_ok spec s =
     (case mget (running s) (spec_key spec) of
        Some h \<Rightarrow> if sameScope (ps_expose (h_spec h)) (ps_expose spec) then s else rescope nft_ok spec h s
      | None \<Rightarrow> start spec s)"

definition reload_peers :: "(nat \<Rightarrow> bool) \<Rightarrow> peerSpec list \<Rightarrow> sup \<Rightarrow> sup" where
  "reload_peers nft_ok want s = fold (reload_one nft_ok) want (stop_unwanted (spec_key ` set want) s)"

definition supervise :: "peerSpec list \<Rightarrow> sup option" where
  "supervise specs = (if length specs > MaxBuddies then None else Some (fold start specs idle_sup))"

section \<open>Steps\<close>

inductive sup_step :: "sup \<Rightarrow> sup \<Rightarrow> bool" where
  loop_returns: "w \<in> set (workers s) \<Longrightarrow>
     sup_step s (s\<lparr>workers := remove1 w (workers s), senders := senders s @ [(w_key w, w_gen w)]\<rparr>)"
| send: "e \<in> set (senders s) \<Longrightarrow> length (exited s) < exitedCap \<Longrightarrow>
     sup_step s (s\<lparr>senders := remove1 e (senders s), exited := exited s @ [e]\<rparr>)"
| receive: "phase s = Serving \<Longrightarrow> exited s = e # es \<Longrightarrow> sup_step s (receive_exit e (s\<lparr>exited := es\<rparr>))"
| hangup: "phase s = Serving \<Longrightarrow> assemblePeers Y C (cfg :: buddy_cfg) f = Inr desired \<Longrightarrow> mset want = mset desired \<Longrightarrow>
     sup_step s (reload_peers nft_ok want s)"
| hangup_failed: "phase s = Serving \<Longrightarrow> assemblePeers Y C (cfg :: buddy_cfg) f = Inl e \<Longrightarrow> sup_step s s"
| stop: "phase s = Serving \<Longrightarrow> sup_step s (s\<lparr>phase := Draining\<rparr>)"
| finish: "phase s = Draining \<Longrightarrow> workers s = [] \<Longrightarrow> senders s = [] \<Longrightarrow> sup_step s (s\<lparr>phase := Returned\<rparr>)"

inductive_cases sup_stepE: "sup_step s t"

section \<open>Shutting down\<close>

text \<open>Goroutines and announcements that nobody has received.\<close>

definition backlog :: "sup \<Rightarrow> nat" where
  "backlog s = length (workers s) + length (senders s) + length (exited s)"

definition work_left :: "sup \<Rightarrow> nat" where
  "work_left s = 2 * length (workers s) + length (senders s) + (if phase s = Returned then 0 else 1)"

lemma draining_step:
  assumes "sup_step s t" and "phase s = Draining"
  shows "backlog t = backlog s \<and> phase t \<noteq> Serving \<and> work_left t < work_left s \<and>
    (phase t = Returned \<longrightarrow> workers t = [] \<and> senders t = []) \<and> length (exited t) \<le> max exitedCap (length (exited s))"
  using assms(1)
proof (cases rule: sup_step.cases)
  case (loop_returns w)
  then have "length (workers s) = Suc (length (remove1 w (workers s)))" by (simp add: length_remove1) (metis length_pos_if_in_set Suc_pred)
  then show ?thesis using loop_returns assms(2) by (simp add: backlog_def work_left_def)
next
  case (send e)
  then have "length (senders s) = Suc (length (remove1 e (senders s)))" by (simp add: length_remove1) (metis length_pos_if_in_set Suc_pred)
  then show ?thesis using send assms(2) by (simp add: backlog_def work_left_def)
qed (use assms(2) in \<open>simp_all add: backlog_def work_left_def\<close>)

lemma returned_final: "phase s = Returned \<Longrightarrow> workers s = [] \<Longrightarrow> senders s = [] \<Longrightarrow> \<not> sup_step s t"
  by (auto elim!: sup_stepE)

text \<open>Once it waits, either a step is possible or it has returned or the channel is full.\<close>

lemma draining_progress:
  assumes "phase s = Draining" and "backlog s \<le> exitedCap"
  shows "\<exists>t. sup_step s t"
proof (cases "workers s")
  case (Cons w ws)
  then show ?thesis using loop_returns [of w s] by auto
next
  case Nil
  show ?thesis
  proof (cases "senders s")
    case (Cons e es)
    then have "length (exited s) < exitedCap" using assms(2) by (simp add: backlog_def)
    then show ?thesis using send [of e s] Cons by auto
  qed (use finish [OF assms(1) Nil] in blast)
qed

definition shut :: "sup \<Rightarrow> sup \<Rightarrow> bool" where
  "shut s t \<longleftrightarrow> backlog t = backlog s \<and> phase t \<noteq> Serving \<and> (phase t = Returned \<longrightarrow> workers t = [] \<and> senders t = []) \<and>
     length (exited t) \<le> max exitedCap (length (exited s))"

lemma draining_run:
  assumes "phase s = Draining" and "(sup_step ^^ n) s t"
  shows "shut s t \<and> n + work_left t \<le> work_left s"
  using assms(2)
proof (induction n arbitrary: t)
  case (Suc n)
  then obtain u where u: "(sup_step ^^ n) s u" "sup_step u t" by auto
  then have IH: "shut s u" "n + work_left u \<le> work_left s" using Suc.IH by auto
  then have d: "phase u = Draining" using u(2) returned_final by (cases "phase u") (auto simp: shut_def)
  from draining_step [OF u(2) d] IH show ?case by (auto simp: shut_def)
qed (use assms(1) in \<open>simp add: shut_def\<close>)

text \<open>C22: when the supervisor is told to stop it returns, if at most 16 workers and
  announcements are outstanding: every run ends within a bounded number of steps, and ends only
  by returning. With more it never returns: the workers beyond the capacity of the channel
  wait for a reader that has stopped reading, and the supervisor waits for them.\<close>

theorem shutdown_returns_iff:
  assumes "phase s = Draining" and "length (exited s) \<le> exitedCap"
  shows "if backlog s \<le> exitedCap
    then (\<forall>n t. (sup_step ^^ n) s t \<longrightarrow> n \<le> work_left s \<and> ((\<nexists>u. sup_step t u) \<longrightarrow> phase t = Returned))
    else (\<forall>t. sup_step\<^sup>*\<^sup>* s t \<longrightarrow> phase t \<noteq> Returned)"
proof (cases "backlog s \<le> exitedCap")
  case True
  have "phase t = Returned" if "(sup_step ^^ n) s t" "\<nexists>u. sup_step t u" for n t
    using draining_run [OF assms(1) that(1)] that(2) draining_progress [of t] True by (cases "phase t") (auto simp: shut_def)
  moreover have "n \<le> work_left s" if "(sup_step ^^ n) s t" for n t using draining_run [OF assms(1) that] by simp
  ultimately show ?thesis using True by simp
next
  case False
  have "phase t \<noteq> Returned" if run: "sup_step\<^sup>*\<^sup>* s t" for t
  proof
    assume r: "phase t = Returned"
    obtain n where "(sup_step ^^ n) s t" using run by (auto simp: rtranclp_power)
    then have "shut s t" using draining_run [OF assms(1)] by blast
    then have "length (exited t) = backlog s" "length (exited t) \<le> exitedCap" using r assms(2) by (auto simp: shut_def backlog_def)
    then show False using False by simp
  qed
  then show ?thesis using False by simp
qed

section \<open>One interface per buddy\<close>

lemma lowest_free_unused: "lowest_free used i \<notin> set used"
  by (induction used i rule: lowest_free.induct) (subst lowest_free.simps, simp)

text \<open>The worker that its buddy's handle stands for.\<close>

definition current :: "sup \<Rightarrow> worker \<Rightarrow> bool" where
  "current s w = (case mget (running s) (w_key w) of None \<Rightarrow> False | Some h \<Rightarrow> h_gen h = w_gen w)"

definition sup_inv :: "sup \<Rightarrow> bool" where
  "sup_inv s \<longleftrightarrow>
     gomap (running s) \<and> gomap (ifIndexOf s) \<and> mkeys (running s) \<subseteq> mkeys (ifIndexOf s) \<and> distinct (map snd (ifIndexOf s)) \<and>
     (\<forall>w \<in> set (workers s). w_gen w \<le> gen s \<and> (current s w \<longrightarrow> mget (ifIndexOf s) (w_key w) = Some (w_if w)))"

lemma mput_new: "k \<notin> mkeys m \<Longrightarrow> mput k v m = m @ [(k, v)]"
  by (induction m) auto

lemma handle_of_key: "mget m k = Some v \<Longrightarrow> k \<in> mkeys m"
  by (metis mget_None_iff option.distinct(1))

lemma allocIf_cases:
  assumes "allocIf key s = (idx, t)"
  obtains (old) "mget (ifIndexOf s) key = Some idx" "t = s"
  | (new) "key \<notin> mkeys (ifIndexOf s)" "idx \<notin> snd ` set (ifIndexOf s)" "t = s\<lparr>ifIndexOf := ifIndexOf s @ [(key, idx)]\<rparr>"
proof (cases "mget (ifIndexOf s) key")
  case None
  then have k: "key \<notin> mkeys (ifIndexOf s)" by (simp add: mget_None_iff)
  have "idx = lowest_free (map snd (ifIndexOf s)) 0" "t = s\<lparr>ifIndexOf := mput key idx (ifIndexOf s)\<rparr>"
    using assms None by (auto simp: allocIf_def Let_def)
  then show thesis using new k lowest_free_unused [of "map snd (ifIndexOf s)" 0] mput_new [OF k] by simp
next
  case (Some i)
  then show thesis using assms by (intro old) (simp_all add: allocIf_def)
qed

lemma start_cases:
  obtains (same) "start spec s = s" "spec_key spec \<in> mkeys (running s)"
  | (fresh) idx ifs where "spec_key spec \<notin> mkeys (running s)"
    "start spec s = s\<lparr>gen := gen s + 1, ifIndexOf := ifs,
       running := mput (spec_key spec) \<lparr>h_gen = gen s + 1, h_spec = spec, h_scope = ps_expose spec\<rparr> (running s),
       workers := workers s @ [\<lparr>w_key = spec_key spec, w_gen = gen s + 1, w_if = idx, w_cancelled = False\<rparr>]\<rparr>"
    "mget (ifIndexOf s) (spec_key spec) = Some idx \<and> ifs = ifIndexOf s \<or>
     spec_key spec \<notin> mkeys (ifIndexOf s) \<and> idx \<notin> snd ` set (ifIndexOf s) \<and> ifs = ifIndexOf s @ [(spec_key spec, idx)]"
proof (cases "spec_key spec \<in> mkeys (running s)")
  case False
  obtain idx t where a: "allocIf (spec_key spec) (s\<lparr>gen := gen s + 1\<rparr>) = (idx, t)" by fastforce
  from a show thesis
  proof (cases rule: allocIf_cases)
    case old
    then show thesis using False a by (intro fresh [of idx "ifIndexOf s"]) (simp_all add: start_def Let_def)
  next
    case new
    then show thesis using False a by (intro fresh [of idx "ifIndexOf s @ [(spec_key spec, idx)]"]) (simp_all add: start_def Let_def)
  qed
next
  case True
  then show thesis by (intro same) (simp_all add: start_def)
qed

lemma mget_append_new: "k' \<notin> mkeys m \<Longrightarrow> mget (m @ [(k', v)]) k = (if k = k' then Some v else mget m k)"
  by (induction m) auto

lemma start_inv: "sup_inv s \<Longrightarrow> sup_inv (start spec s)"
proof (cases rule: start_cases [of spec s])
  case (fresh idx ifs)
  assume i: "sup_inv s"
  let ?k = "spec_key spec"
  have m: "mget ifs k = (if k = ?k then Some idx else mget (ifIndexOf s) k)" for k
    using fresh(3) mget_append_new [of ?k "ifIndexOf s" idx k] by (cases "k = ?k") (auto simp del: map_of_append)
  have "mkeys ifs = insert ?k (mkeys (ifIndexOf s))"
    using fresh(3) handle_of_key [of "ifIndexOf s" ?k idx] by (elim disjE) (simp_all add: insert_absorb)
  then have "insert ?k (mkeys (running s)) \<subseteq> mkeys ifs" using i unfolding sup_inv_def by blast
  moreover have "gomap ifs" "distinct (map snd ifs)" using fresh(3) i by (auto simp: sup_inv_def)
  moreover have "w_gen w \<le> gen s + 1 \<and> (current (start spec s) w \<longrightarrow> mget ifs (w_key w) = Some (w_if w))" if "w \<in> set (workers s)" for w
  proof -
    have w: "w_gen w \<le> gen s" "current s w \<Longrightarrow> mget (ifIndexOf s) (w_key w) = Some (w_if w)" using i that by (auto simp: sup_inv_def)
    then have "current (start spec s) w \<Longrightarrow> w_key w \<noteq> ?k \<and> current s w"
      unfolding fresh(2) by (auto simp: current_def gomap_simps split: if_splits)
    then show ?thesis using w m by auto
  qed
  ultimately show ?thesis
    using i m unfolding fresh(2) by (simp add: sup_inv_def gomap_simps)
qed simp

lemma cancel_gens_in: "w \<in> set (cancel_gens gs ws) \<Longrightarrow> \<exists>v \<in> set ws. w_key w = w_key v \<and> w_gen w = w_gen v \<and> w_if w = w_if v"
  by (auto simp: cancel_gens_def)

lemma distinct_snd_filter: "distinct (map snd m) \<Longrightarrow> distinct (map snd (mdel k m))"
  by (induction m) (auto simp: AList.delete_eq)

text \<open>Fewer workers and fewer handles keep the invariant.\<close>

lemma sup_inv_shrink:
  assumes "sup_inv s" and "gen t = gen s" and "ifIndexOf t = ifIndexOf s" and "gomap (running t)"
    and "\<And>k h. mget (running t) k = Some h \<Longrightarrow> \<exists>h'. mget (running s) k = Some h' \<and> h_gen h' = h_gen h"
    and "\<And>w. w \<in> set (workers t) \<Longrightarrow> \<exists>v \<in> set (workers s). w_key w = w_key v \<and> w_gen w = w_gen v \<and> w_if w = w_if v"
  shows "sup_inv t"
proof -
  have "mkeys (running t) \<subseteq> mkeys (running s)"
    using assms(5) by (metis mget_None_iff not_None_eq subsetI)
  then have "mkeys (running t) \<subseteq> mkeys (ifIndexOf s)" using assms(1) unfolding sup_inv_def by (blast intro: subset_trans)
  moreover have "w_gen w \<le> gen s \<and> (current t w \<longrightarrow> mget (ifIndexOf s) (w_key w) = Some (w_if w))" if "w \<in> set (workers t)" for w
  proof -
    obtain v where v: "v \<in> set (workers s)" "w_key w = w_key v" "w_gen w = w_gen v" "w_if w = w_if v" using assms(6) \<open>w \<in> set (workers t)\<close> by blast
    then have "current t w \<Longrightarrow> current s v" using assms(5) [of "w_key v"] by (auto simp: current_def split: option.splits)
    then show ?thesis using assms(1) v by (auto simp: sup_inv_def)
  qed
  ultimately show ?thesis using assms(1-4) by (simp add: sup_inv_def)
qed

lemma receive_exit_inv:
  assumes "sup_inv s"
  shows "sup_inv (receive_exit e s)"
proof (cases "mget (running s) (fst e)")
  case (Some h)
  show ?thesis
  proof (cases "h_gen h = snd e")
    case True
    have "mkeys (running s) - {fst e} \<subseteq> mkeys (ifIndexOf s) - {fst e}" using assms by (auto simp: sup_inv_def)
    moreover have "w_gen w \<le> gen s \<and> (current (receive_exit e s) w \<longrightarrow> mget (mdel (fst e) (ifIndexOf s)) (w_key w) = Some (w_if w))"
      if w: "w \<in> set (cancel_gens {h_gen h} (workers s))" for w
    proof -
      obtain v where v: "v \<in> set (workers s)" "w_key w = w_key v" "w_gen w = w_gen v" "w_if w = w_if v" using cancel_gens_in [OF w] by blast
      then have "current (receive_exit e s) w \<Longrightarrow> current s v \<and> w_key w \<noteq> fst e"
        using Some True by (auto simp: receive_exit_def current_def gomap_simps split: if_splits option.splits)
      then show ?thesis using assms v by (auto simp: sup_inv_def gomap_simps)
    qed
    ultimately show ?thesis
      using assms Some True by (simp add: receive_exit_def sup_inv_def gomap_simps distinct_snd_filter)
  qed (use assms Some in \<open>simp add: receive_exit_def\<close>)
qed (use assms in \<open>simp add: receive_exit_def\<close>)

lemma stop_unwanted_inv: "sup_inv s \<Longrightarrow> sup_inv (stop_unwanted want s)"
proof (rule sup_inv_shrink [of s])
  assume i: "sup_inv s"
  show "gomap (running (stop_unwanted want s))" using i by (simp add: sup_inv_def stop_unwanted_def gomap_filter)
  show "\<exists>h'. mget (running s) k = Some h' \<and> h_gen h' = h_gen h" if "mget (running (stop_unwanted want s)) k = Some h" for k h
  proof -
    have "(k, h) \<in> set (running s)" using mget_in_set [OF that] by (simp add: stop_unwanted_def)
    then show ?thesis using i set_mget by (fastforce simp: sup_inv_def)
  qed
qed (auto simp: stop_unwanted_def dest: cancel_gens_in)

lemma rescope_inv:
  assumes "sup_inv s" and "mget (running s) (spec_key spec) = Some h"
  shows "sup_inv (rescope nft_ok spec h s)"
proof (rule sup_inv_shrink [OF assms(1)])
  show "gomap (running (rescope nft_ok spec h s))" using assms(1) by (simp add: sup_inv_def rescope_def Let_def gomap_simps)
  show "\<exists>h'. mget (running s) k = Some h' \<and> h_gen h' = h_gen h''" if "mget (running (rescope nft_ok spec h s)) k = Some h''" for k h''
    using that assms(2) by (auto simp: rescope_def Let_def gomap_simps split: if_splits)
qed (auto simp: rescope_def Let_def split: if_splits)

lemma reload_inv: "sup_inv s \<Longrightarrow> sup_inv (reload_peers nft_ok want s)"
proof -
  have "sup_inv (reload_one nft_ok spec s)" if "sup_inv s" for spec s
    using that start_inv rescope_inv by (auto simp: reload_one_def split: option.split)
  then have "sup_inv s \<Longrightarrow> sup_inv (fold (reload_one nft_ok) want s)" for s by (induction want arbitrary: s) simp_all
  then show "sup_inv s \<Longrightarrow> sup_inv (reload_peers nft_ok want s)" using stop_unwanted_inv by (simp add: reload_peers_def)
qed

lemma sup_step_inv: "sup_step s t \<Longrightarrow> sup_inv s \<Longrightarrow> sup_inv t"
proof (induction rule: sup_step.induct)
  case (loop_returns w s)
  then show ?case by (auto simp: sup_inv_def current_def dest!: set_remove1_subset [THEN subsetD])
next
  case (receive s e es)
  then have "sup_inv (s\<lparr>exited := es\<rparr>)" by (simp add: sup_inv_def current_def)
  then show ?case by (rule receive_exit_inv)
qed (simp_all add: reload_inv, simp_all add: sup_inv_def current_def)

lemma supervise_inv: "supervise specs = Some s0 \<Longrightarrow> sup_step\<^sup>*\<^sup>* s0 s \<Longrightarrow> sup_inv s"
proof -
  assume a: "supervise specs = Some s0" "sup_step\<^sup>*\<^sup>* s0 s"
  have "sup_inv (fold start specs s)" if "sup_inv s" for s using that start_inv by (induction specs arbitrary: s) simp_all
  moreover have "sup_inv idle_sup" by (simp add: sup_inv_def idle_sup_def)
  ultimately have "sup_inv s0" using a(1) by (auto simp: supervise_def split: if_splits)
  with a(2) show ?thesis by (induction rule: rtranclp_induct) (auto intro: sup_step_inv)
qed










section \<open>Reloads while a worker is still stopping\<close>

definition has_worker :: "bytes \<Rightarrow> nat \<Rightarrow> nat \<Rightarrow> sup \<Rightarrow> bool" where
  "has_worker k g i s \<longleftrightarrow> (\<exists>w \<in> set (workers s). w_key w = k \<and> w_gen w = g \<and> w_if w = i)"

text \<open>A stopped buddy: its worker is there, its index taken, its handle gone.\<close>

definition stopping :: "bytes \<Rightarrow> nat \<Rightarrow> nat \<Rightarrow> sup \<Rightarrow> bool" where
  "stopping k g i s \<longleftrightarrow> has_worker k g i s \<and> mget (ifIndexOf s) k = Some i \<and> k \<notin> mkeys (running s) \<and> g \<le> gen s"

lemma start_stopping: "stopping k g i s \<Longrightarrow> spec_key spec \<noteq> k \<Longrightarrow> stopping k g i (start spec s)"
proof (cases rule: start_cases [of spec s])
  case (fresh idx ifs)
  assume a: "stopping k g i s" "spec_key spec \<noteq> k"
  then have "mget ifs k = Some i" using fresh(3) by (auto simp: stopping_def)
  then show ?thesis using a unfolding fresh(2) by (auto simp: stopping_def has_worker_def gomap_simps)
qed simp

lemma start_again:
  assumes "stopping k g i s" and "spec_key spec = k"
  shows "has_worker k g i (start spec s) \<and> has_worker k (gen s + 1) i (start spec s)"
proof (cases rule: start_cases [of spec s])
  case (fresh idx ifs)
  then have "idx = i" using assms handle_of_key [of "ifIndexOf s" k i] by (auto simp: stopping_def)
  then show ?thesis using assms unfolding fresh(2) by (auto simp: stopping_def has_worker_def)
qed (use assms in \<open>simp add: stopping_def\<close>)

lemma reload_one_stopping: "stopping k g i s \<Longrightarrow> spec_key spec \<noteq> k \<Longrightarrow> stopping k g i (reload_one nft_ok spec s)"
proof (cases "mget (running s) (spec_key spec)")
  case (Some h)
  assume "stopping k g i s" "spec_key spec \<noteq> k"
  then show ?thesis using Some by (simp add: reload_one_def rescope_def stopping_def has_worker_def Let_def gomap_simps)
qed (simp add: reload_one_def start_stopping)

lemma reload_fold_stopping: "stopping k g i s \<Longrightarrow> k \<notin> spec_key ` set want \<Longrightarrow> stopping k g i (fold (reload_one nft_ok) want s)"
  using reload_one_stopping by (induction want arbitrary: s) auto

lemma cancel_gens_worker: "has_worker k g i s \<Longrightarrow> has_worker k g i (s\<lparr>workers := cancel_gens gs (workers s), running := r\<rparr>)"
proof -
  assume "has_worker k g i s"
  then obtain w where w: "w \<in> set (workers s)" "w_key w = k" "w_gen w = g" "w_if w = i" by (auto simp: has_worker_def)
  let ?w = "if w_gen w \<in> gs then w\<lparr>w_cancelled := True\<rparr> else w"
  have "?w \<in> set (cancel_gens gs (workers s))" using w(1) unfolding cancel_gens_def by (simp only: set_map image_eqI)
  then show ?thesis unfolding has_worker_def using w(2-4) by (intro bexI [of _ ?w]) simp_all
qed

lemma stop_unwanted_stopping:
  assumes "has_worker k g i s" and "mget (ifIndexOf s) k = Some i" and "g \<le> gen s" and "k \<notin> want \<or> k \<notin> mkeys (running s)"
  shows "stopping k g i (stop_unwanted want s)"
  using assms cancel_gens_worker [OF assms(1)] by (auto simp: stopping_def stop_unwanted_def)

text \<open>A buddy that a reload stops keeps its interface index for ever, since the later exit of
  its worker finds no handle; and when the next reload wants the buddy back before the worker
  is gone, a second worker is started on the same interface.\<close>

theorem reload_interface_shared:
  assumes "supervise specs = Some s0" and "sup_step\<^sup>*\<^sup>* s0 s" and "w \<in> set (workers s)" and "current s w"
    and "w_key w \<notin> spec_key ` set want" and "spec_key spec = w_key w"
  shows "let s1 = reload_peers nft_ok want s; s2 = reload_peers nft_ok (want @ [spec]) s1 in
    mget (ifIndexOf (receive_exit (w_key w, w_gen w) s1)) (w_key w) = Some (w_if w) \<and>
    (\<exists>g > w_gen w. has_worker (w_key w) (w_gen w) (w_if w) s2 \<and> has_worker (w_key w) g (w_if w) s2)"
proof -
  let ?k = "w_key w" and ?g = "w_gen w" and ?i = "w_if w"
  let ?s1 = "reload_peers nft_ok want s"
  have i: "sup_inv s" using supervise_inv [OF assms(1,2)] .
  have w: "has_worker ?k ?g ?i s" "mget (ifIndexOf s) ?k = Some ?i" "?g \<le> gen s"
    using i assms(3,4) by (auto simp: sup_inv_def has_worker_def)
  have s1: "stopping ?k ?g ?i ?s1"
    unfolding reload_peers_def using stop_unwanted_stopping [OF w] assms(5) by (intro reload_fold_stopping) auto
  let ?t = "fold (reload_one nft_ok) want (stop_unwanted (spec_key ` set (want @ [spec])) ?s1)"
  have t: "stopping ?k ?g ?i ?t"
    using stop_unwanted_stopping [of ?k ?g ?i ?s1] s1 assms(5) by (intro reload_fold_stopping) (auto simp: stopping_def)
  then have "reload_peers nft_ok (want @ [spec]) ?s1 = start spec ?t"
    using assms(6) by (simp add: reload_peers_def reload_one_def stopping_def mget_None_iff [symmetric])
  then have "has_worker ?k ?g ?i (reload_peers nft_ok (want @ [spec]) ?s1) \<and> has_worker ?k (gen ?t + 1) ?i (reload_peers nft_ok (want @ [spec]) ?s1)"
    using start_again [OF t assms(6)] by simp
  moreover have "?g < gen ?t + 1" using t by (simp add: stopping_def)
  moreover have "mget (ifIndexOf (receive_exit (?k, ?g) ?s1)) ?k = Some ?i"
    using s1 by (simp add: receive_exit_def stopping_def mget_None_iff [symmetric])
  ultimately show ?thesis unfolding Let_def by blast
qed

text \<open>A tightened exposure that the packet filter refuses is not tried again: after a reload
  whose reprogramming failed, the rules of the interface are the old ones, and every later
  reload with the same manifest entry leaves them so, whether or not the filter works again.\<close>

theorem rescope_not_retried:
  assumes "mget (running s) (spec_key spec) = Some h" and "\<not> sameScope (ps_expose (h_spec h)) (ps_expose spec)"
  shows "let t = reload_one (\<lambda>_. False) spec s in rules t = rules s \<and> reload_one nft_ok spec t = t"
proof -
  have "sameScope e e" for e by (cases e) (simp_all add: sameScope_def)
  then show ?thesis using assms by (simp add: reload_one_def rescope_def Let_def mget_mput)
qed

end
