(* ===== verification/AtomicProps.thy ===== *)
theory AtomicProps
  imports AtomicFile TrustStore
begin

text \<open>
  Replacing a file is atomic, for readers and under power cuts, and the coarse writes of the
  trust state are what the sequence of system calls amounts to.
\<close>

lemma inv_visible:
  assumes "disk_ok d" and "write_inv path data d d'"
  shows "visible path d' = visible path d \<or> visible path d' = Some data"
proof -
  have "cont d' i = cont d i" if "mget (dir d) path = Some i" for i using assms that by (auto simp: disk_ok_def write_inv_def)
  then show ?thesis using assms(2) by (cases "mget (dir d) path") (auto simp: write_inv_def visible_def)
qed

lemma inv_crash:
  assumes "disk_ok d" and "durable path d" and "write_inv path data d d'" and "crash d' c"
  shows "visible path c = visible path d \<or> visible path c = Some data"
proof -
  have old: "cont c i = cont d i" if "mget (dir d) path = Some i" for i
    using assms that by (auto simp: disk_ok_def durable_def write_inv_def crash_def)
  have new: "cont c (inodes d) = data" if "mget (dir d') path = Some (inodes d)"
  proof -
    have "mget (dir d) path \<noteq> Some (inodes d)" using assms(1) by (auto simp: disk_ok_def)
    then show ?thesis using assms(3,4) that by (auto simp: write_inv_def crash_def)
  qed
  consider "mget (dir c) path = mget (dir d) path"
    | "mget (dir c) path = Some (inodes d)" "mget (dir d') path = Some (inodes d)"
    using assms(2-4) unfolding crash_def write_inv_def durable_def by (metis insertE singletonD)
  then show ?thesis
  proof cases
    case 1
    then show ?thesis using old by (cases "mget (dir d) path") (simp_all add: visible_def)
  qed (use new in \<open>simp add: visible_def\<close>)
qed

lemma write_inv_refl: "write_inv path data d d"
  by (simp add: write_inv_def)

lemma Write_result:
  assumes "disk_ok d" and "Write w pid seq path data d = (ds, e)"
  shows "e = None \<Longrightarrow> visible path (after_write d ds) = Some data"
    and "e \<noteq> None \<Longrightarrow> visible path (after_write d ds) = visible path d"
    and "e = None \<Longrightarrow> dsync_ok w \<Longrightarrow> crash (after_write d ds) c \<Longrightarrow> visible path c = Some data"
proof -
  have keep: "i \<noteq> inodes d" if "mget (dir d) path = Some i" for i using assms(1) that by (auto simp: disk_ok_def)
  show "e = None \<Longrightarrow> visible path (after_write d ds) = Some data"
    using assms(2) by (auto simp: Write_def after_write_def visible_def sys_defs mget_mput mget_mdel Let_def split: if_splits option.splits)
  show "e \<noteq> None \<Longrightarrow> visible path (after_write d ds) = visible path d"
    using assms(2) keep by (cases "mget (dir d) path") (auto simp: Write_def after_write_def visible_def sys_defs mget_mput mget_mdel Let_def split: if_splits option.splits)
  show "e = None \<Longrightarrow> dsync_ok w \<Longrightarrow> crash (after_write d ds) c \<Longrightarrow> visible path c = Some data"
    using assms(2) by (auto simp: Write_def after_write_def visible_def crash_def sys_defs mget_mput mget_mdel Let_def split: if_splits option.splits)
qed

text \<open>C13: replacing a file is atomic. In every state the replacement passes through, and after a
  power cut in any of them, the file holds exactly the old contents or exactly the new ones,
  never a part. When the call reports an error the file still holds the old contents; when it
  reports success it holds the new ones, and once the directory is synced no power cut undoes
  that.\<close>

theorem write_atomic:
  assumes "disk_ok d" and "durable path d" and "Write w pid seq path data d = (ds, e)"
  shows "(\<forall>d' \<in> insert d (set ds). visible path d' \<in> {visible path d, Some data} \<and>
      (\<forall>c. crash d' c \<longrightarrow> visible path c \<in> {visible path d, Some data})) \<and>
    visible path (after_write d ds) = (if e = None then Some data else visible path d) \<and>
    (e = None \<and> dsync_ok w \<longrightarrow> (\<forall>c. crash (after_write d ds) c \<longrightarrow> visible path c = Some data))"
proof -
  have "write_inv path data d d'" if "d' \<in> insert d (set ds)" for d'
    using that Write_states [of d' w pid seq path data d] assms(3) write_inv_refl by auto
  then have "visible path d' = visible path d \<or> visible path d' = Some data"
    "crash d' c \<Longrightarrow> visible path c = visible path d \<or> visible path c = Some data" if "d' \<in> insert d (set ds)" for d' c
    using that inv_visible [OF assms(1)] inv_crash [OF assms(1,2)] by blast+
  then show ?thesis using Write_result [OF assms(1,3)] by (simp add: ball_simps)
qed

text \<open>The outcome of a write as the trust state sees it, when the process may be killed after the
  first \<open>n\<close> calls.\<close>

definition outcome_of :: "write_io \<Rightarrow> nat \<Rightarrow> nat \<Rightarrow> bytes \<Rightarrow> bytes \<Rightarrow> disk \<Rightarrow> nat option \<Rightarrow> write_outcome \<times> disk" where
  "outcome_of w pid seq path data d killed =
     (let (ds, e) = Write w pid seq path data d in
      case killed of
        None \<Rightarrow> (if e = None then Written else NotWritten, after_write d ds)
      | Some n \<Rightarrow> (let d' = after_write d (take n ds) in (if visible path d' = Some data then KilledAfter else KilledBefore, d')))"

text \<open>C34: the file map refines the disk. However the system calls of a replacement end and
  wherever the process is killed, what every file reads as afterwards is what the file map holds
  after a write with the corresponding outcome; the temporary file is the only other name
  that may have appeared.\<close>

theorem write_file_refines:
  assumes "disk_ok d" and "\<And>p. visible p d = mget (files f) p" and "plan f = [fst (outcome_of w pid seq path data d killed)]"
    and "p \<noteq> tmp_name path pid seq"
  shows "visible p (snd (outcome_of w pid seq path data d killed)) = mget (files (snd (write_file path data f))) p"
proof -
  obtain ds e where ws: "Write w pid seq path data d = (ds, e)" by fastforce
  let ?d = "snd (outcome_of w pid seq path data d killed)" and ?o = "fst (outcome_of w pid seq path data d killed)"
  have st: "?d = d \<or> ?d \<in> set ds"
  proof (cases killed)
    case None
    then show ?thesis using ws by (auto simp: outcome_of_def after_write_def)
  next
    case (Some n)
    then have "?d = after_write d (take n ds)" using ws by (simp add: outcome_of_def Let_def)
    then show ?thesis using in_set_takeD [OF last_in_set, of n ds] by (auto simp: after_write_def)
  qed
  have "files (snd (write_file path data f)) = (if ?o \<in> {Written, KilledAfter} then mput path data (files f) else files f)"
    using assms(3) by (cases ?o) (simp_all add: write_file_def put_file_def)
  moreover have "visible path ?d = (if ?o \<in> {Written, KilledAfter} then Some data else visible path d)"
  proof (cases killed)
    case None
    then show ?thesis using ws Write_result(1,2) [OF assms(1) ws] by (simp add: outcome_of_def)
  next
    case (Some n)
    have "visible path ?d = visible path d \<or> visible path ?d = Some data"
      using st inv_visible [OF assms(1)] Write_states [of ?d w pid seq path data d] ws by fastforce
    then show ?thesis using Some ws by (auto simp: outcome_of_def Let_def)
  qed
  moreover have "visible p ?d = visible p d" if "p \<noteq> path"
    using st Write_frame [OF assms(1) that assms(4), of ?d w data] ws by auto
  ultimately show ?thesis using assms(2) by (cases "p = path") (simp_all add: mget_mput)
qed

end
