(* ===== verification/AttemptProps.thy ===== *)
theory AttemptProps
  imports Attempts
begin

text \<open>
  The reconnect loop: how long it waits, whom it talks to, and that two sides that lost track
  of each other's session find each other again.
\<close>

section \<open>Waiting\<close>

lemma jitter_bounds:
  assumes "0 < d" and "int64 d"
  shows "d div 2 \<le> jitter r d \<and> jitter r d \<le> d"
proof (cases r)
  case (Some b)
  let ?h = "d div 2" and ?m = "word_of_int (d div 2) + 1 :: 64 word"
  have d: "d < 2 ^ 63" using assms(2) by (simp add: int64_def)
  then have h: "0 \<le> ?h" "?h < 2 ^ 62" using assms(1) by auto
  have "uint ?m = ?h + 1" using h by (simp add: uint_word_ariths word_of_int_inverse uint_word_of_int take_bit_int_eq_self)
  then have "uint (b mod ?m) < ?h + 1" using h uint_mod_distrib [of b ?m] pos_mod_bound [of "?h + 1" "uint b"] by simp
  moreover define v where "v = uint (b mod ?m)"
  ultimately have u: "0 \<le> v" "v \<le> ?h" by simp_all
  then have "wrap64 v = v" "wrap64 (?h + v) = ?h + v" using h by (auto intro!: wrap64_id simp: int64_def)
  then have "jitter r d = ?h + v" using assms(1) Some by (simp add: jitter_def v_def)
  then show ?thesis using u by simp
qed (use assms in \<open>simp add: jitter_def\<close>)

definition backoff_ok :: "int \<Rightarrow> bool" where
  "backoff_ok b \<longleftrightarrow> reconnectBase \<le> b \<and> b \<le> reconnectMax"

lemmas reconnect_defs = reconnectBase_def reconnectMax_def

lemma backoff_ok_next: "backoff_ok b \<Longrightarrow> backoff_ok (min (b * 2) reconnectMax)" "backoff_ok reconnectBase"
  by (auto simp: backoff_ok_def reconnect_defs)

lemma backoff_wait: "backoff_ok b \<Longrightarrow> b div 2 \<le> jitter r b \<and> jitter r b \<le> b"
  by (rule jitter_bounds) (auto simp: backoff_ok_def reconnect_defs int64_def)

text \<open>One round, as far as the waits are concerned.\<close>

lemma peerLoop_Cons:
  assumes "peerLoop cfg lazy nxt ifx (rd # rds) b n = (as, ws, r)"
  obtains (ended) "ws = []"
  | (last) "ws = [jitter (rd_draw rd) (if rd_lasted rd > reconnectMax then reconnectBase else b)]"
  | (more) b' as' ws' n' where "b' = (if rd_lasted rd > reconnectMax then reconnectBase else b)"
    "peerLoop cfg lazy nxt ifx rds (min (b' * 2) reconnectMax) n' = (as', ws', r)" "ws = jitter (rd_draw rd) b' # ws'"
  using assms
  by (auto simp: Let_def split: if_splits sum.splits prod.splits)

lemma waits_bounded:
  "peerLoop cfg lazy nxt ifx rds b n = (as, ws, r) \<Longrightarrow> backoff_ok b \<Longrightarrow>
   \<forall>w \<in> set ws. reconnectBase div 2 \<le> w \<and> w \<le> reconnectMax"
proof (induction rds arbitrary: b n as ws r)
  case (Cons rd rds)
  have ok: "backoff_ok (if rd_lasted rd > reconnectMax then reconnectBase else b)" using Cons.prems(2) backoff_ok_next(2) by simp
  have w: "reconnectBase div 2 \<le> jitter x c \<and> jitter x c \<le> reconnectMax" if "backoff_ok c" for x c
    using backoff_wait [OF that, of x] that zdiv_mono1 [of reconnectBase c 2] by (auto simp: backoff_ok_def)
  from Cons.prems(1) show ?case
  proof (cases rule: peerLoop_Cons)
    case (more b' as' ws' n')
    then have "\<forall>w \<in> set ws'. reconnectBase div 2 \<le> w \<and> w \<le> reconnectMax"
      using Cons.IH [OF more(2)] backoff_ok_next(1) ok by metis
    then show ?thesis using w [OF ok] more(1,3) by simp
  qed (use w [OF ok] in simp_all)
qed simp

lemma backoff_double: "0 \<le> b \<Longrightarrow> min (min (b * 2) reconnectMax * 2 ^ k) reconnectMax = min (b * 2 ^ Suc k) reconnectMax"
proof -
  assume "0 \<le> b"
  have m: "reconnectMax \<le> reconnectMax * 2 ^ k" by (simp add: reconnect_defs)
  show ?thesis
  proof (cases "b * 2 \<le> reconnectMax")
    case False
    then have "reconnectMax \<le> b * 2 * 2 ^ k" by (intro order_trans [OF m mult_right_mono]) simp_all
    then show ?thesis using False m by simp
  qed (simp add: mult.assoc)
qed

lemma schedule:
  "peerLoop cfg lazy nxt ifx rds b n = (as, ws, r) \<Longrightarrow> backoff_ok b \<Longrightarrow> \<forall>rd \<in> set rds. rd_lasted rd \<le> reconnectMax \<Longrightarrow>
   k < length ws \<Longrightarrow> min (b * 2 ^ k) reconnectMax div 2 \<le> ws ! k \<and> ws ! k \<le> min (b * 2 ^ k) reconnectMax"
proof (induction rds arbitrary: b n as ws r k)
  case (Cons rd rds)
  have b: "(if rd_lasted rd > reconnectMax then reconnectBase else b) = b" using Cons.prems(3) by simp
  have z: "min (b * 2 ^ 0) reconnectMax = b" using Cons.prems(2) by (simp add: backoff_ok_def)
  note w = backoff_wait [OF Cons.prems(2), of "rd_draw rd"]
  from Cons.prems(1) show ?case
  proof (cases rule: peerLoop_Cons)
    case last
    then show ?thesis using Cons.prems(4) w z b by simp
  next
    case (more b' as' ws' n')
    show ?thesis
    proof (cases k)
      case 0
      then show ?thesis using more w z b by simp
    next
      case (Suc j)
      have ok: "backoff_ok (min (b * 2) reconnectMax)" using Cons.prems(2) backoff_ok_next(1) by blast
      have "0 \<le> b" using Cons.prems(2) by (simp add: backoff_ok_def reconnect_defs)
      then show ?thesis
        using Cons.IH [OF more(2) [unfolded more(1) b] ok, of j] Cons.prems(3,4) more(3) Suc backoff_double [of b j] by simp
    qed
  qed (use Cons.prems(4) in simp)
qed simp

text \<open>The reconnect loop neither spins nor gives up: every wait is at least half of three
  seconds and at most a minute, and while rounds fail fast the wait after the \<open>k\<close>-th is between
  half of \<open>min (3s * 2^k) 60s\<close> and that bound, in the code's 64-bit arithmetic, whatever random
  number is drawn.\<close>

theorem backoff_schedule:
  assumes "peerLoop cfg lazy nxt ifx rds reconnectBase 0 = (as, ws, r)"
  shows "(\<forall>w \<in> set ws. reconnectBase div 2 \<le> w \<and> w \<le> reconnectMax) \<and>
    ((\<forall>rd \<in> set rds. rd_lasted rd \<le> reconnectMax) \<longrightarrow>
     (\<forall>k < length ws. min (reconnectBase * 2 ^ k) reconnectMax div 2 \<le> ws ! k \<and> ws ! k \<le> min (reconnectBase * 2 ^ k) reconnectMax))"
  using waits_bounded [OF assms backoff_ok_next(2)] schedule [OF assms backoff_ok_next(2)] by blast

section \<open>Whom a worker talks to\<close>

lemma peerLoop_attempts:
  "peerLoop cfg lazy nxt ifx rds b n = (as, ws, r) \<Longrightarrow> a \<in> set as \<Longrightarrow>
   \<exists>n' rd a'. rd \<in> set rds \<and> nxt n' (rd_files rd) = Inr a' \<and> a = a'\<lparr>ifIndex := ifx\<rparr>"
proof (induction rds arbitrary: b n as ws r)
  case (Cons rd rds)
  have "a = a'\<lparr>ifIndex := ifx\<rparr> \<and> nxt n (rd_files rd) = Inr a' \<or> (\<exists>b' n' as' ws' r'. peerLoop cfg lazy nxt ifx rds b' n' = (as', ws', r') \<and> a \<in> set as')"
    if "nxt n (rd_files rd) = Inr a'" for a'
    using Cons.prems that by (auto simp: Let_def split: if_splits prod.splits) blast+
  moreover have "\<exists>a'. nxt n (rd_files rd) = Inr a'"
    using Cons.prems by (cases "nxt n (rd_files rd)") (auto split: if_splits)
  ultimately show ?case using Cons.IH by (metis list.set_intros(1,2))
qed simp

lemma peerSource_attempt:
  assumes "peerSource Y cfg spec expose n f = Inr a"
  shows "at_pin a = Some (ps_pin spec) \<and> at_expose a = expose \<and>
    (loadSessionFor (KnownPeers cfg) (ps_pin spec) f = Inr (Some (rendezvous a)) \<or> rendezvous a = live_token Y cfg spec f \<and> rendezvous a \<noteq> [])"
  using assms by (auto simp: peerSource_def bootstrap_def no_attempt_def Let_def split: option.splits sum.splits if_splits)

text \<open>C16: a worker of the supervisor talks to its buddy only. Every attempt it runs is on its own
  interface and at a rendezvous that is the stored session of that buddy or the token the
  manifest had at that moment, and the check of pins accepts no key but the buddy's.\<close>

theorem worker_pinned:
  assumes "peerLoop cfg lazy (peerSource Y cfg spec expose) ifx rds b n = (as, ws, r)" and "a \<in> set as" and "enforcePins a pub = None"
  shows "pub = ps_pin spec \<and> ifIndex a = ifx \<and>
    (\<exists>rd \<in> set rds. loadSessionFor (KnownPeers cfg) (ps_pin spec) (rd_files rd) = Inr (Some (rendezvous a)) \<or>
       rendezvous a = live_token Y cfg spec (rd_files rd) \<and> rendezvous a \<noteq> [])"
proof -
  obtain n' rd a' where a: "rd \<in> set rds" "peerSource Y cfg spec expose n' (rd_files rd) = Inr a'" "a = a'\<lparr>ifIndex := ifx\<rparr>"
    using peerLoop_attempts [OF assms(1,2)] by blast
  then show ?thesis using peerSource_attempt [OF a(2)] assms(3) by (auto simp: enforcePins_def split: if_splits)
qed

text \<open>C30: a lost session heals. When one side has lost its session and waits at the bootstrap
  token, the other side, whose session is intact, tries that token in one of any two
  consecutive rounds once three rounds have failed, and its session in the other, always
  pinned to the same key.\<close>

theorem desync_heals:
  assumes "revoked_gate (trustBase (KnownPeers cfg) (PeersFile cfg)) (spec_key spec) f = None" and "\<not> Insecure cfg"
    and "loadSessionFor (KnownPeers cfg) (ps_pin spec) f = Inr (Some secret)" and "live_token Y cfg spec f = tok" and "tok \<noteq> []"
    and "loadSessionFor (KnownPeers cfg') (ps_pin spec') f' = Inr None" and "live_token Y' cfg' spec' f' = tok"
    and "revoked_gate (trustBase (KnownPeers cfg') (PeersFile cfg')) (spec_key spec') f' = None" and "sessionFallbackAfter \<le> n"
  shows "\<exists>a b x. peerSource Y cfg spec expose n f = Inr a \<and> peerSource Y cfg spec expose (n + 1) f = Inr b \<and>
    peerSource Y' cfg' spec' expose' m f' = Inr x \<and> rendezvous x = tok \<and>
    {rendezvous a, rendezvous b} = {secret, tok} \<and> at_pin a = Some (ps_pin spec) \<and> at_pin b = Some (ps_pin spec) \<and> at_pin x = Some (ps_pin spec')"
proof -
  have "n mod 2 = 1 \<or> n mod 2 = 0" by auto
  moreover have "(n + 1) mod 2 = 1 \<longleftrightarrow> n mod 2 = 0" by presburger
  ultimately show ?thesis
    using assms by (elim disjE) (auto simp: peerSource_def bootstrap_def no_attempt_def Let_def)
qed

end
