(* ===== verification/TrustScenario.thy ===== *)
theory TrustScenario
  imports ManifestProps Supervisor AtomicProps AttemptProps
begin

text \<open>
  Two buddies and their trust state as a concrete instance: the hypotheses of the properties
  of the trust state, the supervisor and the file replacement hold together.
\<close>

section \<open>The instance\<close>

definition local_crypto :: crypto where
  "local_crypto = \<lparr>ed_sign = (\<lambda>priv msg. priv @ priv), ed_public = (\<lambda>priv. priv),
     ed_verify = (\<lambda>pub msg sig. sig = pub @ pub), sha256 = (\<lambda>x. take 32 (x @ replicate 32 CHR 0x00)),
     hmac_sha256 = (\<lambda>k x. take 32 (x @ k @ replicate 32 CHR 0x00))\<rparr>"

definition pinA :: bytes where "pinA = replicate 32 CHR ''A''"
definition pinB :: bytes where "pinB = replicate 32 CHR ''B''"

definition specA :: peerSpec where "specA = \<lparr>ps_pin = pinA, ps_token = ''meet'', ps_name = ''alice'', ps_expose = None\<rparr>"
definition specB :: peerSpec where "specB = \<lparr>ps_pin = pinB, ps_token = [], ps_name = [], ps_expose = None\<rparr>"

definition trust_demo :: buddy_cfg where
  "trust_demo = \<lparr>KnownPeers = ''k'', PeersFile = ''p'', PeerKey = [], InviteToken = [], Insecure = False, Direct = False,
     Ephemeral = False, InviteTimeout = 0\<rparr>"

definition no_files :: fs where "no_files = \<lparr>files = [], denied = [], plan = []\<rparr>"

text \<open>A YAML library that knows two documents: the empty one and the one with a given list.\<close>

definition demo_yaml :: "raw_buddy list \<Rightarrow> yaml" where
  "demo_yaml rs = \<lparr>yread = (\<lambda>d. if d = manifestHeader @ ''buddies: []'' then YDoc [] else if d = manifestHeader @ ''buddies: -'' then YDoc rs else YError),
     ywrite = (\<lambda>xs. if xs = [] then ''buddies: []'' else ''buddies: -'')\<rparr>"

lemma pin_length [simp]: "length pinA = 32" "length pinB = 32"
  by (simp_all add: pinA_def pinB_def)

lemma pins_differ: "PubKeyB64 pinA \<noteq> PubKeyB64 pinB" "pinA \<noteq> pinB"
proof -
  show "pinA \<noteq> pinB" by (simp add: pinA_def pinB_def)
  then show "PubKeyB64 pinA \<noteq> PubKeyB64 pinB" using b64std.enc_inj [of pinA pinB] by (auto simp: PubKeyB64_def)
qed

lemma separate_demo: "separate trust_demo"
  by (simp add: separate_def trust_demo_def revokedPath_def)

lemma today_ok: "newline \<notin> set ''2026-01-01''"
  by (simp add: newline_def)

lemma missing_demo [simp]: "read_file p no_files = Missing"
  by (simp add: read_file_def no_files_def)

lemma loadRevoked_missing: "read_file (revokedPath base) f = Missing \<Longrightarrow> loadRevoked base f = Inr []"
  by (simp add: loadRevoked_def)

section \<open>Revocation\<close>

lemma demo_removed:
  "\<exists>f1. PeersRemove Y today True ''p'' ''k'' (PubKeyB64 pinA) no_files = (Inr (RevokedBuddy 0 0), f1)"
proof -
  have n: "plan no_files = []" "mget (files no_files) p = None" for p by (simp_all add: no_files_def)
  define T where "T = revoked_header @ concat (map (revoked_entry_line today) [(PubKeyB64 pinA, ''revoked '' @ today)])"
  let ?f = "put_file ''k.revoked'' T no_files"
  have a: "addRevoked today ''k'' (PubKeyB64 pinA) no_files = (Inr True, ?f)"
    by (simp add: addRevoked_def loadRevoked_missing writeRevoked_def write_file_def n revokedPath_def T_def)
  have s: "removeSessionLocked ''k'' (PubKeyB64 pinA) ?f = (Inr 0, ?f)"
    by (simp add: removeSessionLocked_def read_file_put)
  have m: "mget (files ?f) ''p'' = None" by (simp add: put_file_def n mget_mput)
  have "removeManifestEntryLocked Y ''p'' (PubKeyB64 pinA) ?f = (Inr 0, ?f)"
    by (simp add: removeManifestEntryLocked_def manifestNeedsMigration_def loadPeersFile_def readManifest_def m)
  then have "remove_steps Y today ''p'' ''k'' (PubKeyB64 pinA) no_files = (Inr (RevokedBuddy 0 0), ?f)"
    using a s by (simp add: remove_steps_def trustBase_def)
  then show ?thesis by (simp add: PeersRemove_def resolve_pub withTrustStateLock_def trustLockPath_def trustBase_def)
qed

text \<open>Meanwhile the buddy tries to store a session, killed right after the write, and the operator
  removes someone else.\<close>

definition demo_evs :: "(occasion \<times> trust_op) list" where
  "demo_evs =
     [(\<lparr>oc_locked = True, oc_plan = [KilledAfter], oc_today = ''2026-01-02''\<rparr>, StoreSession pinA ''meet'' pinB),
      (\<lparr>oc_locked = True, oc_plan = [Written], oc_today = ''2026-01-02''\<rparr>, RemovePeer (PubKeyB64 pinB))]"

lemma demo_paths: "KnownPeers trust_demo = ''k''" "PeersFile trust_demo = ''p''"
  by (simp_all add: trust_demo_def)

theorem revocation_sticks_witness:
  "\<exists>f1 g e. PeersRemove (demo_yaml []) ''2026-01-01'' True ''p'' ''k'' (PubKeyB64 pinA) no_files = (Inr (RevokedBuddy 0 0), f1) \<and>
     g = fold (trust_step (demo_yaml []) local_crypto trust_demo) demo_evs f1 \<and>
     saveSession local_crypto True ''k'' ''meet'' (PubKeyB64 pinA) ''s'' g = (Inl e, g)"
proof -
  obtain f1 where f1: "PeersRemove (demo_yaml []) ''2026-01-01'' True ''p'' ''k'' (PubKeyB64 pinA) no_files = (Inr (RevokedBuddy 0 0), f1)"
    using demo_removed by blast
  have ev: "\<forall>ev \<in> set demo_evs. spares (PubKeyB64 pinA) ev" by (simp add: demo_evs_def newline_def)
  note sticks = revocation_sticks [where cfg = trust_demo, OF separate_demo today_ok ev, unfolded demo_paths, OF resolve_pub [OF pin_length(1)] f1]
  let ?g = "fold (trust_step (demo_yaml []) local_crypto trust_demo) demo_evs f1"
  have "\<exists>e. saveSession local_crypto True ''k'' ''meet'' (PubKeyB64 pinA) ''s'' ?g = (Inl e, ?g)"
    using sticks [of local_crypto] unfolding Let_def by blast
  then show ?thesis using f1 by blast
qed

theorem revoke_all_or_nothing_witness:
  "\<exists>f1. PeersRemove (demo_yaml []) ''2026-01-01'' True ''p'' ''k'' (PubKeyB64 pinA) no_files = (Inr (RevokedBuddy 0 0), f1) \<and>
     refused ''k'' (PubKeyB64 pinA) f1"
proof -
  obtain f1 where f1: "PeersRemove (demo_yaml []) ''2026-01-01'' True ''p'' ''k'' (PubKeyB64 pinA) no_files = (Inr (RevokedBuddy 0 0), f1)"
    using demo_removed by blast
  from revoke_all_or_nothing [where cfg = trust_demo, OF separate_demo today_ok, unfolded demo_paths, OF resolve_pub [OF pin_length(1)] f1] f1
  show ?thesis by auto
qed

section \<open>Sessions\<close>

lemma parts_demo: "session_parts local_crypto invite pinA pinB" "session_parts local_crypto invite pinB pinA"
  by (simp_all add: session_parts_def local_crypto_def)

lemma save_no_files: "\<exists>g. saveSession C True ''k'' invite k secret no_files = (Inr (), g)"
  by (simp add: saveSession_def withTrustStateLock_def trustLockPath_def trustBase_def saveSessionLocked_def isRevoked_def
      loadRevoked_missing write_file_def no_files_def read_file_def)

text \<open>A first store fails, the second one succeeds.\<close>

theorem sessions_exact_witness:
  "\<exists>g ss. loadSessions ''k'' g = Inr ss \<and> (pinA, b64url_encode pinB) \<in> set ss"
proof -
  let ?ev = "(\<lparr>oc_locked = False, oc_plan = [], oc_today = []\<rparr>, StoreSession pinB ''meet'' pinA)"
  have st: "fold (trust_step (demo_yaml []) local_crypto trust_demo) [?ev] no_files = no_files"
    by (simp add: saveSession_def withTrustStateLock_def trustLockPath_def trustBase_def trust_demo_def Let_def) (simp add: no_files_def)
  have ok: "\<forall>ev \<in> set [?ev]. op_typed local_crypto ev" using parts_demo by simp
  obtain g where g: "saveSession local_crypto True ''k'' ''meet'' (PubKeyB64 pinA) (b64url_encode pinB) no_files = (Inr (), g)"
    using save_no_files by blast
  have "read_file (KnownPeers trust_demo) no_files = Missing" by simp
  from sessions_exact [OF separate_demo this ok parts_demo(1), where Y = "demo_yaml []", unfolded st demo_paths, OF g]
  obtain ss where "loadSessions ''k'' g = Inr (filter (\<lambda>s. fst s \<noteq> pinA) ss @ [(pinA, b64url_encode pinB)])" by blast
  then show ?thesis by (intro exI conjI) (assumption, simp)
qed

section \<open>The manifest\<close>

lemma short_manifest: "length (manifest_text (demo_yaml rs) specs) \<le> maxManifestBytes"
proof -
  have "length manifestHeader < 1000" by (simp add: manifestHeader_def emdash_def)
  then show ?thesis by (simp add: manifest_text_def demo_yaml_def maxManifestBytes_def)
qed

lemma faithful_demo: "yaml_faithful (demo_yaml rs) []" "rs \<noteq> [] \<Longrightarrow> yaml_faithful (demo_yaml rs) rs"
  by (simp_all add: yaml_faithful_def demo_yaml_def HasPrefix_def)

lemma spec_ok_demo: "spec_ok specA"
proof -
  have "validField ''meet''" "validateBuddyName ''alice''" by code_simp+
  then show ?thesis by (simp add: spec_ok_def specA_def)
qed

definition one_buddy :: fs where
  "one_buddy = put_file ''p'' (manifest_text (demo_yaml (raws [specA])) [specA]) no_files"

lemma one_buddy_written: "write_file ''p'' (manifest_text (demo_yaml (raws [specA])) [specA]) no_files = (None, one_buddy)"
  by (simp add: write_file_def one_buddy_def) (simp add: no_files_def)

lemma one_buddy_loads: "loadPeersFile (demo_yaml (raws [specA])) ''p'' one_buddy = Inr [specA]"
  using manifest_saved [OF _ faithful_demo(2) short_manifest one_buddy_written] spec_ok_demo by simp

lemma not_legacy_demo:
  assumes "read_file ''p'' f = Contents (manifest_text (demo_yaml rs) specs)"
  shows "manifestNeedsMigration ''p'' f = Inr False"
proof -
  have "mget (files f) ''p'' = Some (manifest_text (demo_yaml rs) specs)"
    using assms by (auto simp: read_file_def split: if_splits option.splits)
  then have "readManifest ''p'' f = Inr (Some (manifest_text (demo_yaml rs) specs))"
    using assms short_manifest [of rs specs] by (simp add: readManifest_def)
  moreover have "HasPrefix (ywrite (demo_yaml rs) xs) ''buddies:''" for xs by (simp add: demo_yaml_def HasPrefix_def)
  ultimately show ?thesis using manifest_not_legacy by (simp add: manifestNeedsMigration_def manifest_text_def)
qed

lemma demo_remove_entry:
  "\<exists>g. PeersRemove (demo_yaml (raws [specA])) today True ''p'' ''k'' (PubKeyB64 pinA) one_buddy = (Inr (RevokedBuddy 1 0), g)"
proof -
  let ?Y = "demo_yaml (raws [specA])"
  define T where "T = revoked_header @ concat (map (revoked_entry_line today) [(PubKeyB64 pinA, ''revoked '' @ today)])"
  have r: "read_file p one_buddy = (if p = ''p'' then Contents (manifest_text ?Y [specA]) else Missing)" for p
    by (auto simp: one_buddy_def read_file_put)
  have pl: "plan one_buddy = []" by (simp add: one_buddy_def put_file_def no_files_def)
  let ?f = "put_file ''k.revoked'' T one_buddy"
  have a: "addRevoked today ''k'' (PubKeyB64 pinA) one_buddy = (Inr True, ?f)"
    by (simp add: addRevoked_def loadRevoked_missing writeRevoked_def write_file_def pl r revokedPath_def T_def)
  have s: "removeSessionLocked ''k'' (PubKeyB64 pinA) ?f = (Inr 0, ?f)" by (simp add: removeSessionLocked_def read_file_put r)
  have "read_file ''p'' ?f = read_file ''p'' one_buddy" by (simp add: read_file_put)
  then have "loadPeersFile ?Y ''p'' ?f = Inr [specA]" "manifestNeedsMigration ''p'' ?f = Inr False"
    using loadPeersFile_cong(1) [of "''p''" ?f one_buddy] one_buddy_loads r not_legacy_demo [of ?f] by simp_all
  then have "removeManifestEntryLocked ?Y ''p'' (PubKeyB64 pinA) ?f = (Inr 1, put_file ''p'' (manifest_text ?Y []) ?f)"
    using pl by (simp add: removeManifestEntryLocked_def specA_def saveManifestLocked_def write_file_def put_file_def)
  then have "remove_steps ?Y today ''p'' ''k'' (PubKeyB64 pinA) one_buddy = (Inr (RevokedBuddy 1 0), put_file ''p'' (manifest_text ?Y []) ?f)"
    using a s by (simp add: remove_steps_def trustBase_def)
  then show ?thesis by (simp add: PeersRemove_def resolve_pub withTrustStateLock_def trustLockPath_def trustBase_def)
qed

theorem remove_exact_witness:
  "\<exists>g. PeersRemove (demo_yaml (raws [specA])) ''2026-01-01'' True ''p'' ''k'' (PubKeyB64 pinA) one_buddy = (Inr (RevokedBuddy 1 0), g) \<and>
     loadPeersFile (demo_yaml (raws [specA])) ''p'' g = Inr [] \<and> refused ''k'' (PubKeyB64 pinA) g"
proof -
  obtain g where g: "PeersRemove (demo_yaml (raws [specA])) ''2026-01-01'' True ''p'' ''k'' (PubKeyB64 pinA) one_buddy = (Inr (RevokedBuddy 1 0), g)"
    using demo_remove_entry by blast
  have r: "read_file p one_buddy = (if p = ''p'' then Contents (manifest_text (demo_yaml (raws [specA])) [specA]) else Missing)" for p
    by (auto simp: one_buddy_def read_file_put)
  have f: "filter (\<lambda>s. ps_pin s \<noteq> pinA) [specA] = []" by (simp add: specA_def)
  have "store_ok ''k'' one_buddy" "loadSessions ''k'' one_buddy = Inr []" "read_file ''p'' one_buddy \<noteq> Denied"
    by (simp_all add: store_ok_def loadSessions_def r)
  then show ?thesis
    using remove_exact [where cfg = trust_demo and specs = "[specA]", OF separate_demo today_ok pin_length(1), unfolded demo_paths f,
        OF g _ _ _ _ one_buddy_loads _ short_manifest] g faithful_demo(1) [of "raws [specA]"] by simp
qed

text \<open>A token with a plus sign.\<close>

theorem add_exact_witness:
  "\<exists>g. PeersAdd (demo_yaml (raws [added_spec pinA ''a+b'' [] []])) [] True ''p'' ''k'' (PubKeyB64 pinA) ''a+b'' [] [] no_files = (Inr Added, g) \<and>
     loadPeersFile (demo_yaml (raws [added_spec pinA ''a+b'' [] []])) ''p'' g = Inl BadToken"
proof -
  let ?Y = "demo_yaml (raws [added_spec pinA ''a+b'' [] []])"
  have v: "\<not> validField ''a+b''" "validateBuddyName []" by code_simp+
  have n: "plan no_files = []" "mget (files no_files) p = None" for p by (simp_all add: no_files_def)
  have l: "loadPeersFile ?Y ''p'' no_files = Inr []" by (simp add: loadPeersFile_def readManifest_def n)
  have "\<exists>g. add_steps ?Y [] ''p'' ''k'' (added_spec pinA ''a+b'' [] []) no_files = (Inr Added, g)"
    using l by (simp add: add_steps_def trustBase_def isRevoked_def loadRevoked_missing saveManifestLocked_def write_file_def n MaxBuddies_def)
  then obtain g where g: "PeersAdd ?Y [] True ''p'' ''k'' (PubKeyB64 pinA) ''a+b'' [] [] no_files = (Inr Added, g)"
    using v(2) by (auto simp: PeersAdd_def DecodePubKey_roundtrip manifestNeedsMigration_def readManifest_def n withTrustStateLock_def
        trustLockPath_def trustBase_def added_spec_def)
  have "loadPeersFile ?Y ''p'' g = Inl BadToken"
    using add_exact [OF g l DecodePubKey_roundtrip [OF pin_length(1)]] faithful_demo(2) short_manifest v(1) by simp
  then show ?thesis using g by blast
qed

section \<open>The supervisor\<close>

lemma start_fresh_counts:
  assumes "spec_key spec \<notin> mkeys (running s)"
  shows "length (workers (start spec s)) = length (workers s) + 1" "mkeys (running (start spec s)) = insert (spec_key spec) (mkeys (running s))"
    "senders (start spec s) = senders s" "exited (start spec s) = exited s"
proof -
  have "length (workers (start spec s)) = length (workers s) + 1 \<and> mkeys (running (start spec s)) = insert (spec_key spec) (mkeys (running s)) \<and>
    senders (start spec s) = senders s \<and> exited (start spec s) = exited s"
  proof (cases rule: start_cases [of spec s])
    case (fresh idx ifs)
    show ?thesis unfolding fresh(2) by (simp add: mkeys_mput)
  qed (use assms in simp)
  then show "length (workers (start spec s)) = length (workers s) + 1" "mkeys (running (start spec s)) = insert (spec_key spec) (mkeys (running s))"
    "senders (start spec s) = senders s" "exited (start spec s) = exited s" by blast+
qed

lemma fold_start_counts:
  "distinct (map spec_key specs) \<Longrightarrow> spec_key ` set specs \<inter> mkeys (running s) = {} \<Longrightarrow>
   length (workers (fold start specs s)) = length (workers s) + length specs \<and> senders (fold start specs s) = senders s \<and> exited (fold start specs s) = exited s"
proof (induction specs arbitrary: s)
  case (Cons spec specs)
  have n: "spec_key spec \<notin> mkeys (running s)" using Cons.prems(2) by auto
  have "spec_key ` set specs \<inter> mkeys (running (start spec s)) = {}" using Cons.prems start_fresh_counts(2) [OF n] by auto
  then show ?case using Cons start_fresh_counts [OF n] by simp
qed simp

definition many_specs :: "nat \<Rightarrow> peerSpec list" where
  "many_specs n = map (\<lambda>i. \<lparr>ps_pin = replicate 32 (char_of i), ps_token = [], ps_name = [], ps_expose = None\<rparr>) [0..<n]"

lemma many_specs_distinct: "n \<le> 256 \<Longrightarrow> distinct (map spec_key (many_specs n))"
proof -
  assume "n \<le> 256"
  have "inj_on (\<lambda>i. PubKeyB64 (replicate 32 (char_of i))) {0..<n}"
  proof (rule inj_onI)
    fix i j
    assume a: "i \<in> {0..<n}" "j \<in> {0..<n}" "PubKeyB64 (replicate 32 (char_of i)) = PubKeyB64 (replicate 32 (char_of j))"
    then have "replicate 32 (char_of i) = replicate 32 (char_of j)" using b64std.enc_inj [OF TrueI TrueI] unfolding PubKeyB64_def by blast
    then have "(of_char (char_of i) :: nat) = of_char (char_of j)" by simp
    then show "i = j" using a \<open>n \<le> 256\<close> by (simp add: of_char_of)
  qed
  then show ?thesis by (simp add: many_specs_def distinct_map comp_def)
qed

text \<open>Seventeen buddies, stopped at once.\<close>

theorem shutdown_returns_iff_witness:
  "\<exists>s0. supervise (many_specs 17) = Some s0 \<and> \<not> (\<exists>t. sup_step\<^sup>*\<^sup>* (s0\<lparr>phase := Draining\<rparr>) t \<and> phase t = Returned)"
proof -
  let ?s0 = "fold start (many_specs 17) idle_sup"
  have c: "length (workers ?s0) = 17 \<and> senders ?s0 = [] \<and> exited ?s0 = []"
    using fold_start_counts [of "many_specs 17" idle_sup] many_specs_distinct [of 17] by (simp add: idle_sup_def many_specs_def)
  have "supervise (many_specs 17) = Some ?s0" by (simp add: supervise_def many_specs_def MaxBuddies_def)
  moreover have "\<not> (\<exists>t. sup_step\<^sup>*\<^sup>* (?s0\<lparr>phase := Draining\<rparr>) t \<and> phase t = Returned)"
    using shutdown_returns_iff [of "?s0\<lparr>phase := Draining\<rparr>"] c by (auto simp: backlog_def exitedCap_def)
  ultimately show ?thesis by blast
qed

definition two_running :: sup where "two_running = fold start [specA, specB] idle_sup"

definition workerA :: worker where "workerA = \<lparr>w_key = PubKeyB64 pinA, w_gen = 1, w_if = 0, w_cancelled = False\<rparr>"
definition workerB :: worker where "workerB = \<lparr>w_key = PubKeyB64 pinB, w_gen = 2, w_if = 1, w_cancelled = False\<rparr>"

lemma two_running_state:
  "two_running = \<lparr>running = [(PubKeyB64 pinA, \<lparr>h_gen = 1, h_spec = specA, h_scope = None\<rparr>), (PubKeyB64 pinB, \<lparr>h_gen = 2, h_spec = specB, h_scope = None\<rparr>)],
     gen = 2, ifIndexOf = [(PubKeyB64 pinA, 0), (PubKeyB64 pinB, 1)], workers = [workerA, workerB], senders = [], exited = [], rules = [], phase = Serving\<rparr>"
proof -
  have "lowest_free [] 0 = 0" "lowest_free [0] 0 = 1" by (simp_all add: lowest_free.simps)
  then show ?thesis
    using pins_differ(1)
    by (simp add: two_running_def start_def allocIf_def idle_sup_def specA_def specB_def workerA_def workerB_def Let_def)
qed

lemma two_running_reached: "supervise [specA, specB] = Some two_running" "sup_step\<^sup>*\<^sup>* two_running two_running"
  by (simp_all add: supervise_def two_running_def MaxBuddies_def)

lemma two_current:
  "workerA \<in> set (workers two_running)" "workerB \<in> set (workers two_running)" "current two_running workerA" "current two_running workerB"
  "workerA \<noteq> workerB"
  using pins_differ by (simp_all add: two_running_state current_def) (simp_all add: workerA_def workerB_def)


theorem reload_interface_shared_witness:
  "\<exists>g > 1. has_worker (PubKeyB64 pinA) 1 0 (reload_peers (\<lambda>_. True) [specB, specA] (reload_peers (\<lambda>_. True) [specB] two_running)) \<and>
     has_worker (PubKeyB64 pinA) g 0 (reload_peers (\<lambda>_. True) [specB, specA] (reload_peers (\<lambda>_. True) [specB] two_running))"
proof -
  have k: "w_key workerA \<notin> spec_key ` set [specB]" "spec_key specA = w_key workerA"
    using pins_differ(1) by (simp_all add: workerA_def specA_def specB_def)
  have w: "w_key workerA = PubKeyB64 pinA" "w_gen workerA = 1" "w_if workerA = 0" by (simp_all add: workerA_def)
  show ?thesis
    using reload_interface_shared [OF two_running_reached two_current(1,3) k, of "\<lambda>_. True"] unfolding w Let_def by simp
qed

theorem rescope_not_retried_witness:
  "\<exists>t. reload_one (\<lambda>_. False) (specA\<lparr>ps_expose := Some no_scope\<rparr>) two_running = t \<and> rules t = [] \<and>
     reload_one (\<lambda>_. True) (specA\<lparr>ps_expose := Some no_scope\<rparr>) t = t"
proof -
  let ?spec = "specA\<lparr>ps_expose := Some no_scope\<rparr>"
  have "mget (running two_running) (spec_key ?spec) = Some \<lparr>h_gen = 1, h_spec = specA, h_scope = None\<rparr>"
    by (simp add: two_running_state specA_def)
  moreover have "\<not> sameScope (ps_expose (h_spec \<lparr>h_gen = 1, h_spec = specA, h_scope = None\<rparr>)) (ps_expose ?spec)"
    by (simp add: specA_def sameScope_def)
  ultimately show ?thesis
    using rescope_not_retried [of two_running ?spec] by (simp add: Let_def two_running_state)
qed

section \<open>Replacing a file\<close>

definition old_disk :: disk where
  "old_disk = \<lparr>dir = [(''f'', 0)], ddir = [(''f'', 0)], cont = (\<lambda>_. ''old''), synced = (\<lambda>_. True), inodes = 1\<rparr>"

definition all_well :: write_io where
  "all_well = \<lparr>cr_ok = True, wrote = None, sync_ok = True, cl_ok = True, ren_ok = True, dsync_ok = True\<rparr>"

lemma old_disk_ok: "disk_ok old_disk" "durable ''f'' old_disk"
  by (simp_all add: disk_ok_def durable_def old_disk_def)

lemma old_disk_tmp: "mget (dir old_disk) (tmp_name ''f'' 7 1) = None"
  by (simp add: old_disk_def tmp_name_def)

theorem write_atomic_witness:
  "\<exists>ds. Write all_well 7 1 ''f'' ''new'' old_disk = (ds, None) \<and> visible ''f'' (after_write old_disk ds) = Some ''new''"
proof -
  obtain ds where w: "Write all_well 7 1 ''f'' ''new'' old_disk = (ds, None)"
    using old_disk_tmp by (simp add: Write_def all_well_def Let_def)
  from write_atomic [OF old_disk_ok w] w show ?thesis by simp
qed

text \<open>Killed before the rename.\<close>

theorem write_file_refines_witness:
  "visible ''f'' (snd (outcome_of all_well 7 1 ''f'' ''new'' old_disk (Some 3))) = Some ''old''"
proof -
  let ?f = "\<lparr>files = [(''f'', ''old'')], denied = [], plan = [fst (outcome_of all_well 7 1 ''f'' ''new'' old_disk (Some 3))]\<rparr>"
  have "fst (outcome_of all_well 7 1 ''f'' ''new'' old_disk (Some 3)) = KilledBefore"
    using old_disk_tmp
    by (simp add: outcome_of_def Write_def all_well_def Let_def after_write_def visible_def sys_defs mget_mput)
      (simp add: old_disk_def tmp_name_def mget_mput)
  moreover have "visible p old_disk = mget (files ?f) p" for p by (simp add: visible_def old_disk_def)
  ultimately show ?thesis
    using write_file_refines [OF old_disk_ok(1), of ?f all_well 7 1 "''f''" "''new''" "Some 3" "''f''"]
    by (simp add: write_file_def)
qed

section \<open>Attempts\<close>

definition failing_round :: "fs \<Rightarrow> round" where
  "failing_round f = \<lparr>rd_woken = True, rd_files = f, rd_since = 0, rd_run = RunFailed, rd_cancelled = False, rd_lasted = 0, rd_draw = None, rd_stopped = False\<rparr>"

theorem backoff_schedule_witness:
  "\<exists>as ws r. peerLoop trust_demo False (\<lambda>_ _. Inr no_attempt) 0 [failing_round no_files, failing_round no_files] reconnectBase 0 = (as, ws, r) \<and>
     length ws = 2 \<and> reconnectBase div 2 \<le> ws ! 1 \<and> ws ! 1 \<le> reconnectMax"
proof -
  obtain as ws r where p: "peerLoop trust_demo False (\<lambda>_ _. Inr no_attempt) 0 [failing_round no_files, failing_round no_files] reconnectBase 0 = (as, ws, r)"
    by (metis prod_cases3)
  then have l: "length ws = 2" by (auto simp: failing_round_def trust_demo_def Let_def reconnect_defs)
  from backoff_schedule [OF p] l have "reconnectBase div 2 \<le> ws ! 1 \<and> ws ! 1 \<le> reconnectMax" by simp
  then show ?thesis using p l by blast
qed

definition lone_cfg :: buddy_cfg where "lone_cfg = trust_demo\<lparr>PeersFile := []\<rparr>"

lemma lone_paths: "KnownPeers lone_cfg = ''k''" "PeersFile lone_cfg = []" "trustBase ''k'' [] = ''k''" "\<not> Ephemeral lone_cfg"
  by (simp_all add: lone_cfg_def trust_demo_def trustBase_def)

lemma gate_open: "read_file ''k.revoked'' f = Missing \<Longrightarrow> revoked_gate ''k'' key f = None"
  by (simp add: revoked_gate_def isRevoked_def loadRevoked_missing revokedPath_def)

lemma lone_bootstrap: "peerSource Y lone_cfg specA None n no_files = Inr (bootstrap specA None ''meet'')"
  using gate_open [of no_files "spec_key specA"]
  by (simp add: peerSource_def lone_paths live_token_def loadSessionFor_def loadSessions_def Let_def) (simp add: specA_def)

theorem worker_pinned_witness:
  "\<exists>a ws r. peerLoop lone_cfg False (peerSource (demo_yaml []) lone_cfg specA None) 5 [failing_round no_files] reconnectBase 0 = ([a], ws, r) \<and>
     enforcePins a pinA = None \<and> ifIndex a = 5 \<and> rendezvous a \<noteq> []"
proof -
  let ?a = "(bootstrap specA None ''meet'')\<lparr>ifIndex := 5\<rparr>"
  obtain ws r where p: "peerLoop lone_cfg False (peerSource (demo_yaml []) lone_cfg specA None) 5 [failing_round no_files] reconnectBase 0 = ([?a], ws, r)"
    by (simp add: failing_round_def lone_bootstrap lone_paths Let_def reconnect_defs)
  have e: "enforcePins ?a pinA = None" by (simp add: enforcePins_def bootstrap_def no_attempt_def specA_def)
  have "ifIndex ?a = 5" "rendezvous ?a \<noteq> []" using worker_pinned [OF p _ e] by (simp_all add: bootstrap_def no_attempt_def)
  then show ?thesis using p e by blast
qed

text \<open>One side has a session, the other has lost it.\<close>

definition with_session :: fs where
  "with_session = put_file ''k'' (session_line local_crypto ''meet'' (PubKeyB64 pinA) (b64url_encode pinB) @ [newline]) no_files"

lemma with_session_loads: "loadSessionFor ''k'' pinA with_session = Inr (Some (b64url_encode pinB))"
proof -
  let ?l = "session_line local_crypto ''meet'' (PubKeyB64 pinA) (b64url_encode pinB)"
  have "read_file ''k'' with_session = Contents (concat (map (\<lambda>l. l @ [newline]) [?l]))" by (simp add: with_session_def read_file_put)
  then have "loadSessions ''k'' with_session = Inr (List.map_filter stored_session [?l])"
    using session_line_short [OF parts_demo(1)] by (intro loadSessions_written) auto
  then show ?thesis using session_line_stored(1) [OF parts_demo(1), of "''meet''"] by (simp add: loadSessionFor_def map_filter_simps)
qed

theorem desync_heals_witness:
  "\<exists>a b x. peerSource (demo_yaml []) lone_cfg specA None 3 with_session = Inr a \<and> peerSource (demo_yaml []) lone_cfg specA None 4 with_session = Inr b \<and>
     peerSource (demo_yaml []) lone_cfg specA None 0 no_files = Inr x \<and> rendezvous x = ''meet'' \<and> {rendezvous a, rendezvous b} = {b64url_encode pinB, ''meet''}"
proof -
  have g: "revoked_gate (trustBase (KnownPeers lone_cfg) (PeersFile lone_cfg)) (spec_key specA) with_session = None"
    "revoked_gate (trustBase (KnownPeers lone_cfg) (PeersFile lone_cfg)) (spec_key specA) no_files = None"
    by (simp_all add: lone_paths gate_open with_session_def read_file_put)
  have t: "live_token (demo_yaml []) lone_cfg specA f = ''meet''" for f by (simp add: live_token_def lone_paths specA_def)
  have l: "loadSessionFor (KnownPeers lone_cfg) (ps_pin specA) with_session = Inr (Some (b64url_encode pinB))"
    "loadSessionFor (KnownPeers lone_cfg) (ps_pin specA) no_files = Inr None"
    using with_session_loads by (simp_all add: lone_paths specA_def loadSessionFor_def) (simp add: loadSessions_def)
  have "\<not> Insecure lone_cfg" "sessionFallbackAfter \<le> 3" by (simp_all add: lone_cfg_def trust_demo_def sessionFallbackAfter_def)
  from desync_heals [OF g(1) this(1) l(1) t _ l(2) t g(2) this(2), of None None 0] show ?thesis by fastforce
qed

end
