(* ===== verification/Lazy.thy ===== *)
theory Lazy
  imports Prelude
begin

text \<open>
  The tunnel that is dialled on demand: \<^verbatim>\<open>lazyTunnel\<close> and \<^verbatim>\<open>lazyForward\<close> of
  \<^verbatim>\<open>internal/role/lazy.go\<close>, with the part of \<^verbatim>\<open>peerLoop\<close> and of \<^verbatim>\<open>buddyRun\<close> that drives it.

  A channel is a number; \<open>lt_closed\<close> lists the channels that have been closed and \<open>lt_next\<close> is the
  next one \<^verbatim>\<open>make\<close> returns. The buffer of \<^verbatim>\<open>wake\<close> holds one signal, so it is a truth value. Every
  section under \<^verbatim>\<open>mu\<close> is one step; \<^verbatim>\<open>get\<close> has two of them, with the wait on the channel in between.
  Closing a closed channel panics, which is the result \<open>None\<close>.
\<close>

section \<open>The tunnel cell\<close>

record lazyTunnel =
  lt_sess :: "nat option"
  lt_ready :: nat
  lt_waking :: bool
  lt_err :: "bytes option"
  lt_wake :: bool
  lt_closed :: "nat list"
  lt_next :: nat

definition newLazyTunnel :: lazyTunnel where
  "newLazyTunnel = \<lparr>lt_sess = None, lt_ready = 0, lt_waking = False, lt_err = None, lt_wake = False,
     lt_closed = [], lt_next = 1\<rparr>"

text \<open>The first section of \<^verbatim>\<open>get\<close>: the session, or the channel to wait on.\<close>

definition get_enter :: "lazyTunnel \<Rightarrow> (nat + nat) \<times> lazyTunnel" where
  "get_enter lt =
     (case lt_sess lt of
        Some s \<Rightarrow> (Inl s, lt)
      | None \<Rightarrow> (Inr (lt_ready lt), if lt_waking lt then lt else lt\<lparr>lt_waking := True, lt_wake := True\<rparr>))"

text \<open>The second section of \<^verbatim>\<open>get\<close>, after the channel was closed.\<close>

definition get_leave :: "lazyTunnel \<Rightarrow> nat option \<times> bytes option" where
  "get_leave lt = (lt_sess lt, lt_err lt)"

definition close_ready :: "lazyTunnel \<Rightarrow> lazyTunnel option" where
  "close_ready lt = (if lt_ready lt \<in> set (lt_closed lt) then None
     else Some (lt\<lparr>lt_closed := lt_ready lt # lt_closed lt\<rparr>))"

definition setSession :: "nat \<Rightarrow> lazyTunnel \<Rightarrow> lazyTunnel option" where
  "setSession s lt = close_ready (lt\<lparr>lt_sess := Some s, lt_err := None\<rparr>)"

definition setFailed :: "bytes \<Rightarrow> lazyTunnel \<Rightarrow> lazyTunnel option" where
  "setFailed e lt = close_ready (lt\<lparr>lt_err := Some e, lt_sess := None, lt_waking := False\<rparr>)"

definition markIdle :: "lazyTunnel \<Rightarrow> lazyTunnel" where
  "markIdle lt = lt\<lparr>lt_sess := None, lt_err := None, lt_waking := False, lt_ready := lt_next lt,
     lt_next := lt_next lt + 1\<rparr>"

section \<open>Clients and the reconnect loop\<close>

text \<open>A local connection inside \<^verbatim>\<open>get\<close>: waiting on a channel, past the wait, or back with what
  \<^verbatim>\<open>get\<close> returned.\<close>

datatype caller = Blocked nat | Released | Back "nat option" "bytes option"

definition in_flight :: "caller \<Rightarrow> bool" where
  "in_flight c = (case c of Back _ _ \<Rightarrow> False | _ \<Rightarrow> True)"

definition maxConcurrentStreams :: nat where "maxConcurrentStreams = 256"

text \<open>Where \<^verbatim>\<open>peerLoop\<close> stands: before the wake-up, in \<^verbatim>\<open>buddyRun\<close> before the tunnel is up, with a
  session, after \<^verbatim>\<open>setFailed\<close>, in the wait before the next round, returned.\<close>

datatype loop_pc = Sleeping | Dialing | Up | Failed | Waiting | Ended

record lazy_sys =
  tun :: lazyTunnel
  callers :: "caller list"
  loop :: loop_pc
  cancelled :: bool

definition lazy_init :: lazy_sys where
  "lazy_init = \<lparr>tun = newLazyTunnel, callers = [], loop = Sleeping, cancelled = False\<rparr>"

definition ctx_err :: bytes where "ctx_err = ''context canceled''"

definition enter_caller :: "nat + nat \<Rightarrow> caller" where
  "enter_caller r = (case r of Inl s \<Rightarrow> Back (Some s) None | Inr c \<Rightarrow> Blocked c)"

text \<open>What the connection handler of \<^verbatim>\<open>lazyForward\<close> does with the result: it closes the connection on an
  error, and calls a method of the session otherwise, which panics on a nil session; the panic is
  recovered one frame up, where the connection is not closed.\<close>

datatype served = Spliced nat | ClosedConn | PanickedOpen

definition serve_conn :: "bool \<Rightarrow> nat option \<Rightarrow> bytes option \<Rightarrow> served" where
  "serve_conn opened s e =
     (case e of Some _ \<Rightarrow> ClosedConn
      | None \<Rightarrow> (case s of None \<Rightarrow> PanickedOpen | Some i \<Rightarrow> if opened then Spliced i else ClosedConn))"

inductive loop_step :: "lazy_sys \<Rightarrow> lazy_sys \<Rightarrow> bool" where
  wake: "loop y = Sleeping \<Longrightarrow> lt_wake (tun y) \<Longrightarrow>
    loop_step y (y\<lparr>loop := Dialing, tun := (tun y)\<lparr>lt_wake := False\<rparr>\<rparr>)"
| refused: "loop y = Dialing \<Longrightarrow> loop_step y (y\<lparr>loop := Ended\<rparr>)"
| dialled: "loop y = Dialing \<Longrightarrow> setSession s (tun y) = Some t \<Longrightarrow> loop_step y (y\<lparr>loop := Up, tun := t\<rparr>)"
| failed: "loop y = Dialing \<Longrightarrow> setFailed e (tun y) = Some t \<Longrightarrow> loop_step y (y\<lparr>loop := Failed, tun := t\<rparr>)"
| idle: "loop y = Up \<or> loop y = Failed \<Longrightarrow> loop_step y (y\<lparr>loop := Waiting, tun := markIdle (tun y)\<rparr>)"
| abort: "loop y = Failed \<Longrightarrow> loop_step y (y\<lparr>loop := Ended, tun := markIdle (tun y)\<rparr>)"
| retry: "loop y = Waiting \<Longrightarrow> loop_step y (y\<lparr>loop := Sleeping\<rparr>)"
| stop: "cancelled y \<Longrightarrow> loop y = Sleeping \<or> loop y = Waiting \<Longrightarrow> loop_step y (y\<lparr>loop := Ended\<rparr>)"

inductive lazy_step :: "lazy_sys \<Rightarrow> lazy_sys \<Rightarrow> bool" where
  accept: "length (filter in_flight (callers y)) < maxConcurrentStreams \<Longrightarrow> get_enter (tun y) = (r, t) \<Longrightarrow>
    lazy_step y (y\<lparr>callers := callers y @ [enter_caller r], tun := t\<rparr>)"
| release: "i < length (callers y) \<Longrightarrow> callers y ! i = Blocked c \<Longrightarrow> c \<in> set (lt_closed (tun y)) \<Longrightarrow>
    lazy_step y (y\<lparr>callers := (callers y)[i := Released]\<rparr>)"
| give_up: "cancelled y \<Longrightarrow> i < length (callers y) \<Longrightarrow> callers y ! i = Blocked c \<Longrightarrow>
    lazy_step y (y\<lparr>callers := (callers y)[i := Back None (Some ctx_err)]\<rparr>)"
| leave: "i < length (callers y) \<Longrightarrow> callers y ! i = Released \<Longrightarrow> get_leave (tun y) = (s, e) \<Longrightarrow>
    lazy_step y (y\<lparr>callers := (callers y)[i := Back s e]\<rparr>)"
| cancel: "lazy_step y (y\<lparr>cancelled := True\<rparr>)"
| run: "loop_step y z \<Longrightarrow> lazy_step y z"

inductive_cases loop_stepE: "loop_step y z"
inductive_cases lazy_stepE: "lazy_step y z"

abbreviation lazy_run :: "lazy_sys \<Rightarrow> lazy_sys \<Rightarrow> bool" where
  "lazy_run \<equiv> lazy_step\<^sup>*\<^sup>*"

section \<open>The invariant\<close>

text \<open>The channel in \<^verbatim>\<open>ready\<close> is closed exactly between the outcome of a dial and \<^verbatim>\<open>markIdle\<close>, the
  payload is set in the same period, and nobody waits on an open channel unless a dial is
  announced or under way.\<close>

definition announced :: "lazy_sys \<Rightarrow> bool" where
  "announced y \<longleftrightarrow> lt_wake (tun y) \<or> loop y = Dialing"

definition settled :: "loop_pc \<Rightarrow> bool" where
  "settled p = (p = Up \<or> p = Failed)"

definition chan_inv :: "lazy_sys \<Rightarrow> bool" where
  "chan_inv y \<longleftrightarrow> lt_ready (tun y) < lt_next (tun y) \<and> (\<forall>c \<in> set (lt_closed (tun y)). c < lt_next (tun y)) \<and>
     (lt_ready (tun y) \<in> set (lt_closed (tun y)) \<longleftrightarrow> settled (loop y))"

definition payload_inv :: "lazy_sys \<Rightarrow> bool" where
  "payload_inv y \<longleftrightarrow> (lt_sess (tun y) \<noteq> None \<longleftrightarrow> loop y = Up) \<and> (lt_err (tun y) \<noteq> None \<longleftrightarrow> loop y = Failed)"

definition wake_inv :: "lazy_sys \<Rightarrow> bool" where
  "wake_inv y \<longleftrightarrow> (lt_waking (tun y) \<longrightarrow> announced y \<or> settled (loop y) \<or> loop y = Ended) \<and>
     (\<forall>c. Blocked c \<in> set (callers y) \<longrightarrow> c \<in> set (lt_closed (tun y)) \<or> c = lt_ready (tun y) \<and> lt_waking (tun y))"

definition lazy_inv :: "lazy_sys \<Rightarrow> bool" where
  "lazy_inv y \<longleftrightarrow> chan_inv y \<and> payload_inv y \<and> wake_inv y"

lemmas lazy_inv_defs = lazy_inv_def chan_inv_def payload_inv_def wake_inv_def announced_def settled_def
lemmas lazy_op_defs = get_enter_def get_leave_def close_ready_def setSession_def setFailed_def markIdle_def
  enter_caller_def

lemma lazy_inv_init: "lazy_inv lazy_init"
  by (simp add: lazy_inv_defs lazy_init_def newLazyTunnel_def)

lemma loop_step_inv: "loop_step y z \<Longrightarrow> lazy_inv y \<Longrightarrow> lazy_inv z"
  by (induction rule: loop_step.induct) (auto simp: lazy_inv_defs lazy_op_defs split: if_splits)

lemma set_update_blocked: "Blocked c \<in> set (cs[i := d]) \<Longrightarrow> Blocked c \<in> set cs \<or> d = Blocked c"
  using set_update_subset_insert [of cs i d] by auto

lemma lazy_step_inv: "lazy_step y z \<Longrightarrow> lazy_inv y \<Longrightarrow> lazy_inv z"
proof (induction rule: lazy_step.induct)
  case (accept y r t)
  then show ?case
    by (auto simp: lazy_inv_defs lazy_op_defs split: if_splits option.splits)
next
  case (run y z)
  then show ?case by (rule loop_step_inv)
qed (auto simp: lazy_inv_defs dest!: set_update_blocked)

lemma lazy_run_inv: "lazy_run lazy_init y \<Longrightarrow> lazy_inv y"
  by (induction rule: rtranclp_induct) (use lazy_inv_init lazy_step_inv in blast)+

section \<open>Waking up\<close>

text \<open>How far the loop is from the outcome of its next dial.\<close>

definition rank :: "loop_pc \<Rightarrow> nat" where
  "rank p = (case p of Waiting \<Rightarrow> 2 | Sleeping \<Rightarrow> 1 | _ \<Rightarrow> 0)"

lemma waiting_open:
  assumes "lazy_inv y" "Blocked c \<in> set (callers y)" "c \<notin> set (lt_closed (tun y))" "loop y \<noteq> Ended"
  shows "c = lt_ready (tun y)" "announced y" "\<not> settled (loop y)"
  using assms by (auto simp: lazy_inv_defs)

lemma loop_enabled:
  assumes "lazy_inv y" "announced y" "loop y \<noteq> Ended"
  obtains z where "loop_step y z" "loop z \<noteq> Ended"
proof (cases "loop y")
  case Dialing
  then have "lt_ready (tun y) \<notin> set (lt_closed (tun y))"
    using assms(1) by (simp add: lazy_inv_defs)
  then obtain t where "setSession 0 (tun y) = Some t"
    by (auto simp: lazy_op_defs)
  then have "loop_step y (y\<lparr>loop := Up, tun := t\<rparr>)"
    using Dialing by (rule loop_step.dialled [rotated])
  then show ?thesis by (rule that) simp
next
  case Sleeping
  then have "lt_wake (tun y)" using assms(2) by (simp add: announced_def)
  with Sleeping have "loop_step y (y\<lparr>loop := Dialing, tun := (tun y)\<lparr>lt_wake := False\<rparr>\<rparr>)"
    by (rule loop_step.wake)
  then show ?thesis by (rule that) simp
next
  case Waiting
  then have "loop_step y (y\<lparr>loop := Sleeping\<rparr>)" by (rule loop_step.retry)
  then show ?thesis by (rule that) simp
qed (use assms that [OF loop_step.idle] in simp_all)

text \<open>A client waits for the channel \<open>c\<close>, which is still open.\<close>

definition awaited :: "nat \<Rightarrow> lazy_sys \<Rightarrow> bool" where
  "awaited c y \<longleftrightarrow> c = lt_ready (tun y) \<and> c \<notin> set (lt_closed (tun y)) \<and> lt_waking (tun y)"

text \<open>Runs in which the loop takes at least \<open>n\<close> steps.\<close>

inductive paced :: "nat \<Rightarrow> lazy_sys \<Rightarrow> lazy_sys \<Rightarrow> bool" where
  start: "paced 0 y y"
| any: "paced n y z \<Longrightarrow> lazy_step z w \<Longrightarrow> paced n y w"
| tick: "paced n y z \<Longrightarrow> loop_step z w \<Longrightarrow> paced (Suc n) y w"

definition outcome :: "nat \<Rightarrow> nat \<Rightarrow> lazy_sys \<Rightarrow> bool" where
  "outcome k c z \<longleftrightarrow> loop z = Ended \<or> c \<in> set (lt_closed (tun z)) \<or> awaited c z \<and> rank (loop z) < k"

lemma loop_progress:
  assumes "loop_step y z" "lazy_inv y" "awaited c y"
  shows "loop z = Ended \<or> c \<in> set (lt_closed (tun z)) \<or> awaited c z \<and> rank (loop z) < rank (loop y)"
  using assms by (cases rule: loop_step.cases) (auto simp: lazy_inv_defs lazy_op_defs rank_def awaited_def split: if_splits)

lemma loop_step_stays:
  assumes "loop_step y z" "lazy_inv y" "loop y = Ended \<or> c \<in> set (lt_closed (tun y))"
  shows "loop z = Ended \<or> c \<in> set (lt_closed (tun z))"
  using assms by (cases rule: loop_step.cases) (auto simp: lazy_op_defs split: if_splits)

lemma outcome_loop: "loop_step y z \<Longrightarrow> lazy_inv y \<Longrightarrow> outcome k c y \<Longrightarrow> outcome (k - 1) c z"
  using loop_progress [of y z c] loop_step_stays [of y z c] unfolding outcome_def by fastforce

lemma outcome_step: "lazy_step y z \<Longrightarrow> lazy_inv y \<Longrightarrow> outcome k c y \<Longrightarrow> outcome k c z"
proof (induction rule: lazy_step.induct)
  case (accept y r t)
  then show ?case
    by (auto simp: outcome_def awaited_def lazy_op_defs split: option.splits if_splits)
next
  case (run y z)
  then have "outcome (k - 1) c z" using outcome_loop by blast
  then show ?case by (auto simp: outcome_def)
qed (auto simp: outcome_def awaited_def)

lemma paced_outcome:
  "paced n y z \<Longrightarrow> lazy_inv y \<Longrightarrow> outcome k c y \<Longrightarrow> lazy_inv z \<and> outcome (k - n) c z"
proof (induction rule: paced.induct)
  case (any n y z w)
  then show ?case using lazy_step_inv outcome_step by blast
next
  case (tick n y z w)
  then show ?case using loop_step_inv outcome_loop [of z w "k - n" c] by simp
qed simp

text \<open>C21: A local connection that waits for the tunnel is never forgotten. In every state the system can
  reach, a connection waits on a channel that is already closed, or the reconnect loop can go on; and
  however accepts, returns and cancellations interleave, three steps of the loop (the end of its
  wait, the wake-up, the outcome of the dial) close that channel, unless the loop has ended.
  Reporting the outcome never closes a channel twice.\<close>

theorem lazy_wakeups:
  assumes "lazy_run lazy_init y" "Blocked c \<in> set (callers y)" "loop y \<noteq> Ended"
  shows "(c \<in> set (lt_closed (tun y)) \<or> (\<exists>z. loop_step y z \<and> loop z \<noteq> Ended)) \<and>
    (\<forall>n z. paced n y z \<and> 3 \<le> n \<longrightarrow> loop z = Ended \<or> c \<in> set (lt_closed (tun z))) \<and>
    (loop y = Dialing \<longrightarrow> setSession s (tun y) \<noteq> None \<and> setFailed e (tun y) \<noteq> None)"
proof (intro conjI allI impI)
  note inv = lazy_run_inv [OF assms(1)]
  show "c \<in> set (lt_closed (tun y)) \<or> (\<exists>z. loop_step y z \<and> loop z \<noteq> Ended)"
    using waiting_open [OF inv assms(2)] loop_enabled [OF inv] assms(3) by metis
  show "setSession s (tun y) \<noteq> None" "setFailed e (tun y) \<noteq> None" if "loop y = Dialing"
    using inv that by (simp_all add: lazy_inv_defs lazy_op_defs)
  fix n z assume nz: "paced n y z \<and> 3 \<le> n"
  have "rank (loop y) < 3" by (simp add: rank_def split: loop_pc.splits)
  then have "outcome 3 c y"
    using inv assms(2) by (auto simp: outcome_def awaited_def lazy_inv_def wake_inv_def)
  from paced_outcome [OF conjunct1 [OF nz] inv this] nz
  show "loop z = Ended \<or> c \<in> set (lt_closed (tun z))" by (simp add: outcome_def)
qed

section \<open>What a client gets\<close>

lemma leave_result:
  assumes "lazy_inv y"
  shows "(\<exists>s. get_leave (tun y) = (Some s, None)) \<longleftrightarrow> loop y = Up"
    and "(\<exists>e. get_leave (tun y) = (None, Some e)) \<longleftrightarrow> loop y = Failed"
    and "get_leave (tun y) = (None, None) \<longleftrightarrow> \<not> settled (loop y)"
  using assms by (auto simp: lazy_inv_defs get_leave_def)

text \<open>The steps by which a connection misses the error: the dial fails, the connection is released,
  the loop resets the cell, and only then the connection takes the lock again.\<close>

lemma error_missed:
  assumes "lazy_inv y" "loop y = Dialing" "i < length (callers y)" "callers y ! i = Blocked (lt_ready (tun y))"
    and "setFailed e (tun y) = Some t"
  shows "lazy_run (y\<lparr>loop := Failed, tun := t\<rparr>)
    (y\<lparr>loop := Waiting, tun := markIdle t, callers := (callers y)[i := Back None None]\<rparr>)"
proof -
  let ?y1 = "y\<lparr>loop := Failed, tun := t\<rparr>"
  let ?y2 = "?y1\<lparr>callers := (callers y)[i := Released]\<rparr>"
  let ?y3 = "?y2\<lparr>loop := Waiting, tun := markIdle t\<rparr>"
  have c: "lt_ready (tun y) \<in> set (lt_closed t)" using assms(5) by (auto simp: lazy_op_defs split: if_splits)
  have "lazy_step ?y1 ?y2"
    using lazy_step.release [of i ?y1 "lt_ready (tun y)"] assms(3,4) c by simp
  moreover have "lazy_step ?y2 ?y3"
    using lazy_step.run [OF loop_step.idle [of ?y2]] by simp
  moreover have "lazy_step ?y3 (?y3\<lparr>callers := (callers y)[i := Back None None]\<rparr>)"
    using lazy_step.leave [of i ?y3 None None] assms(3) by (simp add: get_leave_def markIdle_def)
  ultimately have "lazy_run ?y1 (?y3\<lparr>callers := (callers y)[i := Back None None]\<rparr>)"
    by (meson converse_rtranclp_into_rtranclp rtranclp.rtrancl_refl)
  then show ?thesis by simp
qed

text \<open>C36: the error of a failed dial can be lost. What \<^verbatim>\<open>get\<close> hands to a connection that was woken
  depends on where the loop is when the connection takes the lock again: the session while the tunnel
  is up, the error only until \<^verbatim>\<open>markIdle\<close> has run. So whenever a connection waits for a dial, that very
  dial may fail, close the channel the connection waits on, and be followed by its \<^verbatim>\<open>markIdle\<close>, and the
  connection, woken by nothing but this failure and with no other dial and no cancellation in between,
  gets neither a session nor the error. The method call on the nil session then panics, and the
  connection is left open.\<close>

theorem lazy_error_lost:
  assumes "lazy_run lazy_init y" "loop y = Dialing" "i < length (callers y)" "callers y ! i = Blocked c"
    and "c \<notin> set (lt_closed (tun y))"
  shows "(\<forall>z. lazy_run lazy_init z \<longrightarrow>
      ((\<exists>s. get_leave (tun z) = (Some s, None)) \<longleftrightarrow> loop z = Up) \<and>
      ((\<exists>e. get_leave (tun z) = (None, Some e)) \<longleftrightarrow> loop z = Failed)) \<and>
    (\<exists>t z. setFailed e (tun y) = Some t \<and> loop_step y (y\<lparr>loop := Failed, tun := t\<rparr>) \<and>
      lazy_run (y\<lparr>loop := Failed, tun := t\<rparr>) z \<and> lt_closed (tun z) = c # lt_closed (tun y) \<and>
      lt_next (tun z) = lt_next (tun y) + 1 \<and> cancelled z = cancelled y \<and>
      callers z ! i = Back None None \<and> serve_conn opened None None = PanickedOpen)"
proof -
  have inv: "lazy_inv y" by (rule lazy_run_inv [OF assms(1)])
  have c: "c = lt_ready (tun y)"
    using waiting_open(1) [OF inv, of c] assms(2-5) nth_mem [OF assms(3)] by simp
  then obtain t where t: "setFailed e (tun y) = Some t" using assms(5) by (auto simp: lazy_op_defs)
  let ?z = "y\<lparr>loop := Waiting, tun := markIdle t, callers := (callers y)[i := Back None None]\<rparr>"
  have "lazy_run (y\<lparr>loop := Failed, tun := t\<rparr>) ?z"
    using error_missed [OF inv assms(2,3) _ t] assms(4) c by simp
  moreover have "lt_closed (tun ?z) = c # lt_closed (tun y) \<and> lt_next (tun ?z) = lt_next (tun y) + 1"
    using t c by (auto simp: lazy_op_defs split: if_splits)
  moreover have "loop_step y (y\<lparr>loop := Failed, tun := t\<rparr>)" using assms(2) t by (rule loop_step.failed)
  moreover have "callers ?z ! i = Back None None \<and> serve_conn opened None None = PanickedOpen"
    using assms(3) by (simp add: serve_conn_def)
  ultimately have "\<exists>z. loop_step y (y\<lparr>loop := Failed, tun := t\<rparr>) \<and> lazy_run (y\<lparr>loop := Failed, tun := t\<rparr>) z \<and>
      lt_closed (tun z) = c # lt_closed (tun y) \<and> lt_next (tun z) = lt_next (tun y) + 1 \<and> cancelled z = cancelled y \<and>
      callers z ! i = Back None None \<and> serve_conn opened None None = PanickedOpen"
    by (intro exI [of _ ?z]) simp
  then show ?thesis using leave_result lazy_run_inv t by blast
qed

section \<open>Witnesses\<close>

definition one_waiting :: lazy_sys where
  "one_waiting = \<lparr>tun = newLazyTunnel\<lparr>lt_waking := True, lt_wake := True\<rparr>, callers = [Blocked 0], loop = Sleeping,
     cancelled = False\<rparr>"

lemma one_waiting_reached: "lazy_run lazy_init one_waiting"
  using lazy_step.accept [of lazy_init "Inr 0" "newLazyTunnel\<lparr>lt_waking := True, lt_wake := True\<rparr>"]
  by (simp add: lazy_init_def newLazyTunnel_def lazy_op_defs maxConcurrentStreams_def one_waiting_def r_into_rtranclp)

theorem lazy_wakeups_witness: "\<exists>z. loop_step one_waiting z \<and> loop z \<noteq> Ended"
  using lazy_wakeups [OF one_waiting_reached, of 0] by (simp add: one_waiting_def newLazyTunnel_def)

definition one_dialing :: lazy_sys where
  "one_dialing = \<lparr>tun = newLazyTunnel\<lparr>lt_waking := True\<rparr>, callers = [Blocked 0], loop = Dialing, cancelled = False\<rparr>"

lemma one_dialing_reached: "lazy_run lazy_init one_dialing"
proof -
  have "lazy_step one_waiting one_dialing"
    using lazy_step.run [OF loop_step.wake [of one_waiting]] by (simp add: newLazyTunnel_def one_waiting_def one_dialing_def)
  with one_waiting_reached show ?thesis by (rule rtranclp.rtrancl_into_rtrancl)
qed

theorem lazy_error_lost_witness:
  "\<exists>z. lazy_run lazy_init one_dialing \<and> lazy_run one_dialing z \<and> lt_closed (tun z) = [0] \<and> callers z ! 0 = Back None None"
proof -
  obtain t z where z: "loop_step one_dialing (one_dialing\<lparr>loop := Failed, tun := t\<rparr>)" "lazy_run (one_dialing\<lparr>loop := Failed, tun := t\<rparr>) z"
    "lt_closed (tun z) = [0]" "callers z ! 0 = Back None None"
    using lazy_error_lost [OF one_dialing_reached, of 0 0 "''refused''" True] by (auto simp: one_dialing_def newLazyTunnel_def)
  have "lazy_run one_dialing z" using lazy_step.run [OF z(1)] z(2) by (rule converse_rtranclp_into_rtranclp)
  with z one_dialing_reached show ?thesis by blast
qed

end
