(* ===== verification/PeerCache.thy ===== *)
theory PeerCache
  imports TrustStore Register
begin

text \<open>
  The offline peer cache of \<^verbatim>\<open>internal/peer\<close> and the \<^verbatim>\<open>.buddy\<close> names that are answered from it
  (\<^verbatim>\<open>internal/dns/resolver.go\<close> and \<^verbatim>\<open>handleBuddy\<close> of \<^verbatim>\<open>server.go\<close>).

  \<^verbatim>\<open>Upsert\<close> holds the write lock over the change and the file, so that it is one step. Rendering a
  list of values and reading one back are those of \<^verbatim>\<open>encoding/json\<close>; decoding a value into a peer
  is that of the protocol theory. \<^verbatim>\<open>strings.ToLower\<close> maps two runes outside ASCII to an ASCII letter,
  U+0130 and U+212A; other ones stay outside ASCII and are left as they are, as no name or
  fingerprint has any.
\<close>

section \<open>The cache\<close>

record cache =
  rg_path :: bytes
  rg_peers :: "(bytes, peer) gomap"
  nameByKey :: "(bytes, bytes) gomap"
  keyByName :: "(bytes, bytes) gomap"

record array_json =
  parse_array :: "bytes \<Rightarrow> jval option"
  indent_array :: "jval list \<Rightarrow> bytes"

definition empty_cache :: "bytes \<Rightarrow> cache" where
  "empty_cache path = \<lparr>rg_path = path, rg_peers = [], nameByKey = [], keyByName = []\<rparr>"

definition load_peer :: "peer \<Rightarrow> cache \<Rightarrow> cache" where
  "load_peer p r =
     (if pPubKey p = [] then r
      else let r = r\<lparr>rg_peers := mput (pPubKey p) p (rg_peers r)\<rparr> in
        if pName p \<noteq> []
        then r\<lparr>nameByKey := mput (pPubKey p) (pName p) (nameByKey r), keyByName := mput (pName p) (pPubKey p) (keyByName r)\<rparr>
        else r)"

definition read_peers :: "array_json \<Rightarrow> bytes \<Rightarrow> peer list option" where
  "read_peers A c = Option.bind (parse_array A c) (\<lambda>v. fill_array decode_peer zero_peer v [])"

definition Open :: "array_json \<Rightarrow> bytes \<Rightarrow> fs \<Rightarrow> trust_error + cache" where
  "Open A path f =
     (if path = [] then Inr (empty_cache path)
      else case read_file path f of
        Missing \<Rightarrow> Inr (empty_cache path)
      | Denied \<Rightarrow> Inl OpenFailure
      | Contents c \<Rightarrow>
          (case read_peers A c of
             None \<Rightarrow> Inr (empty_cache path)
           | Some ps \<Rightarrow> Inr (fold load_peer ps (empty_cache path))))"

definition pinNameLocked :: "bytes \<Rightarrow> bytes \<Rightarrow> cache \<Rightarrow> bytes \<times> cache" where
  "pinNameLocked key name r =
     (let pin = (name, r\<lparr>nameByKey := mput key name (nameByKey r), keyByName := mput name key (keyByName r)\<rparr>) in
      if name = [] then (case mget (nameByKey r) key of None \<Rightarrow> ([], r) | Some n \<Rightarrow> (n, r))
      else case mget (nameByKey r) key of
        Some n \<Rightarrow> (n, r)
      | None \<Rightarrow>
          (case mget (keyByName r) name of
             Some owner \<Rightarrow> if owner \<noteq> key then ([], r) else pin
           | None \<Rightarrow> pin))"

text \<open>The order of entries with the same ID is open in the code; here it is that of the map.\<close>

definition list_cache :: "cache \<Rightarrow> peer list" where
  "list_cache r = sort_key pID (map snd (rg_peers r))"

definition Get :: "bytes \<Rightarrow> cache \<Rightarrow> peer option" where
  "Get key r = mget (rg_peers r) key"

definition save_cache :: "array_json \<Rightarrow> bool \<Rightarrow> cache \<Rightarrow> fs \<Rightarrow> trust_error option \<times> fs" where
  "save_cache A mkdir r f =
     (if rg_path r = [] then (None, f)
      else if \<not> mkdir then (Some SaveFailure, f)
      else write_file (rg_path r) (indent_array A (map peer_value (list_cache r))) f)"

definition stamp :: "time \<Rightarrow> peer \<Rightarrow> peer" where
  "stamp now p = (if LastSeen p = 0 then p\<lparr>LastSeen := unix_seconds now\<rparr> else p)"

definition learn :: "time \<Rightarrow> peer \<Rightarrow> cache \<Rightarrow> cache" where
  "learn now p r =
     (let (name, r) = pinNameLocked (pPubKey p) (pName p) r
      in r\<lparr>rg_peers := mput (pPubKey p) ((stamp now p)\<lparr>pName := name\<rparr>) (rg_peers r)\<rparr>)"

definition Upsert :: "array_json \<Rightarrow> bool \<Rightarrow> time \<Rightarrow> peer \<Rightarrow> cache \<times> fs \<Rightarrow> trust_error option \<times> cache \<times> fs" where
  "Upsert A mkdir now p rf =
     (let r = learn now p (fst rf); (e, f) = save_cache A mkdir r (snd rf) in (e, r, f))"

text \<open>\<^verbatim>\<open>rememberPeer\<close> of \<^verbatim>\<open>connect.go\<close>: a failed write is only logged.\<close>

definition rememberPeer :: "array_json \<Rightarrow> bool \<Rightarrow> time \<Rightarrow> peer \<Rightarrow> cache \<times> fs \<Rightarrow> cache \<times> fs" where
  "rememberPeer A mkdir now p rf = (if pPubKey p = [] then rf else snd (Upsert A mkdir now p rf))"

definition Fresh :: "time \<Rightarrow> peer \<Rightarrow> duration \<Rightarrow> bool" where
  "Fresh now p ttl \<longleftrightarrow> LastSeen p \<noteq> 0 \<and> now - LastSeen p * second \<le> ttl"

section \<open>Names\<close>

definition buddyTLD :: bytes where "buddyTLD = ''.buddy''"

definition HasSuffix :: "bytes \<Rightarrow> bytes \<Rightarrow> bool" where
  "HasSuffix s suf \<longleftrightarrow> length suf \<le> length s \<and> drop (length s - length suf) s = suf"

definition TrimSuffix :: "bytes \<Rightarrow> bytes \<Rightarrow> bytes" where
  "TrimSuffix s suf = (if HasSuffix s suf then take (length s - length suf) s else s)"

fun ToLower :: "bytes \<Rightarrow> bytes" where
  "ToLower [] = []"
| "ToLower (c # cs) =
     (if c = CHR 0xC4 \<and> take 1 cs = [CHR 0xB0] then CHR ''i'' # ToLower (drop 1 cs)
      else if c = CHR 0xE2 \<and> take 2 cs = [CHR 0x84, CHR 0xAA] then CHR ''k'' # ToLower (drop 2 cs)
      else lower c # ToLower cs)"

definition Resolve :: "(bytes, netaddr) gomap \<Rightarrow> bytes \<Rightarrow> netaddr option" where
  "Resolve table qname =
     (let q = TrimSuffix (ToLower qname) ''.'' in
      if \<not> HasSuffix q buddyTLD then None
      else let q = TrimSuffix q buddyTLD in
        if q = [] \<or> CHR ''.'' \<in> set q then None else mget table q)"

definition fingerprint :: "crypto \<Rightarrow> bytes \<Rightarrow> bytes" where
  "fingerprint C key = take 8 (hex_encode (sha256 C key))"

definition add_peer :: "crypto \<Rightarrow> peer \<Rightarrow> (bytes, netaddr) gomap \<Rightarrow> (bytes, netaddr) gomap" where
  "add_peer C p t =
     (case ParseAddr (pVirtualIP p) of
        None \<Rightarrow> t
      | Some ip \<Rightarrow> mput (fingerprint C (pPubKey p)) ip (if pName p \<noteq> [] then mput (pName p) ip t else t))"

definition BuildTable :: "crypto \<Rightarrow> peer list \<Rightarrow> bytes \<Rightarrow> netaddr option \<Rightarrow> (bytes, netaddr) gomap" where
  "BuildTable C peers selfName selfIP =
     (let t = fold (add_peer C) peers [] in
      case selfIP of
        None \<Rightarrow> t
      | Some ip \<Rightarrow> if selfName \<noteq> [] then mput selfName ip t else t)"

datatype dns_reply = NoQuestion | NXDomain | Answer bytes netaddr

datatype qtype = TypeA | TypeOther

definition handleBuddy :: "crypto \<Rightarrow> cache \<Rightarrow> bytes \<Rightarrow> netaddr option \<Rightarrow> (bytes \<times> qtype) list \<Rightarrow> dns_reply" where
  "handleBuddy C r selfName selfIP questions =
     (case questions of
        [] \<Rightarrow> NoQuestion
      | (name, ty) # _ \<Rightarrow>
          if ty \<noteq> TypeA then NXDomain
          else case Resolve (BuildTable C (list_cache r) selfName selfIP) name of
            None \<Rightarrow> NXDomain
          | Some ip \<Rightarrow> Answer name ip)"

end
