(* ===== verification/Paths.thy ===== *)
theory Paths
  imports PeerCache Attempts
begin

text \<open>
  The ways to a partner: the fallback chain of \<^verbatim>\<open>internal/relay/fallback.go\<close>, which relay a buddy
  binds to (\<^verbatim>\<open>internal/role/relaytrust.go\<close>), direct mode (\<^verbatim>\<open>direct.go\<close>), hole punching
  (\<^verbatim>\<open>internal/tunnel/nat.go\<close>), and how the chain is walked (\<^verbatim>\<open>connect.go\<close> and \<^verbatim>\<open>wgpath.go\<close>).

  Name resolution, the datagrams that arrive, the answer of a relay and the outcome of a QUIC
  handshake are inputs. A session is what the rest of the program uses of it: the address of the
  other end and the keying material exported from TLS.
\<close>

section \<open>Configuration\<close>

text \<open>The options of \<^verbatim>\<open>BuddyConfig\<close> that an attempt reads, on top of those the reconnect loop reads.\<close>

record conn_cfg = buddy_cfg +
  Server :: bytes
  PeerEndpoint :: bytes
  PeerRelay :: bytes
  ListenPort :: nat
  WireGuard :: bool
  Interactive :: bool
  SASShow :: bool
  Inviting :: bool
  ExposeFlag :: "scope option"

section \<open>The fallback chain\<close>

datatype kind = DirectPath | Relayed | Configured

record path =
  Kind :: kind
  pathCands :: "candidate list"
  RelayEndpoint :: bytes
  Endpoint :: bytes

definition direct_path :: "candidate list \<Rightarrow> path" where
  "direct_path cs = \<lparr>Kind = DirectPath, pathCands = cs, RelayEndpoint = [], Endpoint = []\<rparr>"

definition relay_path :: "bytes \<Rightarrow> path" where
  "relay_path e = \<lparr>Kind = Relayed, pathCands = [], RelayEndpoint = e, Endpoint = []\<rparr>"

definition configured_path :: "bytes \<Rightarrow> path" where
  "configured_path e = \<lparr>Kind = Configured, pathCands = [], RelayEndpoint = [], Endpoint = e\<rparr>"

definition DirectChain :: "bytes \<Rightarrow> bytes \<Rightarrow> path list" where
  "DirectChain endpoint relayEndpoint =
     configured_path endpoint # (if relayEndpoint \<noteq> [] then [relay_path relayEndpoint] else [])"

text \<open>The endpoints of the offers stand for the messages; the only caller passes none.\<close>

definition Chain :: "peer \<Rightarrow> bytes list \<Rightarrow> bytes \<Rightarrow> peer option \<Rightarrow> path list" where
  "Chain partner offers serverRelay cached =
     (if Candidates partner \<noteq> [] then [direct_path (Candidates partner)] else []) @
     map relay_path (filter (\<lambda>e. e \<noteq> []) offers) @
     (if serverRelay \<noteq> [] then [relay_path serverRelay] else []) @
     (case cached of
        None \<Rightarrow> []
      | Some c \<Rightarrow> if Candidates partner = [] \<and> Candidates c \<noteq> [] then [direct_path (Candidates c)] else [])"

section \<open>Which relay\<close>

definition SplitHostPort :: "bytes \<Rightarrow> (bytes \<times> bytes) option" where
  "SplitHostPort s =
     (if CHR '':'' \<notin> set s then None
      else let port = rev (takeWhile (\<lambda>c. c \<noteq> CHR '':'') (rev s));
               before = take (length s - length port - 1) s in
        if hd s = CHR ''[''
        then let inner = takeWhile (\<lambda>c. c \<noteq> CHR '']'') s in
          if length inner = length s \<or> length inner + 1 \<noteq> length before then None
          else if CHR ''['' \<in> set (tl s) \<or> CHR '']'' \<in> set (drop (length inner + 1) s) then None
          else Some (tl inner, port)
        else if CHR '':'' \<in> set before \<or> CHR ''['' \<in> set s \<or> CHR '']'' \<in> set s then None
        else Some (before, port))"

fun addr_String :: "netaddr \<Rightarrow> bytes" where
  "addr_String (Addr4 ip) = dotted ip"
| "addr_String (Addr6 ip zone) = text6 ip @ (if zone = [] then [] else ''%'' @ zone)"

definition hostOf :: "bytes \<Rightarrow> bytes option" where
  "hostOf hostport =
     (case SplitHostPort hostport of
        None \<Rightarrow> None
      | Some (host, _) \<Rightarrow>
          (let host = ToLower (TrimSuffix host ''.'') in
           Some (case ParseAddr host of None \<Rightarrow> host | Some ip \<Rightarrow> addr_String (addr_Unmap ip))))"

datatype skip_reason = NotHostPort | NoServerHost | OtherHost

record relayOffer =
  ro_endpoint :: bytes
  ro_skipped :: bytes
  ro_reason :: "skip_reason option"

definition no_offer :: relayOffer where
  "no_offer = \<lparr>ro_endpoint = [], ro_skipped = [], ro_reason = None\<rparr>"

definition trustedRelay :: "bytes \<Rightarrow> bytes \<Rightarrow> bytes \<Rightarrow> relayOffer" where
  "trustedRelay loc server advertised =
     (let skip = (\<lambda>why. no_offer\<lparr>ro_skipped := advertised, ro_reason := Some why\<rparr>) in
      if loc \<noteq> [] then no_offer\<lparr>ro_endpoint := loc\<rparr>
      else if advertised = [] then no_offer
      else case hostOf advertised of
        None \<Rightarrow> skip NotHostPort
      | Some aHost \<Rightarrow>
          (case hostOf server of
             None \<Rightarrow> skip NoServerHost
           | Some sHost \<Rightarrow>
               if sHost = [] then skip NoServerHost
               else if aHost \<noteq> sHost then skip OtherHost
               else no_offer\<lparr>ro_endpoint := advertised\<rparr>))"

definition maxRelayOfferLatch :: nat where "maxRelayOfferLatch = 64"

text \<open>The values already logged, and whether this one is logged now.\<close>

definition noteSkipped :: "relayOffer \<Rightarrow> bytes list \<Rightarrow> bool \<times> bytes list" where
  "noteSkipped off seen =
     (if ro_skipped off = [] then (False, seen)
      else if ro_skipped off \<in> set seen then (False, seen)
      else (True, if length seen < maxRelayOfferLatch then seen @ [ro_skipped off] else seen))"

section \<open>Direct mode\<close>

datatype direct_error = DirectNoPeerKey | DirectBadKey | DirectNoPath | BadHostPort bytes | MissingHost bytes | BadPort bytes

definition directPartner :: "crypto \<Rightarrow> 'a conn_cfg_scheme \<Rightarrow> direct_error + peer" where
  "directPartner C cfg =
     (if PeerKey cfg = [] then Inl DirectNoPeerKey
      else case DecodePubKey (PeerKey cfg) of
        None \<Rightarrow> Inl DirectBadKey
      | Some pub \<Rightarrow>
          Inr (zero_peer\<lparr>pID := keyTag (PeerKey cfg), pPubKey := PubKeyB64 pub, pVirtualIP := VirtualIPString C pub\<rparr>))"

definition directListening :: "'a conn_cfg_scheme \<Rightarrow> bytes \<Rightarrow> bytes \<Rightarrow> bool" where
  "directListening cfg myPub peerPub =
     (let canDial = (PeerEndpoint cfg \<noteq> []); canListen = (ListenPort cfg \<noteq> 0) in
      if canDial \<and> canListen then myPub < peerPub
      else if canListen then True
      else False)"

text \<open>Service names are looked up by the resolver, an input.\<close>

definition validateHostPort :: "(bytes \<Rightarrow> bool) \<Rightarrow> bytes \<Rightarrow> bytes \<Rightarrow> direct_error option" where
  "validateHostPort lookup_port what addr =
     (if addr = [] then None
      else case SplitHostPort addr of
        None \<Rightarrow> Some (BadHostPort what)
      | Some (host, port) \<Rightarrow>
          if host = [] then Some (MissingHost what)
          else if \<not> lookup_port port then Some (BadPort what)
          else None)"

definition validateDirect :: "(bytes \<Rightarrow> bool) \<Rightarrow> 'a conn_cfg_scheme \<Rightarrow> direct_error option" where
  "validateDirect lookup_port cfg =
     (case validateHostPort lookup_port ''--peer-relay'' (PeerRelay cfg) of
        Some e \<Rightarrow> Some e
      | None \<Rightarrow>
          if \<not> Direct cfg then None
          else if PeerKey cfg = [] then Some DirectNoPeerKey
          else if PeerEndpoint cfg = [] \<and> ListenPort cfg = 0 then Some DirectNoPath
          else validateHostPort lookup_port ''--peer-endpoint'' (PeerEndpoint cfg))"

section \<open>Hole punching\<close>

definition punchPrefix :: bytes where "punchPrefix = ''BNPNCH1''"

datatype path_error =
    NoCandidates | NothingReachable | ResolveEndpoint | ResolveRelay | RelayBindFailed | QuicFailed | NoUsablePath

definition note_reachable :: "udpaddr \<times> bytes \<Rightarrow> (bytes, udpaddr) gomap \<Rightarrow> (bytes, udpaddr) gomap" where
  "note_reachable d m = (if HasPrefix (snd d) punchPrefix then mput (UDPAddr_String (fst d)) (fst d) m else m)"

text \<open>The choice over the map of those heard: the first IPv6 address in iteration order, else the
  last address.\<close>

fun pick_reachable :: "udpaddr list \<Rightarrow> udpaddr option \<Rightarrow> udpaddr option" where
  "pick_reachable [] v4 = v4"
| "pick_reachable (a # as) v4 = (if To4 (IP a) = None then Some a else pick_reachable as (Some a))"

text \<open>\<open>dgs\<close> are the datagrams that come in before the deadline. The loop reads all of them.\<close>

definition Punch :: "(bytes \<Rightarrow> udpaddr option) \<Rightarrow> candidate list \<Rightarrow> (udpaddr \<times> bytes) list \<Rightarrow> path_error + udpaddr" where
  "Punch res cs dgs =
     (if list_all (\<lambda>c. res (Addr c) = None) cs then Inl NoCandidates
      else case pick_reachable (map snd (fold note_reachable dgs [])) None of
        None \<Rightarrow> Inl NothingReachable
      | Some a \<Rightarrow> Inr a)"

section \<open>Walking the chain\<close>

record session =
  se_remote :: bytes
  se_ekm :: "bytes \<Rightarrow> bytes \<Rightarrow> nat \<Rightarrow> bytes option"

text \<open>What the network does during one walk: the resolver, the datagrams heard while punching to
  some candidates, the relay's answer to a bind under a session id, and the session a handshake with
  the pinned partner ends in, on a path with an endpoint.\<close>

record net =
  resolve :: "bytes \<Rightarrow> udpaddr option"
  heard :: "candidate list \<Rightarrow> (udpaddr \<times> bytes) list"
  bind_leg :: "udpaddr \<Rightarrow> bytes \<Rightarrow> bool"
  handshake :: "path \<Rightarrow> bytes \<Rightarrow> session option"

definition primeOne :: "net \<Rightarrow> bytes \<Rightarrow> path \<Rightarrow> path_error + udpaddr option" where
  "primeOne N sid p =
     (case Kind p of
        DirectPath \<Rightarrow> map_sum id Some (Punch (resolve N) (pathCands p) (heard N (pathCands p)))
      | Configured \<Rightarrow>
          if Endpoint p = [] then Inr None
          else (case resolve N (Endpoint p) of None \<Rightarrow> Inl ResolveEndpoint | Some a \<Rightarrow> Inr (Some a))
      | Relayed \<Rightarrow>
          (case resolve N (RelayEndpoint p) of
             None \<Rightarrow> Inl ResolveRelay
           | Some a \<Rightarrow> if bind_leg N a sid then Inr (Some a) else Inl RelayBindFailed))"

definition primePath :: "net \<Rightarrow> bytes \<Rightarrow> path \<Rightarrow> path_error + bytes" where
  "primePath N sid p = map_sum id (\<lambda>a. case a of None \<Rightarrow> [] | Some a \<Rightarrow> UDPAddr_String a) (primeOne N sid p)"

fun dial_loop :: "net \<Rightarrow> bytes \<Rightarrow> path list \<Rightarrow> path_error \<Rightarrow> path_error + session \<times> path" where
  "dial_loop N sid [] lastErr = Inl lastErr"
| "dial_loop N sid (p # ps) lastErr =
     (case primePath N sid p of
        Inl e \<Rightarrow> dial_loop N sid ps e
      | Inr endpoint \<Rightarrow>
          (case handshake N p endpoint of
             None \<Rightarrow> dial_loop N sid ps QuicFailed
           | Some s \<Rightarrow> Inr (s, p)))"

definition dialChain :: "net \<Rightarrow> bytes \<Rightarrow> path list \<Rightarrow> path_error + session \<times> path" where
  "dialChain N sid chain = dial_loop N sid chain NoUsablePath"

text \<open>Arming every path: the addresses primed, and the last error.\<close>

fun arm_loop :: "net \<Rightarrow> bytes \<Rightarrow> path list \<Rightarrow> (bytes, path) gomap \<times> path_error option \<Rightarrow> (bytes, path) gomap \<times> path_error option" where
  "arm_loop N sid [] acc = acc"
| "arm_loop N sid (p # ps) (primed, lastErr) =
     (case primeOne N sid p of
        Inl e \<Rightarrow> arm_loop N sid ps (primed, Some e)
      | Inr None \<Rightarrow> arm_loop N sid ps (primed, lastErr)
      | Inr (Some a) \<Rightarrow> arm_loop N sid ps (mput (UDPAddr_String a) p primed, lastErr))"

text \<open>The listener serves all paths at once; the handshake is made on the first path's listener.\<close>

definition listenAllPaths :: "net \<Rightarrow> bytes \<Rightarrow> path list \<Rightarrow> path_error + session \<times> path" where
  "listenAllPaths N sid chain =
     (case arm_loop N sid chain ([], None) of
        (primed, lastErr) \<Rightarrow>
          if primed = [] \<and> lastErr \<noteq> None \<and> length chain > 1 then Inl (the lastErr)
          else case handshake N (hd chain) [] of
            None \<Rightarrow> Inl QuicFailed
          | Some s \<Rightarrow> Inr (s, case mget primed (se_remote s) of None \<Rightarrow> hd chain | Some p \<Rightarrow> p))"

fun prime_loop :: "net \<Rightarrow> bytes \<Rightarrow> path list \<Rightarrow> path_error \<Rightarrow> path_error + udpaddr option \<times> path" where
  "prime_loop N sid [] lastErr = Inl lastErr"
| "prime_loop N sid (p # ps) lastErr =
     (case primeOne N sid p of Inl e \<Rightarrow> prime_loop N sid ps e | Inr a \<Rightarrow> Inr (a, p))"

definition primeWGPath :: "net \<Rightarrow> bytes \<Rightarrow> path list \<Rightarrow> path_error + udpaddr option \<times> path" where
  "primeWGPath N sid chain = prime_loop N sid chain NoUsablePath"

definition armWGPaths :: "net \<Rightarrow> bytes \<Rightarrow> path list \<Rightarrow> path_error + path" where
  "armWGPaths N sid chain =
     (let rs = map (primeOne N sid) chain; errs = filter isl rs in
      if length errs = length rs \<and> errs \<noteq> [] then Inl (projl (List.last errs)) else Inr (hd chain))"

definition sessionToken :: "crypto \<Rightarrow> bytes \<Rightarrow> bytes \<Rightarrow> bytes \<Rightarrow> bytes" where
  "sessionToken C tok pubA pubB =
     (let (lo, hi) = (if pubB < pubA then (pubB, pubA) else (pubA, pubB))
      in b64url_encode (take 16 (sha256 C (tok @ [CHR 0x00] @ lo @ [CHR 0x00] @ hi))))"

section \<open>Exposure\<close>

definition effectiveScopeOf :: "'a conn_cfg_scheme \<Rightarrow> scope option \<Rightarrow> scope" where
  "effectiveScopeOf cfg perBuddy =
     (case perBuddy of
        Some s \<Rightarrow> s
      | None \<Rightarrow> (case ExposeFlag cfg of Some s \<Rightarrow> s | None \<Rightarrow> \<lparr>All = False, Ports = []\<rparr>))"

definition effectiveScope :: "'a conn_cfg_scheme \<Rightarrow> conn_attempt \<Rightarrow> scope" where
  "effectiveScope cfg att = effectiveScopeOf cfg (at_expose att)"

end
