(* ===== verification/Sas.thy ===== *)
theory Sas
  imports Keys NetText "HOL-Library.Word"
begin

unbundle bit_operations_syntax

text \<open>
  First contact: the short authentication string of \<^verbatim>\<open>internal/role/sas.go\<close>, the binding exchange of
  \<^verbatim>\<open>binding.go\<close> that stands in for TLS keying material on the WireGuard path, and its transport over
  the punched socket, \<^verbatim>\<open>runBindingOverConn\<close> of \<^verbatim>\<open>wgpath.go\<close>.

  What a human types is an input. \<^verbatim>\<open>strings.ToUpper\<close> maps two runes outside ASCII to an ASCII
  letter, U+0131 and U+017F; the other ones stay outside ASCII, and as the code they are compared
  with is ASCII, they are left as they are. Hashes and curves are parameters.
\<close>

section \<open>The code\<close>

definition sasLabel :: bytes where "sasLabel = ''buddynet-sas-v1''"

definition sasAlphabet :: bytes where "sasAlphabet = ''0123456789ABCDEFGHJKMNPQRSTVWXYZ''"

text \<open>The two values in byte order, as \<^verbatim>\<open>bytes.Compare\<close> has it.\<close>

definition in_order :: "bytes \<Rightarrow> bytes \<Rightarrow> bytes \<times> bytes" where
  "in_order a b = (if a > b then (b, a) else (a, b))"

definition sasDigest :: "crypto \<Rightarrow> bytes \<Rightarrow> bytes \<Rightarrow> bytes \<Rightarrow> bytes" where
  "sasDigest C myPub peerPub sessionID =
     (let (a, b) = in_order myPub peerPub in sha256 C (a @ b @ sessionID))"

definition be32 :: "bytes \<Rightarrow> 32 word" where
  "be32 s = push_bit 24 (of_char (s ! 0)) OR push_bit 16 (of_char (s ! 1)) OR push_bit 8 (of_char (s ! 2)) OR of_char (s ! 3)"

fun sas_loop :: "nat \<Rightarrow> 32 word \<Rightarrow> bytes \<Rightarrow> bytes" where
  "sas_loop 0 v out = out"
| "sas_loop (Suc n) v out = sas_loop n (drop_bit 5 v) (sasAlphabet ! unat (v AND 31) # out)"

definition ComputeSAS :: "crypto \<Rightarrow> bytes \<Rightarrow> bytes \<Rightarrow> bytes \<Rightarrow> bytes" where
  "ComputeSAS C myPub peerPub sessionID = sas_loop 6 (be32 (sasDigest C myPub peerPub sessionID)) []"

section \<open>What the human types\<close>

fun ToUpper :: "bytes \<Rightarrow> bytes" where
  "ToUpper [] = []"
| "ToUpper (c # cs) =
     (if c = CHR 0xC4 \<and> take 1 cs = [CHR 0xB1] then CHR ''I'' # ToUpper (drop 1 cs)
      else if c = CHR 0xC5 \<and> take 1 cs = [CHR 0xBF] then CHR ''S'' # ToUpper (drop 1 cs)
      else upper c # ToUpper cs)"

definition sas_separators :: bytes where
  "sas_separators = [CHR '' '', CHR ''-'', CHR 0x09, CHR 0x0D, CHR 0x0A]"

definition normalize_char :: "char \<Rightarrow> bytes" where
  "normalize_char c =
     (if c \<in> set sas_separators then []
      else if c = CHR ''O'' then ''0''
      else if c = CHR ''I'' \<or> c = CHR ''L'' then ''1''
      else [c])"

definition normalizeSAS :: "bytes \<Rightarrow> bytes" where
  "normalizeSAS s = concat (map normalize_char (ToUpper s))"

definition sasMatches :: "bytes \<Rightarrow> bytes \<Rightarrow> bool" where
  "sasMatches typed expected \<longleftrightarrow> normalizeSAS typed = expected"

text \<open>How reading the line ends: past the deadline, at the end of the input with what was read, or
  with a whole line.\<close>

datatype stdin_read = Deadline | Eof bytes | FullLine bytes

datatype sas_error = ErrSASRejected | ErrSASTimeout

definition readSASLine :: "stdin_read \<Rightarrow> sas_error + bytes" where
  "readSASLine r =
     (case r of
        Deadline \<Rightarrow> Inl ErrSASTimeout
      | Eof line \<Rightarrow> if line \<noteq> [] then Inr line else Inl ErrSASRejected
      | FullLine line \<Rightarrow> Inr line)"

text \<open>The code that is on the screen, and the verdict. The inviting side does not see its own
  code.\<close>

definition check_line :: "bytes \<Rightarrow> stdin_read \<Rightarrow> sas_error option" where
  "check_line sas r =
     (case readSASLine r of
        Inl e \<Rightarrow> Some e
      | Inr line \<Rightarrow> if sasMatches line sas then None else Some ErrSASRejected)"

definition PromptSAS :: "bytes \<Rightarrow> stdin_read \<Rightarrow> bytes option \<times> sas_error option" where
  "PromptSAS sas r = (Some sas, check_line sas r)"

definition PromptSASBlind :: "bytes \<Rightarrow> stdin_read \<Rightarrow> bytes option \<times> sas_error option" where
  "PromptSASBlind sas r = (None, check_line sas r)"

definition promptSAS :: "bytes \<Rightarrow> bool \<Rightarrow> stdin_read \<Rightarrow> bytes option \<times> sas_error option" where
  "promptSAS sas blind r = (if blind then PromptSASBlind sas r else PromptSAS sas r)"

definition ShowSAS :: "bytes \<Rightarrow> bytes option" where
  "ShowSAS sas = Some sas"

section \<open>The binding exchange\<close>

definition bindLabel :: bytes where "bindLabel = ''buddynet-bind-v1''"

definition Basepoint :: bytes where "Basepoint = CHR 0x09 # replicate 31 CHR 0x00"

datatype bind_error = BindRandom | BindCurve | BindSend | BindRecv | BadEphemeral | BadCommitment | CommitMismatch

text \<open>Which sends succeed and what the receives return, in the order in which one end makes
  them.\<close>

record bind_io =
  send1 :: bool
  send2 :: bool
  recv1 :: "bytes option"
  recv2 :: "bytes option"

definition bind_text :: "curves \<Rightarrow> bytes \<Rightarrow> bytes \<Rightarrow> bytes \<Rightarrow> bytes option" where
  "bind_text X ePriv ePub peerPub =
     (case x25519 X ePriv peerPub of
        None \<Rightarrow> None
      | Some shared \<Rightarrow> (let (lo, hi) = in_order ePub peerPub in Some (bindLabel @ lo @ hi @ shared)))"

definition bind_value :: "crypto \<Rightarrow> curves \<Rightarrow> bytes \<Rightarrow> bytes \<Rightarrow> bytes \<Rightarrow> bind_error + bytes" where
  "bind_value C X ePriv ePub peerPub =
     (case bind_text X ePriv ePub peerPub of None \<Rightarrow> Inl BindCurve | Some t \<Rightarrow> Inr (sha256 C t))"

definition RunBinding :: "crypto \<Rightarrow> curves \<Rightarrow> bool \<Rightarrow> bytes option \<Rightarrow> bind_io \<Rightarrow> bind_error + bytes" where
  "RunBinding C X committer rnd io =
     (case rnd of
        None \<Rightarrow> Inl BindRandom
      | Some ePriv \<Rightarrow>
     (case x25519 X ePriv Basepoint of
        None \<Rightarrow> Inl BindCurve
      | Some ePub \<Rightarrow>
          if committer
          then (if \<not> send1 io then Inl BindSend
                else case recv1 io of
                  None \<Rightarrow> Inl BindRecv
                | Some peerPub \<Rightarrow>
                    if length peerPub \<noteq> 32 then Inl BadEphemeral
                    else if \<not> send2 io then Inl BindSend
                    else bind_value C X ePriv ePub peerPub)
          else (case recv1 io of
                  None \<Rightarrow> Inl BindRecv
                | Some commit \<Rightarrow>
                    if length commit \<noteq> 32 then Inl BadCommitment
                    else if \<not> send1 io then Inl BindSend
                    else case recv2 io of
                      None \<Rightarrow> Inl BindRecv
                    | Some peerPub \<Rightarrow>
                        if length peerPub \<noteq> 32 then Inl BadEphemeral
                        else if sha256 C peerPub \<noteq> commit then Inl CommitMismatch
                        else bind_value C X ePriv ePub peerPub)))"

section \<open>The exchange over the socket\<close>

definition bindFramePrefix :: bytes where "bindFramePrefix = ''BNBIND1''"

datatype sock_event = ReadTimeout | Datagram udpaddr bytes

definition IP_Equal :: "ipaddr \<Rightarrow> ipaddr \<Rightarrow> bool" where
  "IP_Equal a b =
     (if length a = length b then a = b
      else if length a = 4 \<and> length b = 16 then v4_in_v6_prefix @ a = b
      else if length a = 16 \<and> length b = 4 then a = v4_in_v6_prefix @ b else False)"

definition udpAddrEqual :: "udpaddr \<Rightarrow> udpaddr \<Rightarrow> bool" where
  "udpAddrEqual a b \<longleftrightarrow> Port a = Port b \<and> IP_Equal (IP a) (IP b)"

text \<open>One receive over the events up to the deadline: the message, the events left, and how often
  the last message was sent again.\<close>

fun recv_binding :: "udpaddr \<Rightarrow> sock_event list \<Rightarrow> bytes option \<times> sock_event list \<times> nat" where
  "recv_binding remote [] = (None, [], 0)"
| "recv_binding remote (ReadTimeout # es) = (let (m, es, k) = recv_binding remote es in (m, es, Suc k))"
| "recv_binding remote (Datagram src pkt # es) =
     (let buf = take 1500 pkt in
      if \<not> udpAddrEqual src remote then recv_binding remote es
      else if \<not> HasPrefix buf bindFramePrefix then recv_binding remote es
      else (Some (drop (length bindFramePrefix) buf), es, 0))"

definition binding_io :: "bool \<Rightarrow> bool \<Rightarrow> udpaddr \<Rightarrow> sock_event list \<Rightarrow> bind_io" where
  "binding_io ok1 ok2 remote es =
     (let (m1, es, k1) = recv_binding remote es; (m2, es, k2) = recv_binding remote es
      in \<lparr>send1 = ok1, send2 = ok2, recv1 = m1, recv2 = m2\<rparr>)"

definition frame :: "bytes \<Rightarrow> bytes" where
  "frame m = bindFramePrefix @ m"

text \<open>The datagrams one end writes: every message once, and the last one again at each timeout
  while it waits.\<close>

definition bind_frames :: "crypto \<Rightarrow> curves \<Rightarrow> bytes option \<Rightarrow> bool \<Rightarrow> bool \<Rightarrow> udpaddr \<Rightarrow> bool \<Rightarrow> sock_event list \<Rightarrow> bytes list" where
  "bind_frames C X rnd ok1 ok2 remote committer es =
     (case Option.bind rnd (\<lambda>ePriv. x25519 X ePriv Basepoint) of
        None \<Rightarrow> []
      | Some ePub \<Rightarrow>
          let (m1, es, k1) = recv_binding remote es; (m2, es, k2) = recv_binding remote es in
          if \<not> ok1 then []
          else if committer
          then replicate (Suc k1) (frame (sha256 C ePub)) @
               (case m1 of None \<Rightarrow> [] | Some peerPub \<Rightarrow> if length peerPub = 32 \<and> ok2 then [frame ePub] else [])
          else (case m1 of None \<Rightarrow> [] | Some commit \<Rightarrow> if length commit = 32 then replicate (Suc k2) (frame ePub) else []))"

definition runBindingOverConn ::
  "crypto \<Rightarrow> curves \<Rightarrow> bytes option \<Rightarrow> bool \<Rightarrow> bool \<Rightarrow> udpaddr \<Rightarrow> bool \<Rightarrow> sock_event list \<Rightarrow> (bind_error + bytes) \<times> bytes list" where
  "runBindingOverConn C X rnd ok1 ok2 remote committer es =
     (RunBinding C X committer rnd (binding_io ok1 ok2 remote es), bind_frames C X rnd ok1 ok2 remote committer es)"

section \<open>Properties of the code\<close>

lemma in_order_comm: "in_order a b = in_order b a"
  by (auto simp: in_order_def)

lemma sasDigest_comm: "sasDigest C a b sid = sasDigest C b a sid"
  by (simp add: sasDigest_def in_order_comm [of a b])

lemma sasAlphabet_distinct: "distinct sasAlphabet" and sasAlphabet_length: "length sasAlphabet = 32"
  by code_simp+

lemma low5: "unat ((v :: 32 word) AND 31) = unat (take_bit 5 v)"
  by (simp add: take_bit_eq_mask mask_eq_exp_minus_1)

lemma low5_bound: "unat (take_bit 5 (v :: 32 word)) < 32"
  using take_bit_nat_less_exp [of 5 "unat v"] by (simp add: unsigned_take_bit_eq)

lemma sas_letter_eq:
  "sasAlphabet ! unat ((v :: 32 word) AND 31) = sasAlphabet ! unat (w AND 31) \<longleftrightarrow> take_bit 5 v = take_bit 5 w"
  unfolding low5 using low5_bound [of v] low5_bound [of w] sasAlphabet_distinct sasAlphabet_length
  by (metis nth_eq_iff_index_eq unsigned_word_eqI)

lemma take_bit_split:
  "take_bit (5 + m) (v :: 32 word) = take_bit (5 + m) w \<longleftrightarrow>
   take_bit 5 v = take_bit 5 w \<and> take_bit m (drop_bit 5 v) = take_bit m (drop_bit 5 w)"
proof
  assume l: "take_bit (5 + m) v = take_bit (5 + m) w"
  have "take_bit 5 v = take_bit 5 w"
    using arg_cong [OF l, of "take_bit 5"] by simp
  moreover have "take_bit m (drop_bit 5 v) = take_bit m (drop_bit 5 w)"
    using arg_cong [OF l, of "drop_bit 5"] by (simp add: drop_bit_take_bit)
  ultimately show "take_bit 5 v = take_bit 5 w \<and> take_bit m (drop_bit 5 v) = take_bit m (drop_bit 5 w)" ..
next
  assume r: "take_bit 5 v = take_bit 5 w \<and> take_bit m (drop_bit 5 v) = take_bit m (drop_bit 5 w)"
  show "take_bit (5 + m) v = take_bit (5 + m) w"
  proof (rule bit_eqI)
    fix n
    show "bit (take_bit (5 + m) v) n = bit (take_bit (5 + m) w) n"
    proof (cases "n < 5")
      case True
      then show ?thesis
        using arg_cong [OF conjunct1 [OF r], of "\<lambda>x. bit x n"] by (simp add: bit_take_bit_iff)
    next
      case False
      then show ?thesis
        using arg_cong [OF conjunct2 [OF r], of "\<lambda>x. bit x (n - 5)"]
        by (auto simp: bit_take_bit_iff bit_drop_bit_eq)
    qed
  qed
qed

lemma sas_loop_eq:
  "length out = length out' \<Longrightarrow>
   sas_loop n v out = sas_loop n w out' \<longleftrightarrow> take_bit (5 * n) v = take_bit (5 * n) w \<and> out = out'"
proof (induction n arbitrary: v w out out')
  case (Suc n)
  show ?case
    using Suc.IH [of "sasAlphabet ! unat (v AND 31) # out" "sasAlphabet ! unat (w AND 31) # out'"] Suc.prems
      take_bit_split [of "5 * n" v w] sas_letter_eq [of v w]
    by (auto simp: add.commute)
qed simp

lemma sas_loop_letters: "set out \<subseteq> set sasAlphabet \<Longrightarrow> set (sas_loop n v out) \<subseteq> set sasAlphabet"
proof (induction n arbitrary: v out)
  case (Suc n)
  have "sasAlphabet ! unat (v AND 31) \<in> set sasAlphabet"
    using low5 [of v] low5_bound [of v] sasAlphabet_length by simp
  with Suc show ?case by simp
qed simp

lemma ComputeSAS_letters: "set (ComputeSAS C a b sid) \<subseteq> set sasAlphabet"
  unfolding ComputeSAS_def by (rule sas_loop_letters) simp

text \<open>A way to write a code: letters in either case, the digits 0 and 1 as the letters they look
  like, and separators anywhere.\<close>

definition same_letter :: "char \<Rightarrow> char \<Rightarrow> bool" where
  "same_letter c d \<longleftrightarrow> upper c = d \<or> d = CHR ''0'' \<and> upper c = CHR ''O'' \<or>
     d = CHR ''1'' \<and> (upper c = CHR ''I'' \<or> upper c = CHR ''L'')"

inductive spells :: "bytes \<Rightarrow> bytes \<Rightarrow> bool" where
  nothing: "spells [] []"
| separator: "spells t s \<Longrightarrow> c \<in> set sas_separators \<Longrightarrow> spells (c # t) s"
| letter: "spells t s \<Longrightarrow> same_letter c d \<Longrightarrow> spells (c # t) (d # s)"

lemma sas_letters: "d \<in> set sasAlphabet \<Longrightarrow> normalize_char d = [d] \<and> d \<noteq> CHR 0xC4 \<and> d \<noteq> CHR 0xC5"
proof -
  have "list_all (\<lambda>d. normalize_char d = [d] \<and> d \<noteq> CHR 0xC4 \<and> d \<noteq> CHR 0xC5) sasAlphabet" by code_simp
  then show "d \<in> set sasAlphabet \<Longrightarrow> ?thesis" by (simp add: list_all_iff)
qed

lemma sas_separator: "c \<in> set sas_separators \<Longrightarrow> normalize_char (upper c) = [] \<and> c \<noteq> CHR 0xC4 \<and> c \<noteq> CHR 0xC5"
proof -
  have "list_all (\<lambda>c. normalize_char (upper c) = [] \<and> c \<noteq> CHR 0xC4 \<and> c \<noteq> CHR 0xC5) sas_separators" by code_simp
  then show "c \<in> set sas_separators \<Longrightarrow> ?thesis" by (simp add: list_all_iff)
qed

lemma normalizeSAS_Cons:
  "c \<noteq> CHR 0xC4 \<Longrightarrow> c \<noteq> CHR 0xC5 \<Longrightarrow> normalizeSAS (c # t) = normalize_char (upper c) @ normalizeSAS t"
  by (simp add: normalizeSAS_def)

lemma upper_foreign: "upper (CHR 0xC4) = CHR 0xC4" "upper (CHR 0xC5) = CHR 0xC5"
  by code_simp+

lemma look_alikes: "normalize_char (CHR ''O'') = ''0''" "normalize_char (CHR ''I'') = ''1''" "normalize_char (CHR ''L'') = ''1''"
  by code_simp+

lemma same_letter_normal:
  assumes "same_letter c d" "d \<in> set sasAlphabet"
  shows "normalize_char (upper c) = [d]" "c \<noteq> CHR 0xC4" "c \<noteq> CHR 0xC5"
  using assms sas_letters [of d] look_alikes upper_foreign by (auto simp: same_letter_def)

lemma spells_normal: "spells t s \<Longrightarrow> set s \<subseteq> set sasAlphabet \<Longrightarrow> normalizeSAS t = s"
proof (induction rule: spells.induct)
  case nothing
  show ?case by (simp add: normalizeSAS_def)
next
  case (separator t s c)
  then show ?case using sas_separator [of c] normalizeSAS_Cons [of c t] by simp
next
  case (letter t s c d)
  then show ?case using same_letter_normal [of c d] normalizeSAS_Cons [of c t] by simp
qed

lemma spells_length: "spells t s \<Longrightarrow> length s \<le> length t"
  by (induction rule: spells.induct) auto

lemma length_sas_loop: "length (sas_loop n v out) = n + length out"
  by (induction n arbitrary: v out) auto

text \<open>C18: Two buddies who compare their codes over a trusted channel accept each other exactly if their
  sessions agree on the low 30 bits of the first word of the digest. Whoever types the code the
  other side reads out, in any spelling, on a prompt that shows their own code or on the blind one,
  is accepted in that case and in no other; so with the same session on both ends the answer is
  always accepted, whichever end computed it.\<close>

theorem sas_compare:
  assumes "spells typed (ComputeSAS C a b sidA)"
  shows "(snd (promptSAS (ComputeSAS C b a sidB) blind (FullLine typed)) = None \<longleftrightarrow>
      take_bit 30 (be32 (sasDigest C a b sidA)) = take_bit 30 (be32 (sasDigest C b a sidB))) \<and>
    snd (promptSAS (ComputeSAS C b a sidA) blind (Eof typed)) = None"
proof (intro conjI)
  note n = spells_normal [OF assms ComputeSAS_letters]
  have "ComputeSAS C a b sidA = ComputeSAS C b a sidB \<longleftrightarrow>
      take_bit 30 (be32 (sasDigest C a b sidA)) = take_bit 30 (be32 (sasDigest C b a sidB))"
    using sas_loop_eq [of "[]" "[]" 6] by (simp add: ComputeSAS_def)
  then show "snd (promptSAS (ComputeSAS C b a sidB) blind (FullLine typed)) = None \<longleftrightarrow>
      take_bit 30 (be32 (sasDigest C a b sidA)) = take_bit 30 (be32 (sasDigest C b a sidB))"
    by (simp add: promptSAS_def PromptSAS_def PromptSASBlind_def check_line_def readSASLine_def sasMatches_def n)
  have "typed \<noteq> []"
    using spells_length [OF assms] by (auto simp: ComputeSAS_def length_sas_loop)
  then show "snd (promptSAS (ComputeSAS C b a sidA) blind (Eof typed)) = None"
    using n by (simp add: promptSAS_def PromptSAS_def PromptSASBlind_def check_line_def readSASLine_def sasMatches_def
        ComputeSAS_def sasDigest_comm [of C a b])
qed

section \<open>Properties of the binding\<close>

lemma in_order_cases: "in_order a b = (a, b) \<or> in_order a b = (b, a)"
  by (auto simp: in_order_def)

lemma in_order_pair: "in_order a b = in_order c d \<Longrightarrow> (c = a \<and> d = b) \<or> (c = b \<and> d = a)"
  using in_order_cases [of a b] in_order_cases [of c d] by auto

lemma bind_text_Some:
  "bind_text X e p q = Some t \<longleftrightarrow>
     (\<exists>sh. x25519 X e q = Some sh \<and> t = bindLabel @ fst (in_order p q) @ snd (in_order p q) @ sh)"
  by (auto simp: bind_text_def split: option.splits prod.splits)

lemma length_in_order: "length p = n \<Longrightarrow> length q = n \<Longrightarrow> length (fst (in_order p q)) = n \<and> length (snd (in_order p q)) = n"
  by (simp add: in_order_def)

lemma bind_text_keys:
  assumes "bind_text X e p q = Some t" "bind_text X e' p' q' = Some t"
    and "length p = 32" "length q = 32" "length p' = 32" "length q' = 32"
  shows "(p' = p \<and> q' = q) \<or> (p' = q \<and> q' = p)"
proof -
  obtain sh sh' where "t = bindLabel @ fst (in_order p q) @ snd (in_order p q) @ sh"
    "t = bindLabel @ fst (in_order p' q') @ snd (in_order p' q') @ sh'"
    using assms(1,2) unfolding bind_text_Some by blast
  moreover note length_in_order [OF assms(3,4)] length_in_order [OF assms(5,6)]
  ultimately have "in_order p q = in_order p' q'"
    by (intro prod_eqI) auto
  then show ?thesis by (rule in_order_pair)
qed

text \<open>What the two ends of an exchange may assume of hash and curve: a key pair of 32 bytes each, the
  shared secret, and a hash of 32 bytes that does not collide on the two texts that are compared.\<close>

definition ephemerals :: "crypto \<Rightarrow> curves \<Rightarrow> bytes \<Rightarrow> bytes \<Rightarrow> bytes \<Rightarrow> bytes \<Rightarrow> bool" where
  "ephemerals C X a A b B \<longleftrightarrow> x25519 X a Basepoint = Some A \<and> x25519 X b Basepoint = Some B \<and>
     length A = 32 \<and> length B = 32 \<and> length (sha256 C A) = 32 \<and> A \<noteq> B \<and>
     x25519 X a B \<noteq> None \<and> x25519 X a B = x25519 X b A"

definition no_collision :: "crypto \<Rightarrow> bytes option \<Rightarrow> bytes option \<Rightarrow> bool" where
  "no_collision C s t \<longleftrightarrow> (case (s, t) of (Some s, Some t) \<Rightarrow> sha256 C s = sha256 C t \<longrightarrow> s = t | _ \<Rightarrow> True)"

lemma bind_value_agrees:
  assumes "ephemerals C X a A b B"
  obtains v where "bind_value C X a A B = Inr v" "bind_value C X b B A = Inr v"
proof -
  obtain sh where "x25519 X a B = Some sh" "x25519 X b A = Some sh"
    using assms unfolding ephemerals_def by force
  then have "bind_value C X a A B = bind_value C X b B A" "\<exists>v. bind_value C X a A B = Inr v"
    by (auto simp: bind_value_def bind_text_def in_order_comm [of A B] split: prod.splits)
  then show thesis using that by auto
qed

text \<open>C17: The binding exchange yields the same value on both ends exactly if nobody interfered. Two
  honest ends with different ephemeral keys, whose sends succeed, both finish with one value if and
  only if the committing end received the other's key, and the other end received the hash of the
  committing end's key and then that key. A man in the middle who puts a key of their own into
  either direction therefore leaves the two ends with different values, and the two humans with
  codes made from different sessions.\<close>

theorem binding_exact:
  assumes "ephemerals C X a A b B" "send1 ioA" "send2 ioA" "send1 ioB"
    and "\<And>p q. recv1 ioA = Some p \<Longrightarrow> recv2 ioB = Some q \<Longrightarrow> no_collision C (bind_text X a A p) (bind_text X b B q)"
  shows "(\<exists>v. RunBinding C X True (Some a) ioA = Inr v \<and> RunBinding C X False (Some b) ioB = Inr v) \<longleftrightarrow>
    recv1 ioA = Some B \<and> recv1 ioB = Some (sha256 C A) \<and> recv2 ioB = Some A"
proof
  assume "\<exists>v. RunBinding C X True (Some a) ioA = Inr v \<and> RunBinding C X False (Some b) ioB = Inr v"
  then obtain v where v: "RunBinding C X True (Some a) ioA = Inr v" "RunBinding C X False (Some b) ioB = Inr v" by blast
  obtain p s where p: "recv1 ioA = Some p" "length p = 32" "bind_text X a A p = Some s" "v = sha256 C s"
    using v(1) assms(1,2,3)
    by (auto simp: RunBinding_def ephemerals_def bind_value_def split: option.splits if_splits)
  obtain q t where q: "recv2 ioB = Some q" "length q = 32" "bind_text X b B q = Some t" "v = sha256 C t"
      "recv1 ioB = Some (sha256 C q)"
    using v(2) assms(1,4)
    by (auto simp: RunBinding_def ephemerals_def bind_value_def split: option.splits if_splits)
  have "s = t" using assms(5) [OF p(1) q(1)] p q by (simp add: no_collision_def)
  then have "p = B \<and> q = A"
    using bind_text_keys [OF p(3) q(3) [folded \<open>s = t\<close>]] p(2) q(2) assms(1) by (auto simp: ephemerals_def)
  then show "recv1 ioA = Some B \<and> recv1 ioB = Some (sha256 C A) \<and> recv2 ioB = Some A"
    using p q by simp
next
  assume "recv1 ioA = Some B \<and> recv1 ioB = Some (sha256 C A) \<and> recv2 ioB = Some A"
  moreover obtain v where "bind_value C X a A B = Inr v" "bind_value C X b B A = Inr v"
    using bind_value_agrees [OF assms(1)] .
  ultimately show "\<exists>v. RunBinding C X True (Some a) ioA = Inr v \<and> RunBinding C X False (Some b) ioB = Inr v"
    using assms(1-4) by (auto simp: RunBinding_def ephemerals_def)
qed

lemma recv_timeouts:
  "recv_binding r (replicate k ReadTimeout @ es) = (let (m, es', n) = recv_binding r es in (m, es', k + n))"
  by (induction k) (auto split: prod.splits)

lemma recv_frame:
  "length m \<le> 1493 \<Longrightarrow> udpAddrEqual src r \<Longrightarrow> recv_binding r (Datagram src (frame m) # es) = (Some m, es, 0)"
  by (simp add: frame_def bindFramePrefix_def HasPrefix_def)

declare recv_binding.simps(3) [simp del]

text \<open>C37: Retransmission raises a false alarm. Suppose two honest ends, no loss, no attacker and every
  datagram delivered in order. If the committing end waited so long for the answer that it sent its
  commitment again at least once, the other end takes the second copy for the ephemeral key, as
  both have 32 bytes, and ends with the error for a man in the middle; without a retransmission it
  ends with the binding.\<close>

theorem binding_false_alarm:
  assumes "ephemerals C X a A b B" "sha256 C (sha256 C A) \<noteq> sha256 C A"
    and "udpAddrEqual addrA addrA" "udpAddrEqual addrB addrB"
    and "runBindingOverConn C X (Some a) True True addrB True (replicate k ReadTimeout @ [Datagram addrB (frame B)]) = (r, fs)"
  shows "\<exists>v. r = Inr v \<and>
    fst (runBindingOverConn C X (Some b) True True addrA False (map (Datagram addrA) fs)) =
      (if k = 0 then Inr v else Inl CommitMismatch)"
proof -
  have len: "length A \<le> 1493" "length B \<le> 1493" "length (sha256 C A) \<le> 1493"
    using assms(1) by (auto simp: ephemerals_def)
  note rA = recv_frame [OF len(2) assms(4)]
  have fs: "fs = replicate (Suc k) (frame (sha256 C A)) @ [frame A]"
    using assms(1,5) by (auto simp: runBindingOverConn_def bind_frames_def recv_timeouts rA ephemerals_def)
  note rB = recv_frame [OF len(3) assms(3)] recv_frame [OF len(1) assms(3)]
  obtain v where v: "bind_value C X a A B = Inr v" "bind_value C X b B A = Inr v"
    using bind_value_agrees [OF assms(1)] .
  have "r = Inr v"
    using assms(1,5) by (auto simp: runBindingOverConn_def binding_io_def recv_timeouts rA RunBinding_def ephemerals_def v)
  then show ?thesis
    using assms(1,2) fs
    by (cases k) (auto simp: runBindingOverConn_def binding_io_def rB RunBinding_def ephemerals_def v)
qed

section \<open>Witnesses\<close>

text \<open>A toy hash and a toy curve.\<close>

definition toy_crypto :: crypto where
  "toy_crypto = \<lparr>ed_sign = \<lambda>k m. [], ed_public = \<lambda>k. k, ed_verify = \<lambda>k m s. False,
     sha256 = \<lambda>x. take 32 (tl x @ replicate 32 CHR ''z''), hmac_sha256 = \<lambda>k m. []\<rparr>"

definition toy_curve :: curves where
  "toy_curve = \<lparr>montgomery = \<lambda>p. None, box_seal = \<lambda>m n r k. [], x25519 = \<lambda>k p. if p = Basepoint then Some k else Some ''s'',
     hkdf_sha256 = \<lambda>s i n. [], sha512 = \<lambda>x. []\<rparr>"

definition key_a :: bytes where "key_a = ''a'' @ replicate 31 CHR ''c''"
definition key_b :: bytes where "key_b = ''b'' @ replicate 31 CHR ''c''"

lemma toy_ephemerals: "ephemerals toy_crypto toy_curve key_a key_a key_b key_b"
  by (simp add: ephemerals_def toy_crypto_def toy_curve_def key_a_def key_b_def Basepoint_def)

lemma toy_code: "ComputeSAS toy_crypto key_a key_b ''x'' = ''HP6RV3''"
  by code_simp

lemma toy_spelling: "spells ''hp6-rv3'' ''HP6RV3''"
  by (intro spells.intros) code_simp+

theorem sas_compare_witness:
  "snd (promptSAS (ComputeSAS toy_crypto key_b key_a ''x'') True (Eof ''hp6-rv3'')) = None"
proof -
  have "spells ''hp6-rv3'' (ComputeSAS toy_crypto key_a key_b ''x'')" by (simp add: toy_code toy_spelling)
  from sas_compare [OF this, of "''x''" True] show ?thesis by blast
qed

definition toy_ioA :: bind_io where
  "toy_ioA = \<lparr>send1 = True, send2 = True, recv1 = Some key_b, recv2 = None\<rparr>"

definition toy_ioB :: bind_io where
  "toy_ioB = \<lparr>send1 = True, send2 = True, recv1 = Some (sha256 toy_crypto key_a), recv2 = Some key_a\<rparr>"

lemma toy_no_collision: "no_collision toy_crypto (bind_text toy_curve key_a key_a key_b) (bind_text toy_curve key_b key_b key_a)"
  by code_simp

theorem binding_exact_witness:
  "\<exists>v. RunBinding toy_crypto toy_curve True (Some key_a) toy_ioA = Inr v \<and>
       RunBinding toy_crypto toy_curve False (Some key_b) toy_ioB = Inr v"
  by (subst binding_exact [OF toy_ephemerals]) (auto simp: toy_ioA_def toy_ioB_def toy_no_collision)

definition toy_addr :: udpaddr where "toy_addr = \<lparr>IP = ''abcd'', Port = 7\<rparr>"

lemma toy_addr_equal: "udpAddrEqual toy_addr toy_addr"
  by (simp add: udpAddrEqual_def IP_Equal_def)

theorem binding_false_alarm_witness:
  "fst (runBindingOverConn toy_crypto toy_curve (Some key_b) True True toy_addr False
     (map (Datagram toy_addr) (snd (runBindingOverConn toy_crypto toy_curve (Some key_a) True True toy_addr True
       (replicate 1 ReadTimeout @ [Datagram toy_addr (frame key_b)]))))) = Inl CommitMismatch"
proof -
  have "sha256 toy_crypto (sha256 toy_crypto key_a) \<noteq> sha256 toy_crypto key_a" by code_simp
  from binding_false_alarm [OF toy_ephemerals this toy_addr_equal toy_addr_equal surjective_pairing, of 1]
  show ?thesis by auto
qed

end
