(* ===== verification/Connect.thy ===== *)
theory Connect
  imports Paths Sas
begin

text \<open>
  One attempt of a buddy: \<^verbatim>\<open>buddyRun\<close> of \<^verbatim>\<open>internal/role/connect.go\<close> up to the data plane, with
  \<^verbatim>\<open>runWG\<close> of \<^verbatim>\<open>wgpath.go\<close> for WireGuard. It composes registration, trust, the fallback chain, the
  short authentication string, the peer cache and the session store, in the order of the code.

  What the world does during the attempt is one record of inputs. Forwarding streams over the session
  changes none of the state here and is left out; so is logging.
\<close>

section \<open>Inputs and results\<close>

record conn_env =
  en_socket :: bool
  en_rand :: "bytes option"
  en_server :: bool
  en_dials :: "bool list"
  en_turns :: "turn list"
  en_now :: time
  en_net :: net
  en_stdin :: stdin_read
  en_lock_trust :: bool
  en_lock_session :: bool
  en_mkdir :: bool
  en_wg :: bool
  en_bind_rand :: "bytes option"
  en_bind_sends :: "bool \<times> bool"
  en_bind_events :: "sock_event list"
  en_scoped :: bool
  en_wg_up :: bool
  en_wg_handshake :: bool

datatype conn_error =
    SocketFailed
  | NoEphemeral
  | DirectRefused direct_error
  | OwnIdentity
  | RegisterRefused register_error
  | PartnerKey
  | NotTrusted trust_error
  | VIPMismatch
  | NoCachedPeer
  | NoPath
  | NoTunnel path_error
  | NotInteractive
  | NoKeyingMaterial
  | NoPartnerEndpoint
  | NoBinding bind_error
  | SASFailed sas_error
  | NoSecret
  | WGUnavailable
  | ScopeFailed
  | WGFailed
  | NoWGHandshake

type_synonym store = "cache \<times> fs"

definition trust_of :: "'a conn_cfg_scheme \<Rightarrow> trustPolicy" where
  "trust_of cfg = \<lparr>pinned = (if PeerKey cfg = [] then None else DecodePubKey (PeerKey cfg)),
     insecure = Insecure cfg, storePath = KnownPeers cfg\<rparr>"

section \<open>Who the partner is\<close>

definition checkPartnerVIP :: "crypto \<Rightarrow> peer \<Rightarrow> bytes \<Rightarrow> bool" where
  "checkPartnerVIP C partner pub \<longleftrightarrow> pVirtualIP partner = [] \<or> pVirtualIP partner = VirtualIPString C pub"

text \<open>The pins of the attempt, or the trust policy; the value says whether a SAS is due.\<close>

definition vet :: "crypto \<Rightarrow> 'a conn_cfg_scheme \<Rightarrow> conn_attempt \<Rightarrow> bytes \<Rightarrow> fs \<Rightarrow> trust_error + bool" where
  "vet C cfg att pub f =
     (if at_pin att \<noteq> None
      then (case enforcePins att pub of Some e \<Rightarrow> Inl e | None \<Rightarrow> Inr False)
      else decide C (trust_of cfg) (inviteToken att) pub f)"

definition cacheTTL :: duration where "cacheTTL = 24 * 3600 * second"

definition cached_peer :: "time \<Rightarrow> cache \<Rightarrow> peer option" where
  "cached_peer now r = find (\<lambda>c. Fresh now c cacheTTL \<and> checkRosterPeer c = None) (list_cache r)"

text \<open>The partner named by the server: nobody when the name of the server does not resolve.\<close>

definition introduced ::
  "json \<Rightarrow> crypto \<Rightarrow> curves \<Rightarrow> buddy_config \<Rightarrow> node \<Rightarrow> conn_attempt \<Rightarrow> conn_env \<Rightarrow> relayCred \<Rightarrow>
   conn_error + peer \<times> relayCred" where
  "introduced J C X rcfg nd att E cred =
     (if \<not> en_server E then Inr (zero_peer, cred)
      else case buddyRegister J C X (en_dials E) rcfg nd (rendezvous att) (Some cred) (en_turns E) of
        Inl e \<Rightarrow> Inl (RegisterRefused e)
      | Inr (p, rt) \<Rightarrow> Inr (p, case adopt J rt (Some cred) of Inl _ \<Rightarrow> cred | Inr c \<Rightarrow> c))"

text \<open>The partner, whether it came from the cache, and whether a SAS is due.\<close>

definition server_partner ::
  "crypto \<Rightarrow> 'a conn_cfg_scheme \<Rightarrow> node \<Rightarrow> conn_attempt \<Rightarrow> conn_env \<Rightarrow> peer \<Rightarrow> store \<Rightarrow> conn_error + peer \<times> peer option \<times> bool" where
  "server_partner C cfg nd att E p rf =
     (if pPubKey p \<noteq> []
      then (case DecodePubKey (pPubKey p) of
              None \<Rightarrow> Inl PartnerKey
            | Some pub \<Rightarrow>
                if pPubKey p = nd_pub nd then Inl OwnIdentity
                else (case vet C cfg att pub (snd rf) of
                  Inl e \<Rightarrow> Inl (NotTrusted e)
                | Inr sas \<Rightarrow> if \<not> checkPartnerVIP C p pub then Inl VIPMismatch else Inr (p, None, sas)))
      else (case cached_peer (en_now E) (fst rf) of
              None \<Rightarrow> Inl NoCachedPeer
            | Some c \<Rightarrow>
                (case DecodePubKey (pPubKey c) of
                   None \<Rightarrow> Inl PartnerKey
                 | Some pub \<Rightarrow>
                     (case vet C cfg att pub (snd rf) of
                        Inl e \<Rightarrow> Inl (NotTrusted e)
                      | Inr sas \<Rightarrow> Inr (c, Some c, sas)))))"

definition direct_mode_partner :: "crypto \<Rightarrow> 'a conn_cfg_scheme \<Rightarrow> node \<Rightarrow> conn_error + peer \<times> peer option \<times> bool" where
  "direct_mode_partner C cfg nd =
     (case directPartner C cfg of
        Inl e \<Rightarrow> Inl (DirectRefused e)
      | Inr p \<Rightarrow> if pPubKey p = nd_pub nd then Inl OwnIdentity else Inr (p, None, False))"

text \<open>Partner and credential for the attempt.\<close>

definition find_partner_for ::
  "json \<Rightarrow> crypto \<Rightarrow> curves \<Rightarrow> buddy_config \<Rightarrow> 'a conn_cfg_scheme \<Rightarrow> node \<Rightarrow> conn_attempt \<Rightarrow> conn_env \<Rightarrow> relayCred \<Rightarrow> store \<Rightarrow>
   conn_error + (peer \<times> peer option \<times> bool) \<times> relayCred" where
  "find_partner_for J C X rcfg cfg nd att E cred rf =
     (if Direct cfg then map_sum id (\<lambda>p. (p, cred)) (direct_mode_partner C cfg nd)
      else case introduced J C X rcfg nd att E cred of
        Inl e \<Rightarrow> Inl e
      | Inr (p, cred) \<Rightarrow> map_sum id (\<lambda>p. (p, cred)) (server_partner C cfg nd att E p rf))"

definition chain_to :: "'a conn_cfg_scheme \<Rightarrow> peer \<Rightarrow> peer option \<Rightarrow> path list" where
  "chain_to cfg partner cached =
     (if Direct cfg then DirectChain (PeerEndpoint cfg) (PeerRelay cfg)
      else Chain partner [] (ro_endpoint (trustedRelay (PeerRelay cfg) (Server cfg) (pRelay partner))) cached)"

section \<open>First contact and what is stored\<close>

text \<open>The comparison of codes over a session with the given keying material, where one is due.\<close>

definition sas_step ::
  "crypto \<Rightarrow> 'a conn_cfg_scheme \<Rightarrow> conn_attempt \<Rightarrow> conn_env \<Rightarrow> bytes \<Rightarrow> bytes \<Rightarrow> bool \<Rightarrow> conn_error + bytes \<Rightarrow> fs \<Rightarrow>
   conn_error option \<times> fs" where
  "sas_step C cfg att E myPub pub needSAS material f =
     (let showOnly = (\<not> needSAS \<and> SASShow cfg \<and> firstPairing att) in
      if \<not> (needSAS \<or> showOnly) then (None, f)
      else if needSAS \<and> \<not> Interactive cfg then (Some NotInteractive, f)
      else case material of
        Inl e \<Rightarrow> (Some e, f)
      | Inr sid \<Rightarrow>
          if showOnly then (None, f)
          else case snd (promptSAS (ComputeSAS C myPub pub sid) (Inviting cfg) (en_stdin E)) of
            Some e \<Rightarrow> (Some (SASFailed e), f)
          | None \<Rightarrow>
              (case confirm C (en_lock_trust E) (trust_of cfg) (inviteToken att) pub f of
                 (Inl e, f) \<Rightarrow> (Some (NotTrusted e), f)
               | (Inr _, f) \<Rightarrow> (None, f)))"

text \<open>The peer goes into the cache, and a first pairing into the session store.\<close>

definition persist_step ::
  "crypto \<Rightarrow> array_json \<Rightarrow> 'a conn_cfg_scheme \<Rightarrow> conn_attempt \<Rightarrow> conn_env \<Rightarrow> peer \<Rightarrow> bytes option \<Rightarrow> store \<Rightarrow>
   conn_error option \<times> store" where
  "persist_step C A cfg att E partner secret rf =
     (let (r, f) = rememberPeer A (en_mkdir E) (en_now E) partner rf in
      if \<not> firstPairing att then (None, r, f)
      else case secret of
        None \<Rightarrow> (Some NoSecret, r, f)
      | Some sec \<Rightarrow>
          (case saveSession C (en_lock_session E) (KnownPeers cfg) (inviteToken att) (pPubKey partner) sec f of
             (Inl e, f) \<Rightarrow> (Some (NotTrusted e), r, f)
           | (Inr _, f) \<Rightarrow> (None, r, f)))"

section \<open>The two data planes\<close>

definition quic_run ::
  "crypto \<Rightarrow> array_json \<Rightarrow> 'a conn_cfg_scheme \<Rightarrow> node \<Rightarrow> conn_attempt \<Rightarrow> conn_env \<Rightarrow> peer \<Rightarrow> bytes \<Rightarrow> bool \<Rightarrow> path list \<Rightarrow> bytes \<Rightarrow> store \<Rightarrow>
   (conn_error + path) \<times> store" where
  "quic_run C A cfg nd att E partner pub needSAS chain sid rf =
     (let myPub = ed_public C (nd_priv nd);
          listening = (if Direct cfg then directListening cfg (nd_pub nd) (pPubKey partner) else nd_pub nd < pPubKey partner) in
      case (if Direct cfg \<and> listening then listenAllPaths (en_net E) sid chain else dialChain (en_net E) sid chain) of
        Inl e \<Rightarrow> (Inl (NoTunnel e), rf)
      | Inr (s, used) \<Rightarrow>
          (case sas_step C cfg att E myPub pub needSAS
                  (case se_ekm s sasLabel [] 32 of None \<Rightarrow> Inl NoKeyingMaterial | Some k \<Rightarrow> Inr k) (snd rf) of
             (Some e, f) \<Rightarrow> (Inl e, fst rf, f)
           | (None, f) \<Rightarrow>
               (case persist_step C A cfg att E partner (deriveSessionSecret (se_ekm s) myPub pub) (fst rf, f) of
                  (Some e, rf) \<Rightarrow> (Inl e, rf)
                | (None, rf) \<Rightarrow> (Inr used, rf))))"

definition runWG ::
  "crypto \<Rightarrow> curves \<Rightarrow> array_json \<Rightarrow> 'a conn_cfg_scheme \<Rightarrow> node \<Rightarrow> conn_attempt \<Rightarrow> conn_env \<Rightarrow> peer \<Rightarrow> bytes \<Rightarrow> bool \<Rightarrow> path list \<Rightarrow> bytes \<Rightarrow> store \<Rightarrow>
   (conn_error + path) \<times> store" where
  "runWG C X A cfg nd att E partner pub needSAS chain sid rf =
     (let myPub = ed_public C (nd_priv nd) in
      if \<not> en_wg E then (Inl WGUnavailable, rf)
      else case (if Direct cfg \<and> directListening cfg (nd_pub nd) (pPubKey partner)
                 then map_sum id (\<lambda>p. (None, p)) (armWGPaths (en_net E) sid chain)
                 else primeWGPath (en_net E) sid chain) of
        Inl e \<Rightarrow> (Inl (NoTunnel e), rf)
      | Inr (remote, used) \<Rightarrow>
          (case sas_step C cfg att E myPub pub needSAS
                  (case remote of
                     None \<Rightarrow> Inl NoPartnerEndpoint
                   | Some a \<Rightarrow> map_sum NoBinding id
                       (fst (runBindingOverConn C X (en_bind_rand E) (fst (en_bind_sends E)) (snd (en_bind_sends E)) a
                          (nd_pub nd < pPubKey partner) (en_bind_events E)))) (snd rf) of
             (Some e, f) \<Rightarrow> (Inl e, fst rf, f)
           | (None, f) \<Rightarrow>
               (let secret = map_option b64url_encode (PairSecret C X (nd_priv nd) pub) in
                if firstPairing att \<and> secret = None then (Inl NoSecret, fst rf, f)
                else if \<not> en_scoped E then (Inl ScopeFailed, fst rf, f)
                else if \<not> en_wg_up E then (Inl WGFailed, fst rf, f)
                else if \<not> en_wg_handshake E then (Inl NoWGHandshake, fst rf, f)
                else (case persist_step C A cfg att E partner secret (fst rf, f) of
                        (Some e, rf) \<Rightarrow> (Inl e, rf)
                      | (None, rf) \<Rightarrow> (Inr used, rf)))))"

section \<open>The attempt\<close>

definition buddyRun ::
  "json \<Rightarrow> crypto \<Rightarrow> curves \<Rightarrow> array_json \<Rightarrow> buddy_config \<Rightarrow> 'a conn_cfg_scheme \<Rightarrow> node \<Rightarrow> conn_attempt \<Rightarrow> conn_env \<Rightarrow> store \<Rightarrow>
   (conn_error + path) \<times> store" where
  "buddyRun J C X A rcfg cfg nd att E rf =
     (if \<not> en_socket E then (Inl SocketFailed, rf)
      else case newRelayCred C (en_rand E) of
        None \<Rightarrow> (Inl NoEphemeral, rf)
      | Some cred \<Rightarrow>
     (case find_partner_for J C X rcfg cfg nd att E cred rf of
        Inl e \<Rightarrow> (Inl e, rf)
      | Inr ((partner, cached, needSAS), cred) \<Rightarrow>
     (case DecodePubKey (pPubKey partner) of
        None \<Rightarrow> (Inl PartnerKey, rf)
      | Some pub \<Rightarrow>
     (let chain = chain_to cfg partner cached;
          sid = cred_session (Some cred) (sessionToken C (rendezvous att) (nd_pub nd) (pPubKey partner)) in
      if chain = [] then (Inl NoPath, rf)
      else if WireGuard cfg then runWG C X A cfg nd att E partner pub needSAS chain sid rf
      else quic_run C A cfg nd att E partner pub needSAS chain sid rf))))"

end
