(* ===== verification/PeerCacheProps.thy ===== *)
theory PeerCacheProps
  imports PeerCache ProtocolProps TrustProps
begin

text \<open>
  Properties of the peer cache: names are pinned to the key that claimed them first, whatever later
  sightings say; the resolver answers a pinned name with the address of its key; and a restart
  finds the cache that was written.
\<close>

section \<open>The invariant\<close>

definition name_of :: "cache \<Rightarrow> bytes \<Rightarrow> bytes" where
  "name_of r k = (case mget (nameByKey r) k of None \<Rightarrow> [] | Some n \<Rightarrow> n)"

text \<open>The two name maps are inverse to each other.\<close>

definition names_inv :: "cache \<Rightarrow> bool" where
  "names_inv r \<longleftrightarrow> (\<forall>k n. mget (nameByKey r) k = Some n \<longleftrightarrow> mget (keyByName r) n = Some k) \<and>
     (\<forall>k n. mget (nameByKey r) k = Some n \<longrightarrow> n \<noteq> [] \<and> k \<in> mkeys (rg_peers r))"

definition entries_inv :: "cache \<Rightarrow> bool" where
  "entries_inv r \<longleftrightarrow> gomap (rg_peers r) \<and>
     (\<forall>k p. mget (rg_peers r) k = Some p \<longrightarrow> pPubKey p = k \<and> pName p = name_of r k)"

definition cache_inv :: "cache \<Rightarrow> bool" where
  "cache_inv r \<longleftrightarrow> names_inv r \<and> entries_inv r"

definition names_valid :: "cache \<Rightarrow> bool" where
  "names_valid r \<longleftrightarrow> (\<forall>k n. mget (nameByKey r) k = Some n \<longrightarrow> ValidName n)"

definition sighting_ok :: "time \<times> peer \<Rightarrow> bool" where
  "sighting_ok e \<longleftrightarrow> pName (snd e) = [] \<or> ValidName (pName (snd e))"

definition sight :: "time \<times> peer \<Rightarrow> cache \<Rightarrow> cache" where
  "sight e r = learn (fst e) (snd e) r"

lemma stamp_fields [simp]:
  "pPubKey (stamp now p) = pPubKey p" "pName (stamp now p) = pName p" "pVirtualIP (stamp now p) = pVirtualIP p"
  by (simp_all add: stamp_def)

lemma pin_cases:
  obtains "pinNameLocked k name r = (name_of r k, r)"
  | "pinNameLocked k name r = (name, r\<lparr>nameByKey := mput k name (nameByKey r), keyByName := mput name k (keyByName r)\<rparr>)"
    "name \<noteq> []" "mget (nameByKey r) k = None" "mget (keyByName r) name \<in> {None, Some k}"
proof (cases "name \<noteq> [] \<and> mget (nameByKey r) k = None \<and> mget (keyByName r) name \<in> {None, Some k}")
  case True
  then show thesis by (intro that(2)) (auto simp: pinNameLocked_def)
next
  case False
  then show thesis by (intro that(1)) (auto simp: pinNameLocked_def name_of_def Let_def split: option.splits)
qed

lemma learn_keeps_name: "mget (nameByKey r) k = Some n \<Longrightarrow> mget (nameByKey (learn now p r)) k = Some n"
  by (cases rule: pin_cases [of "pPubKey p" "pName p" r]) (auto simp: learn_def gomap_simps)

lemma learn_cache_inv:
  assumes "cache_inv r"
  shows "cache_inv (learn now p r)"
proof (cases rule: pin_cases [of "pPubKey p" "pName p" r])
  case 1
  then show ?thesis
    using assms by (auto simp: learn_def cache_inv_def names_inv_def entries_inv_def name_of_def gomap_simps)
next
  case 2
  have unnamed: "mget (keyByName r) m \<noteq> Some (pPubKey p)" for m
    using assms 2(3) unfolding cache_inv_def names_inv_def by (metis option.distinct(1))
  with 2(4) have free: "mget (keyByName r) (pName p) = None" by auto
  show ?thesis
    unfolding cache_inv_def
  proof
    show "names_inv (learn now p r)"
      using assms 2(2,3) free unnamed by (auto simp: learn_def 2(1) cache_inv_def names_inv_def gomap_simps)
    show "entries_inv (learn now p r)"
      using assms by (auto simp: learn_def 2(1) cache_inv_def entries_inv_def name_of_def gomap_simps)
  qed
qed

lemma learn_names_valid:
  assumes "names_valid r" "pName p = [] \<or> ValidName (pName p)"
  shows "names_valid (learn now p r)"
  using assms by (cases rule: pin_cases [of "pPubKey p" "pName p" r]) (auto simp: learn_def names_valid_def gomap_simps)

interpretation sightings: stepwise sight "\<lambda>r. cache_inv r \<and> names_valid r \<and> mget (nameByKey r) k = Some n" sighting_ok for k n
  by unfold_locales (auto simp: sight_def sighting_ok_def learn_cache_inv learn_names_valid learn_keeps_name)

lemma empty_cache_inv: "cache_inv (empty_cache path)" "names_valid (empty_cache path)"
  by (simp_all add: cache_inv_def names_inv_def entries_inv_def names_valid_def empty_cache_def)

section \<open>The name table\<close>

lemma mget_add_peer:
  "mget (add_peer C p t) n =
     (case ParseAddr (pVirtualIP p) of
        None \<Rightarrow> mget t n
      | Some ip \<Rightarrow> if n = fingerprint C (pPubKey p) \<or> n = pName p \<and> n \<noteq> [] then Some ip else mget t n)"
  by (auto simp: add_peer_def gomap_simps split: option.splits)

lemma table_name:
  assumes "\<forall>p \<in> set ps. fingerprint C (pPubKey p) \<noteq> n" "n \<noteq> []"
    and "\<forall>p \<in> set ps. pName p = n \<longrightarrow> ParseAddr (pVirtualIP p) = Some ip"
    and "(\<exists>p \<in> set ps. pName p = n) \<or> mget t n = Some ip"
  shows "mget (fold (add_peer C) ps t) n = Some ip"
  using assms
proof (induction ps arbitrary: t)
  case (Cons p ps)
  have "(\<exists>q \<in> set ps. pName q = n) \<or> mget (add_peer C p t) n = Some ip"
    using Cons.prems by (auto simp: mget_add_peer split: option.splits)
  with Cons show ?case by simp
qed simp

lemma lower_hex_digit: "n < 16 \<Longrightarrow> lower_hex (hex_digit n)"
  by (auto simp: lower_hex_def hex_digit_def Let_def)

lemma hex_encode_lower: "list_all lower_hex (hex_encode s)"
proof (induction s)
  case (Cons c s)
  have "(of_char c :: nat) div 16 < 16"
    using of_char_bound [of "[c]"] by (intro less_mult_imp_div_less) simp
  moreover have "(of_char c :: nat) mod 16 < 16" by simp
  ultimately show ?case
    using Cons by (auto simp: hex_encode_def Let_def intro!: lower_hex_digit)
qed (simp add: hex_encode_def)

lemma length_hex: "length (hex_encode s) = 2 * length s"
  by (induction s) (simp_all add: hex_encode_def Let_def)

lemma fingerprint_alias: "length (sha256 C key) = 32 \<Longrightarrow> fpAliasRE (fingerprint C key)"
  using hex_encode_lower [of "sha256 C key"] length_hex [of "sha256 C key"]
  by (auto simp: fpAliasRE_def fingerprint_def list_all_iff dest: in_set_takeD)

lemma entry_fields: "cache_inv r \<Longrightarrow> mget (rg_peers r) k = Some p \<Longrightarrow> pPubKey p = k \<and> pName p = name_of r k"
  by (simp add: cache_inv_def entries_inv_def)

lemma entry_of_list:
  assumes "cache_inv r" "p \<in> set (list_cache r)"
  shows "mget (rg_peers r) (pPubKey p) = Some p"
proof -
  obtain k where "(k, p) \<in> set (rg_peers r)"
    using assms(2) by (auto simp: list_cache_def)
  moreover have "gomap (rg_peers r)" using assms(1) by (simp add: cache_inv_def entries_inv_def)
  ultimately have "mget (rg_peers r) k = Some p" by simp
  then show ?thesis using assms(1) by (auto simp: cache_inv_def entries_inv_def)
qed

lemma list_of_entry: "mget (rg_peers r) k = Some p \<Longrightarrow> p \<in> set (list_cache r)"
  by (force simp: list_cache_def dest: map_of_SomeD)

section \<open>Names stay where they are\<close>

lemma trim_query:
  assumes "ToLower q = n @ ''.buddy.'' \<or> ToLower q = n @ ''.buddy''" "n \<noteq> []" "CHR ''.'' \<notin> set n"
  shows "Resolve t q = mget t n"
proof -
  have "TrimSuffix (ToLower q) ''.'' = n @ ''.buddy''"
    using assms(1) by (auto simp: TrimSuffix_def HasSuffix_def)
  then show ?thesis
    using assms(2,3) by (simp add: Resolve_def TrimSuffix_def HasSuffix_def buddyTLD_def Let_def)
qed

lemma ValidName_facts:
  assumes "ValidName n"
  shows "n \<noteq> []" "CHR ''.'' \<notin> set n" "\<not> fpAliasRE n"
proof -
  show "CHR ''.'' \<notin> set n"
  proof
    assume "CHR ''.'' \<in> set n"
    then have "label_byte (CHR ''.'')" using assms by (auto simp: ValidName_def nameRE_def list_all_iff)
    then show False by (simp add: label_byte_def Let_def)
  qed
qed (use assms in \<open>auto simp: ValidName_def\<close>)

text \<open>C19: A name belongs to the key that claimed it first, for the resolver too. Once a key has pinned
  a name, then after any sequence of further sightings, whatever names they claim for whatever keys,
  the name is still that key's, no other key has it, and a query for it, in any case and with or
  without the final dot, is answered with the address of the latest entry of that key: neither a
  peer's name nor a fingerprint alias can take its place in the table.\<close>

theorem names_resolve:
  assumes "cache_inv r" "names_valid r" "mget (nameByKey r) k = Some n"
    and "\<forall>e \<in> set es. sighting_ok e"
    and "mget (rg_peers (fold sight es r)) k = Some p" "ParseAddr (pVirtualIP p) = Some ip"
    and "\<And>key. length (sha256 C key) = 32" "n \<noteq> selfName"
    and "ToLower q = n @ ''.buddy.'' \<or> ToLower q = n @ ''.buddy''"
  shows "handleBuddy C (fold sight es r) selfName selfIP [(q, TypeA)] = Answer q ip \<and>
    (\<forall>k'. mget (nameByKey (fold sight es r)) k' = Some n \<longleftrightarrow> k' = k)"
proof -
  define r' where "r' = fold sight es r"
  have inv: "cache_inv r'" "names_valid r'" and pin: "mget (nameByKey r') k = Some n"
    using sightings.inv_run [of r k n es] assms(1-4) by (auto simp: r'_def)
  have only: "mget (nameByKey r') k' = Some n \<longleftrightarrow> k' = k" for k'
    using inv(1) pin unfolding cache_inv_def names_inv_def by (metis option.inject)
  note n = ValidName_facts [of n]
  have valid: "ValidName n" using inv(2) pin by (auto simp: names_valid_def)
  have "mget (fold (add_peer C) (list_cache r') []) n = Some ip"
  proof (rule table_name)
    show "\<forall>q \<in> set (list_cache r'). fingerprint C (pPubKey q) \<noteq> n"
      using fingerprint_alias [of C] assms(7) n(3) [OF valid] by metis
    show "n \<noteq> []" using n(1) valid by simp
    show "\<forall>q \<in> set (list_cache r'). pName q = n \<longrightarrow> ParseAddr (pVirtualIP q) = Some ip"
    proof (intro ballI impI)
      fix q assume q: "q \<in> set (list_cache r')" "pName q = n"
      note e = entry_of_list [OF inv(1) q(1)]
      have "name_of r' (pPubKey q) = n" using entry_fields [OF inv(1) e] q(2) by simp
      then have "pPubKey q = k" using only \<open>n \<noteq> []\<close> by (auto simp: name_of_def split: option.splits)
      then have "q = p" using e assms(5) by (simp add: r'_def)
      then show "ParseAddr (pVirtualIP q) = Some ip" using assms(6) by simp
    qed
    have "pName p = n" using entry_fields [OF inv(1)] assms(5) pin by (simp add: r'_def name_of_def)
    then show "(\<exists>q \<in> set (list_cache r'). pName q = n) \<or> mget [] n = Some ip"
      using list_of_entry [OF assms(5)] by (auto simp: r'_def)
  qed
  then have "mget (BuildTable C (list_cache r') selfName selfIP) n = Some ip"
    using assms(8) by (auto simp: BuildTable_def Let_def gomap_simps split: option.splits)
  then show ?thesis
    using trim_query [OF assms(9) n(1) [OF valid] n(2) [OF valid]] only by (simp add: handleBuddy_def r'_def)
qed

section \<open>A restart finds what was written\<close>

lemma load_peer_simps:
  assumes "pPubKey p \<noteq> []"
  shows "mget (rg_peers (load_peer p r)) k = (if k = pPubKey p then Some p else mget (rg_peers r) k)"
    and "mget (nameByKey (load_peer p r)) k = (if k = pPubKey p \<and> pName p \<noteq> [] then Some (pName p) else mget (nameByKey r) k)"
    and "mget (keyByName (load_peer p r)) n = (if n = pName p \<and> n \<noteq> [] then Some (pPubKey p) else mget (keyByName r) n)"
  using assms by (auto simp: load_peer_def Let_def gomap_simps)

lemma load_distinct:
  assumes "distinct (map pPubKey ps)" "\<forall>p \<in> set ps. pPubKey p \<noteq> []"
  shows "mget (rg_peers (fold load_peer ps r)) k =
      (case find (\<lambda>p. pPubKey p = k) ps of None \<Rightarrow> mget (rg_peers r) k | Some p \<Rightarrow> Some p) \<and>
    mget (nameByKey (fold load_peer ps r)) k =
      (case find (\<lambda>p. pPubKey p = k \<and> pName p \<noteq> []) ps of None \<Rightarrow> mget (nameByKey r) k | Some p \<Rightarrow> Some (pName p))"
  using assms
proof (induction ps arbitrary: r)
  case (Cons p ps)
  have none: "find (\<lambda>q. pPubKey q = pPubKey p) ps = None" "find (\<lambda>q. pPubKey q = pPubKey p \<and> pName q \<noteq> []) ps = None"
    using Cons.prems(1) by (auto simp: find_None_iff image_iff)
  show ?case
    using Cons.IH [of "load_peer p r"] Cons.prems none by (auto simp: load_peer_simps split: option.splits)
qed simp

lemma load_owner:
  assumes "\<forall>p \<in> set ps. pPubKey p \<noteq> []" "\<forall>p \<in> set ps. pName p = n \<longrightarrow> pPubKey p = k" "n \<noteq> []"
    and "(\<exists>p \<in> set ps. pName p = n) \<or> mget (keyByName r) n = Some k"
  shows "mget (keyByName (fold load_peer ps r)) n = Some k"
  using assms
proof (induction ps arbitrary: r)
  case (Cons p ps)
  then have "(\<exists>q \<in> set ps. pName q = n) \<or> mget (keyByName (load_peer p r)) n = Some k"
    by (auto simp: load_peer_simps)
  with Cons show ?case by simp
qed simp

lemma load_no_owner:
  assumes "\<forall>p \<in> set ps. pName p \<noteq> n" "n \<noteq> []"
  shows "mget (keyByName (fold load_peer ps r)) n = mget (keyByName r) n"
  using assms
  by (induction ps arbitrary: r) (auto simp: load_peer_def Let_def gomap_simps)

lemma load_unnamed: "[] \<notin> mkeys (keyByName r) \<Longrightarrow> [] \<notin> mkeys (keyByName (fold load_peer ps r))"
  by (induction ps arbitrary: r) (auto simp: load_peer_def Let_def gomap_simps)

lemma empty_cache_unnamed: "[] \<notin> mkeys (keyByName (empty_cache path))"
  by (simp add: empty_cache_def)

lemma learn_path: "rg_path (learn now p r) = rg_path r"
  by (cases rule: pin_cases [of "pPubKey p" "pName p" r]) (auto simp: learn_def)

lemma list_distinct:
  assumes "cache_inv r"
  shows "distinct (map pPubKey (list_cache r))"
proof -
  have "map pPubKey (map snd (rg_peers r)) = map fst (rg_peers r)"
    using assms by (auto simp: cache_inv_def entries_inv_def)
  then have "distinct (map pPubKey (map snd (rg_peers r)))"
    using assms unfolding cache_inv_def entries_inv_def by metis
  moreover have "mset (map pPubKey (list_cache r)) = mset (map pPubKey (map snd (rg_peers r)))"
    by (simp add: list_cache_def multiset.map_comp)
  ultimately show ?thesis by (metis mset_eq_imp_distinct_iff)
qed

lemma find_entry:
  assumes "cache_inv r"
  shows "find (\<lambda>p. pPubKey p = k) (list_cache r) = mget (rg_peers r) k"
proof (cases "mget (rg_peers r) k")
  case None
  then show ?thesis using entry_of_list [OF assms] by (auto simp: find_None_iff)
next
  case (Some p)
  note p = list_of_entry [OF Some] entry_fields [OF assms Some]
  show ?thesis
  proof (cases "find (\<lambda>p. pPubKey p = k) (list_cache r)")
    case None
    then show ?thesis using p by (auto simp: find_None_iff)
  next
    case (Some q)
    then have "q \<in> set (list_cache r)" "pPubKey q = k" by (auto simp: find_Some_iff)
    then show ?thesis using entry_of_list [OF assms, of q] Some by simp
  qed
qed

lemma find_named:
  assumes "cache_inv r"
  shows "find (\<lambda>p. pPubKey p = k \<and> pName p \<noteq> []) (list_cache r) =
    (if mget (nameByKey r) k = None then None else mget (rg_peers r) k)"
proof (cases "find (\<lambda>p. pPubKey p = k \<and> pName p \<noteq> []) (list_cache r)")
  case None
  have "mget (rg_peers r) k = None" if "mget (nameByKey r) k = Some n" for n
  proof (rule ccontr)
    assume "mget (rg_peers r) k \<noteq> None"
    then obtain p where p: "mget (rg_peers r) k = Some p" by blast
    from that have "n \<noteq> []" using assms by (simp add: cache_inv_def names_inv_def)
    then show False
      using None list_of_entry [OF p] entry_fields [OF assms p] that by (auto simp: find_None_iff name_of_def)
  qed
  with None show ?thesis by auto
next
  case (Some p)
  then have p: "p \<in> set (list_cache r)" "pPubKey p = k" "pName p \<noteq> []" by (auto simp: find_Some_iff)
  note e = entry_of_list [OF assms p(1)]
  have "name_of r k \<noteq> []" using entry_fields [OF assms e] p by simp
  with Some e p show ?thesis by (auto simp: name_of_def split: option.splits)
qed

lemma name_entry:
  assumes "cache_inv r" "mget (nameByKey r) k = Some n"
  shows "\<exists>p. mget (rg_peers r) k = Some p \<and> pName p = n"
proof -
  have "k \<in> mkeys (rg_peers r)" using assms by (auto simp: cache_inv_def names_inv_def)
  then obtain p where "mget (rg_peers r) k = Some p" by (metis mget_None_iff not_Some_eq)
  then show ?thesis using entry_fields [OF assms(1)] assms(2) by (auto simp: name_of_def)
qed

lemma owner_loaded:
  assumes "cache_inv r" "\<forall>q \<in> set (list_cache r). pPubKey q \<noteq> []"
  shows "mget (keyByName (fold load_peer (list_cache r) (empty_cache path))) n = mget (keyByName r) n"
proof (cases "mget (keyByName r) n")
  case None
  show ?thesis
  proof (cases "n = []")
    case True
    then show ?thesis
      using None load_unnamed [of "empty_cache path" "list_cache r"] mget_None_iff by (metis empty_cache_unnamed)
  next
    case False
    have "\<forall>p \<in> set (list_cache r). pName p \<noteq> n"
    proof
      fix p assume "p \<in> set (list_cache r)"
      from entry_fields [OF assms(1) entry_of_list [OF assms(1) this]]
      show "pName p \<noteq> n"
        using None False assms(1) by (auto simp: name_of_def cache_inv_def names_inv_def split: option.splits)
    qed
    then show ?thesis using load_no_owner False None by (simp add: empty_cache_def)
  qed
next
  case (Some k)
  then have k: "mget (nameByKey r) k = Some n" "n \<noteq> []" "k \<in> mkeys (rg_peers r)"
    using assms(1) by (auto simp: cache_inv_def names_inv_def)
  then obtain p where p: "mget (rg_peers r) k = Some p" by (metis mget_None_iff not_Some_eq)
  have own: "\<forall>q \<in> set (list_cache r). pName q = n \<longrightarrow> pPubKey q = k"
  proof (intro ballI impI)
    fix q assume "q \<in> set (list_cache r)" "pName q = n"
    then have "mget (nameByKey r) (pPubKey q) = Some n"
      using entry_fields [OF assms(1) entry_of_list [OF assms(1)]] k(2) by (auto simp: name_of_def split: option.splits)
    then show "pPubKey q = k" using k(1) assms(1) unfolding cache_inv_def names_inv_def by (metis option.inject)
  qed
  have "pName p = n" using entry_fields [OF assms(1) p] k(1) by (simp add: name_of_def)
  then show ?thesis using load_owner [OF assms(2) own k(2)] list_of_entry [OF p] Some by auto
qed

text \<open>C20: A restart finds the cache that was written. When a sighting is stored and its write
  succeeds, opening the file again gives a cache with the same entries, the same pinned names and
  the same owners of names, so no name is up for grabs after a restart.\<close>

theorem cache_restart:
  assumes "cache_inv r" "rg_path r = path" "path \<noteq> []" "Upsert A mkdir now p (r, f) = (None, r', f')"
    and "[] \<notin> mkeys (rg_peers r')" "\<forall>q \<in> set (list_cache r'). int64 (LastSeen q)"
    and "parse_array A (indent_array A (map peer_value (list_cache r'))) = Some (JArray (map peer_value (list_cache r')))"
  shows "\<exists>s. Open A path f' = Inr s \<and> (\<forall>k. Get k s = Get k r' \<and>
    mget (nameByKey s) k = mget (nameByKey r') k \<and> mget (keyByName s) k = mget (keyByName r') k)"
proof -
  let ?ps = "list_cache r'"
  have r': "r' = learn now p r" and inv: "cache_inv r'" and path: "rg_path r' = path"
    using assms(1,2,4) learn_cache_inv by (auto simp: Upsert_def Let_def learn_path split: prod.splits)
  have "write_file path (indent_array A (map peer_value ?ps)) f = (None, f')"
    using assms(3,4) path by (auto simp: Upsert_def save_cache_def Let_def r' split: prod.splits if_splits)
  then have rd: "read_file path f' = Contents (indent_array A (map peer_value ?ps))"
    using write_file_read assms(3) by metis
  have "fill_elems decode_peer zero_peer (map peer_value ?ps) [] = Some ?ps"
    by (rule fill_elems_map) (use assms(6) peer_roundtrip in blast)
  then have op: "Open A path f' = Inr (fold load_peer ?ps (empty_cache path))"
    using assms(3,7) rd by (simp add: Open_def read_peers_def fill_array_def)
  have ne: "\<forall>q \<in> set ?ps. pPubKey q \<noteq> []"
    using assms(5) entry_of_list [OF inv] by (metis mget_None_iff option.distinct(1))
  note load = load_distinct [OF list_distinct [OF inv] ne, of "empty_cache path"]
  have "mget (keyByName (fold load_peer ?ps (empty_cache path))) k = mget (keyByName r') k" for k
    by (rule owner_loaded [OF inv ne])
  moreover have "mget (nameByKey (fold load_peer ?ps (empty_cache path))) k = mget (nameByKey r') k" for k
    using load [of k] find_named [OF inv, of k] name_entry [OF inv, of k] by (auto simp: empty_cache_def split: if_splits option.splits)
  moreover have "Get k (fold load_peer ?ps (empty_cache path)) = Get k r'" for k
    using load [of k] find_entry [OF inv, of k] by (auto simp: Get_def empty_cache_def split: option.splits)
  ultimately show ?thesis using op by auto
qed

end
