(* ===== verification/ConnectProps.thy ===== *)
theory ConnectProps
  imports Connect Stores PeerCacheProps
begin

text \<open>
  Properties of one attempt and of what follows from it: nothing is stored about a partner whose
  identity was not confirmed, relay traffic goes only where the operator or the host of the server
  says, a first pairing makes both ends reconnect to each other, and what the offline cache and
  direct mode really do.
\<close>

lemma map_sum_Inr: "map_sum g h x = Inr y \<longleftrightarrow> (\<exists>z. x = Inr z \<and> y = h z)"
  by (cases x) auto

section \<open>Where a partner comes from\<close>

text \<open>A roster for this rendezvous, signed by the pinned server, names the peer.\<close>

definition signed_roster :: "json \<Rightarrow> crypto \<Rightarrow> bytes \<Rightarrow> bytes \<Rightarrow> peer \<Rightarrow> bool" where
  "signed_roster J C serverPub tok p \<longleftrightarrow>
     (\<exists>ts peers sig. ed_verify C serverPub (PeerListPayload J tok ts peers) sig \<and> p \<in> set peers \<and> checkRosterPeer p = None)"

definition vouched :: "json \<Rightarrow> crypto \<Rightarrow> 'a conn_cfg_scheme \<Rightarrow> node \<Rightarrow> conn_attempt \<Rightarrow> conn_env \<Rightarrow> cache \<Rightarrow> peer \<Rightarrow> bool" where
  "vouched J C cfg nd att E r p \<longleftrightarrow>
     (if Direct cfg then directPartner C cfg = Inr p
      else signed_roster J C (nd_serverPub nd) (rendezvous att) p \<or> cached_peer (en_now E) r = Some p)"

lemma judge_Partner:
  "judge_reply J C k tok now resp noted = Partner p t \<Longrightarrow> signed_roster J C k tok p"
  unfolding judge_reply_def signed_roster_def
  by (force simp: Let_def split: option.splits if_splits list.splits)

lemma poll_loop_signed:
  "poll_loop J C X rcfg nd tok epk turns noted = Inr (p, t) \<Longrightarrow> signed_roster J C (nd_serverPub nd) tok p"
  by (induction turns arbitrary: noted) (auto split: sum.splits poll_result.splits dest: judge_Partner)

lemma introduced_signed:
  "introduced J C X rcfg nd att E cred = Inr (p, cred') \<Longrightarrow>
   p = zero_peer \<or> signed_roster J C (nd_serverPub nd) (rendezvous att) p"
  by (auto simp: introduced_def buddyRegister_def dest: poll_loop_signed split: if_splits sum.splits)

lemma server_partner_cases:
  assumes "server_partner C cfg nd att E p (r, f) = Inr (q, cached, sas)"
  obtains pub where "DecodePubKey (pPubKey q) = Some pub" "vet C cfg att pub f = Inr sas"
    "q = p \<and> pPubKey p \<noteq> [] \<or> cached_peer (en_now E) r = Some q"
  using assms by (auto simp: server_partner_def split: if_splits option.splits sum.splits)

lemma partner_found:
  assumes "find_partner_for J C X rcfg cfg nd att E cred (r, f) = Inr ((partner, cached, sas), cred')"
  shows "vouched J C cfg nd att E r partner"
    and "\<exists>pub. DecodePubKey (pPubKey partner) = Some pub \<and> (if Direct cfg then sas = False else vet C cfg att pub f = Inr sas)"
proof -
  have "vouched J C cfg nd att E r partner \<and>
    (\<exists>pub. DecodePubKey (pPubKey partner) = Some pub \<and> (if Direct cfg then sas = False else vet C cfg att pub f = Inr sas))"
  proof (cases "Direct cfg")
    case True
    then have d: "direct_mode_partner C cfg nd = Inr (partner, cached, sas)"
      using assms by (cases "direct_mode_partner C cfg nd") (auto simp: find_partner_for_def)
    then have p: "directPartner C cfg = Inr partner" "sas = False"
      by (auto simp: direct_mode_partner_def split: sum.splits if_splits)
    then obtain pub where "length pub = 32" "pPubKey partner = PubKeyB64 pub"
      by (auto simp: directPartner_def split: if_splits option.splits dest: DecodePubKey_length)
    then have "DecodePubKey (pPubKey partner) = Some pub" by (simp add: DecodePubKey_roundtrip)
    with p True show ?thesis by (auto simp: vouched_def)
  next
    case False
    then obtain p c where i: "introduced J C X rcfg nd att E cred = Inr (p, c)"
      and s: "server_partner C cfg nd att E p (r, f) = Inr (partner, cached, sas)"
      using assms by (auto simp: find_partner_for_def map_sum_Inr split: sum.splits)
    from s False introduced_signed [OF i] show ?thesis
      by (cases rule: server_partner_cases) (auto simp: vouched_def zero_peer_def)
  qed
  then show "vouched J C cfg nd att E r partner"
    and "\<exists>pub. DecodePubKey (pPubKey partner) = Some pub \<and> (if Direct cfg then sas = False else vet C cfg att pub f = Inr sas)"
    by blast+
qed

section \<open>Nothing is stored before the partner is confirmed\<close>








lemma dial_loop_session: "dial_loop N sid ps err = Inr (s, p) \<Longrightarrow> p \<in> set ps \<and> (\<exists>e. handshake N p e = Some s)"
  by (induction ps arbitrary: err) (auto split: sum.splits option.splits)

lemma listenAllPaths_session: "listenAllPaths N sid ps = Inr (s, p) \<Longrightarrow> handshake N (hd ps) [] = Some s"
  by (auto simp: listenAllPaths_def split: prod.splits if_splits option.splits)










section \<open>Where relay traffic goes\<close>

text \<open>C24: A server cannot aim a buddy at a host of its choosing. Every relay in the chain of an attempt
  is the one the operator configured, or, when none is configured, the one the roster or the cache
  advertises on the very host the operator wrote as the server, compared as text without name
  resolution.\<close>

theorem relay_locally_chosen:
  assumes "p \<in> set (chain_to cfg partner cached)" "Kind p = Relayed"
  shows "RelayEndpoint p \<noteq> [] \<and> (RelayEndpoint p = PeerRelay cfg \<or>
    \<not> Direct cfg \<and> PeerRelay cfg = [] \<and> RelayEndpoint p = pRelay partner \<and>
    (\<exists>h. h \<noteq> [] \<and> hostOf (RelayEndpoint p) = Some h \<and> hostOf (Server cfg) = Some h))"
proof -
  have "Kind (direct_path cs) \<noteq> Relayed" "Kind (configured_path e) \<noteq> Relayed" "RelayEndpoint (relay_path e) = e" for cs e
    by (simp_all add: direct_path_def configured_path_def relay_path_def)
  then have "RelayEndpoint p \<noteq> [] \<and> (Direct cfg \<and> RelayEndpoint p = PeerRelay cfg \<or>
      \<not> Direct cfg \<and> RelayEndpoint p = ro_endpoint (trustedRelay (PeerRelay cfg) (Server cfg) (pRelay partner)))"
    using assms by (auto simp: chain_to_def DirectChain_def Chain_def split: if_splits option.splits)
  then show ?thesis
    by (auto simp: trustedRelay_def no_offer_def Let_def split: if_splits option.splits)
qed

section \<open>Direct mode\<close>

text \<open>C39: when the two ends of direct mode take opposite roles. With the lower key on one end, exactly
  one end listens if and only if that end has a listening port and the other cannot be
  waiting, being without a port or able to dial, or the other way round. In particular two
  reachable ends of which only the one with the lower key knows the other's address both
  listen, and never meet.\<close>

theorem direct_roles:
  assumes "a < b"
  shows "((directListening cfgA a b \<noteq> directListening cfgB b a) \<longleftrightarrow>
      ((ListenPort cfgA \<noteq> 0) \<noteq> (ListenPort cfgB \<noteq> 0 \<and> PeerEndpoint cfgB = []))) \<and>
    (ListenPort cfgA \<noteq> 0 \<and> PeerEndpoint cfgA \<noteq> [] \<and> ListenPort cfgB \<noteq> 0 \<and> PeerEndpoint cfgB = [] \<longrightarrow>
      directListening cfgA a b \<and> directListening cfgB b a)"
  using assms by (auto simp: directListening_def Let_def)

section \<open>The offline cache\<close>

text \<open>C38: When the cache is used, and for whom. If the name of the server resolves and registering
  fails, the attempt fails, whatever is in the cache. If it does not resolve, the first fresh entry
  in ID order is tried and no other one: for an attempt that is pinned to another buddy the
  result is a pin mismatch, even if that buddy has a fresh entry too.\<close>

theorem offline_fallback:
  assumes "\<not> Direct cfg" "en_socket E" "newRelayCred C (en_rand E) = Some cred"
  shows "(en_server E \<and> buddyRegister J C X (en_dials E) rcfg nd (rendezvous att) (Some cred) (en_turns E) = Inl e \<longrightarrow>
      buddyRun J C X A rcfg cfg nd att E rf = (Inl (RegisterRefused e), rf)) \<and>
    (\<not> en_server E \<and> cached_peer (en_now E) (fst rf) = Some c \<and> DecodePubKey (pPubKey c) = Some pub \<and>
       at_pin att = Some pin \<and> pin \<noteq> pub \<longrightarrow>
      buddyRun J C X A rcfg cfg nd att E rf = (Inl (NotTrusted PinMismatch), rf))"
  using assms
  by (auto simp: buddyRun_def find_partner_for_def introduced_def server_partner_def vet_def enforcePins_def zero_peer_def)

section \<open>A first pairing makes both ends reconnect\<close>

lemma learn_no_sessions:
  assumes "path \<noteq> []" "read_file path f = Missing" "length (sha256 C tok) = 32" "length pub = 32"
    and "learnPeer C l path tok (PubKeyB64 pub) f = (Inr (), g)"
  shows "loadSessions path g = Inr []" "store_ok path g" "read_file (revokedPath path) g = read_file (revokedPath path) f"
proof -
  let ?line = "tokenKey C tok @ '' '' @ PubKeyB64 pub"
  note line = learn_line [OF assms(3,4)]
  have "learnPeerLocked C path tok (PubKeyB64 pub) f = (Inr (), g)"
    using assms(1,5) by (auto simp: learnPeer_def elim: withLock_cases)
  then have "write_file path (?line @ [newline]) f = (None, g)"
    using assms(2) by (auto simp: learnPeerLocked_def split: sum.splits bool.splits prod.splits option.splits)
  then have "read_file path g = Contents (concat (map (\<lambda>l. l @ [newline]) [?line]))"
    using write_file_read(2) [OF _ refl assms(1)] by simp
  from loadSessions_written [OF this assms(1)] line(2,3)
  have "loadSessions path g = Inr (List.map_filter stored_session [?line])" by simp
  then show "loadSessions path g = Inr []"
    using line(1) by (simp add: map_filter_simps stored_session_def)
  have "store_ok path f" using assms(2) by (simp add: store_ok_def)
  from learnPeer_store_ok [OF this assms(3,4), of l] show "store_ok path g" using assms(5) by simp
  have "revokedPath path \<noteq> path" using assms(1) by (simp add: revokedPath_def)
  from learnPeer_frame [OF this, of C l tok "PubKeyB64 pub" f]
  show "read_file (revokedPath path) g = read_file (revokedPath path) f" using assms(5) by simp
qed

text \<open>What one end brings to a first pairing over QUIC: a fresh session store, away from the peer
  cache, an attempt with an invitation, the partner it found, with its key in the usual text form,
  and keying material that every session of this attempt exports.\<close>

record pairing_side =
  ps_cfg :: conn_cfg
  ps_node :: node
  ps_reg :: buddy_config
  ps_att :: conn_attempt
  ps_env :: conn_env
  ps_cred :: relayCred
  ps_cache :: cache
  ps_files :: fs

abbreviation side_key :: "crypto \<Rightarrow> pairing_side \<Rightarrow> bytes" where
  "side_key C S \<equiv> ed_public C (nd_priv (ps_node S))"

abbreviation side_store :: "pairing_side \<Rightarrow> bytes" where
  "side_store S \<equiv> KnownPeers (ps_cfg S)"

definition first_pairing :: "json \<Rightarrow> crypto \<Rightarrow> curves \<Rightarrow> (bytes \<Rightarrow> bytes \<Rightarrow> nat \<Rightarrow> bytes option) \<Rightarrow> pairing_side \<Rightarrow> bytes \<Rightarrow> bool" where
  "first_pairing J C X ekm S pub \<longleftrightarrow>
     \<not> Direct (ps_cfg S) \<and> \<not> WireGuard (ps_cfg S) \<and> firstPairing (ps_att S) \<and> at_pin (ps_att S) = None \<and>
     (PeerKey (ps_cfg S) = [] \<or> DecodePubKey (PeerKey (ps_cfg S)) \<noteq> None) \<and>
     side_store S \<noteq> [] \<and> read_file (side_store S) (ps_files S) = Missing \<and>
     rg_path (ps_cache S) \<noteq> side_store S \<and> rg_path (ps_cache S) \<noteq> revokedPath (side_store S) \<and>
     newRelayCred C (en_rand (ps_env S)) = Some (ps_cred S) \<and> length pub = 32 \<and>
     (\<exists>partner cached sas cred. find_partner_for J C X (ps_reg S) (ps_cfg S) (ps_node S) (ps_att S) (ps_env S) (ps_cred S)
        (ps_cache S, ps_files S) = Inr ((partner, cached, sas), cred) \<and> pPubKey partner = PubKeyB64 pub) \<and>
     (\<forall>p e s. handshake (en_net (ps_env S)) p e = Some s \<longrightarrow> se_ekm s = ekm)"

abbreviation side_run :: "json \<Rightarrow> crypto \<Rightarrow> curves \<Rightarrow> array_json \<Rightarrow> pairing_side \<Rightarrow> (conn_error + path) \<times> store" where
  "side_run J C X A S \<equiv> buddyRun J C X A (ps_reg S) (ps_cfg S) (ps_node S) (ps_att S) (ps_env S) (ps_cache S, ps_files S)"

lemma rememberPeer_frame:
  assumes "rememberPeer A mk now p (r, f) = (r', f')" "path \<noteq> rg_path r"
  shows "read_file path f' = read_file path f"
proof -
  have "read_file path (snd (save_cache A mk (learn now p r) f)) = read_file path f"
    using assms(2) write_file_other [OF prod.collapse [symmetric]] by (auto simp: save_cache_def learn_path)
  then show ?thesis using assms(1) by (auto simp: rememberPeer_def Upsert_def Let_def split: if_splits prod.splits)
qed

lemma isRevoked_cong: "read_file (revokedPath base) g = read_file (revokedPath base) f \<Longrightarrow> isRevoked base k g = isRevoked base k f"
  unfolding isRevoked_def using loadRevoked_cong [of base g f] by simp

lemma saveSession_open:
  assumes "path \<noteq> []" "saveSession C l path tok k sec f = (Inr (), g)"
  shows "isRevoked path k g = Inr False"
proof -
  have "saveSessionLocked C path tok k sec f = (Inr (), g)"
    using assms by (auto simp: saveSession_def elim: withLock_cases)
  then have "isRevoked path k f = Inr False"
    by (auto simp: saveSessionLocked_def split: sum.splits bool.splits)
  moreover have "revokedPath path \<noteq> path" using assms(1) by (simp add: revokedPath_def)
  then have "read_file (revokedPath path) g = read_file (revokedPath path) f"
    using saveSession_frame [of "revokedPath path" path C l tok k sec f] assms(2) by simp
  ultimately show ?thesis by (metis isRevoked_cong)
qed

lemma sas_step_store:
  assumes "sas_step C cfg att E myPub pub sas m f = (None, g)" "KnownPeers cfg \<noteq> []" "read_file (KnownPeers cfg) f = Missing"
    and "length (sha256 C (inviteToken att)) = 32" "length pub = 32"
  shows "loadSessions (KnownPeers cfg) g = Inr [] \<and> store_ok (KnownPeers cfg) g"
proof -
  have fresh: "loadSessions (KnownPeers cfg) f = Inr []" "store_ok (KnownPeers cfg) f"
    using assms(2,3) by (simp_all add: loadSessions_def store_ok_def)
  have "g = f \<or> confirm C (en_lock_trust E) (trust_of cfg) (inviteToken att) pub f = (Inr (), g)"
    using assms(1) by (auto simp: sas_step_def Let_def split: if_splits sum.splits option.splits prod.splits)
  then consider "g = f" | "learnPeer C (en_lock_trust E) (KnownPeers cfg) (inviteToken att) (PubKeyB64 pub) f = (Inr (), g)"
    by (auto simp: confirm_def trust_of_def PubKeyB64_def split: if_splits)
  then show ?thesis
    using fresh learn_no_sessions [OF assms(2,3,4,5)] by cases auto
qed

lemma decide_pin: "decide C t tok pub f = Inr sas \<Longrightarrow> pinned t = Some pin \<Longrightarrow> pub = pin"
  by (auto simp: decide_def Let_def split: sum.splits bool.splits if_splits)

lemma quic_run_pairs:
  assumes "quic_run C A cfg nd att E partner pub sas chain sid (r, f) = (Inr used, r', f')" "chain \<noteq> []"
    and "\<forall>p e s. handshake (en_net E) p e = Some s \<longrightarrow> se_ekm s = ekm"
    and "firstPairing att"
  obtains m g h sec where "sas_step C cfg att E (ed_public C (nd_priv nd)) pub sas m f = (None, g)"
    "rememberPeer A (en_mkdir E) (en_now E) partner (r, g) = (r', h)"
    "deriveSessionSecret ekm (ed_public C (nd_priv nd)) pub = Some sec"
    "saveSession C (en_lock_session E) (KnownPeers cfg) (inviteToken att) (pPubKey partner) sec h = (Inr (), f')"
proof -
  let ?listening = "if Direct cfg then directListening cfg (nd_pub nd) (pPubKey partner) else nd_pub nd < pPubKey partner"
  let ?walk = "if Direct cfg \<and> ?listening then listenAllPaths (en_net E) sid chain else dialChain (en_net E) sid chain"
  obtain s u where w: "?walk = Inr (s, u)"
    using assms(1) unfolding quic_run_def Let_def by (cases ?walk) auto
  then have "\<exists>p e. handshake (en_net E) p e = Some s"
    using dial_loop_session listenAllPaths_session by (metis dialChain_def)
  then have ekm: "se_ekm s = ekm" using assms(3) by blast
  let ?m = "case ekm sasLabel [] 32 of None \<Rightarrow> Inl NoKeyingMaterial | Some k \<Rightarrow> Inr k"
  obtain e g where st: "sas_step C cfg att E (ed_public C (nd_priv nd)) pub sas ?m f = (e, g)" by fastforce
  obtain q h where re: "rememberPeer A (en_mkdir E) (en_now E) partner (r, g) = (q, h)" by fastforce
  note run = assms(1) [unfolded quic_run_def Let_def w, simplified ekm st snd_conv fst_conv sum.case prod.case]
  have "e = None" using run by (auto split: option.splits)
  with run re assms(4) obtain sec where "deriveSessionSecret ekm (ed_public C (nd_priv nd)) pub = Some sec"
    "saveSession C (en_lock_session E) (KnownPeers cfg) (inviteToken att) (pPubKey partner) sec h = (Inr (), f')" "q = r'"
    by (auto simp: persist_step_def Let_def split: option.splits sum.splits prod.splits)
  with that st re \<open>e = None\<close> show thesis by blast
qed

lemma side_steps:
  assumes "first_pairing J C X ekm S pub" "side_run J C X A S = (Inr used, r', f')"
  obtains m g h sas sec where
    "vet C (ps_cfg S) (ps_att S) pub (ps_files S) = Inr sas"
    "sas_step C (ps_cfg S) (ps_att S) (ps_env S) (side_key C S) pub sas m (ps_files S) = (None, g)"
    "\<forall>path. path \<noteq> rg_path (ps_cache S) \<longrightarrow> read_file path h = read_file path g"
    "deriveSessionSecret ekm (side_key C S) pub = Some sec"
    "saveSession C (en_lock_session (ps_env S)) (side_store S) (inviteToken (ps_att S)) (PubKeyB64 pub) sec h = (Inr (), f')"
proof -
  obtain partner cached sas cred where fp: "find_partner_for J C X (ps_reg S) (ps_cfg S) (ps_node S) (ps_att S) (ps_env S) (ps_cred S)
      (ps_cache S, ps_files S) = Inr ((partner, cached, sas), cred)" and key: "pPubKey partner = PubKeyB64 pub"
    using assms(1) unfolding first_pairing_def by blast
  note fp1 = assms(1) [unfolded first_pairing_def]
  have dec: "DecodePubKey (pPubKey partner) = Some pub" using fp1 key by (simp add: DecodePubKey_roundtrip)
  then have v: "vet C (ps_cfg S) (ps_att S) pub (ps_files S) = Inr sas" using partner_found(2) [OF fp] fp1 by simp
  let ?chain = "chain_to (ps_cfg S) partner cached"
  obtain sid where run: "?chain \<noteq> []" "quic_run C A (ps_cfg S) (ps_node S) (ps_att S) (ps_env S) partner pub sas ?chain sid
      (ps_cache S, ps_files S) = (Inr used, r', f')"
    using assms(2) fp1 fp dec by (auto simp: buddyRun_def Let_def split: if_splits)
  have "\<forall>p e s. handshake (en_net (ps_env S)) p e = Some s \<longrightarrow> se_ekm s = ekm" "firstPairing (ps_att S)" using fp1 by blast+
  from quic_run_pairs [OF run(2,1) this] obtain m g h sec where
    "sas_step C (ps_cfg S) (ps_att S) (ps_env S) (side_key C S) pub sas m (ps_files S) = (None, g)"
    "rememberPeer A (en_mkdir (ps_env S)) (en_now (ps_env S)) partner (ps_cache S, g) = (r', h)"
    "deriveSessionSecret ekm (side_key C S) pub = Some sec"
    "saveSession C (en_lock_session (ps_env S)) (side_store S) (inviteToken (ps_att S)) (pPubKey partner) sec h = (Inr (), f')" .
  then show thesis using that [OF v] rememberPeer_frame key by metis
qed

lemma paired_side:
  assumes "first_pairing J C X ekm S pub" "side_run J C X A S = (Inr used, r', f')" "\<And>x. length (sha256 C x) = 32"
    and "ekm sessionSecretLabel (fst (in_order (side_key C S) pub) @ snd (in_order (side_key C S) pub)) 32 = Some k" "length k = 32"
  shows "\<exists>a. nextAttempt (buddy_cfg.truncate (ps_cfg S)) f' = Inr a \<and> at_pin a = Some pub \<and> rendezvous a = b64url_encode k \<and> \<not> firstPairing a"
proof -
  note fp = assms(1) [unfolded first_pairing_def]
  have kp: "side_store S \<noteq> []" "read_file (side_store S) (ps_files S) = Missing" "length pub = 32" using fp by blast+
  obtain m g h sas sec where v: "vet C (ps_cfg S) (ps_att S) pub (ps_files S) = Inr sas"
    and st: "sas_step C (ps_cfg S) (ps_att S) (ps_env S) (side_key C S) pub sas m (ps_files S) = (None, g)"
    and re: "\<forall>path. path \<noteq> rg_path (ps_cache S) \<longrightarrow> read_file path h = read_file path g"
    and sec: "deriveSessionSecret ekm (side_key C S) pub = Some sec"
    and save: "saveSession C (en_lock_session (ps_env S)) (side_store S) (inviteToken (ps_att S)) (PubKeyB64 pub) sec h = (Inr (), f')"
    by (rule side_steps [OF assms(1,2)]) (rule that)
  have sk: "sec = b64url_encode k"
    using sec assms(4) by (auto simp: deriveSessionSecret_def in_order_def split: if_splits)
  note g = sas_step_store [OF st kp(1,2) assms(3) kp(3)]
  have "read_file (side_store S) h = read_file (side_store S) g" using re fp by metis
  then have h: "loadSessions (side_store S) h = Inr []" "store_ok (side_store S) h"
    using g kp(1) by (simp_all add: loadSessions_def store_ok_def)
  have "session_parts C (inviteToken (ps_att S)) pub k" using assms(3,5) kp(3) by (simp add: session_parts_def)
  from session_saved [OF kp(1) this h(2,1) save [unfolded sk]]
  have ld: "loadSession (side_store S) f' = Inr (Some (pub, b64url_encode k))" by (simp add: loadSession_def)
  have gate: "revoked_gate (side_store S) (PubKeyB64 pub) f' = None"
    using saveSession_open [OF kp(1) save] by (simp add: revoked_gate_def)
  have "configured_pin (buddy_cfg.truncate (ps_cfg S)) \<in> {Inr None, Inr (Some pub)}"
  proof (cases "PeerKey (ps_cfg S) = []")
    case False
    then obtain pin where pin: "DecodePubKey (PeerKey (ps_cfg S)) = Some pin" using fp by blast
    have "decide C (trust_of (ps_cfg S)) (inviteToken (ps_att S)) pub (ps_files S) = Inr sas"
      using v fp by (simp add: vet_def split: if_splits option.splits)
    moreover have "pinned (trust_of (ps_cfg S)) = Some pin" using pin False by (simp add: trust_of_def)
    ultimately have "pub = pin" by (rule decide_pin)
    with pin False show ?thesis by (simp add: configured_pin_def buddy_cfg.defs)
  qed (simp add: configured_pin_def buddy_cfg.defs)
  then show ?thesis
    using fp kp(1) gate ld by (auto simp: nextAttempt_def buddy_cfg.defs trustBase_def Let_def no_attempt_def)
qed

text \<open>C6: A first pairing makes both ends reconnect to each other. Two buddies with fresh session
  stores run an attempt for an invitation, each finds the other as its partner, and both attempts
  succeed over one TLS session. Then the next attempt of each is a reconnect, pinned to the key of the
  other and no longer to the invitation, and both register under the same rendezvous secret, though
  no secret was ever transmitted.\<close>

theorem paired_reconnect:
  assumes "first_pairing J C X ekm S (side_key C T)" "first_pairing J C X ekm T (side_key C S)"
    and "side_run J C X A S = (Inr pathS, rS, fS)" "side_run J C X B T = (Inr pathT, rT, fT)"
    and "\<And>x. length (sha256 C x) = 32" "\<And>ctx. \<exists>k. ekm sessionSecretLabel ctx 32 = Some k \<and> length k = 32"
  shows "\<exists>a b. nextAttempt (buddy_cfg.truncate (ps_cfg S)) fS = Inr a \<and> nextAttempt (buddy_cfg.truncate (ps_cfg T)) fT = Inr b \<and>
    at_pin a = Some (side_key C T) \<and> at_pin b = Some (side_key C S) \<and>
    \<not> firstPairing a \<and> \<not> firstPairing b \<and> rendezvous a = rendezvous b"
proof -
  obtain k where k: "ekm sessionSecretLabel (fst (in_order (side_key C S) (side_key C T)) @ snd (in_order (side_key C S) (side_key C T))) 32 = Some k"
    "length k = 32" using assms(6) by blast
  from paired_side [OF assms(1,3,5) k] paired_side [OF assms(2,4,5) k [unfolded in_order_comm [of "side_key C S"]]]
  show ?thesis by metis
qed

end
