(* ===== verification/ConnectScenario.thy ===== *)
theory ConnectScenario
  imports ConnectProps TrustScenario
begin

text \<open>
  Two buddies that pair over a relay, a cache with a contested name, and two ends of direct mode: a
  concrete instance of what the properties of the peer cache and of the attempts assume.
\<close>

section \<open>The peer cache\<close>

definition alice :: peer where
  "alice = zero_peer\<lparr>pID := ''a'', pPubKey := PubKeyB64 pinA, pName := ''alice'', pVirtualIP := ''100.64.0.2'', LastSeen := 1\<rparr>"

definition mallory :: peer where
  "mallory = zero_peer\<lparr>pID := ''m'', pPubKey := PubKeyB64 pinB, pName := ''alice'', pVirtualIP := ''100.64.0.3'', LastSeen := 1\<rparr>"

definition alice_cache :: cache where
  "alice_cache = \<lparr>rg_path = ''c'', rg_peers = [(PubKeyB64 pinA, alice)], nameByKey = [(PubKeyB64 pinA, ''alice'')],
     keyByName = [(''alice'', PubKeyB64 pinA)]\<rparr>"

definition list_json :: "peer list \<Rightarrow> array_json" where
  "list_json ps = \<lparr>parse_array = (\<lambda>c. if c = ''[peers]'' then Some (JArray (map peer_value ps)) else None),
     indent_array = (\<lambda>vs. ''[peers]'')\<rparr>"

lemma key_text: "length pub = 32 \<Longrightarrow> PubKeyB64 pub \<noteq> []"
proof -
  assume "length pub = 32"
  then have "DecodePubKey (PubKeyB64 pub) = Some pub" by (rule DecodePubKey_roundtrip)
  moreover have "DecodePubKey [] = None" by code_simp
  ultimately show ?thesis by (metis option.distinct(1))
qed

lemma alice_cached: "learn 0 alice (empty_cache ''c'') = alice_cache"
  by (simp add: learn_def pinNameLocked_def stamp_def empty_cache_def alice_cache_def alice_def zero_peer_def)

lemma alice_cache_inv: "cache_inv alice_cache" "names_valid alice_cache"
proof -
  show "cache_inv alice_cache" using learn_cache_inv empty_cache_inv(1) by (metis alice_cached)
  have "ValidName ''alice''" by code_simp
  then show "names_valid alice_cache" by (simp add: names_valid_def alice_cache_def)
qed

lemma local_hash [simp]: "length (sha256 local_crypto x) = 32"
  by (simp add: local_crypto_def)

theorem names_resolve_witness:
  "handleBuddy local_crypto (fold sight [(5, mallory)] alice_cache) ''me'' None [(''Alice.Buddy.'', TypeA)] =
     Answer ''Alice.Buddy.'' (Addr4 [CHR 0x64, CHR 0x40, CHR 0x00, CHR 0x02])"
proof -
  have n: "mget (nameByKey alice_cache) (PubKeyB64 pinA) = Some ''alice''" by (simp add: alice_cache_def)
  have "ValidName ''alice''" by code_simp
  then have ok: "\<forall>e \<in> set [(5, mallory)]. sighting_ok e" by (simp add: sighting_ok_def mallory_def)
  have p: "mget (rg_peers (fold sight [(5, mallory)] alice_cache)) (PubKeyB64 pinA) = Some alice"
    using pins_differ by (simp add: sight_def learn_def pinNameLocked_def mallory_def alice_cache_def zero_peer_def mget_mput)
  have ip: "ParseAddr (pVirtualIP alice) = Some (Addr4 [CHR 0x64, CHR 0x40, CHR 0x00, CHR 0x02])"
    by (simp add: alice_def) code_simp
  have q: "ToLower ''Alice.Buddy.'' = ''alice'' @ ''.buddy.'' \<or> ToLower ''Alice.Buddy.'' = ''alice'' @ ''.buddy''" by code_simp
  have "''alice'' \<noteq> ''me''" by simp
  from names_resolve [OF alice_cache_inv n ok p ip local_hash this q] show ?thesis by blast
qed

theorem cache_restart_witness:
  "\<exists>f s. Upsert (list_json [alice]) True 0 alice (empty_cache ''c'', no_files) = (None, alice_cache, f) \<and>
     Open (list_json [alice]) ''c'' f = Inr s \<and> Get (PubKeyB64 pinA) s = Some alice \<and> mget (keyByName s) ''alice'' = Some (PubKeyB64 pinA)"
proof -
  have l: "list_cache alice_cache = [alice]" by (simp add: list_cache_def alice_cache_def)
  obtain f where u: "Upsert (list_json [alice]) True 0 alice (empty_cache ''c'', no_files) = (None, alice_cache, f)"
    by (simp add: Upsert_def alice_cached save_cache_def write_file_def no_files_def list_json_def alice_cache_def)
  have k: "[] \<notin> mkeys (rg_peers alice_cache)" using key_text [OF pin_length(1)] by (simp add: alice_cache_def)
  have i: "\<forall>q \<in> set (list_cache alice_cache). int64 (LastSeen q)" by (simp add: l alice_def int64_def)
  have j: "parse_array (list_json [alice]) (indent_array (list_json [alice]) (map peer_value (list_cache alice_cache))) =
      Some (JArray (map peer_value (list_cache alice_cache)))" by (simp add: list_json_def l)
  have "rg_path (empty_cache ''c'') = ''c''" by (simp add: empty_cache_def)
  from cache_restart [OF empty_cache_inv(1) this _ u k i j] u show ?thesis
    by (auto simp: Get_def alice_cache_def)
qed

section \<open>Two buddies that pair\<close>

text \<open>Each end has the other in its cache and as the configured key; the name of the server does not
  resolve, and the relay of the operator carries the tunnel.\<close>

definition relay_session :: session where
  "relay_session = \<lparr>se_remote = ''r:1'', se_ekm = (\<lambda>label ctx n. Some (take n (ctx @ replicate n CHR 0x00)))\<rparr>"

definition relay_net :: net where
  "relay_net = \<lparr>resolve = (\<lambda>h. Some \<lparr>IP = [CHR 0x0A, CHR 0x00, CHR 0x00, CHR 0x01], Port = 1\<rparr>), heard = (\<lambda>cs. []),
     bind_leg = (\<lambda>a sid. True), handshake = (\<lambda>p e. Some relay_session)\<rparr>"

definition offline_env :: conn_env where
  "offline_env = \<lparr>en_socket = True, en_rand = Some pinA, en_server = False, en_dials = [], en_turns = [], en_now = 2 * second,
     en_net = relay_net, en_stdin = Deadline, en_lock_trust = True, en_lock_session = True, en_mkdir = True, en_wg = False,
     en_bind_rand = None, en_bind_sends = (True, True), en_bind_events = [], en_scoped = True, en_wg_up = True,
     en_wg_handshake = True\<rparr>"

definition other_peer :: "bytes \<Rightarrow> peer" where
  "other_peer pub = zero_peer\<lparr>pID := ''x'', pPubKey := PubKeyB64 pub, LastSeen := 1\<rparr>"

definition side_cfg :: "bytes \<Rightarrow> conn_cfg" where
  "side_cfg pub = \<lparr>KnownPeers = ''k'', PeersFile = ''p'', PeerKey = PubKeyB64 pub, InviteToken = ''meet'', Insecure = False,
     Direct = False, Ephemeral = True, InviteTimeout = 0, Server = ''s:1'', PeerEndpoint = [], PeerRelay = ''r:1'', ListenPort = 0,
     WireGuard = False, Interactive = False, SASShow = False, Inviting = False, ExposeFlag = None\<rparr>"

definition demo_side :: "bytes \<Rightarrow> bytes \<Rightarrow> pairing_side" where
  "demo_side me pub = \<lparr>ps_cfg = side_cfg pub,
     ps_node = \<lparr>nd_priv = me, nd_pub = PubKeyB64 me, nd_id = ''i'', nd_vip = [], nd_serverPub = pinA\<rparr>,
     ps_reg = \<lparr>cfg_Name = [], cfg_Code = []\<rparr>,
     ps_att = \<lparr>rendezvous = ''meet'', inviteToken = ''meet'', at_pin = None, cfgPin = Some pub, firstPairing = True, ifIndex = 0,
       at_expose = None\<rparr>,
     ps_env = offline_env,
     ps_cred = \<lparr>rc_priv = pinA, rc_pub = b64url_encode pinA, rc_payload = [], rc_sig = [], rc_sid = []\<rparr>,
     ps_cache = (empty_cache ''c'')\<lparr>rg_peers := [(PubKeyB64 pub, other_peer pub)]\<rparr>,
     ps_files = no_files\<rparr>"

lemma other_peer_ok: "checkRosterPeer (other_peer pub) = None" "Fresh (2 * second) (other_peer pub) cacheTTL"
proof -
  have "validField ''x''" by code_simp
  then show "checkRosterPeer (other_peer pub) = None"
    by (simp add: checkRosterPeer_def other_peer_def zero_peer_def MaxFieldLen_def)
qed (simp add: Fresh_def other_peer_def cacheTTL_def second_def)

lemma side_partner:
  assumes "length pub = 32"
  shows "find_partner_for J local_crypto X (ps_reg (demo_side me pub)) (side_cfg pub) (ps_node (demo_side me pub)) (ps_att (demo_side me pub))
     offline_env (ps_cred (demo_side me pub)) (ps_cache (demo_side me pub), no_files) =
     Inr ((other_peer pub, Some (other_peer pub), False), ps_cred (demo_side me pub))"
proof -
  have c: "cached_peer (2 * second) (ps_cache (demo_side me pub)) = Some (other_peer pub)"
    using other_peer_ok by (simp add: cached_peer_def list_cache_def demo_side_def)
  have v: "vet local_crypto (side_cfg pub) (ps_att (demo_side me pub)) pub no_files = Inr False"
    using key_text [OF assms] DecodePubKey_roundtrip [OF assms]
    by (simp add: vet_def demo_side_def side_cfg_def decide_def trust_of_def isRevoked_def loadRevoked_missing)
  have k: "DecodePubKey (pPubKey (other_peer pub)) = Some pub"
    using DecodePubKey_roundtrip [OF assms] by (simp add: other_peer_def)
  show ?thesis
    using c v k by (simp add: find_partner_for_def introduced_def server_partner_def offline_env_def side_cfg_def zero_peer_def)
qed

lemma side_first_pairing:
  assumes "length me = 32" "length pub = 32"
  shows "first_pairing J local_crypto X (se_ekm relay_session) (demo_side me pub) pub"
proof -
  have "\<exists>partner cached sas cred. find_partner_for J local_crypto X (ps_reg (demo_side me pub)) (side_cfg pub) (ps_node (demo_side me pub))
      (ps_att (demo_side me pub)) offline_env (ps_cred (demo_side me pub)) (ps_cache (demo_side me pub), no_files) =
      Inr ((partner, cached, sas), cred) \<and> pPubKey partner = PubKeyB64 pub"
    using side_partner [OF assms(2)] by (intro exI conjI) (assumption, simp add: other_peer_def)
  then show ?thesis
    using DecodePubKey_roundtrip [OF assms(2)] assms(2)
    unfolding first_pairing_def
    by (simp add: demo_side_def side_cfg_def offline_env_def relay_net_def empty_cache_def revokedPath_def newRelayCred_def local_crypto_def)
qed

lemma side_pairs:
  assumes "length me = 32" "length pub = 32"
  shows "\<exists>r f. side_run J local_crypto X A (demo_side me pub) = (Inr (relay_path ''r:1''), r, f)"
proof -
  let ?S = "demo_side me pub"
  let ?chain = "[relay_path ''r:1'']"
  have chain: "chain_to (side_cfg pub) (other_peer pub) (Some (other_peer pub)) = ?chain"
    by (simp add: chain_to_def Chain_def side_cfg_def other_peer_def zero_peer_def trustedRelay_def no_offer_def)
  have d: "dialChain relay_net sid ?chain = Inr (relay_session, relay_path ''r:1'')" for sid
    by (simp add: dialChain_def primePath_def primeOne_def relay_path_def relay_net_def)
  have sas: "sas_step local_crypto (side_cfg pub) (ps_att ?S) offline_env p q False m f = (None, f)" for p q m f
    by (simp add: sas_step_def side_cfg_def)
  obtain r f where re: "rememberPeer A True (2 * second) (other_peer pub) (ps_cache ?S, no_files) = (r, f)" by fastforce
  have "read_file ''k'' f = Missing" "read_file ''k.revoked'' f = Missing" "plan f = []"
    using re by (auto simp: rememberPeer_def Upsert_def Let_def save_cache_def write_file_def no_files_def read_file_put learn_path
        demo_side_def empty_cache_def split: if_splits prod.splits) (simp_all add: put_file_def read_file_def)
  then have "\<exists>g. saveSession local_crypto True ''k'' ''meet'' (PubKeyB64 pub) sec f = (Inr (), g)" for sec
    by (simp add: saveSession_def withTrustStateLock_def trustLockPath_def trustBase_def saveSessionLocked_def isRevoked_def
        loadRevoked_missing write_file_def revokedPath_def)
  moreover obtain sec where sec: "deriveSessionSecret (se_ekm relay_session) me pub = Some sec"
    by (cases "pub < me") (simp_all add: deriveSessionSecret_def relay_session_def)
  ultimately obtain g where g: "saveSession local_crypto True ''k'' ''meet'' (PubKeyB64 pub) sec f = (Inr (), g)" by blast
  have f: "en_mkdir offline_env" "en_now offline_env = 2 * second" "firstPairing (ps_att ?S)" "en_lock_session offline_env"
    "KnownPeers (side_cfg pub) = ''k''" "inviteToken (ps_att ?S) = ''meet''" "pPubKey (other_peer pub) = PubKeyB64 pub"
    "en_net offline_env = relay_net" "en_socket offline_env" "\<not> WireGuard (side_cfg pub)" "\<not> Direct (side_cfg pub)"
    "newRelayCred local_crypto (en_rand offline_env) = Some (ps_cred ?S)" "nd_priv (ps_node ?S) = me" "ed_public local_crypto me = me"
    "ps_cfg ?S = side_cfg pub" "ps_env ?S = offline_env" "ps_files ?S = no_files"
    by (simp_all add: offline_env_def demo_side_def side_cfg_def other_peer_def newRelayCred_def local_crypto_def)
  have pe: "persist_step local_crypto A (side_cfg pub) (ps_att ?S) offline_env (other_peer pub) (Some sec) (ps_cache ?S, no_files) = (None, r, g)"
    using re g f(1-7) by (simp add: persist_step_def)
  have "\<exists>k. se_ekm relay_session sasLabel [] 32 = Some k" by (simp add: relay_session_def)
  then show ?thesis
    using DecodePubKey_roundtrip [OF assms(2)]
    by (simp add: buddyRun_def f side_partner [OF assms(2)] chain quic_run_def d sas sec pe)
qed

theorem direct_roles_witness:
  "directListening (side_cfg []\<lparr>ListenPort := 7, PeerEndpoint := ''b:1''\<rparr>) ''a'' ''b'' \<and>
   directListening (side_cfg []\<lparr>ListenPort := 7\<rparr>) ''b'' ''a''"
  using direct_roles [of "''a''" "''b''" "side_cfg []\<lparr>ListenPort := 7, PeerEndpoint := ''b:1''\<rparr>" "side_cfg []\<lparr>ListenPort := 7\<rparr>"]
  by (simp add: side_cfg_def)

theorem relay_locally_chosen_witness:
  "relay_path ''s:9'' \<in> set (chain_to (side_cfg []\<lparr>PeerRelay := []\<rparr>) (zero_peer\<lparr>pRelay := ''s:9''\<rparr>) None) \<and>
   hostOf ''s:9'' = hostOf ''s:1''"
proof -
  have "hostOf ''s:9'' = Some ''s''" "hostOf ''s:1'' = Some ''s''" by code_simp+
  then have c: "relay_path ''s:9'' \<in> set (chain_to (side_cfg []\<lparr>PeerRelay := []\<rparr>) (zero_peer\<lparr>pRelay := ''s:9''\<rparr>) None)"
    by (simp add: chain_to_def Chain_def side_cfg_def zero_peer_def trustedRelay_def no_offer_def)
  have "Kind (relay_path ''s:9'') = Relayed" by (simp add: relay_path_def)
  from relay_locally_chosen [OF c this] c show ?thesis by (auto simp: side_cfg_def relay_path_def)
qed


theorem offline_fallback_witness:
  "buddyRun sample_json local_crypto toy_curve (list_json []) \<lparr>cfg_Name = [], cfg_Code = []\<rparr> (side_cfg pinB) (ps_node (demo_side pinA pinB))
     (ps_att (demo_side pinA pinB)) (offline_env\<lparr>en_server := True\<rparr>) (ps_cache (demo_side pinA pinB), no_files) =
     (Inl (RegisterRefused DialFailed), ps_cache (demo_side pinA pinB), no_files) \<and>
   buddyRun sample_json local_crypto toy_curve (list_json []) \<lparr>cfg_Name = [], cfg_Code = []\<rparr> (side_cfg []) (ps_node (demo_side pinA pinB))
     (ps_att (demo_side pinA pinB)\<lparr>at_pin := Some pinA\<rparr>) offline_env (ps_cache (demo_side pinA pinB), no_files) =
     (Inl (NotTrusted PinMismatch), ps_cache (demo_side pinA pinB), no_files)"
proof -
  let ?S = "demo_side pinA pinB" and ?E = "offline_env\<lparr>en_server := True\<rparr>"
  have d: "\<not> Direct (side_cfg x)" "en_socket offline_env" "en_socket ?E" "en_server ?E" "\<not> en_server offline_env" for x
    by (simp_all add: side_cfg_def offline_env_def)
  have n: "newRelayCred local_crypto (en_rand offline_env) = Some (ps_cred ?S)" "newRelayCred local_crypto (en_rand ?E) = Some (ps_cred ?S)"
    by (simp_all add: offline_env_def demo_side_def newRelayCred_def local_crypto_def)
  have r: "buddyRegister sample_json local_crypto toy_curve (en_dials ?E) \<lparr>cfg_Name = [], cfg_Code = []\<rparr> (ps_node ?S)
      (rendezvous (ps_att ?S)) (Some (ps_cred ?S)) (en_turns ?E) = Inl DialFailed"
    by (simp add: buddyRegister_def offline_env_def)
  have c: "cached_peer (en_now offline_env) (ps_cache ?S) = Some (other_peer pinB)"
    using other_peer_ok by (simp add: cached_peer_def list_cache_def demo_side_def offline_env_def)
  have k: "DecodePubKey (pPubKey (other_peer pinB)) = Some pinB"
    using DecodePubKey_roundtrip [OF pin_length(2)] by (simp add: other_peer_def)
  show ?thesis
    using offline_fallback [OF d(1,3) n(2), where e = DialFailed and rf = "(ps_cache ?S, no_files)"] r d(4)
      offline_fallback [OF d(1,2) n(1), where att = "ps_att ?S\<lparr>at_pin := Some pinA\<rparr>" and c = "other_peer pinB" and
        rf = "(ps_cache ?S, no_files)" and pin = pinA and pub = pinB] c k d(5) pins_differ(2)
    by simp
qed

theorem paired_reconnect_witness:
  "\<exists>rS fS rT fT a b.
     side_run sample_json local_crypto toy_curve (list_json []) (demo_side pinA pinB) = (Inr (relay_path ''r:1''), rS, fS) \<and>
     side_run sample_json local_crypto toy_curve (list_json []) (demo_side pinB pinA) = (Inr (relay_path ''r:1''), rT, fT) \<and>
     nextAttempt (buddy_cfg.truncate (ps_cfg (demo_side pinA pinB))) fS = Inr a \<and>
     nextAttempt (buddy_cfg.truncate (ps_cfg (demo_side pinB pinA))) fT = Inr b \<and>
     at_pin a = Some pinB \<and> at_pin b = Some pinA \<and> rendezvous a = rendezvous b"
proof -
  let ?S = "demo_side pinA pinB" and ?T = "demo_side pinB pinA"
  obtain rS fS rT fT where run:
    "side_run sample_json local_crypto toy_curve (list_json []) ?S = (Inr (relay_path ''r:1''), rS, fS)"
    "side_run sample_json local_crypto toy_curve (list_json []) ?T = (Inr (relay_path ''r:1''), rT, fT)"
    using side_pairs [OF pin_length] side_pairs [OF pin_length(2,1)] by metis
  have k: "side_key local_crypto ?S = pinA" "side_key local_crypto ?T = pinB" by (simp_all add: demo_side_def local_crypto_def)
  have e: "\<exists>k. se_ekm relay_session sessionSecretLabel ctx 32 = Some k \<and> length k = 32" for ctx by (simp add: relay_session_def)
  note p = side_first_pairing [OF pin_length, of sample_json toy_curve] side_first_pairing [OF pin_length(2,1), of sample_json toy_curve]
  from paired_reconnect [of sample_json local_crypto toy_curve "se_ekm relay_session" ?S ?T, unfolded k, OF p run local_hash e] run
  show ?thesis by metis
qed

end
