(* ===== verification/Netlink.thy ===== *)
theory Netlink
  imports Stdlib
begin

text \<open>
  The netlink format as \<^verbatim>\<open>internal/nft/nft_linux.go\<close> and \<^verbatim>\<open>internal/wg/wg_linux.go\<close> write it
  and as the latter reads it: attributes, messages, and the reply of the kernel, with
  \<^verbatim>\<open>syscall.ParseNetlinkMessage\<close> of the standard library. The byte order of the host is an
  argument; the two lengths are kept at their width, so that an oversized attribute wraps around as
  it does in the code.
\<close>

unbundle bit_operations_syntax

section \<open>Integers as bytes\<close>

primrec uint_le :: "nat \<Rightarrow> nat \<Rightarrow> bytes" where
  "uint_le 0 n = []"
| "uint_le (Suc k) n = char_of (n mod 256) # uint_le k (n div 256)"

primrec le_value :: "bytes \<Rightarrow> nat" where
  "le_value [] = 0"
| "le_value (c # cs) = of_char c + 256 * le_value cs"

definition uint_be :: "nat \<Rightarrow> nat \<Rightarrow> bytes" where
  "uint_be k n = rev (uint_le k n)"

definition be_value :: "bytes \<Rightarrow> nat" where
  "be_value b = le_value (rev b)"

text \<open>\<^verbatim>\<open>binary.NativeEndian\<close>, on a host that stores the high byte first if \<open>big\<close> holds.\<close>

definition native :: "bool \<Rightarrow> nat \<Rightarrow> nat \<Rightarrow> bytes" where
  "native big k n = (if big then uint_be k n else uint_le k n)"

definition native_value :: "bool \<Rightarrow> bytes \<Rightarrow> nat" where
  "native_value big b = (if big then be_value b else le_value b)"

section \<open>Attributes\<close>

definition align4 :: "nat \<Rightarrow> nat" where
  "align4 l = (l + 3) div 4 * 4"

definition nlAttr :: "bool \<Rightarrow> nat \<Rightarrow> bytes \<Rightarrow> bytes" where
  "nlAttr big typ dat =
     (let l = 4 + length dat
      in native big 2 l @ native big 2 typ @ dat @ replicate (align4 l - l) CHR 0x00)"

definition nlAttrBE32 :: "bool \<Rightarrow> nat \<Rightarrow> nat \<Rightarrow> bytes" where
  "nlAttrBE32 big typ v = nlAttr big typ (uint_be 4 v)"

definition nlAttrStrZ :: "bool \<Rightarrow> nat \<Rightarrow> bytes \<Rightarrow> bytes" where
  "nlAttrStrZ big typ s = nlAttr big typ (s @ [CHR 0x00])"

definition nlaFNested :: nat where "nlaFNested = 0x8000"

definition nlaTypeMask :: nat where "nlaTypeMask = 0x3fff"

definition nlNested :: "bool \<Rightarrow> nat \<Rightarrow> bytes \<Rightarrow> bytes" where
  "nlNested big typ payload = nlAttr big (typ OR nlaFNested) payload"

text \<open>The attributes \<^verbatim>\<open>attrWalk\<close> calls its function on, in order.\<close>

function attrWalk :: "bool \<Rightarrow> bytes \<Rightarrow> (nat \<times> bytes) list" where
  "attrWalk big b =
     (if length b < 4 then []
      else let l = native_value big (take 2 b); t = native_value big (take 2 (drop 2 b)) in
        if l < 4 \<or> length b < l then []
        else (t AND nlaTypeMask, drop 4 (take l b)) #
          (if length b < align4 l then [] else attrWalk big (drop (align4 l) b)))"
  by pat_completeness auto
termination
  by (relation "measure (\<lambda>(big, b). length b)") (auto simp: align4_def)

declare attrWalk.simps [simp del]

section \<open>Messages\<close>

definition NLMSG_HDRLEN :: nat where "NLMSG_HDRLEN = 16"

definition nlMessage :: "bool \<Rightarrow> nat \<Rightarrow> nat \<Rightarrow> nat \<Rightarrow> bytes \<Rightarrow> bytes" where
  "nlMessage big msgType flags seq body =
     native big 4 (NLMSG_HDRLEN + length body) @ native big 2 msgType @ native big 2 flags @ native big 4 seq @
     native big 4 0 @ body"

record nl_message =
  nm_type :: nat
  nm_flags :: nat
  nm_seq :: nat
  nm_data :: bytes

function ParseNetlinkMessage :: "bool \<Rightarrow> bytes \<Rightarrow> nl_message list option" where
  "ParseNetlinkMessage big b =
     (if length b < NLMSG_HDRLEN then Some []
      else let l = native_value big (take 4 b) in
        if l < NLMSG_HDRLEN \<or> length b < align4 l then None
        else map_option (Cons \<lparr>nm_type = native_value big (take 2 (drop 4 b)), nm_flags = native_value big (take 2 (drop 6 b)),
               nm_seq = native_value big (take 4 (drop 8 b)), nm_data = drop NLMSG_HDRLEN (take l b)\<rparr>)
             (ParseNetlinkMessage big (drop (align4 l) b)))"
  by pat_completeness auto
termination
  by (relation "measure (\<lambda>(big, b). length b)") (auto simp: align4_def NLMSG_HDRLEN_def)

declare ParseNetlinkMessage.simps [simp del]

text \<open>The error number of a reply, a 32-bit two's complement number that the kernel negates.\<close>

definition int32_value :: "nat \<Rightarrow> int" where
  "int32_value n = (if n < 2 ^ 31 then int n else int n - 2 ^ 32)"

datatype nl_error = Unanswered | Malformed | ShortError | Errno int

definition ackErr :: "bool \<Rightarrow> bytes \<Rightarrow> nl_error option" where
  "ackErr big payload =
     (if length payload < 4 then Some ShortError
      else let code = int32_value (native_value big (take 4 payload)) in
        if code = 0 then None else Some (Errno (- code)))"

section \<open>Reading what was written\<close>

lemma length_uint_le [simp]: "length (uint_le k n) = k"
  by (induction k arbitrary: n) auto

lemma length_uint_be [simp]: "length (uint_be k n) = k"
  by (simp add: uint_be_def)

lemma length_native [simp]: "length (native big k n) = k"
  by (simp add: native_def)

lemma le_value_le [simp]: "le_value (uint_le k n) = n mod 256 ^ k"
proof (induction k arbitrary: n)
  case (Suc k)
  have "n mod (256 * 256 ^ k) = 256 * (n div 256 mod 256 ^ k) + n mod 256"
    by (rule mod_mult2_eq)
  then show ?case using Suc by (simp add: of_char_of take_bit_eq_mod)
qed simp

lemma be_value_be [simp]: "be_value (uint_be k n) = n mod 256 ^ k"
  by (simp add: be_value_def uint_be_def)

lemma native_value_native [simp]: "native_value big (native big k n) = n mod 256 ^ k"
  by (simp add: native_value_def native_def)

lemma le_value_bound: "le_value b < 256 ^ length b"
proof (induction b)
  case (Cons c b)
  obtain p :: nat where p: "256 ^ length b = p" by simp
  have "(of_char c :: nat) < 256" using of_char_bound [of "[c]"] by simp
  then show ?case using Cons by (simp only: le_value.simps length_Cons power_Suc p)
qed simp

lemma uint_le_value: "uint_le (length b) (le_value b) = b"
proof (induction b)
  case (Cons c b)
  have "(of_char c :: nat) < 256" using of_char_bound [of "[c]"] by simp
  then show ?case using Cons by simp
qed simp

lemma uint_be_eq_iff: "length b = k \<Longrightarrow> n < 256 ^ k \<Longrightarrow> uint_be k n = b \<longleftrightarrow> n = be_value b"
  by (metis be_value_be be_value_def length_rev mod_less rev_rev_ident uint_be_def uint_le_value)

lemma align4_ge: "l \<le> align4 l"
  by (simp add: align4_def)

lemma length_nlAttr [simp]: "length (nlAttr big t d) = align4 (4 + length d)"
  using align4_ge [of "4 + length d"] by (simp add: nlAttr_def Let_def)

lemma attrWalk_Nil [simp]: "attrWalk big [] = []"
  by (simp add: attrWalk.simps)

lemma mask_type:
  "t < 16384 \<Longrightarrow> t AND nlaTypeMask = t" "t < 16384 \<Longrightarrow> (t OR nlaFNested) AND nlaTypeMask = t" "t < 16384 \<Longrightarrow> t OR nlaFNested < 65536"
proof -
  assume t: "t < 16384"
  have m: "nlaTypeMask = mask 14" by (simp add: nlaTypeMask_def mask_eq_exp_minus_1)
  show "t AND nlaTypeMask = t" using t by (simp add: m take_bit_eq_mask [symmetric] take_bit_nat_eq_self)
  have "take_bit 14 (t OR nlaFNested) = take_bit 14 t OR take_bit 14 nlaFNested" by simp
  then show "(t OR nlaFNested) AND nlaTypeMask = t"
    using t by (simp add: m take_bit_eq_mask [symmetric] take_bit_nat_eq_self nlaFNested_def take_bit_eq_mod)
  have "take_bit 16 (t OR nlaFNested) = t OR nlaFNested"
    using t by (simp add: take_bit_nat_eq_self nlaFNested_def)
  then show "t OR nlaFNested < 65536" using take_bit_nat_less_exp [of 16 "t OR nlaFNested"] by simp
qed

lemma attrWalk_attr:
  assumes "t < 65536" "4 + length d < 65536"
  shows "attrWalk big (nlAttr big t d @ rest) = (t AND nlaTypeMask, d) # attrWalk big rest"
proof -
  let ?l = "4 + length d" and ?b = "nlAttr big t d @ rest"
  have pad: "?b = (native big 2 ?l @ native big 2 t) @ d @ replicate (align4 ?l - ?l) CHR 0x00 @ rest"
    by (simp add: nlAttr_def Let_def)
  have f: "take 2 ?b = native big 2 ?l" "take 2 (drop 2 ?b) = native big 2 t" "drop 4 (take ?l ?b) = d"
    by (simp_all add: pad)
  have g: "drop (align4 ?l) ?b = rest" "length ?b = align4 ?l + length rest" by simp_all
  have h: "(length ?b < 4) = False" "(length ?b < ?l) = False" "(length ?b < align4 ?l) = False" "(?l < 4) = False"
    using g(2) align4_ge [of ?l] by auto
  have m: "?l mod 256 ^ 2 = ?l" "t mod 256 ^ 2 = t" using assms by simp_all
  show ?thesis
    by (subst attrWalk.simps) (simp only: f g(1) h m Let_def native_value_native if_False simp_thms)
qed

lemma walk_attr:
  "t < 16384 \<Longrightarrow> length d < 65532 \<Longrightarrow> attrWalk big (nlAttr big t d @ rest) = (t, d) # attrWalk big rest"
  "t < 16384 \<Longrightarrow> length d < 65532 \<Longrightarrow> attrWalk big (nlNested big t d @ rest) = (t, d) # attrWalk big rest"
  using attrWalk_attr [of t d] attrWalk_attr [of "t OR nlaFNested" d] mask_type by (simp_all add: nlNested_def)

lemmas walk_last = walk_attr [where rest = "[]", simplified]

text \<open>Messages whose bodies are a whole number of words follow each other without padding.\<close>

lemma length_nlMessage [simp]: "length (nlMessage big t fl q body) = 16 + length body"
  by (simp add: nlMessage_def)

lemma parse_message:
  assumes "length body mod 4 = 0" "length body < 2 ^ 31" "t < 65536" "fl < 65536"
  shows "ParseNetlinkMessage big (nlMessage big t fl q body @ rest) =
    map_option (Cons \<lparr>nm_type = t, nm_flags = fl, nm_seq = q mod 256 ^ 4, nm_data = body\<rparr>) (ParseNetlinkMessage big rest)"
proof -
  let ?b = "nlMessage big t fl q body @ rest" and ?l = "16 + length body"
  have al: "align4 ?l = ?l" using assms(1) by (auto simp: align4_def)
  have b: "?b = native big 4 ?l @ native big 2 t @ native big 2 fl @ native big 4 q @ native big 4 0 @ body @ rest"
    by (simp add: nlMessage_def NLMSG_HDRLEN_def)
  have f: "take 4 ?b = native big 4 ?l" "take 2 (drop 4 ?b) = native big 2 t" "take 2 (drop 6 ?b) = native big 2 fl"
    "take 4 (drop 8 ?b) = native big 4 q" "drop 16 (take ?l ?b) = body"
    by (simp_all add: b)
  have g: "drop ?l ?b = rest" "length ?b = ?l + length rest" by simp_all
  have h: "(length ?b < 16) = False" "(length ?b < ?l) = False" "(?l < 16) = False" using g(2) by auto
  have m: "?l mod 256 ^ 4 = ?l" "t mod 256 ^ 2 = t" "fl mod 256 ^ 2 = fl" using assms by simp_all
  show ?thesis
    by (subst ParseNetlinkMessage.simps) (simp only: f g(1) h m al NLMSG_HDRLEN_def Let_def native_value_native if_False simp_thms)
qed

lemma parse_nothing [simp]: "ParseNetlinkMessage big [] = Some []"
  by (simp add: ParseNetlinkMessage.simps NLMSG_HDRLEN_def)

end
