(* ===== verification/Nft.thy ===== *)
theory Nft
  imports Netlink Scope
begin

text \<open>
  The exposure rules of \<^verbatim>\<open>internal/nft/nft_linux.go\<close>: the expressions of a rule, byte by byte, the
  batch that replaces the table of BuddyNet, the reply of the kernel, and \<^verbatim>\<open>Apply\<close> and \<^verbatim>\<open>Remove\<close> with
  the state they guard.
\<close>

section \<open>Constants\<close>

definition nfnlSubsysNftables :: nat where "nfnlSubsysNftables = 10"
definition nfnlMsgBatchBegin :: nat where "nfnlMsgBatchBegin = 0x10"
definition nfnlMsgBatchEnd :: nat where "nfnlMsgBatchEnd = 0x11"
definition nftMsgNewTable :: nat where "nftMsgNewTable = 0"
definition nftMsgDelTable :: nat where "nftMsgDelTable = 2"
definition nftMsgNewChain :: nat where "nftMsgNewChain = 3"
definition nftMsgNewRule :: nat where "nftMsgNewRule = 6"
definition nfprotoInet :: nat where "nfprotoInet = 1"
definition nfInetLocalIn :: nat where "nfInetLocalIn = 1"
definition nfInetForward :: nat where "nfInetForward = 2"
definition nfAccept :: nat where "nfAccept = 1"
definition nfDrop :: nat where "nfDrop = 0"
definition nftMetaIifname :: nat where "nftMetaIifname = 6"
definition nftMetaL4Proto :: nat where "nftMetaL4Proto = 16"
definition nftCmpEq :: nat where "nftCmpEq = 0"
definition nftCmpNeq :: nat where "nftCmpNeq = 1"
definition nftPayloadTransportHeader :: nat where "nftPayloadTransportHeader = 2"
definition nftCtState :: nat where "nftCtState = 0"
definition ctStateEstablished :: nat where "ctStateEstablished = 2"
definition ctStateRelated :: nat where "ctStateRelated = 4"
definition nftRegVerdict :: nat where "nftRegVerdict = 0"
definition nftReg1 :: nat where "nftReg1 = 1"
definition ifNameSize :: nat where "ifNameSize = 16"
definition tableName :: bytes where "tableName = ''buddynet''"
definition chainName :: bytes where "chainName = ''in''"
definition fwdChainName :: bytes where "fwdChainName = ''fwd''"

definition IPPROTO_ICMP :: nat where "IPPROTO_ICMP = 1"
definition IPPROTO_TCP :: nat where "IPPROTO_TCP = 6"
definition IPPROTO_UDP :: nat where "IPPROTO_UDP = 17"
definition IPPROTO_ICMPV6 :: nat where "IPPROTO_ICMPV6 = 58"

definition NLM_F_REQUEST :: nat where "NLM_F_REQUEST = 1"
definition NLM_F_ACK :: nat where "NLM_F_ACK = 4"
definition NLM_F_CREATE :: nat where "NLM_F_CREATE = 0x400"
definition NLM_F_APPEND :: nat where "NLM_F_APPEND = 0x800"
definition NLMSG_ERROR :: nat where "NLMSG_ERROR = 2"

lemmas nft_consts = nfnlSubsysNftables_def nfnlMsgBatchBegin_def nfnlMsgBatchEnd_def nftMsgNewTable_def nftMsgDelTable_def
  nftMsgNewChain_def nftMsgNewRule_def nfprotoInet_def nfInetLocalIn_def nfInetForward_def nfAccept_def nfDrop_def
  nftMetaIifname_def nftMetaL4Proto_def nftCmpEq_def nftCmpNeq_def nftPayloadTransportHeader_def nftCtState_def
  ctStateEstablished_def ctStateRelated_def nftRegVerdict_def nftReg1_def ifNameSize_def tableName_def chainName_def
  fwdChainName_def IPPROTO_ICMP_def IPPROTO_TCP_def IPPROTO_UDP_def IPPROTO_ICMPV6_def NLM_F_REQUEST_def NLM_F_ACK_def
  NLM_F_CREATE_def NLM_F_APPEND_def NLMSG_ERROR_def

section \<open>Expressions\<close>

text \<open>The numbers of the attributes are written out: 1 and 2 are \<^verbatim>\<open>nftaExprName\<close> and
  \<^verbatim>\<open>nftaExprData\<close> of an expression and 1 is \<^verbatim>\<open>nftaListElem\<close>; inside an expression they count its
  attributes in the order of the kernel's header.\<close>

definition nft_expr :: "bool \<Rightarrow> bytes \<Rightarrow> bytes \<Rightarrow> bytes" where
  "nft_expr big name dat = nlNested big 1 (nlAttrStrZ big 1 name @ nlNested big 2 dat)"

definition dataValue :: "bool \<Rightarrow> nat \<Rightarrow> bytes \<Rightarrow> bytes" where
  "dataValue big typ b = nlNested big typ (nlAttr big 1 b)"

definition exprCmp :: "bool \<Rightarrow> nat \<Rightarrow> bytes \<Rightarrow> bytes" where
  "exprCmp big op v = nft_expr big ''cmp'' (nlAttrBE32 big 1 nftReg1 @ nlAttrBE32 big 2 op @ dataValue big 3 v)"

definition padded :: "bytes \<Rightarrow> bytes" where
  "padded name = take ifNameSize (name @ replicate ifNameSize CHR 0x00)"

definition exprsIifname :: "bool \<Rightarrow> bytes \<Rightarrow> bytes" where
  "exprsIifname big name =
     nft_expr big ''meta'' (nlAttrBE32 big 1 nftReg1 @ nlAttrBE32 big 2 nftMetaIifname) @ exprCmp big nftCmpEq (padded name)"

definition exprsL4Proto :: "bool \<Rightarrow> nat \<Rightarrow> bytes" where
  "exprsL4Proto big proto =
     nft_expr big ''meta'' (nlAttrBE32 big 1 nftReg1 @ nlAttrBE32 big 2 nftMetaL4Proto) @ exprCmp big nftCmpEq [char_of proto]"

definition exprsDport :: "bool \<Rightarrow> nat \<Rightarrow> bytes" where
  "exprsDport big port =
     nft_expr big ''payload'' (nlAttrBE32 big 1 nftReg1 @ nlAttrBE32 big 2 nftPayloadTransportHeader @ nlAttrBE32 big 3 2 @
       nlAttrBE32 big 4 2) @ exprCmp big nftCmpEq (uint_be 2 port)"

definition exprsCtStateEstRel :: "bool \<Rightarrow> bytes" where
  "exprsCtStateEstRel big =
     nft_expr big ''ct'' (nlAttrBE32 big 1 nftReg1 @ nlAttrBE32 big 2 nftCtState) @
     nft_expr big ''bitwise'' (nlAttrBE32 big 1 nftReg1 @ nlAttrBE32 big 2 nftReg1 @ nlAttrBE32 big 3 4 @
       dataValue big 4 (native big 4 (ctStateEstablished OR ctStateRelated)) @ dataValue big 5 (replicate 4 CHR 0x00)) @
     exprCmp big nftCmpNeq (replicate 4 CHR 0x00)"

definition exprVerdict :: "bool \<Rightarrow> nat \<Rightarrow> bytes" where
  "exprVerdict big code =
     nft_expr big ''immediate'' (nlAttrBE32 big 1 nftRegVerdict @ nlNested big 2 (nlNested big 2 (nlAttrBE32 big 1 code)))"

section \<open>Rules\<close>

definition port_rule :: "bool \<Rightarrow> bytes \<Rightarrow> port \<Rightarrow> bytes" where
  "port_rule big ifName p =
     exprsIifname big ifName @ exprsL4Proto big (if Proto p = ''udp'' then IPPROTO_UDP else IPPROTO_TCP) @
     exprsDport big (PortNo p) @ exprVerdict big nfAccept"

definition ruleExprs :: "bool \<Rightarrow> bytes \<Rightarrow> scope \<Rightarrow> bytes list" where
  "ruleExprs big ifName s =
     (if All s then []
      else [exprsIifname big ifName @ exprsCtStateEstRel big @ exprVerdict big nfAccept] @
        map (port_rule big ifName) (Ports s) @
        [exprsIifname big ifName @ exprsL4Proto big IPPROTO_ICMP @ exprVerdict big nfAccept,
         exprsIifname big ifName @ exprsL4Proto big IPPROTO_ICMPV6 @ exprVerdict big nfAccept,
         exprsIifname big ifName @ exprVerdict big nfDrop])"

definition forwardExprs :: "bool \<Rightarrow> bytes \<Rightarrow> bytes list" where
  "forwardExprs big ifName = [exprsIifname big ifName @ exprVerdict big nfDrop]"

section \<open>The batch\<close>

definition nftMessage :: "bool \<Rightarrow> nat \<Rightarrow> nat \<Rightarrow> nat \<Rightarrow> nat \<Rightarrow> bytes \<Rightarrow> bytes" where
  "nftMessage big msgType flags seq family attrs =
     nlMessage big msgType flags seq ([char_of family, CHR 0x00, CHR 0x00, CHR 0x00] @ attrs)"

definition batchDelim :: "bool \<Rightarrow> nat \<Rightarrow> nat \<Rightarrow> bytes" where
  "batchDelim big msgType seq =
     (let out = nftMessage big msgType NLM_F_REQUEST seq 0 []
      in take (NLMSG_HDRLEN + 2) out @ uint_be 2 nfnlSubsysNftables @ drop (NLMSG_HDRLEN + 4) out)"

definition nft_type :: "nat \<Rightarrow> nat" where
  "nft_type msg = nfnlSubsysNftables * 256 + msg"

text \<open>A message of the batch: type, flags and attributes. \<open>appendMsg\<close> frames it with the next
  sequence number and notes where it starts.\<close>

type_synonym inner = "nat \<times> nat \<times> bytes"

definition create :: nat where "create = NLM_F_REQUEST OR NLM_F_CREATE"

definition table_msg :: "bool \<Rightarrow> nat \<Rightarrow> nat \<Rightarrow> inner" where
  "table_msg big msg flags = (nft_type msg, flags, nlAttrStrZ big 1 tableName)"

definition newChain :: "bool \<Rightarrow> bytes \<Rightarrow> nat \<Rightarrow> inner" where
  "newChain big name hookNum =
     (nft_type nftMsgNewChain, create,
      nlAttrStrZ big 1 tableName @ nlAttrStrZ big 3 name @ nlNested big 4 (nlAttrBE32 big 1 hookNum @ nlAttrBE32 big 2 0) @
      nlAttrBE32 big 5 nfAccept @ nlAttrStrZ big 7 ''filter'')"

definition rule_msg :: "bool \<Rightarrow> bytes \<Rightarrow> bytes \<Rightarrow> inner" where
  "rule_msg big chain exprs =
     (nft_type nftMsgNewRule, create OR NLM_F_APPEND,
      nlAttrStrZ big 1 tableName @ nlAttrStrZ big 2 chain @ nlNested big 4 exprs)"

definition interface_rules :: "bool \<Rightarrow> (bytes, scope) gomap \<Rightarrow> bytes \<Rightarrow> inner list" where
  "interface_rules big scopes ifName =
     map (rule_msg big chainName)
       (ruleExprs big ifName (case mget scopes ifName of None \<Rightarrow> no_scope | Some s \<Rightarrow> s)) @
     map (rule_msg big fwdChainName) (forwardExprs big ifName)"

definition batch_inner :: "bool \<Rightarrow> (bytes, scope) gomap \<Rightarrow> bytes list \<Rightarrow> inner list" where
  "batch_inner big scopes order =
     [table_msg big nftMsgNewTable create, table_msg big nftMsgDelTable NLM_F_REQUEST] @
     (if scopes = [] then []
      else [table_msg big nftMsgNewTable create, newChain big chainName nfInetLocalIn, newChain big fwdChainName nfInetForward] @
        concat (map (interface_rules big scopes) order))"

record builder =
  bu_out :: bytes
  bu_seq :: nat
  lastInner :: nat

definition appendMsg :: "bool \<Rightarrow> inner \<Rightarrow> builder \<Rightarrow> builder" where
  "appendMsg big m b =
     (let (typ, flags, attrs) = m; seq = Suc (bu_seq b)
      in \<lparr>bu_out = bu_out b @ nftMessage big typ flags seq nfprotoInet attrs, bu_seq = seq, lastInner = length (bu_out b)\<rparr>)"

definition request_ack :: "bool \<Rightarrow> builder \<Rightarrow> bytes" where
  "request_ack big b =
     (let out = bu_out b; i = lastInner b; flags = native_value big (take 2 (drop (i + 6) out))
      in take (i + 6) out @ native big 2 (flags OR NLM_F_ACK) @ drop (i + 8) out)"

definition buildBatch :: "bool \<Rightarrow> (bytes, scope) gomap \<Rightarrow> bytes list \<Rightarrow> bytes" where
  "buildBatch big scopes order =
     (let b = fold (appendMsg big) (batch_inner big scopes order)
                \<lparr>bu_out = batchDelim big nfnlMsgBatchBegin 1, bu_seq = 1, lastInner = 0\<rparr>
      in request_ack big b @ batchDelim big nfnlMsgBatchEnd (Suc (bu_seq b)))"

section \<open>Apply and Remove\<close>

text \<open>What came of sending a batch: nothing, when the socket failed or no reply came in time, or the
  bytes of the reply.\<close>

fun reply_error :: "bool \<Rightarrow> nl_message list \<Rightarrow> nl_error option" where
  "reply_error big [] = None"
| "reply_error big (m # ms) =
     (if nm_type m \<noteq> NLMSG_ERROR then reply_error big ms
      else case ackErr big (nm_data m) of Some e \<Rightarrow> Some e | None \<Rightarrow> reply_error big ms)"

definition sendBatch :: "bool \<Rightarrow> bytes option \<Rightarrow> nl_error option" where
  "sendBatch big reply =
     (case reply of
        None \<Rightarrow> Some Unanswered
      | Some b \<Rightarrow> (case ParseNetlinkMessage big b of None \<Rightarrow> Some Malformed | Some ms \<Rightarrow> reply_error big ms))"

record nft_state =
  nf_scopes :: "(bytes, scope) gomap"
  nf_order :: "bytes list"

text \<open>The batch that is sent, the error, and the state afterwards.\<close>

definition Apply :: "bool \<Rightarrow> bytes \<Rightarrow> scope \<Rightarrow> bytes option \<Rightarrow> nft_state \<Rightarrow> bytes \<times> nl_error option \<times> nft_state" where
  "Apply big ifName s reply st =
     (let had = mget (nf_scopes st) ifName;
          st1 = \<lparr>nf_scopes = mput ifName s (nf_scopes st),
                 nf_order = (if had = None then nf_order st @ [ifName] else nf_order st)\<rparr>;
          err = sendBatch big reply
      in (buildBatch big (nf_scopes st1) (nf_order st1), err,
          case err of
            None \<Rightarrow> st1
          | Some _ \<Rightarrow>
              (case had of
                 Some prev \<Rightarrow> st1\<lparr>nf_scopes := mput ifName prev (nf_scopes st1)\<rparr>
               | None \<Rightarrow> \<lparr>nf_scopes = mdel ifName (nf_scopes st1), nf_order = butlast (nf_order st1)\<rparr>)))"

definition Remove :: "bool \<Rightarrow> bytes \<Rightarrow> bytes option \<Rightarrow> nft_state \<Rightarrow> bytes option \<times> nl_error option \<times> nft_state" where
  "Remove big ifName reply st =
     (if mget (nf_scopes st) ifName = None then (None, None, st)
      else let st1 = \<lparr>nf_scopes = mdel ifName (nf_scopes st), nf_order = remove1 ifName (nf_order st)\<rparr>
        in (Some (buildBatch big (nf_scopes st1) (nf_order st1)), sendBatch big reply, st1))"

end
