(* ===== verification/NftProps.thy ===== *)
theory NftProps
  imports Nft
begin

text \<open>
  What the rules of BuddyNet mean to the kernel. The batch is read back message by message and
  attribute by attribute; the virtual machine that runs the expressions of a rule is a parameter,
  with the documented behaviour of the expressions in use as its hypothesis. Every call leaves the
  kernel enforcing the scope of every interface for which \<^verbatim>\<open>Apply\<close> has returned.
\<close>

section \<open>Reading a batch\<close>

type_synonym nf_expr = "bytes \<times> (nat \<times> bytes) list"

definition attr_of :: "(nat \<times> bytes) list \<Rightarrow> nat \<Rightarrow> bytes" where
  "attr_of as k = (case map_of as k of None \<Rightarrow> [] | Some v \<Rightarrow> v)"

definition read_exprs :: "bool \<Rightarrow> bytes \<Rightarrow> nf_expr list" where
  "read_exprs big b =
     map (\<lambda>(_, e). (attr_of (attrWalk big e) 1, attrWalk big (attr_of (attrWalk big e) 2))) (attrWalk big b)"

text \<open>The table of BuddyNet in the kernel: absent, or its chains by name, each with the hook it is
  attached to, its policy and its rules. Names are compared with the zero byte that ends them.\<close>

record kernel_chain =
  kc_hook :: bytes
  kc_policy :: nat
  kc_rules :: "nf_expr list list"

type_synonym kernel_table = "(bytes, kernel_chain) gomap option"

text \<open>The documented effect of one message of a batch; \<^const>\<open>None\<close> is an error, which makes the kernel
  abandon the whole batch. Creating what exists is no error: a table stays as it is, a chain keeps
  its rules and takes the new policy if its hook is the same. Deleting a table needs one to be there.
  A rule goes to the end of its chain if the message says so, and to the front otherwise.\<close>

definition exec_chain :: "bytes \<Rightarrow> bytes \<Rightarrow> nat \<Rightarrow> (bytes, kernel_chain) gomap \<Rightarrow> kernel_table option" where
  "exec_chain name hook policy t =
     (case mget t name of
        None \<Rightarrow> Some (Some (t @ [(name, \<lparr>kc_hook = hook, kc_policy = policy, kc_rules = []\<rparr>)]))
      | Some c \<Rightarrow> if kc_hook c = hook then Some (Some (mput name (c\<lparr>kc_policy := policy\<rparr>) t)) else None)"

definition exec_rule :: "bytes \<Rightarrow> bool \<Rightarrow> nf_expr list \<Rightarrow> (bytes, kernel_chain) gomap \<Rightarrow> kernel_table option" where
  "exec_rule name at_end rule t =
     (case mget t name of
        None \<Rightarrow> None
      | Some c \<Rightarrow> Some (Some (mput name (c\<lparr>kc_rules := if at_end then kc_rules c @ [rule] else rule # kc_rules c\<rparr>) t)))"

definition exec_message :: "bool \<Rightarrow> nl_message \<Rightarrow> kernel_table \<Rightarrow> kernel_table option" where
  "exec_message big m T =
     (let as = attrWalk big (drop 4 (nm_data m)); t = nm_type m in
      if t \<notin> {nft_type nftMsgNewTable, nft_type nftMsgDelTable, nft_type nftMsgNewChain, nft_type nftMsgNewRule} \<or>
         attr_of as 1 \<noteq> tableName @ [CHR 0x00] then Some T
      else if t = nft_type nftMsgNewTable then Some (Some (case T of None \<Rightarrow> [] | Some cs \<Rightarrow> cs))
      else case T of
        None \<Rightarrow> None
      | Some cs \<Rightarrow>
          if t = nft_type nftMsgDelTable then Some None
          else if t = nft_type nftMsgNewChain
          then exec_chain (attr_of as 3) (attr_of (attrWalk big (attr_of as 4)) 1) (be_value (attr_of as 5)) cs
          else exec_rule (attr_of as 2) (nm_flags m AND NLM_F_APPEND \<noteq> 0) (read_exprs big (attr_of as 4)) cs)"

fun exec_messages :: "bool \<Rightarrow> nl_message list \<Rightarrow> kernel_table \<Rightarrow> kernel_table option" where
  "exec_messages big [] T = Some T"
| "exec_messages big (m # ms) T = (case exec_message big m T of None \<Rightarrow> None | Some T \<Rightarrow> exec_messages big ms T)"

definition exec_batch :: "bool \<Rightarrow> bytes \<Rightarrow> kernel_table \<Rightarrow> kernel_table option" where
  "exec_batch big batch T =
     (case ParseNetlinkMessage big batch of None \<Rightarrow> None | Some ms \<Rightarrow> exec_messages big ms T)"

section \<open>Running rules\<close>

record nf_packet =
  pk_iifname :: bytes
  pk_l4 :: nat
  pk_transport :: bytes
  pk_ct :: nat

type_synonym regs = "nat \<Rightarrow> bytes"

datatype vm_result = Goes regs | Breaks | Decides nat

type_synonym vm = "nf_packet \<Rightarrow> nf_expr \<Rightarrow> regs \<Rightarrow> vm_result"

fun run_rule :: "vm \<Rightarrow> nf_packet \<Rightarrow> nf_expr list \<Rightarrow> regs \<Rightarrow> nat option" where
  "run_rule vm pkt [] r = None"
| "run_rule vm pkt (e # es) r =
     (case vm pkt e r of Goes r' \<Rightarrow> run_rule vm pkt es r' | Breaks \<Rightarrow> None | Decides v \<Rightarrow> Some v)"

text \<open>A chain takes the verdict of the first rule that gives one, or else its policy.\<close>

fun run_chain :: "vm \<Rightarrow> nf_packet \<Rightarrow> nat \<Rightarrow> nf_expr list list \<Rightarrow> nat" where
  "run_chain vm pkt policy [] = policy"
| "run_chain vm pkt policy (rule # rules) =
     (case run_rule vm pkt rule (\<lambda>_. []) of Some v \<Rightarrow> v | None \<Rightarrow> run_chain vm pkt policy rules)"

definition byte_and :: "char \<Rightarrow> char \<Rightarrow> char" where
  "byte_and a b = char_of ((of_char a :: nat) AND of_char b)"

definition byte_xor :: "char \<Rightarrow> char \<Rightarrow> char" where
  "byte_xor a b = char_of ((of_char a :: nat) XOR of_char b)"

text \<open>The documented behaviour of the six expressions: \<^verbatim>\<open>meta\<close>, \<^verbatim>\<open>payload\<close> and \<^verbatim>\<open>ct\<close> load a register,
  \<^verbatim>\<open>bitwise\<close> masks one, \<^verbatim>\<open>cmp\<close> ends the rule without a verdict unless the comparison holds, and
  \<^verbatim>\<open>immediate\<close> with the verdict register decides. The connection state is a number in host order.\<close>

definition nf_tables :: "bool \<Rightarrow> vm \<Rightarrow> bool" where
  "nf_tables big vm \<longleftrightarrow> (\<forall>pkt r.
     vm pkt (''meta'' @ [CHR 0x00], [(1, uint_be 4 1), (2, uint_be 4 6)]) r = Goes (r(1 := pk_iifname pkt)) \<and>
     vm pkt (''meta'' @ [CHR 0x00], [(1, uint_be 4 1), (2, uint_be 4 16)]) r = Goes (r(1 := [char_of (pk_l4 pkt)])) \<and>
     (\<forall>off len. off < 2 ^ 32 \<longrightarrow> len < 2 ^ 32 \<longrightarrow>
       vm pkt (''payload'' @ [CHR 0x00], [(1, uint_be 4 1), (2, uint_be 4 2), (3, uint_be 4 off), (4, uint_be 4 len)]) r =
       (if off + len \<le> length (pk_transport pkt) then Goes (r(1 := take len (drop off (pk_transport pkt)))) else Breaks)) \<and>
     vm pkt (''ct'' @ [CHR 0x00], [(1, uint_be 4 1), (2, uint_be 4 0)]) r = Goes (r(1 := native big 4 (pk_ct pkt))) \<and>
     (\<forall>m x. length m = 4 \<longrightarrow> length x = 4 \<longrightarrow>
       vm pkt (''bitwise'' @ [CHR 0x00], [(1, uint_be 4 1), (2, uint_be 4 1), (3, uint_be 4 4), (4, nlAttr big 1 m), (5, nlAttr big 1 x)]) r =
       Goes (r(1 := map2 byte_xor (map2 byte_and (take 4 (r 1)) m) x))) \<and>
     (\<forall>v. length v \<le> 16 \<longrightarrow> vm pkt (''cmp'' @ [CHR 0x00], [(1, uint_be 4 1), (2, uint_be 4 0), (3, nlAttr big 1 v)]) r =
       (if take (length v) (r 1) = v then Goes r else Breaks)) \<and>
     (\<forall>v. length v \<le> 16 \<longrightarrow> vm pkt (''cmp'' @ [CHR 0x00], [(1, uint_be 4 1), (2, uint_be 4 1), (3, nlAttr big 1 v)]) r =
       (if take (length v) (r 1) = v then Breaks else Goes r)) \<and>
     (\<forall>code. code < 2 ^ 32 \<longrightarrow> vm pkt (''immediate'' @ [CHR 0x00], [(1, uint_be 4 0), (2, nlNested big 2 (nlAttr big 1 (uint_be 4 code)))]) r = Decides code))"

section \<open>What the expressions do\<close>

lemma length_nlNested [simp]: "length (nlNested big t d) = align4 (4 + length d)"
  by (simp add: nlNested_def)

lemma align4_bound: "align4 l \<le> l + 3"
  by (simp add: align4_def)

lemma read_expr:
  assumes "length name < 100" "length d < 60000"
  shows "read_exprs big (nft_expr big name d @ rest) = (name @ [CHR 0x00], attrWalk big d) # read_exprs big rest"
proof -
  let ?e = "nlAttrStrZ big 1 name @ nlNested big 2 d"
  have "length ?e < 65532"
    using assms align4_bound [of "5 + length name"] align4_bound [of "4 + length d"] by (simp add: nlAttrStrZ_def)
  moreover have "attrWalk big ?e = [(1, name @ [CHR 0x00]), (2, d)]"
    using assms by (simp add: nlAttrStrZ_def walk_attr walk_last)
  ultimately show ?thesis
    by (simp add: nft_expr_def read_exprs_def walk_attr attr_of_def)
qed

lemma read_no_exprs [simp]: "read_exprs big [] = []"
  by (simp add: read_exprs_def)

lemmas expr_walks = nlAttrBE32_def dataValue_def walk_attr walk_last align4_def

lemma run_cmp:
  assumes "nf_tables big vm" "length v \<le> 16"
  shows "run_rule vm pkt (read_exprs big (exprCmp big 0 v @ rest)) r =
      (if take (length v) (r 1) = v then run_rule vm pkt (read_exprs big rest) r else None)"
    and "run_rule vm pkt (read_exprs big (exprCmp big 1 v @ rest)) r =
      (if take (length v) (r 1) = v then None else run_rule vm pkt (read_exprs big rest) r)"
  using assms by (simp_all add: exprCmp_def read_expr expr_walks nftReg1_def nf_tables_def)

lemma length_padded [simp]: "length (padded n) = 16"
  by (simp add: padded_def ifNameSize_def)

lemma run_iifname:
  assumes "nf_tables big vm" "length (pk_iifname pkt) = 16"
  shows "run_rule vm pkt (read_exprs big (exprsIifname big n @ rest)) r =
    (if pk_iifname pkt = padded n then run_rule vm pkt (read_exprs big rest) (r(1 := pk_iifname pkt)) else None)"
proof -
  have "vm pkt (''meta'' @ [CHR 0x00], [(1, uint_be 4 1), (2, uint_be 4 6)]) r = Goes (r(1 := pk_iifname pkt))"
    using assms(1) by (simp add: nf_tables_def)
  then show ?thesis
    using assms by (simp add: exprsIifname_def read_expr expr_walks nftReg1_def nftMetaIifname_def nftCmpEq_def run_cmp)
qed

lemma run_l4proto:
  assumes "nf_tables big vm" "pk_l4 pkt < 256" "proto < 256"
  shows "run_rule vm pkt (read_exprs big (exprsL4Proto big proto @ rest)) r =
    (if pk_l4 pkt = proto then run_rule vm pkt (read_exprs big rest) (r(1 := [char_of (pk_l4 pkt)])) else None)"
proof -
  have "vm pkt (''meta'' @ [CHR 0x00], [(1, uint_be 4 1), (2, uint_be 4 16)]) r = Goes (r(1 := [char_of (pk_l4 pkt)]))"
    using assms(1) by (simp add: nf_tables_def)
  moreover have "(char_of (pk_l4 pkt) :: char) = char_of proto \<longleftrightarrow> pk_l4 pkt = proto"
    using assms(2,3) by (metis char_of_eq_iff char_of_take_bit_eq of_char_of mod_less)
  ultimately show ?thesis
    using assms by (simp add: exprsL4Proto_def read_expr expr_walks nftReg1_def nftMetaL4Proto_def nftCmpEq_def run_cmp)
qed

lemma run_dport:
  assumes "nf_tables big vm"
  shows "run_rule vm pkt (read_exprs big (exprsDport big port @ rest)) r =
    (if 4 \<le> length (pk_transport pkt) \<and> take 2 (drop 2 (pk_transport pkt)) = uint_be 2 port
     then run_rule vm pkt (read_exprs big rest) (r(1 := uint_be 2 port)) else None)"
proof -
  have "vm pkt (''payload'' @ [CHR 0x00], [(1, uint_be 4 1), (2, uint_be 4 2), (3, uint_be 4 2), (4, uint_be 4 2)]) r =
      (if 4 \<le> length (pk_transport pkt) then Goes (r(1 := take 2 (drop 2 (pk_transport pkt)))) else Breaks)"
    using assms unfolding nf_tables_def by fastforce
  then show ?thesis
    using assms by (auto simp: exprsDport_def read_expr expr_walks nftReg1_def nftPayloadTransportHeader_def nftCmpEq_def run_cmp)
qed

lemma run_verdict:
  assumes "nf_tables big vm" "code < 2 ^ 32"
  shows "run_rule vm pkt (read_exprs big (exprVerdict big code)) r = Some code"
  using assms read_expr [of "''immediate''" _ big "[]"]
  by (simp add: exprVerdict_def expr_walks nftRegVerdict_def nf_tables_def)

lemma byte_ops [simp]: "byte_and c CHR 0x00 = CHR 0x00" "byte_xor c CHR 0x00 = c"
proof -
  have z: "char_of (0 :: nat) = CHR 0x00" by code_simp
  show "byte_and c CHR 0x00 = CHR 0x00" by (simp add: byte_and_def z)
  show "byte_xor c CHR 0x00 = c" by (simp add: byte_xor_def)
qed

definition ct_masked :: "bool \<Rightarrow> nat \<Rightarrow> bytes" where
  "ct_masked big ct = map2 byte_xor (map2 byte_and (native big 4 ct) (native big 4 6)) (replicate 4 CHR 0x00)"

lemma ct_masked_zero: "ct_masked big ct = replicate 4 CHR 0x00 \<longleftrightarrow> ct AND 6 = 0"
proof -
  have six: "native False 4 6 = [CHR 0x06, CHR 0x00, CHR 0x00, CHR 0x00]" "native True 4 6 = [CHR 0x00, CHR 0x00, CHR 0x00, CHR 0x06]"
    by code_simp+
  have six8: "take_bit 8 (6 :: nat) = 6" by code_simp
  have "take_bit 8 (ct AND 6) = ct AND 6"
    by (metis six8 and.assoc take_bit_eq_mask)
  then have low: "take_bit 8 ct AND 6 = ct AND 6" by (metis six8 take_bit_and)
  have "char_of n = CHR 0x00 \<longleftrightarrow> take_bit 8 n = 0" for n :: nat
    using char_of_eq_iff [of n "CHR 0x00"] by simp
  moreover have "byte_and (char_of (ct mod 256)) CHR 0x06 = char_of (take_bit 8 ct AND 6)"
  proof -
    have "of_char (char_of (ct mod 256) :: char) = take_bit 8 ct" by (simp add: of_char_of take_bit_eq_mod)
    moreover have "of_char (CHR 0x06) = (6 :: nat)" by simp
    ultimately show ?thesis by (simp only: byte_and_def)
  qed
  ultimately have "byte_and (char_of (ct mod 256)) CHR 0x06 = CHR 0x00 \<longleftrightarrow> ct AND 6 = 0"
    using low \<open>take_bit 8 (ct AND 6) = ct AND 6\<close> by metis
  moreover have "4 = Suc (Suc (Suc (Suc 0)))" by simp
  then obtain x y z where ct: "uint_le 4 ct = [char_of (ct mod 256), x, y, z]" by (metis uint_le.simps)
  then have "native big 4 ct = (if big then [z, y, x, char_of (ct mod 256)] else [char_of (ct mod 256), x, y, z])"
    by (simp add: native_def uint_be_def)
  moreover have "replicate 4 CHR 0x00 = [CHR 0x00, CHR 0x00, CHR 0x00, CHR 0x00]" by code_simp
  ultimately show ?thesis
    using six by (cases big) (simp_all add: ct_masked_def)
qed

lemma run_estrel:
  assumes "nf_tables big vm"
  shows "run_rule vm pkt (read_exprs big (exprsCtStateEstRel big @ rest)) r =
    (if pk_ct pkt AND 6 \<noteq> 0 then run_rule vm pkt (read_exprs big rest) (r(1 := ct_masked big (pk_ct pkt))) else None)"
proof -
  have "vm pkt (''ct'' @ [CHR 0x00], [(1, uint_be 4 1), (2, uint_be 4 0)]) r = Goes (r(1 := native big 4 (pk_ct pkt)))"
    using assms by (simp add: nf_tables_def)
  moreover have "vm pkt (''bitwise'' @ [CHR 0x00], [(1, uint_be 4 1), (2, uint_be 4 1), (3, uint_be 4 4),
      (4, nlAttr big 1 (native big 4 6)), (5, nlAttr big 1 (replicate 4 CHR 0x00))]) r' =
      Goes (r'(1 := map2 byte_xor (map2 byte_and (take 4 (r' 1)) (native big 4 6)) (replicate 4 CHR 0x00)))" for r'
    using assms unfolding nf_tables_def by (metis length_native length_replicate)
  moreover have "ctStateEstablished OR ctStateRelated = 6" by (simp add: nft_consts)
  moreover have "length (ct_masked big (pk_ct pkt)) = 4" by (simp add: ct_masked_def)
  ultimately show ?thesis
    using assms ct_masked_zero [of big "pk_ct pkt"]
    by (simp add: exprsCtStateEstRel_def read_expr expr_walks nftReg1_def nftCtState_def nftCmpNeq_def run_cmp(2) [unfolded One_nat_def] ct_masked_def [symmetric])
qed

section \<open>What the rules of one interface do\<close>

definition dport :: "nf_packet \<Rightarrow> nat option" where
  "dport pkt = (if 4 \<le> length (pk_transport pkt) then Some (be_value (take 2 (drop 2 (pk_transport pkt)))) else None)"

definition port_admits :: "nf_packet \<Rightarrow> port \<Rightarrow> bool" where
  "port_admits pkt p \<longleftrightarrow> pk_l4 pkt = (if Proto p = ''udp'' then IPPROTO_UDP else IPPROTO_TCP) \<and> dport pkt = Some (PortNo p)"

text \<open>What a scope lets in: everything, or replies, ping, and the exposed ports.\<close>

definition admits :: "scope \<Rightarrow> nf_packet \<Rightarrow> bool" where
  "admits s pkt \<longleftrightarrow> All s \<or> pk_ct pkt AND (ctStateEstablished OR ctStateRelated) \<noteq> 0 \<or>
     pk_l4 pkt \<in> {IPPROTO_ICMP, IPPROTO_ICMPV6} \<or> (\<exists>p \<in> set (Ports s). port_admits pkt p)"

definition packet_ok :: "nf_packet \<Rightarrow> bool" where
  "packet_ok pkt \<longleftrightarrow> length (pk_iifname pkt) = 16 \<and> pk_l4 pkt < 256"

definition ports_ok :: "scope \<Rightarrow> bool" where
  "ports_ok s \<longleftrightarrow> (\<forall>p \<in> set (Ports s). PortNo p < 65536)"

lemma run_port_rule:
  assumes "nf_tables big vm" "packet_ok pkt" "PortNo p < 65536"
  shows "run_rule vm pkt (read_exprs big (port_rule big n p)) r =
    (if pk_iifname pkt = padded n \<and> port_admits pkt p then Some nfAccept else None)"
proof -
  have d: "4 \<le> length (pk_transport pkt) \<and> take 2 (drop 2 (pk_transport pkt)) = uint_be 2 (PortNo p) \<longleftrightarrow> dport pkt = Some (PortNo p)"
    using uint_be_eq_iff [of "take 2 (drop 2 (pk_transport pkt))" 2 "PortNo p"] assms(3) by (auto simp: dport_def)
  let ?proto = "if Proto p = ''udp'' then IPPROTO_UDP else IPPROTO_TCP"
  have "?proto < 256" "nfAccept < 2 ^ 32" by (simp_all add: nft_consts)
  with assms(1,2) show ?thesis
    by (simp only: port_rule_def packet_ok_def run_iifname run_l4proto run_dport run_verdict d port_admits_def) simp
qed

lemma run_fixed_rules:
  assumes "nf_tables big vm" "packet_ok pkt"
  shows "run_rule vm pkt (read_exprs big (exprsIifname big n @ exprsCtStateEstRel big @ exprVerdict big nfAccept)) r =
      (if pk_iifname pkt = padded n \<and> pk_ct pkt AND (ctStateEstablished OR ctStateRelated) \<noteq> 0 then Some nfAccept else None)"
    and "proto < 256 \<Longrightarrow> run_rule vm pkt (read_exprs big (exprsIifname big n @ exprsL4Proto big proto @ exprVerdict big nfAccept)) r =
      (if pk_iifname pkt = padded n \<and> pk_l4 pkt = proto then Some nfAccept else None)"
    and "run_rule vm pkt (read_exprs big (exprsIifname big n @ exprVerdict big nfDrop)) r =
      (if pk_iifname pkt = padded n then Some nfDrop else None)"
  using assms by (simp_all add: packet_ok_def run_iifname run_estrel run_l4proto run_verdict nft_consts)

lemma run_ports:
  assumes "nf_tables big vm" "packet_ok pkt" "\<forall>p \<in> set ps. PortNo p < 65536"
  shows "run_chain vm pkt pol (map (\<lambda>p. read_exprs big (port_rule big n p)) ps @ rest) =
    (if pk_iifname pkt = padded n \<and> (\<exists>p \<in> set ps. port_admits pkt p) then nfAccept else run_chain vm pkt pol rest)"
  using assms(3) by (induction ps) (use assms(1,2) in \<open>auto simp: run_port_rule\<close>)

lemma run_ruleExprs:
  assumes "nf_tables big vm" "packet_ok pkt" "ports_ok s"
  shows "run_chain vm pkt pol (map (read_exprs big) (ruleExprs big n s) @ rest) =
    (if pk_iifname pkt = padded n \<and> \<not> All s then (if admits s pkt then nfAccept else nfDrop) else run_chain vm pkt pol rest)"
  using assms
  by (auto simp: ruleExprs_def run_fixed_rules run_ports ports_ok_def admits_def IPPROTO_ICMP_def IPPROTO_ICMPV6_def comp_def)

lemma run_forwardExprs:
  assumes "nf_tables big vm" "packet_ok pkt"
  shows "run_chain vm pkt pol (map (read_exprs big) (forwardExprs big n) @ rest) =
    (if pk_iifname pkt = padded n then nfDrop else run_chain vm pkt pol rest)"
  using assms by (simp add: forwardExprs_def run_fixed_rules)

section \<open>Reading back what is sent\<close>

text \<open>The framed messages of a batch, and the same with the acknowledgement asked for on the last one.\<close>

fun framed :: "bool \<Rightarrow> nat \<Rightarrow> inner list \<Rightarrow> bytes" where
  "framed big q [] = []"
| "framed big q ((t, fl, as) # ms) = nftMessage big t fl (Suc q) nfprotoInet as @ framed big (Suc q) ms"

definition acked :: "inner list \<Rightarrow> inner list" where
  "acked ms = (case last ms of (t, fl, as) \<Rightarrow> butlast ms @ [(t, fl OR NLM_F_ACK, as)])"

lemma framed_append: "framed big q (ms @ ns) = framed big q ms @ framed big (q + length ms) ns"
  by (induction ms arbitrary: q) auto

lemma fold_appendMsg:
  "bu_out (fold (appendMsg big) ms b) = bu_out b @ framed big (bu_seq b) ms \<and>
   bu_seq (fold (appendMsg big) ms b) = bu_seq b + length ms"
  by (induction ms arbitrary: b) (auto simp: appendMsg_def Let_def)

lemma request_ack_message:
  assumes "fl < 65536"
  shows "request_ack big \<lparr>bu_out = out @ nftMessage big t fl q f as, bu_seq = q, lastInner = length out\<rparr> =
    out @ nftMessage big t (fl OR NLM_F_ACK) q f as"
proof -
  have "take 2 (drop 6 (nftMessage big t fl q f as)) = native big 2 fl"
    by (simp add: nftMessage_def nlMessage_def)
  then have "native_value big (take 2 (drop 6 (nftMessage big t fl q f as))) = fl" using assms by simp
  then show ?thesis
    by (simp add: request_ack_def Let_def) (simp add: nftMessage_def nlMessage_def)
qed

lemma buildBatch_framed:
  assumes "batch_inner big scopes order = ms" "\<forall>(t, fl, as) \<in> set ms. fl < 65536"
  shows "buildBatch big scopes order =
    batchDelim big nfnlMsgBatchBegin 1 @ framed big 1 (acked ms) @ batchDelim big nfnlMsgBatchEnd (length ms + 2)"
proof -
  have "ms \<noteq> []" using assms(1) by (auto simp: batch_inner_def)
  then obtain ns t fl as where ms: "ms = ns @ [(t, fl, as)]" by (metis rev_exhaust prod_cases3)
  then have "fl < 65536" using assms(2) by auto
  let ?start = "\<lparr>bu_out = batchDelim big nfnlMsgBatchBegin 1, bu_seq = 1, lastInner = 0\<rparr>"
  let ?b = "fold (appendMsg big) ns ?start"
  have b: "bu_out ?b = batchDelim big nfnlMsgBatchBegin 1 @ framed big 1 ns" "bu_seq ?b = Suc (length ns)"
    using fold_appendMsg [of big ns ?start] by simp_all
  have "fold (appendMsg big) ms ?start =
      \<lparr>bu_out = bu_out ?b @ nftMessage big t fl (Suc (bu_seq ?b)) nfprotoInet as, bu_seq = Suc (bu_seq ?b), lastInner = length (bu_out ?b)\<rparr>"
    by (simp add: ms appendMsg_def)
  then show ?thesis
    using request_ack_message [OF \<open>fl < 65536\<close>, of big "bu_out ?b" t "Suc (bu_seq ?b)" nfprotoInet as] b
    by (simp add: buildBatch_def assms(1) Let_def acked_def ms framed_append)
qed

definition read_inner :: "nat \<Rightarrow> inner \<Rightarrow> nl_message" where
  "read_inner q m = (case m of (t, fl, as) \<Rightarrow>
     \<lparr>nm_type = t, nm_flags = fl, nm_seq = q mod 256 ^ 4, nm_data = [CHR 0x01, CHR 0x00, CHR 0x00, CHR 0x00] @ as\<rparr>)"

definition inner_ok :: "inner \<Rightarrow> bool" where
  "inner_ok m \<longleftrightarrow> (case m of (t, fl, as) \<Rightarrow> t < 65536 \<and> fl < 65536 \<and> length as mod 4 = 0 \<and> length as < 2 ^ 20)"

lemma parse_framed:
  assumes "\<forall>m \<in> set ms. inner_ok m"
  shows "ParseNetlinkMessage big (framed big q ms @ rest) =
    map_option (append (map2 read_inner [Suc q..<Suc q + length ms] ms)) (ParseNetlinkMessage big rest)"
  using assms
proof (induction ms arbitrary: q)
  case Nil
  then show ?case by (cases "ParseNetlinkMessage big rest") simp_all
next
  case (Cons m ms)
  obtain t fl as where m: "m = (t, fl, as)" by (cases m)
  have f: "(char_of (nfprotoInet) :: char) = CHR 0x01" by code_simp
  have "t < 65536" "fl < 65536" "(4 + length as) mod 4 = 0" "4 + length as < 2 ^ 31"
    using Cons.prems by (auto simp: m inner_ok_def)
  then show ?case
    using Cons.IH [of "Suc q"] Cons.prems
    by (simp add: m nftMessage_def parse_message f read_inner_def upt_rec option.map_comp comp_def del: upt_Suc)
qed

lemma align4_mod [simp]: "align4 l mod 4 = 0"
  by (simp add: align4_def)

lemma delim_message:
  "batchDelim big t q = nlMessage big t 1 q [CHR 0x00, CHR 0x00, CHR 0x00, CHR 0x0A]"
proof -
  have "uint_be 2 10 = [CHR 0x00, CHR 0x0A]" "(char_of (0 :: nat) :: char) = CHR 0x00" by code_simp+
  then show ?thesis
    by (simp add: batchDelim_def nftMessage_def nlMessage_def NLMSG_HDRLEN_def nft_consts Let_def)
qed

lemma expr_parts:
  "length (exprsIifname big n) < 200" "length (exprsCtStateEstRel big) < 400" "length (exprsL4Proto big proto) < 200"
  "length (exprsDport big port) < 200" "length (exprVerdict big code) < 200"
  by (simp_all add: exprsIifname_def exprsCtStateEstRel_def exprsL4Proto_def exprsDport_def
      exprVerdict_def exprCmp_def nft_expr_def dataValue_def nlAttrBE32_def nlAttrStrZ_def align4_def)

lemma expr_lengths:
  assumes "e \<in> set (ruleExprs big n s) \<union> set (forwardExprs big n)"
  shows "length e < 2000"
proof -
  have p: "length (port_rule big n p) < 2000" for p
    using expr_parts(1) [of big n] expr_parts(3) [of big "if Proto p = ''udp'' then IPPROTO_UDP else IPPROTO_TCP"]
      expr_parts(4) [of big "PortNo p"] expr_parts(5) [of big nfAccept] unfolding port_rule_def by simp
  have v: "length (exprsIifname big n @ exprVerdict big nfDrop) < 2000"
    "length (exprsIifname big n @ exprsCtStateEstRel big @ exprVerdict big nfAccept) < 2000"
    "length (exprsIifname big n @ exprsL4Proto big proto @ exprVerdict big nfAccept) < 2000" for proto
    using expr_parts(1) [of big n] expr_parts(2) [of big] expr_parts(3) [of big proto]
      expr_parts(5) [of big nfDrop] expr_parts(5) [of big nfAccept] by simp_all
  show ?thesis using assms p v unfolding ruleExprs_def forwardExprs_def by (auto split: if_splits)
qed

lemma rule_inner_ok:
  assumes "length e < 2000" "length chain < 100"
  shows "inner_ok (rule_msg big chain e)"
proof -
  let ?as = "nlAttrStrZ big 1 tableName @ nlAttrStrZ big 2 chain @ nlNested big 4 e"
  have l: "length ?as = 16 + align4 (5 + length chain) + align4 (4 + length e)"
    by (simp add: nlAttrStrZ_def tableName_def align4_def)
  then have "length ?as < 2 ^ 20" using assms align4_bound [of "5 + length chain"] align4_bound [of "4 + length e"] by simp
  moreover have "length ?as mod 4 = 0" unfolding l by (simp add: align4_def)
  ultimately show ?thesis by (simp add: inner_ok_def rule_msg_def nft_type_def create_def nft_consts)
qed

lemma batch_inner_ok: "m \<in> set (batch_inner big scopes order) \<Longrightarrow> inner_ok m"
proof -
  have "inner_ok (rule_msg big chain e)" if "e \<in> set (ruleExprs big n s) \<union> set (forwardExprs big n)" "chain \<in> {chainName, fwdChainName}" for e n s chain
    using rule_inner_ok [OF expr_lengths [OF that(1)], of chain] that(2) by (auto simp: nft_consts)
  moreover have "inner_ok (table_msg big nftMsgNewTable create)" "inner_ok (table_msg big nftMsgDelTable NLM_F_REQUEST)"
    "inner_ok (newChain big chainName h)" "inner_ok (newChain big fwdChainName h)" for h
    by (simp_all add: inner_ok_def table_msg_def newChain_def nlAttrStrZ_def nlAttrBE32_def nft_type_def create_def nft_consts align4_def)
  ultimately show "m \<in> set (batch_inner big scopes order) \<Longrightarrow> inner_ok m"
    by (auto simp: batch_inner_def interface_rules_def split: if_splits)
qed

lemma acked_ok: "\<forall>m \<in> set ms. inner_ok m \<Longrightarrow> ms \<noteq> [] \<Longrightarrow> m \<in> set (acked ms) \<Longrightarrow> inner_ok m"
proof -
  have "fl < 65536 \<Longrightarrow> fl OR 4 < 65536" for fl :: nat
    using take_bit_nat_less_exp [of 16 "fl OR 4"] take_bit_or [of 16 fl 4] by (simp add: take_bit_nat_eq_self)
  then show "\<forall>m \<in> set ms. inner_ok m \<Longrightarrow> ms \<noteq> [] \<Longrightarrow> m \<in> set (acked ms) \<Longrightarrow> inner_ok m"
    by (induction ms rule: rev_induct) (auto simp: acked_def inner_ok_def NLM_F_ACK_def)
qed

lemma parse_batch:
  assumes "batch_inner big scopes order = ms"
  shows "\<exists>d0 d1. ParseNetlinkMessage big (buildBatch big scopes order) =
    Some (d0 # map2 read_inner [2..<2 + length ms] (acked ms) @ [d1]) \<and> nm_type d0 = nfnlMsgBatchBegin \<and> nm_type d1 = nfnlMsgBatchEnd"
proof -
  have ok: "\<forall>m \<in> set ms. inner_ok m" "ms \<noteq> []"
    using assms batch_inner_ok by (auto simp: batch_inner_def)
  then have fl: "\<forall>(t, fl, as) \<in> set ms. fl < 65536" by (auto simp: inner_ok_def)
  have len: "length (acked ms) = length ms" using ok(2) by (simp add: acked_def split: prod.splits)
  let ?d = "[CHR 0x00, CHR 0x00, CHR 0x00, CHR 0x0A]"
  let ?final = "nlMessage big nfnlMsgBatchEnd 1 (length ms + 2) ?d"
  have e: "ParseNetlinkMessage big ?final = Some [\<lparr>nm_type = nfnlMsgBatchEnd, nm_flags = 1, nm_seq = (length ms + 2) mod 256 ^ 4, nm_data = ?d\<rparr>]"
    using parse_message [of ?d nfnlMsgBatchEnd 1 big "length ms + 2" "[]"] by (simp add: nfnlMsgBatchEnd_def)
  have f: "ParseNetlinkMessage big (framed big 1 (acked ms) @ ?final) = Some (map2 read_inner [2..<2 + length ms] (acked ms) @
      [\<lparr>nm_type = nfnlMsgBatchEnd, nm_flags = 1, nm_seq = (length ms + 2) mod 256 ^ 4, nm_data = ?d\<rparr>])"
    using parse_framed [of "acked ms" big 1 ?final] acked_ok [OF ok] len unfolding e by (simp add: numeral_2_eq_2 del: upt_Suc)
  have "ParseNetlinkMessage big (nlMessage big nfnlMsgBatchBegin 1 1 ?d @ framed big 1 (acked ms) @ ?final) =
      map_option (Cons \<lparr>nm_type = nfnlMsgBatchBegin, nm_flags = 1, nm_seq = 1 mod 256 ^ 4, nm_data = ?d\<rparr>)
        (ParseNetlinkMessage big (framed big 1 (acked ms) @ ?final))"
    by (rule parse_message) (simp_all add: nfnlMsgBatchBegin_def)
  then show ?thesis
    unfolding buildBatch_framed [OF assms fl] delim_message f by simp
qed

section \<open>What a batch leaves in the kernel\<close>

lemma read_inner_fields [simp]:
  "nm_type (read_inner q m) = fst m" "nm_flags (read_inner q m) = fst (snd m)" "drop 4 (nm_data (read_inner q m)) = snd (snd m)"
  by (simp_all add: read_inner_def split: prod.splits)

definition exec_inner :: "bool \<Rightarrow> inner \<Rightarrow> kernel_table \<Rightarrow> kernel_table option" where
  "exec_inner big m = exec_message big (read_inner 0 m)"

fun exec_inners :: "bool \<Rightarrow> inner list \<Rightarrow> kernel_table \<Rightarrow> kernel_table option" where
  "exec_inners big [] T = Some T"
| "exec_inners big (m # ms) T = (case exec_inner big m T of None \<Rightarrow> None | Some T \<Rightarrow> exec_inners big ms T)"

lemma exec_inners_append:
  "exec_inners big (ms @ ns) T = (case exec_inners big ms T of None \<Rightarrow> None | Some T \<Rightarrow> exec_inners big ns T)"
  by (induction ms arbitrary: T) (simp_all split: option.split)

text \<open>Sequence numbers and the request for an acknowledgement do not matter to the effect.\<close>

definition same_effect :: "inner \<Rightarrow> inner \<Rightarrow> bool" where
  "same_effect m m' \<longleftrightarrow> fst m = fst m' \<and> fst (snd m) AND NLM_F_APPEND = fst (snd m') AND NLM_F_APPEND \<and> snd (snd m) = snd (snd m')"

lemma exec_same:
  assumes "same_effect m m'"
  shows "exec_message big (read_inner q m) T = exec_inner big m' T"
proof -
  have e: "fst m = fst m'" "fst (snd m) AND NLM_F_APPEND = fst (snd m') AND NLM_F_APPEND" "snd (snd m) = snd (snd m')"
    using assms by (simp_all add: same_effect_def)
  show ?thesis unfolding exec_inner_def exec_message_def read_inner_fields e by (rule refl)
qed

lemma exec_messages_inner:
  assumes "list_all2 same_effect ms ms'" "length qs = length ms"
  shows "exec_messages big (map2 read_inner qs ms @ rest) T =
    (case exec_inners big ms' T of None \<Rightarrow> None | Some T \<Rightarrow> exec_messages big rest T)"
  using assms
proof (induction arbitrary: qs T rule: list_all2_induct)
  case (Cons m ms m' ms')
  then obtain q qs' where "qs = q # qs'" "length qs' = length ms" by (cases qs) auto
  with Cons.IH [of qs'] exec_same [OF Cons.hyps(1)] show ?case by (simp split: option.split)
qed simp

lemma acked_same: "ms \<noteq> [] \<Longrightarrow> list_all2 same_effect (acked ms) ms"
proof (induction ms rule: rev_induct)
  case (snoc m ms)
  have "list_all2 same_effect ms ms" by (rule list_all2_refl) (simp add: same_effect_def)
  moreover obtain t fl as where m: "m = (t, fl, as)" by (cases m)
  have "(fl OR NLM_F_ACK) AND NLM_F_APPEND = fl AND NLM_F_APPEND"
  proof -
    have "NLM_F_ACK = 2 ^ 2" "NLM_F_APPEND = 2 ^ 11" by (simp_all add: nft_consts)
    moreover have "(fl OR 2 ^ 2) AND 2 ^ 11 = fl AND 2 ^ 11"
      by (rule bit_eqI) (auto simp only: bit_or_iff bit_and_iff bit_exp_iff)
    ultimately show ?thesis by simp
  qed
  then have "same_effect (t, fl OR NLM_F_ACK, as) m" by (simp add: same_effect_def m)
  ultimately show ?case by (simp add: acked_def list_all2_appendI m)
qed simp

definition scope_of :: "(bytes, scope) gomap \<Rightarrow> bytes \<Rightarrow> scope" where
  "scope_of scopes n = (case mget scopes n of None \<Rightarrow> no_scope | Some s \<Rightarrow> s)"

lemma exec_table:
  "exec_inner big (table_msg big nftMsgNewTable fl) T = Some (Some (case T of None \<Rightarrow> [] | Some cs \<Rightarrow> cs))"
  "exec_inner big (table_msg big nftMsgDelTable fl) (Some cs) = Some None"
  by (simp_all add: exec_inner_def exec_message_def table_msg_def nft_type_def nft_consts nlAttrStrZ_def walk_last attr_of_def)

lemma exec_new_chain:
  "length c < 100 \<Longrightarrow> exec_inner big (newChain big c h) (Some cs) = exec_chain (c @ [CHR 0x00]) (uint_be 4 h) nfAccept cs"
  by (simp add: exec_inner_def exec_message_def newChain_def nft_type_def nft_consts nlAttrStrZ_def nlAttrBE32_def
      walk_attr walk_last attr_of_def align4_def)

lemma exec_new_rule:
  assumes "length c < 100" "length e < 2000"
  shows "exec_inner big (rule_msg big c e) (Some cs) = exec_rule (c @ [CHR 0x00]) True (read_exprs big e) cs"
proof -
  have "create OR NLM_F_APPEND = 0xC01" by (simp add: create_def nft_consts)
  moreover have "(0xC01 :: nat) AND 0x800 = 0x800" by simp
  ultimately show ?thesis
    using assms by (simp add: exec_inner_def exec_message_def rule_msg_def nft_type_def nft_consts nlAttrStrZ_def
        walk_attr walk_last attr_of_def)
qed

text \<open>The table with its two chains and the given rules.\<close>

definition two_chains :: "nf_expr list list \<Rightarrow> nf_expr list list \<Rightarrow> kernel_table" where
  "two_chains ins fwds = Some
     [(chainName @ [CHR 0x00], \<lparr>kc_hook = uint_be 4 nfInetLocalIn, kc_policy = nfAccept, kc_rules = ins\<rparr>),
      (fwdChainName @ [CHR 0x00], \<lparr>kc_hook = uint_be 4 nfInetForward, kc_policy = nfAccept, kc_rules = fwds\<rparr>)]"

lemma exec_rules:
  assumes "\<forall>e \<in> set es. length e < 2000"
  shows "exec_inners big (map (rule_msg big chainName) es) (two_chains ins fwds) = Some (two_chains (ins @ map (read_exprs big) es) fwds)"
    "exec_inners big (map (rule_msg big fwdChainName) es) (two_chains ins fwds) = Some (two_chains ins (fwds @ map (read_exprs big) es))"
  using assms
  by (induction es arbitrary: ins fwds)
    (simp_all add: two_chains_def exec_new_rule exec_rule_def chainName_def fwdChainName_def)

lemma exec_interface:
  "exec_inners big (interface_rules big scopes n) (two_chains ins fwds) =
   Some (two_chains (ins @ map (read_exprs big) (ruleExprs big n (scope_of scopes n))) (fwds @ map (read_exprs big) (forwardExprs big n)))"
proof -
  have l: "\<forall>e \<in> set (ruleExprs big n (scope_of scopes n)). length e < 2000" "\<forall>e \<in> set (forwardExprs big n). length e < 2000"
    using expr_lengths by blast+
  show ?thesis
    by (simp add: interface_rules_def scope_of_def [symmetric] exec_inners_append exec_rules(1) [OF l(1)] exec_rules(2) [OF l(2)])
qed

lemma exec_interfaces:
  "exec_inners big (concat (map (interface_rules big scopes) order)) (two_chains ins fwds) =
   Some (two_chains (ins @ concat (map (\<lambda>n. map (read_exprs big) (ruleExprs big n (scope_of scopes n))) order))
     (fwds @ concat (map (\<lambda>n. map (read_exprs big) (forwardExprs big n)) order)))"
  by (induction order arbitrary: ins fwds) (simp_all add: exec_inners_append exec_interface)

lemma exec_new_chains:
  "exec_inners big [newChain big chainName nfInetLocalIn, newChain big fwdChainName nfInetForward] (Some []) = Some (two_chains [] [])"
  by (simp add: exec_new_chain exec_chain_def two_chains_def chainName_def fwdChainName_def)

lemma exec_batch_inner:
  "exec_inners big (batch_inner big scopes order) T =
   Some (if scopes = [] then None
     else two_chains (concat (map (\<lambda>n. map (read_exprs big) (ruleExprs big n (scope_of scopes n))) order))
       (concat (map (\<lambda>n. map (read_exprs big) (forwardExprs big n)) order)))"
proof (cases "scopes = []")
  case True
  then show ?thesis by (simp add: batch_inner_def exec_table)
next
  case False
  have "batch_inner big scopes order = [table_msg big nftMsgNewTable create, table_msg big nftMsgDelTable NLM_F_REQUEST,
      table_msg big nftMsgNewTable create] @ [newChain big chainName nfInetLocalIn, newChain big fwdChainName nfInetForward] @
      concat (map (interface_rules big scopes) order)"
    using False by (simp add: batch_inner_def)
  moreover have "exec_inners big [table_msg big nftMsgNewTable create, table_msg big nftMsgDelTable NLM_F_REQUEST,
      table_msg big nftMsgNewTable create] T = Some (Some [])"
    by (simp add: exec_table)
  ultimately show ?thesis
    using False by (simp only: exec_inners_append exec_new_chains exec_interfaces option.case append_Nil if_False)
qed

text \<open>The batch always goes through, and what it leaves does not depend on what was there.\<close>

lemma exec_buildBatch:
  "exec_batch big (buildBatch big scopes order) T =
   Some (if scopes = [] then None
     else two_chains (concat (map (\<lambda>n. map (read_exprs big) (ruleExprs big n (scope_of scopes n))) order))
       (concat (map (\<lambda>n. map (read_exprs big) (forwardExprs big n)) order)))"
proof -
  let ?ms = "batch_inner big scopes order"
  obtain d0 d1 where p: "ParseNetlinkMessage big (buildBatch big scopes order) =
      Some (d0 # map2 read_inner [2..<2 + length ?ms] (acked ?ms) @ [d1])" "nm_type d0 = nfnlMsgBatchBegin" "nm_type d1 = nfnlMsgBatchEnd"
    using parse_batch [OF refl] by blast
  have same: "list_all2 same_effect (acked ?ms) ?ms" by (rule acked_same) (simp add: batch_inner_def)
  then have len: "length [2..<2 + length ?ms] = length (acked ?ms)" by (simp add: list_all2_lengthD del: upt_Suc)
  have d: "exec_message big d0 T' = Some T'" "exec_message big d1 T' = Some T'" for T'
    using p(2,3) by (simp_all add: exec_message_def nft_type_def nft_consts Let_def)
  show ?thesis
    unfolding exec_batch_def p(1)
    by (simp only: option.case exec_messages.simps d exec_messages_inner [OF same len] exec_batch_inner)
qed

end
