(* ===== verification/NftScopes.thy ===== *)
theory NftScopes
  imports NftProps
begin

text \<open>
  The packet filter over time: the state \<^verbatim>\<open>Apply\<close> and \<^verbatim>\<open>Remove\<close> guard, next to BuddyNet's table in the
  kernel. Every call sends a batch; an input says whether the kernel runs it and what it answers, so
  that batches that never arrive, that are rejected, or whose answer is lost are part of every run.
  What a batch does to the table is decided message by message (\<open>exec_batch\<close>), on top of whatever the
  table holds.
\<close>

section \<open>Calls\<close>

datatype nft_call = ApplyCall bytes scope | RemoveCall bytes

record nft_event =
  ne_call :: nft_call
  ne_reply :: "bytes option"
  ne_runs :: bool

record nft_system =
  ns_state :: nft_state
  ns_table :: kernel_table

definition nft_boot :: "kernel_table \<Rightarrow> nft_system" where
  "nft_boot T = \<lparr>ns_state = \<lparr>nf_scopes = [], nf_order = []\<rparr>, ns_table = T\<rparr>"

text \<open>A batch with an error in it changes nothing.\<close>

definition run_batch :: "bool \<Rightarrow> bool \<Rightarrow> bytes \<Rightarrow> nft_system \<Rightarrow> nft_system" where
  "run_batch big runs batch y =
     (if runs then (case exec_batch big batch (ns_table y) of None \<Rightarrow> y | Some T \<Rightarrow> y\<lparr>ns_table := T\<rparr>) else y)"

definition nft_step :: "bool \<Rightarrow> nft_event \<Rightarrow> nft_system \<Rightarrow> nft_system" where
  "nft_step big e y =
     (case ne_call e of
        ApplyCall n s \<Rightarrow>
          (case Apply big n s (ne_reply e) (ns_state y) of
             (batch, _, st) \<Rightarrow> (run_batch big (ne_runs e) batch y)\<lparr>ns_state := st\<rparr>)
      | RemoveCall n \<Rightarrow>
          (case Remove big n (ne_reply e) (ns_state y) of
             (None, _, st) \<Rightarrow> y\<lparr>ns_state := st\<rparr>
           | (Some batch, _, st) \<Rightarrow> (run_batch big (ne_runs e) batch y)\<lparr>ns_state := st\<rparr>))"

text \<open>Netlink: an acknowledgement without an error is sent for a batch that was run, and for no other.\<close>

definition acks_honestly :: "bool \<Rightarrow> nft_event \<Rightarrow> bool" where
  "acks_honestly big e \<longleftrightarrow> (sendBatch big (ne_reply e) = None \<longrightarrow> ne_runs e)"

fun interface_of :: "nft_call \<Rightarrow> bytes" where
  "interface_of (ApplyCall n s) = n"
| "interface_of (RemoveCall n) = n"

fun call_ok :: "nft_call \<Rightarrow> bool" where
  "call_ok (ApplyCall n s) \<longleftrightarrow> length n \<le> 16 \<and> CHR 0x00 \<notin> set n \<and> ports_ok s"
| "call_ok (RemoveCall n) \<longleftrightarrow> True"

section \<open>The guarded state\<close>

definition state_ok :: "bytes set \<Rightarrow> nft_state \<Rightarrow> bool" where
  "state_ok N st \<longleftrightarrow> gomap (nf_scopes st) \<and> distinct (nf_order st) \<and> set (nf_order st) = mkeys (nf_scopes st) \<and>
     mkeys (nf_scopes st) \<subseteq> N \<and> (\<forall>n \<in> mkeys (nf_scopes st). length n \<le> 16 \<and> CHR 0x00 \<notin> set n) \<and>
     (\<forall>n s. mget (nf_scopes st) n = Some s \<longrightarrow> ports_ok s)"

definition applied_state :: "bytes \<Rightarrow> scope \<Rightarrow> nft_state \<Rightarrow> nft_state" where
  "applied_state n s st = \<lparr>nf_scopes = mput n s (nf_scopes st),
     nf_order = (if mget (nf_scopes st) n = None then nf_order st @ [n] else nf_order st)\<rparr>"

definition removed_state :: "bytes \<Rightarrow> nft_state \<Rightarrow> nft_state" where
  "removed_state n st = \<lparr>nf_scopes = mdel n (nf_scopes st), nf_order = remove1 n (nf_order st)\<rparr>"

lemma mput_mput: "mput k v (mput k w m) = mput k v m"
  by (induction m) auto

lemma mput_same: "mget m k = Some v \<Longrightarrow> mput k v m = m"
  by (induction m) (auto split: if_splits)

lemma mdel_mput: "k \<notin> mkeys m \<Longrightarrow> mdel k (mput k v m) = m"
  by (induction m) auto

text \<open>A call that fails leaves the state as it was.\<close>

lemma Apply_result:
  "Apply big n s reply st =
     (buildBatch big (nf_scopes (applied_state n s st)) (nf_order (applied_state n s st)), sendBatch big reply,
      if sendBatch big reply = None then applied_state n s st else st)"
proof (cases "mget (nf_scopes st) n")
  case None
  then have "mdel n (mput n s (nf_scopes st)) = nf_scopes st" by (simp add: mdel_mput mget_None_iff)
  with None show ?thesis by (simp add: Apply_def Let_def applied_state_def split: option.splits)
next
  case (Some prev)
  then have "mput n prev (mput n s (nf_scopes st)) = nf_scopes st" by (simp add: mput_mput mput_same)
  with Some show ?thesis by (simp add: Apply_def Let_def applied_state_def split: option.splits)
qed

lemma applied_ok: "state_ok N st \<Longrightarrow> call_ok (ApplyCall n s) \<Longrightarrow> n \<in> N \<Longrightarrow> state_ok N (applied_state n s st)"
  by (auto simp: state_ok_def applied_state_def gomap_simps mget_None_iff split: if_splits)

lemma removed_ok: "state_ok N st \<Longrightarrow> state_ok N (removed_state n st)"
  by (auto simp: state_ok_def removed_state_def gomap_simps distinct_remove1 split: if_splits)

section \<open>What a committed state enforces\<close>

text \<open>Every chain of the table at a hook sees the packet, and one that drops it decides.\<close>

definition at_hook :: "nat \<Rightarrow> vm \<Rightarrow> nf_packet \<Rightarrow> kernel_table \<Rightarrow> nat" where
  "at_hook hook vm pkt T =
     (case T of
        None \<Rightarrow> nfAccept
      | Some cs \<Rightarrow>
          if list_ex (\<lambda>(_, c). kc_hook c = uint_be 4 hook \<and> run_chain vm pkt (kc_policy c) (kc_rules c) = nfDrop) cs
          then nfDrop else nfAccept)"

definition at_input :: "vm \<Rightarrow> nf_packet \<Rightarrow> nft_system \<Rightarrow> nat" where
  "at_input vm pkt y = at_hook nfInetLocalIn vm pkt (ns_table y)"

definition at_forward :: "vm \<Rightarrow> nf_packet \<Rightarrow> nft_system \<Rightarrow> nat" where
  "at_forward vm pkt y = at_hook nfInetForward vm pkt (ns_table y)"

definition enforces :: "vm \<Rightarrow> bytes \<Rightarrow> scope \<Rightarrow> nft_system \<Rightarrow> bool" where
  "enforces vm n s y \<longleftrightarrow> (\<forall>pkt. packet_ok pkt \<and> pk_iifname pkt = padded n \<longrightarrow>
     at_input vm pkt y = (if admits s pkt then nfAccept else nfDrop) \<and> at_forward vm pkt y = nfDrop)"

definition leaves_alone :: "vm \<Rightarrow> bytes set \<Rightarrow> nft_system \<Rightarrow> bool" where
  "leaves_alone vm N y \<longleftrightarrow> (\<forall>pkt. packet_ok pkt \<and> pk_iifname pkt \<notin> padded ` N \<longrightarrow>
     at_input vm pkt y = nfAccept \<and> at_forward vm pkt y = nfAccept)"

lemma padded_inj:
  assumes "length m \<le> 16" "CHR 0x00 \<notin> set m" "length n \<le> 16" "CHR 0x00 \<notin> set n" "padded m = padded n"
  shows "m = n"
proof -
  have "takeWhile (\<lambda>c. c \<noteq> CHR 0x00) (padded k) = k" if "length k \<le> 16" "CHR 0x00 \<notin> set k" for k
  proof -
    have "padded k = k @ replicate (16 - length k) CHR 0x00" using that(1) by (simp add: padded_def ifNameSize_def)
    moreover have "takeWhile (\<lambda>c. c \<noteq> CHR 0x00) (replicate j CHR 0x00) = []" for j by (cases j) simp_all
    moreover have "takeWhile (\<lambda>c. c \<noteq> CHR 0x00) (k @ zs) = k @ takeWhile (\<lambda>c. c \<noteq> CHR 0x00) zs" for zs
      using that(2) by (intro takeWhile_append2) auto
    ultimately show ?thesis by simp
  qed
  then show ?thesis using assms by metis
qed

lemma run_input_chain:
  assumes "nf_tables big vm" "packet_ok pkt" "\<forall>m \<in> set order. ports_ok (sc m) \<and> (pk_iifname pkt = padded m \<longrightarrow> m = n)"
    and "pk_iifname pkt = padded n \<or> n \<notin> set order"
  shows "run_chain vm pkt nfAccept (concat (map (\<lambda>m. map (read_exprs big) (ruleExprs big m (sc m))) order)) =
    (if n \<in> set order \<and> \<not> admits (sc n) pkt then nfDrop else nfAccept)"
  using assms(3,4)
proof (induction order)
  case (Cons m order)
  have "run_chain vm pkt nfAccept (map (read_exprs big) (ruleExprs big m (sc m)) @ rest) =
      (if pk_iifname pkt = padded m \<and> \<not> All (sc m) then (if admits (sc m) pkt then nfAccept else nfDrop)
       else run_chain vm pkt nfAccept rest)" for rest
    using run_ruleExprs [OF assms(1,2)] Cons.prems by simp
  then show ?case using Cons by (auto simp: admits_def)
qed simp

lemma run_forward_chain:
  assumes "nf_tables big vm" "packet_ok pkt" "\<forall>m \<in> set order. pk_iifname pkt = padded m \<longrightarrow> m = n"
    and "pk_iifname pkt = padded n \<or> n \<notin> set order"
  shows "run_chain vm pkt nfAccept (concat (map (\<lambda>m. map (read_exprs big) (forwardExprs big m)) order)) =
    (if n \<in> set order then nfDrop else nfAccept)"
  using assms(3,4) by (induction order) (auto simp: run_forwardExprs [OF assms(1,2)])

lemma state_scope: "state_ok N st \<Longrightarrow> ports_ok (scope_of (nf_scopes st) m)"
  by (auto simp: state_ok_def scope_of_def ports_ok_def no_scope_def split: option.splits)

text \<open>What the two hooks do once the batch of a state has been run, whatever the table was.\<close>

lemma hooks_differ: "uint_be 4 nfInetLocalIn \<noteq> uint_be 4 nfInetForward"
proof
  assume "uint_be 4 nfInetLocalIn = uint_be 4 nfInetForward"
  then have "be_value (uint_be 4 nfInetLocalIn) = be_value (uint_be 4 nfInetForward)" by simp
  then show False by (simp add: nfInetLocalIn_def nfInetForward_def)
qed

lemma run_batch_hooks:
  assumes "y' = run_batch big True (buildBatch big scopes order) y"
    and "run_chain vm pkt nfAccept (concat (map (\<lambda>n. map (read_exprs big) (ruleExprs big n (scope_of scopes n))) order)) = i"
    and "run_chain vm pkt nfAccept (concat (map (\<lambda>n. map (read_exprs big) (forwardExprs big n)) order)) = f"
    and "i \<in> {nfAccept, nfDrop}" "f \<in> {nfAccept, nfDrop}" "scopes = [] \<longrightarrow> order = []"
  shows "at_input vm pkt y' = i \<and> at_forward vm pkt y' = f"
  using assms hooks_differ
  by (auto simp: at_input_def at_forward_def at_hook_def run_batch_def exec_buildBatch two_chains_def nfAccept_def nfDrop_def)

lemma commit_enforces:
  assumes "nf_tables big vm" "state_ok N st" "mget (nf_scopes st) n = Some s"
  shows "enforces vm n s (run_batch big True (buildBatch big (nf_scopes st) (nf_order st)) y)"
  unfolding enforces_def
proof (intro allI impI)
  fix pkt assume pkt: "packet_ok pkt \<and> pk_iifname pkt = padded n"
  have n: "n \<in> set (nf_order st)" "nf_scopes st \<noteq> []" using assms(2,3) by (auto simp: state_ok_def intro: rev_image_eqI dest: mget_in_set)
  have "m = n" if "m \<in> set (nf_order st)" "padded n = padded m" for m
    using padded_inj [of m n] that n(1) assms(2) unfolding state_ok_def by metis
  then show "at_input vm pkt (run_batch big True (buildBatch big (nf_scopes st) (nf_order st)) y) = (if admits s pkt then nfAccept else nfDrop) \<and>
      at_forward vm pkt (run_batch big True (buildBatch big (nf_scopes st) (nf_order st)) y) = nfDrop"
    using run_input_chain [OF assms(1), of pkt "nf_order st" "scope_of (nf_scopes st)" n] run_forward_chain [OF assms(1), of pkt "nf_order st" n]
      pkt n state_scope [OF assms(2)] assms(3)
    by (intro run_batch_hooks [OF refl]) (auto simp: scope_of_def)
qed

lemma commit_leaves_alone:
  assumes "nf_tables big vm" "state_ok N st"
  shows "leaves_alone vm N (run_batch big True (buildBatch big (nf_scopes st) (nf_order st)) y)"
  unfolding leaves_alone_def
proof (intro allI impI)
  fix pkt assume pkt: "packet_ok pkt \<and> pk_iifname pkt \<notin> padded ` N"
  obtain n where n: "n \<notin> set (nf_order st)" using ex_new_if_finite [OF infinite_UNIV_listI finite_set] by blast
  have "\<forall>m \<in> set (nf_order st). pk_iifname pkt \<noteq> padded m" using pkt assms(2) by (auto simp: state_ok_def)
  then show "at_input vm pkt (run_batch big True (buildBatch big (nf_scopes st) (nf_order st)) y) = nfAccept \<and>
      at_forward vm pkt (run_batch big True (buildBatch big (nf_scopes st) (nf_order st)) y) = nfAccept"
    using run_input_chain [OF assms(1), of pkt "nf_order st" "scope_of (nf_scopes st)" n] run_forward_chain [OF assms(1), of pkt "nf_order st" n]
      pkt n state_scope [OF assms(2)] assms(2)
    by (intro run_batch_hooks [OF refl]) (auto simp: state_ok_def)
qed

section \<open>Runs\<close>

lemma nft_step_cases:
  obtains n s where "ne_call e = ApplyCall n s"
    "nft_step big e y = (run_batch big (ne_runs e)
       (buildBatch big (nf_scopes (applied_state n s (ns_state y))) (nf_order (applied_state n s (ns_state y)))) y)
       \<lparr>ns_state := if sendBatch big (ne_reply e) = None then applied_state n s (ns_state y) else ns_state y\<rparr>"
  | n where "ne_call e = RemoveCall n" "nft_step big e y = y"
  | n where "ne_call e = RemoveCall n"
    "nft_step big e y = (run_batch big (ne_runs e)
       (buildBatch big (nf_scopes (removed_state n (ns_state y))) (nf_order (removed_state n (ns_state y)))) y)
       \<lparr>ns_state := removed_state n (ns_state y)\<rparr>"
proof (cases "ne_call e")
  case (ApplyCall n s)
  then show thesis using that(1) by (simp add: nft_step_def Apply_result)
next
  case (RemoveCall n)
  then show thesis
    using that(2,3) by (cases "mget (nf_scopes (ns_state y)) n") (simp_all add: nft_step_def Remove_def removed_state_def Let_def)
qed

lemma verdicts_state [simp]:
  "enforces vm n s (y\<lparr>ns_state := st\<rparr>) = enforces vm n s y" "leaves_alone vm N (y\<lparr>ns_state := st\<rparr>) = leaves_alone vm N y"
  by (simp_all add: enforces_def leaves_alone_def at_input_def at_forward_def)

definition guarded :: "bytes set \<Rightarrow> nft_event \<Rightarrow> bool" where
  "guarded N e \<longleftrightarrow> call_ok (ne_call e) \<and> interface_of (ne_call e) \<in> N"

lemma step_state_ok:
  assumes "state_ok N (ns_state y)" "guarded N e"
  shows "state_ok N (ns_state (nft_step big e y))"
  by (rule nft_step_cases [of e big y]) (use assms applied_ok removed_ok in \<open>auto simp: guarded_def\<close>)

lemma commit_keeps:
  assumes "nf_tables big vm" "state_ok N st" "mget (nf_scopes st) n = Some s" "enforces vm n s y" "leaves_alone vm N y"
  shows "enforces vm n s (run_batch big ok (buildBatch big (nf_scopes st) (nf_order st)) y) \<and>
    leaves_alone vm N (run_batch big ok (buildBatch big (nf_scopes st) (nf_order st)) y)"
  using commit_enforces [OF assms(1-3)] commit_leaves_alone [OF assms(1,2)] assms(4,5)
  by (cases ok) (auto simp: run_batch_def)

definition scope_held :: "bool \<Rightarrow> vm \<Rightarrow> bytes set \<Rightarrow> bytes \<Rightarrow> scope \<Rightarrow> nft_system \<Rightarrow> bool" where
  "scope_held big vm N n s y \<longleftrightarrow> nf_tables big vm \<and> state_ok N (ns_state y) \<and> mget (nf_scopes (ns_state y)) n = Some s \<and>
     enforces vm n s y \<and> leaves_alone vm N y"

lemma other_keeps:
  assumes "mget (nf_scopes st) n = Some s" "m \<noteq> n"
  shows "mget (nf_scopes (applied_state m t st)) n = Some s" "mget (nf_scopes (removed_state m st)) n = Some s"
  using assms by (simp_all add: applied_state_def removed_state_def gomap_simps)

lemma step_held:
  assumes "scope_held big vm N n s y" "guarded N e" "interface_of (ne_call e) \<noteq> n"
  shows "scope_held big vm N n s (nft_step big e y)"
proof -
  note h = assms(1) [unfolded scope_held_def]
  show ?thesis
  proof (rule nft_step_cases [of e big y])
    fix m t assume c: "ne_call e = ApplyCall m t"
    let ?st = "applied_state m t (ns_state y)"
    have "state_ok N ?st" using applied_ok h assms(2) c by (simp add: guarded_def)
    moreover have "mget (nf_scopes ?st) n = Some s" using other_keeps(1) h assms(3) c by simp
    moreover assume "nft_step big e y = (run_batch big (ne_runs e) (buildBatch big (nf_scopes ?st) (nf_order ?st)) y)
       \<lparr>ns_state := if sendBatch big (ne_reply e) = None then ?st else ns_state y\<rparr>"
    ultimately show ?thesis using h commit_keeps [of big vm N ?st n s y "ne_runs e"] by (simp add: scope_held_def)
  next
    fix m assume c: "ne_call e = RemoveCall m"
    let ?st = "removed_state m (ns_state y)"
    have "state_ok N ?st" using removed_ok h by blast
    moreover have "mget (nf_scopes ?st) n = Some s" using other_keeps(2) h assms(3) c by simp
    moreover assume "nft_step big e y = (run_batch big (ne_runs e) (buildBatch big (nf_scopes ?st) (nf_order ?st)) y)\<lparr>ns_state := ?st\<rparr>"
    ultimately show ?thesis using h commit_keeps [of big vm N ?st n s y "ne_runs e"] by (simp add: scope_held_def)
  qed (use assms(1) in simp)
qed

interpretation filter_state: stepwise "nft_step big" "\<lambda>y. state_ok N (ns_state y)" "guarded N" for big N
  by unfold_locales (rule step_state_ok)

interpretation filter_scope: stepwise "nft_step big" "scope_held big vm N n s" "\<lambda>e. guarded N e \<and> interface_of (ne_call e) \<noteq> n" for big vm N n s
  by unfold_locales (blast intro: step_held)

text \<open>C5: A scope that was applied stays enforced until it is changed. Start with an empty state and
  with whatever table a killed run left in the kernel, and make any calls, of which any may be rejected or lose its
  answer; the kernel acknowledges only batches it has run. Once \<^verbatim>\<open>Apply\<close> has returned without an error
  for an interface, then after any further calls for
  other interfaces, with any outcome, the kernel lets a packet from this interface reach the host
  exactly if the scope admits it (a reply, a ping, an exposed port, or anything under \<open>all\<close>), and
  forwards none of its packets, under \<open>all\<close> neither; and it accepts every packet of an interface no
  call was about.\<close>

theorem scopes_enforced:
  assumes "nf_tables big vm" "\<forall>e \<in> set (es @ ev # fs). call_ok (ne_call e)"
    and "\<forall>e \<in> set (es @ ev # fs). acks_honestly big e"
    and "ne_call ev = ApplyCall n s" "sendBatch big (ne_reply ev) = None"
    and "\<forall>e \<in> set fs. interface_of (ne_call e) \<noteq> n"
  shows "enforces vm n s (fold (nft_step big) (es @ ev # fs) (nft_boot T)) \<and>
    leaves_alone vm ((interface_of \<circ> ne_call) ` set (es @ ev # fs)) (fold (nft_step big) (es @ ev # fs) (nft_boot T))"
proof -
  let ?N = "(interface_of \<circ> ne_call) ` set (es @ ev # fs)"
  have g: "\<forall>e \<in> set (es @ ev # fs). guarded ?N e" using assms(2) by (auto simp: guarded_def)
  let ?y = "fold (nft_step big) es (nft_boot T)" and ?st = "applied_state n s (ns_state (fold (nft_step big) es (nft_boot T)))"
  have "state_ok ?N (ns_state (nft_boot T))" by (simp add: state_ok_def nft_boot_def)
  then have "state_ok ?N (ns_state ?y)" using filter_state.inv_run g by simp
  then have st: "state_ok ?N ?st" using applied_ok g assms(4) by (simp add: guarded_def)
  have m: "mget (nf_scopes ?st) n = Some s" by (simp add: applied_state_def gomap_simps)
  have "nft_step big ev ?y = (run_batch big True (buildBatch big (nf_scopes ?st) (nf_order ?st)) ?y)\<lparr>ns_state := ?st\<rparr>"
    using assms(3,4,5) by (simp add: nft_step_def Apply_result acks_honestly_def)
  then have "scope_held big vm ?N n s (nft_step big ev ?y)"
    using assms(1) st m commit_enforces [OF assms(1) st m] commit_leaves_alone [OF assms(1) st] by (simp add: scope_held_def)
  then have "scope_held big vm ?N n s (fold (nft_step big) fs (nft_step big ev ?y))"
    using filter_scope.inv_run g assms(6) by simp
  then show ?thesis by (simp add: scope_held_def)
qed

section \<open>A machine that runs the expressions, and a run\<close>

definition simple_vm :: "bool \<Rightarrow> vm" where
  "simple_vm big pkt e r =
     (let name = fst e; at = attr_of (snd e); dat = (\<lambda>k. attr_of (attrWalk big (at k)) 1) in
      if name = ''meta'' @ [CHR 0x00]
      then Goes (r(1 := if be_value (at 2) = 6 then pk_iifname pkt else [char_of (pk_l4 pkt)]))
      else if name = ''payload'' @ [CHR 0x00]
      then (let off = be_value (at 3); len = be_value (at 4) in
            if off + len \<le> length (pk_transport pkt) then Goes (r(1 := take len (drop off (pk_transport pkt)))) else Breaks)
      else if name = ''ct'' @ [CHR 0x00] then Goes (r(1 := native big 4 (pk_ct pkt)))
      else if name = ''bitwise'' @ [CHR 0x00]
      then Goes (r(1 := map2 byte_xor (map2 byte_and (take 4 (r 1)) (dat 4)) (dat 5)))
      else if name = ''cmp'' @ [CHR 0x00]
      then (if (take (length (dat 3)) (r 1) = dat 3) = (be_value (at 2) = 0) then Goes r else Breaks)
      else Decides (be_value (attr_of (attrWalk big (attr_of (attrWalk big (at 2)) 2)) 1)))"

lemma simple_vm_tables: "nf_tables big (simple_vm big)"
  by (simp add: nf_tables_def simple_vm_def attr_of_def walk_last align4_def Let_def)

definition ssh_scope :: scope where "ssh_scope = \<lparr>All = False, Ports = [\<lparr>Proto = ''tcp'', PortNo = 22\<rparr>]\<rparr>"

definition ack_reply :: bytes where "ack_reply = nlMessage False NLMSG_ERROR 0 1 (replicate 4 CHR 0x00)"

definition syn_to :: "nat \<Rightarrow> nf_packet" where
  "syn_to port = \<lparr>pk_iifname = padded ''bnet0'', pk_l4 = IPPROTO_TCP, pk_transport = uint_be 2 40000 @ uint_be 2 port, pk_ct = 8\<rparr>"

definition open_bnet0 :: nft_event where
  "open_bnet0 = \<lparr>ne_call = ApplyCall ''bnet0'' ssh_scope, ne_reply = Some ack_reply, ne_runs = True\<rparr>"

text \<open>The answer to the second call is lost although the kernel ran its batch.\<close>

definition lost_bnet1 :: nft_event where
  "lost_bnet1 = \<lparr>ne_call = ApplyCall ''bnet1'' \<lparr>All = True, Ports = []\<rparr>, ne_reply = None, ne_runs = True\<rparr>"

lemma ack_accepted: "sendBatch False (Some ack_reply) = None"
proof -
  have "ParseNetlinkMessage False ack_reply =
      Some [\<lparr>nm_type = NLMSG_ERROR, nm_flags = 0, nm_seq = 1 mod 256 ^ 4, nm_data = replicate 4 CHR 0x00\<rparr>]"
    using parse_message [of "replicate 4 CHR 0x00" NLMSG_ERROR 0 False 1 "[]"] by (simp add: ack_reply_def NLMSG_ERROR_def)
  moreover have "le_value (replicate k CHR 0x00) = 0" for k by (induction k) simp_all
  then have "ackErr False (replicate 4 CHR 0x00) = None" by (simp add: ackErr_def native_value_def int32_value_def)
  ultimately show ?thesis by (simp add: sendBatch_def)
qed

text \<open>What a killed run left behind: a chain that accepts everything before any other rule is looked
  at.\<close>

definition stale_table :: kernel_table where
  "stale_table = two_chains [read_exprs False (exprVerdict False nfAccept)] []"

theorem scopes_enforced_witness:
  "let y = fold (nft_step False) [open_bnet0, lost_bnet1] (nft_boot stale_table) in
     at_input (simple_vm False) (syn_to 22) y = nfAccept \<and> at_input (simple_vm False) (syn_to 80) y = nfDrop \<and>
     at_forward (simple_vm False) (syn_to 22) y = nfDrop"
proof -
  let ?y = "fold (nft_step False) [open_bnet0, lost_bnet1] (nft_boot stale_table)"
  have "enforces (simple_vm False) ''bnet0'' ssh_scope ?y"
    using scopes_enforced [OF simple_vm_tables, where big = False and es = "[]" and ev = open_bnet0 and fs = "[lost_bnet1]" and
        n = "''bnet0''" and s = ssh_scope and T = stale_table]
    by (simp add: open_bnet0_def lost_bnet1_def ssh_scope_def ports_ok_def ack_accepted acks_honestly_def)
  moreover have "packet_ok (syn_to p)" "pk_iifname (syn_to p) = padded ''bnet0''" for p
    by (simp_all add: packet_ok_def syn_to_def nft_consts)
  moreover have "admits ssh_scope (syn_to 22)" "\<not> admits ssh_scope (syn_to 80)"
    by (simp_all add: admits_def ssh_scope_def port_admits_def dport_def syn_to_def nft_consts)
  ultimately show ?thesis by (simp add: enforces_def Let_def)
qed

end
