(* ===== verification/Control.thy ===== *)
theory Control
  imports Netkey
begin

text \<open>
  Admission to the control plane, \<^verbatim>\<open>internal/tunnel/control.go\<close>: the source allowlist and
  the connection budget that \<^verbatim>\<open>gateConn\<close> decides before a TLS handshake starts, the release
  closure that gives a slot back, the throttled refusal line, the identity taken from the
  peer's certificate, and the bounded read of one request.

  The QUIC listener calls the gate once per connection, hands a connection that completed
  its handshake to \<^verbatim>\<open>acceptConns\<close>, and cancels the connection's context when it is gone; the
  order of these calls, and the times at which they come, are the event list. A closure is
  its index in \<open>slots\<close>, which holds the key it captured and the state of its \<^verbatim>\<open>sync.Once\<close>.
  The listener runs on a \<^verbatim>\<open>*net.UDPConn\<close>, so a remote address is a \<^verbatim>\<open>*net.UDPAddr\<close>.

  The lemmas show that the two counters are exactly what is open at every moment, however
  the two releases of a connection interleave, and what an attacker needs to lock a buddy
  out.
\<close>

definition maxControlReq :: nat where "maxControlReq = 8192"
definition maxCtrlConns :: int where "maxCtrlConns = 256"
definition maxCtrlConnsPerIP :: int where "maxCtrlConnsPerIP = 16"
definition rejectLogInterval :: duration where "rejectLogInterval = 30 * second"

section \<open>The server's accounting\<close>

record ctrl_slot =
  slot_key :: acct
  slot_done :: bool

record control_server =
  ctl_conns :: int
  perIP :: "(acct, int) gomap"
  ctl_rejected :: int
  lastLogAt :: "time option"
  ctl_allowed :: "prefix list"
  ctl_slots :: "ctrl_slot list"

definition ListenControl :: "prefix list \<Rightarrow> control_server" where
  "ListenControl allowed =
     \<lparr>ctl_conns = 0, perIP = [], ctl_rejected = 0, lastLogAt = None, ctl_allowed = allowed, ctl_slots = []\<rparr>"

definition ipKey :: "udpaddr \<Rightarrow> acct" where
  "ipKey a = FromIP (IP a)"

definition sourceAllowed :: "control_server \<Rightarrow> udpaddr \<Rightarrow> bool" where
  "sourceAllowed s remote =
     (if ctl_allowed s = [] then True
      else if \<not> (length (IP remote) = 4 \<or> length (IP remote) = 16) then False
      else (let a = Unmap (IP remote) in list_ex (\<lambda>p. Contains p a) (ctl_allowed s)))"

definition ip_count :: "(acct, int) gomap \<Rightarrow> acct \<Rightarrow> int" where
  "ip_count m k = (case mget m k of None \<Rightarrow> 0 | Some n \<Rightarrow> n)"

text \<open>The slot and its closure are created together; the closure's index is the result.\<close>

definition admit :: "udpaddr \<Rightarrow> control_server \<Rightarrow> nat option \<times> control_server" where
  "admit remote s =
     (let key = ipKey remote in
      if ctl_conns s \<ge> maxCtrlConns \<or> ip_count (perIP s) key \<ge> maxCtrlConnsPerIP
      then (None, s\<lparr>ctl_rejected := ctl_rejected s + 1\<rparr>)
      else (Some (length (ctl_slots s)),
            s\<lparr>ctl_conns := ctl_conns s + 1,
              perIP := mput key (ip_count (perIP s) key + 1) (perIP s),
              ctl_slots := ctl_slots s @ [\<lparr>slot_key = key, slot_done = False\<rparr>]\<rparr>))"

definition release_slot :: "nat \<Rightarrow> control_server \<Rightarrow> control_server" where
  "release_slot i s =
     (if i \<ge> length (ctl_slots s) \<or> slot_done (ctl_slots s ! i) then s
      else let key = slot_key (ctl_slots s ! i); n = ip_count (perIP s) key - 1 in
        s\<lparr>ctl_conns := ctl_conns s - 1,
          perIP := (if n \<le> 0 then mdel key (perIP s) else mput key n (perIP s)),
          ctl_slots := (ctl_slots s)[i := (ctl_slots s ! i)\<lparr>slot_done := True\<rparr>]\<rparr>)"

text \<open>The count of the line that is logged, if one is. \<^verbatim>\<open>time.Since\<close> of the zero time is larger
  than every interval.\<close>

definition noteRejection :: "time \<Rightarrow> control_server \<Rightarrow> int option \<times> control_server" where
  "noteRejection now s =
     (if (case lastLogAt s of None \<Rightarrow> False | Some t \<Rightarrow> now - t < rejectLogInterval) then (None, s)
      else (Some (ctl_rejected s), s\<lparr>ctl_rejected := 0, lastLogAt := Some now\<rparr>))"

record client_info =
  AddrVerified :: bool
  RemoteAddr :: udpaddr

text \<open>The closure put into the connection's context, or \<open>None\<close> for \<^verbatim>\<open>errConnRefused\<close>; and the
  logged line.\<close>

definition gateConn ::
  "time \<Rightarrow> client_info \<Rightarrow> control_server \<Rightarrow> (nat option \<times> int option) \<times> control_server" where
  "gateConn now info s =
     (if \<not> AddrVerified info then (let (l, s) = noteRejection now s in ((None, l), s))
      else if \<not> sourceAllowed s (RemoteAddr info) then (let (l, s) = noteRejection now s in ((None, l), s))
      else case admit (RemoteAddr info) s of
        (None, s) \<Rightarrow> (let (l, s) = noteRejection now s in ((None, l), s))
      | (Some i, s) \<Rightarrow> ((Some i, None), s))"

text \<open>One accepted connection: closed at once if its context carries no closure, served
  otherwise.\<close>

datatype conn_action = CloseSilently | Serve nat

definition acceptConn :: "time \<Rightarrow> nat option \<Rightarrow> control_server \<Rightarrow> conn_action \<times> control_server" where
  "acceptConn now rel s =
     (case rel of
        None \<Rightarrow> (CloseSilently, snd (noteRejection now s))
      | Some i \<Rightarrow> (Serve i, s))"

section \<open>Serving a connection\<close>

text \<open>The leaf of the chain: \<open>None\<close> if it does not parse, otherwise its key, \<open>None\<close> if that is not
  an Ed25519 key.\<close>

type_synonym x509_parse = "bytes \<Rightarrow> bytes option option"

datatype cert_error = NoCertificate | BadCertificate | NotEd25519 | WrongIdentity

definition peerEd25519FromCerts :: "x509_parse \<Rightarrow> bytes list \<Rightarrow> cert_error + bytes" where
  "peerEd25519FromCerts parse rawCerts =
     (case rawCerts of
        [] \<Rightarrow> Inl NoCertificate
      | c # _ \<Rightarrow> (case parse c of
          None \<Rightarrow> Inl BadCertificate
        | Some None \<Rightarrow> Inl NotEd25519
        | Some (Some pk) \<Rightarrow> Inr pk))"

definition pinnedPeerVerify :: "x509_parse \<Rightarrow> bytes \<Rightarrow> bytes list \<Rightarrow> cert_error option" where
  "pinnedPeerVerify parse want rawCerts =
     (case peerEd25519FromCerts parse rawCerts of
        Inl e \<Rightarrow> Some e
      | Inr pk \<Rightarrow> if pk \<noteq> want then Some WrongIdentity else None)"

definition requireEd25519Client :: "x509_parse \<Rightarrow> bytes list \<Rightarrow> cert_error option" where
  "requireEd25519Client parse rawCerts =
     (case peerEd25519FromCerts parse rawCerts of Inl e \<Rightarrow> Some e | Inr _ \<Rightarrow> None)"

text \<open>\<^verbatim>\<open>io.ReadAll\<close> of \<^verbatim>\<open>io.LimitReader\<close>: a stream is the bytes it yields and whether it ends in
  \<^verbatim>\<open>EOF\<close>, or in an error (a reset, the read deadline). At the limit the end is not looked at.\<close>

definition read_all_limited :: "nat \<Rightarrow> bytes \<times> bool \<Rightarrow> bytes option" where
  "read_all_limited n st =
     (if n \<le> length (fst st) then Some (take n (fst st))
      else if snd st then Some (fst st) else None)"

record control_request =
  Remote :: udpaddr
  ClientKey :: bytes
  Payload :: bytes

text \<open>The request put on the channel, if any; \<open>taken\<close> is the branch of the final \<^verbatim>\<open>select\<close>.\<close>

definition readRequest :: "udpaddr \<Rightarrow> bytes \<Rightarrow> bytes \<times> bool \<Rightarrow> bool \<Rightarrow> control_request option" where
  "readRequest remote clientKey st taken =
     (case read_all_limited (maxControlReq + 1) st of
        None \<Rightarrow> None
      | Some payload \<Rightarrow>
          if length payload > maxControlReq then None
          else if taken then Some \<lparr>Remote = remote, ClientKey = clientKey, Payload = payload\<rparr>
          else None)"

text \<open>The chain a completed handshake leaves, each certificate by its key as above.\<close>

definition clientKeyOf :: "bytes option list \<Rightarrow> cert_error + bytes" where
  "clientKeyOf certs =
     (case certs of
        [] \<Rightarrow> Inl NoCertificate
      | None # _ \<Rightarrow> Inl NotEd25519
      | Some pk # _ \<Rightarrow> Inr pk)"

text \<open>The requests of one connection: nothing without an identity, otherwise one read for
  each stream that \<^verbatim>\<open>AcceptStream\<close> returned before it failed.\<close>

definition acceptStreams ::
  "bytes option list \<Rightarrow> udpaddr \<Rightarrow> ((bytes \<times> bool) \<times> bool) list \<Rightarrow> control_request list" where
  "acceptStreams certs remote sts =
     (case clientKeyOf certs of
        Inl _ \<Rightarrow> []
      | Inr key \<Rightarrow> List.map_filter (\<lambda>(st, taken). readRequest remote key st taken) sts)"

section \<open>The events of a listener\<close>

text \<open>\<open>Served i\<close>: the serving goroutine of slot \<open>i\<close> ends, by a return or by a recovered
  panic. \<open>Cancelled i\<close>: the connection's context is cancelled.\<close>

datatype ctl_event =
    Incoming time client_info
  | Accepted time "nat option"
  | Served nat
  | Cancelled nat

fun ctl_step :: "ctl_event \<Rightarrow> control_server \<Rightarrow> control_server" where
  "ctl_step (Incoming now info) s = snd (gateConn now info s)"
| "ctl_step (Accepted now rel) s = snd (acceptConn now rel s)"
| "ctl_step (Served i) s = release_slot i s"
| "ctl_step (Cancelled i) s = release_slot i s"

section \<open>What is open\<close>

text \<open>The specification: the number of connections admitted so far, and the open ones with
  their source. A connection is open from its admission to the first of its two releases.\<close>

type_synonym open_conns = "nat \<times> (nat \<times> acct) list"

definition held_by :: "acct \<Rightarrow> (nat \<times> acct) list \<Rightarrow> nat" where
  "held_by k os = length (filter (\<lambda>x. snd x = k) os)"

definition gate_admits :: "prefix list \<Rightarrow> client_info \<Rightarrow> (nat \<times> acct) list \<Rightarrow> bool" where
  "gate_admits allowed info os \<longleftrightarrow> AddrVerified info \<and> cidrAllowed allowed (IP (RemoteAddr info)) \<and>
     length os < 256 \<and> held_by (FromIP (IP (RemoteAddr info))) os < 16"

fun open_step :: "prefix list \<Rightarrow> ctl_event \<Rightarrow> open_conns \<Rightarrow> open_conns" where
  "open_step allowed (Incoming now info) (n, os) =
     (if gate_admits allowed info os then (Suc n, os @ [(n, FromIP (IP (RemoteAddr info)))]) else (n, os))"
| "open_step allowed (Accepted now rel) (n, os) = (n, os)"
| "open_step allowed (Served i) (n, os) = (n, filter (\<lambda>x. fst x \<noteq> i) os)"
| "open_step allowed (Cancelled i) (n, os) = (n, filter (\<lambda>x. fst x \<noteq> i) os)"

definition live_slots :: "ctrl_slot list \<Rightarrow> (nat \<times> acct) list" where
  "live_slots ss = map (\<lambda>i. (i, slot_key (ss ! i))) (filter (\<lambda>i. \<not> slot_done (ss ! i)) [0..<length ss])"

definition ctl_abs :: "control_server \<Rightarrow> open_conns" where
  "ctl_abs s = (length (ctl_slots s), live_slots (ctl_slots s))"

lemma live_snoc: "live_slots (ss @ [x]) = live_slots ss @ (if slot_done x then [] else [(length ss, slot_key x)])"
proof -
  have "filter (\<lambda>i. \<not> slot_done ((ss @ [x]) ! i)) [0..<length ss] = filter (\<lambda>i. \<not> slot_done (ss ! i)) [0..<length ss]"
    by (rule filter_cong) (simp_all add: nth_append)
  then show ?thesis by (auto simp: live_slots_def nth_append)
qed

lemma live_done:
  assumes "i < length ss"
  shows "live_slots (ss[i := (ss ! i)\<lparr>slot_done := True\<rparr>]) = filter (\<lambda>x. fst x \<noteq> i) (live_slots ss)"
proof -
  let ?t = "ss[i := (ss ! i)\<lparr>slot_done := True\<rparr>]"
  have "filter (\<lambda>j. \<not> slot_done (?t ! j)) [0..<length ss] =
        filter (\<lambda>j. j \<noteq> i) (filter (\<lambda>j. \<not> slot_done (ss ! j)) [0..<length ss])"
    by (auto simp: nth_list_update assms intro!: filter_cong)
  moreover have "slot_key (?t ! j) = slot_key (ss ! j)" for j
    using assms by (cases "i = j") simp_all
  ultimately show ?thesis
    by (simp add: live_slots_def filter_map o_def)
qed

lemma live_gone:
  assumes "i \<ge> length ss \<or> slot_done (ss ! i)"
  shows "filter (\<lambda>x. fst x \<noteq> i) (live_slots ss) = live_slots ss"
  using assms by (auto simp: live_slots_def filter_id_conv)

lemma live_here: "i < length ss \<Longrightarrow> \<not> slot_done (ss ! i) \<Longrightarrow> (i, slot_key (ss ! i)) \<in> set (live_slots ss)"
  by (auto simp: live_slots_def)

lemma distinct_live: "distinct (map fst (live_slots ss))"
  by (simp add: live_slots_def o_def)

lemma held_append: "held_by k (xs @ ys) = held_by k xs + held_by k ys"
  by (simp add: held_by_def)

lemma held_le: "held_by k os \<le> length os"
  by (simp add: held_by_def)

lemma remove_one:
  assumes "distinct (map fst os)" and "(i, k) \<in> set os"
  shows "Suc (length (filter (\<lambda>x. fst x \<noteq> i) os)) = length os"
    and "held_by k' os = held_by k' (filter (\<lambda>x. fst x \<noteq> i) os) + (if k' = k then 1 else 0)"
proof -
  obtain xs ys where os: "os = xs @ (i, k) # ys"
    using assms(2) by (meson split_list)
  with assms(1) have out: "i \<notin> fst ` set xs" "i \<notin> fst ` set ys" by auto
  have "filter (\<lambda>x. fst x \<noteq> i) xs = xs" "filter (\<lambda>x. fst x \<noteq> i) ys = ys"
    using out by (force simp: filter_id_conv)+
  then show "Suc (length (filter (\<lambda>x. fst x \<noteq> i) os)) = length os"
    and "held_by k' os = held_by k' (filter (\<lambda>x. fst x \<noteq> i) os) + (if k' = k then 1 else 0)"
    by (auto simp: os held_by_def)
qed

section \<open>The counters are what is open\<close>

definition ctl_inv :: "prefix list \<Rightarrow> control_server \<Rightarrow> bool" where
  "ctl_inv allowed s \<longleftrightarrow> ctl_allowed s = allowed \<and> gomap (perIP s) \<and>
     ctl_conns s = int (length (live_slots (ctl_slots s))) \<and> length (live_slots (ctl_slots s)) \<le> 256 \<and>
     (\<forall>k. mget (perIP s) k = (let n = held_by k (live_slots (ctl_slots s)) in if n = 0 then None else Some (int n)) \<and>
          held_by k (live_slots (ctl_slots s)) \<le> 16)"

lemma ctl_inv_count: "ctl_inv allowed s \<Longrightarrow> ip_count (perIP s) k = int (held_by k (live_slots (ctl_slots s)))"
  by (simp add: ctl_inv_def ip_count_def Let_def)

lemma ctl_inv_init: "ctl_inv allowed (ListenControl allowed)"
  by (simp add: ctl_inv_def ListenControl_def live_slots_def held_by_def)

lemma sourceAllowed_cidr: "sourceAllowed s a = cidrAllowed (ctl_allowed s) (IP a)"
  by (simp add: sourceAllowed_def cidrAllowed_def)

lemma noteRejection_keeps:
  "ctl_inv allowed (snd (noteRejection now s)) = ctl_inv allowed s"
  "ctl_abs (snd (noteRejection now s)) = ctl_abs s"
  by (simp_all add: noteRejection_def ctl_inv_def ctl_abs_def split: option.splits)

lemma rejected_keeps:
  "ctl_inv allowed (s\<lparr>ctl_rejected := x\<rparr>) = ctl_inv allowed s"
  "ctl_abs (s\<lparr>ctl_rejected := x\<rparr>) = ctl_abs s"
  by (simp_all add: ctl_inv_def ctl_abs_def)

text \<open>The decision of the gate, on a server whose counters are exact.\<close>

lemma gateConn_decides:
  assumes "ctl_inv allowed s"
  shows "gateConn now info s =
    (if gate_admits allowed info (live_slots (ctl_slots s))
     then ((Some (length (ctl_slots s)), None), snd (admit (RemoteAddr info) s))
     else let t = (if AddrVerified info \<and> sourceAllowed s (RemoteAddr info)
                   then s\<lparr>ctl_rejected := ctl_rejected s + 1\<rparr> else s)
          in ((None, fst (noteRejection now t)), snd (noteRejection now t)))"
proof -
  have "ctl_allowed s = allowed" "ctl_conns s = int (length (live_slots (ctl_slots s)))"
    using assms by (simp_all add: ctl_inv_def)
  then show ?thesis
    using ctl_inv_count [OF assms]
    by (auto simp: gateConn_def gate_admits_def admit_def sourceAllowed_cidr ipKey_def maxCtrlConns_def
        maxCtrlConnsPerIP_def Let_def split_beta)
qed

lemma admit_inv:
  assumes inv: "ctl_inv allowed s" and ok: "gate_admits allowed info (live_slots (ctl_slots s))"
  shows "ctl_inv allowed (snd (admit (RemoteAddr info) s)) \<and>
    ctl_abs (snd (admit (RemoteAddr info) s)) = open_step allowed (Incoming now info) (ctl_abs s)"
proof -
  let ?k = "FromIP (IP (RemoteAddr info))"
  let ?s = "snd (admit (RemoteAddr info) s)"
  have s: "?s = s\<lparr>ctl_conns := ctl_conns s + 1,
      perIP := mput ?k (int (held_by ?k (live_slots (ctl_slots s))) + 1) (perIP s),
      ctl_slots := ctl_slots s @ [\<lparr>slot_key = ?k, slot_done = False\<rparr>]\<rparr>"
    using inv ok ctl_inv_count [OF inv]
    by (simp add: admit_def ctl_inv_def gate_admits_def ipKey_def maxCtrlConns_def maxCtrlConnsPerIP_def Let_def)
  have "ctl_inv allowed ?s"
    using inv ok unfolding s
    by (auto simp: ctl_inv_def gate_admits_def live_snoc held_append gomap_simps Let_def held_by_def)
  moreover have "ctl_abs ?s = open_step allowed (Incoming now info) (ctl_abs s)"
    using ok unfolding s by (simp add: ctl_abs_def live_snoc)
  ultimately show ?thesis by blast
qed

lemma release_inv:
  assumes inv: "ctl_inv allowed s"
  shows "ctl_inv allowed (release_slot i s) \<and>
    ctl_abs (release_slot i s) = open_step allowed (Served i) (ctl_abs s)"
proof (cases "i \<ge> length (ctl_slots s) \<or> slot_done (ctl_slots s ! i)")
  case True
  then show ?thesis
    using inv live_gone [OF True] by (simp add: release_slot_def ctl_abs_def)
next
  case False
  let ?ss = "ctl_slots s" and ?k = "slot_key (ctl_slots s ! i)"
  let ?os = "filter (\<lambda>x. fst x \<noteq> i) (live_slots ?ss)"
  have here: "(i, ?k) \<in> set (live_slots ?ss)" using False by (simp add: live_here)
  note one = remove_one [OF distinct_live here]
  have live_slots: "live_slots (ctl_slots (release_slot i s)) = ?os"
    using False by (simp add: release_slot_def Let_def live_done)
  have "ctl_inv allowed (release_slot i s)"
    unfolding ctl_inv_def live_slots
  proof (intro conjI allI)
    show "ctl_conns (release_slot i s) = int (length ?os)"
      using False inv one(1) by (simp add: release_slot_def Let_def ctl_inv_def)
    show "length ?os \<le> 256"
      using inv by (auto simp: ctl_inv_def intro: le_trans [OF length_filter_le])
    fix k
    have "held_by k (live_slots ?ss) \<le> 16"
      and get: "mget (perIP s) k = (let n = held_by k (live_slots ?ss) in if n = 0 then None else Some (int n))"
      using inv by (auto simp: ctl_inv_def)
    then show "held_by k ?os \<le> 16" using one(2) [of k] by simp
    show "mget (perIP (release_slot i s)) k = (let n = held_by k ?os in if n = 0 then None else Some (int n))"
      using False get one(2) [of k] ctl_inv_count [OF inv, of ?k]
      by (auto simp: release_slot_def gomap_simps Let_def)
  qed (use False inv in \<open>auto simp: release_slot_def Let_def ctl_inv_def gomap_simps\<close>)
  then show ?thesis
    using live_slots False by (simp add: ctl_abs_def release_slot_def Let_def)
qed

text \<open>Every event keeps the counters exact and does to the open connections what the
  specification does.\<close>

lemma ctl_refines:
  assumes "ctl_inv allowed s"
  shows "ctl_inv allowed (ctl_step e s) \<and> ctl_abs (ctl_step e s) = open_step allowed e (ctl_abs s)"
proof (cases e)
  case (Incoming now info)
  show ?thesis
  proof (cases "gate_admits allowed info (live_slots (ctl_slots s))")
    case True
    then show ?thesis
      using admit_inv [OF assms True] by (simp add: Incoming gateConn_decides [OF assms])
  next
    case False
    then show ?thesis
      using assms by (simp add: Incoming gateConn_decides [OF assms] Let_def noteRejection_keeps rejected_keeps)
        (simp add: ctl_abs_def)
  qed
next
  case (Accepted now rel)
  then show ?thesis
    using assms noteRejection_keeps [where now = now and s = s] by (cases rel) (simp_all add: acceptConn_def ctl_abs_def)
qed (use release_inv [OF assms] in \<open>simp_all add: ctl_abs_def\<close>)

interpretation control: stepwise ctl_step "ctl_inv allowed" "\<lambda>_. True" for allowed
  by unfold_locales (rule ctl_refines [THEN conjunct1])

lemma ctl_run_inv: "ctl_inv allowed (fold ctl_step es (ListenControl allowed))"
  by (rule control.inv_run) (simp_all add: ctl_inv_init)

lemma ctl_run_abs:
  "ctl_inv allowed s \<Longrightarrow> ctl_abs (fold ctl_step es s) = fold (open_step allowed) es (ctl_abs s)"
  by (induction es arbitrary: s) (simp_all add: ctl_refines)

lemma ctl_run_open:
  "live_slots (ctl_slots (fold ctl_step es (ListenControl allowed))) = snd (fold (open_step allowed) es (0, []))"
proof -
  have "ctl_abs (ListenControl allowed) = (0, [])"
    by (simp add: ctl_abs_def ListenControl_def live_slots_def)
  then show ?thesis
    using ctl_run_abs [OF ctl_inv_init, of es allowed] unfolding ctl_abs_def by (metis snd_conv)
qed

lemma held_sum: "length os = (\<Sum>k \<in> snd ` set os. held_by k os)"
proof -
  have "length os = sum (count_list (map snd os)) (set (map snd os))"
    by (simp add: sum_count_set)
  also have "\<dots> = (\<Sum>k \<in> snd ` set os. held_by k os)"
    by (rule sum.cong) (simp_all add: held_by_def count_list_eq_length_filter filter_map o_def eq_commute)
  finally show ?thesis .
qed

lemma sources_of:
  assumes "\<forall>k. held_by k os \<le> 16"
  shows "length os \<le> 16 * card (snd ` set os)"
proof -
  have "length os = (\<Sum>k \<in> snd ` set os. held_by k os)" by (rule held_sum)
  also have "\<dots> \<le> of_nat (card (snd ` set os)) * 16"
    by (rule sum_bounded_above) (use assms in blast)
  finally show ?thesis by simp
qed

lemma held_pos: "held_by k os = 0 \<longleftrightarrow> k \<notin> snd ` set os"
  by (auto simp: held_by_def filter_empty_conv)

lemma perIP_keys:
  assumes "ctl_inv allowed s"
  shows "mkeys (perIP s) = snd ` set (live_slots (ctl_slots s))"
proof (rule set_eqI)
  fix k
  have "mget (perIP s) k = None \<longleftrightarrow> held_by k (live_slots (ctl_slots s)) = 0"
    using assms by (simp add: ctl_inv_def Let_def)
  then show "k \<in> mkeys (perIP s) \<longleftrightarrow> k \<in> snd ` set (live_slots (ctl_slots s))"
    by (simp only: mget_None_iff held_pos) blast
qed

text \<open>C31: After any sequence of incoming connections, accepted connections, returning or
  panicking handlers and cancelled contexts, in any order and with any closure released any
  number of times, the control listener's counters are exact: the global one is the number
  of open connections, the per-source ones are the open connections of each source, and the
  map holds the sources with an open connection and no other. The gate admits a connection
  exactly if its address is validated and on the allowlist, fewer than 256 connections are
  open and fewer than 16 from its own source, so a full table takes at least 16
  different sources.\<close>

theorem control_admission:
  "let s = fold ctl_step es (ListenControl allowed); os = snd (fold (open_step allowed) es (0, [])) in
    ctl_conns s = int (length os) \<and> length os \<le> 256 \<and>
    (\<forall>k. ip_count (perIP s) k = int (held_by k os) \<and> held_by k os \<le> 16) \<and>
    gomap (perIP s) \<and> mkeys (perIP s) = snd ` set os \<and>
    (fst (fst (gateConn now info s)) \<noteq> None \<longleftrightarrow> gate_admits allowed info os) \<and>
    length os \<le> 16 * card (snd ` set os)"
proof -
  define s where "s = fold ctl_step es (ListenControl allowed)"
  define os where "os = snd (fold (open_step allowed) es (0, []))"
  have inv: "ctl_inv allowed s" unfolding s_def by (rule ctl_run_inv)
  have os: "live_slots (ctl_slots s) = os" unfolding s_def os_def by (rule ctl_run_open)
  have held: "\<forall>k. held_by k os \<le> 16" using inv os by (simp add: ctl_inv_def)
  have "ctl_conns s = int (length os) \<and> length os \<le> 256 \<and> gomap (perIP s)"
    using inv os by (simp add: ctl_inv_def)
  then show ?thesis
    using held sources_of [OF held] ctl_inv_count [OF inv] perIP_keys [OF inv] gateConn_decides [OF inv, of now info]
    unfolding Let_def s_def [symmetric] os_def [symmetric]
    by (simp add: os Let_def)
qed

text \<open>The refusal line counts refusals for lack of a slot only: a source outside the allowlist
  makes the server log that the connection limit is reached, with count 0, and the refusals
  of the next 30 seconds, real ones included, go unlogged.\<close>

theorem refusal_line_miscounts:
  assumes "AddrVerified info" and "\<not> cidrAllowed allowed (IP (RemoteAddr info))" and "allowed \<noteq> []"
    and "AddrVerified info'" and "0 \<le> t' - t" and "t' - t < rejectLogInterval"
  shows "fst (gateConn t info (ListenControl allowed)) = (None, Some 0) \<and>
    snd (fst (gateConn t' info' (snd (gateConn t info (ListenControl allowed))))) = None"
  using assms
  by (auto simp: gateConn_def admit_def noteRejection_def sourceAllowed_cidr ListenControl_def
      maxCtrlConns_def maxCtrlConnsPerIP_def ip_count_def split_beta Let_def)

text \<open>A request that reaches the server's queue carries the key the handshake proved and a
  complete body of at most 8192 bytes; a longer or an unfinished one is not served.\<close>

lemma readRequest_exact:
  "readRequest remote key (body, eof) taken = Some r \<longleftrightarrow>
     taken \<and> eof \<and> length body \<le> maxControlReq \<and> r = \<lparr>Remote = remote, ClientKey = key, Payload = body\<rparr>"
  by (auto simp: readRequest_def read_all_limited_def split: if_splits)

theorem acceptStreams_exact:
  "r \<in> set (acceptStreams certs remote sts) \<longleftrightarrow>
     (\<exists>key rest body. certs = Some key # rest \<and> ((body, True), True) \<in> set sts \<and>
        length body \<le> maxControlReq \<and> r = \<lparr>Remote = remote, ClientKey = key, Payload = body\<rparr>)"
proof -
  have "r \<in> set (List.map_filter f xs) \<longleftrightarrow> (\<exists>x \<in> set xs. f x = Some r)" for f and xs :: "((bytes \<times> bool) \<times> bool) list"
    by (force simp: List.map_filter_def)
  then show ?thesis
    by (cases certs) (fastforce simp: acceptStreams_def clientKeyOf_def readRequest_exact split: option.splits)+
qed

end
