(* ===== verification/Spec2Isabelle.thy ===== *)
theory Spec2Isabelle
  imports RelayProps AuthzProps Scenario TrustScenario Lazy ConnectScenario NftScopes Control
begin

text \<open>
  A verification library for BuddyNet, a peer-to-peer overlay for two or more buddies that
  pair with an invite and reconnect by their keys.

  \<^bold>\<open>The program.\<close> A buddy (\<^verbatim>\<open>internal/role/buddy.go\<close>, \<^verbatim>\<open>connect.go\<close>) registers a token with a
  handshake server (\<^verbatim>\<open>handshake.go\<close>) over an authenticated connection (\<^verbatim>\<open>internal/tunnel/control.go\<close>).
  The server pairs two registrations of one token, signs a roster and may issue relay tickets.
  The buddies reach each other directly or through a blind relay (\<^verbatim>\<open>internal/relay\<close>), confirm a
  first pairing with a short authentication string, bring up WireGuard or QUIC, restrict what the
  partner reaches with nftables (\<^verbatim>\<open>internal/nft\<close>), and store a session, so that the invite is not
  needed again. A supervisor runs one worker per partner of the manifest.

  \<^bold>\<open>Conventions.\<close> Strings and byte slices are character lists, maps are association lists
  (\<open>Prelude\<close>), times are integers in nanoseconds, errors are values, and a struct is a record with
  the fields of the source; a constant keeps its name. A method that holds a lock for its whole body is one step;
  \<open>Interleave\<close>, \<open>Lazy\<close> and \<open>Supervisor\<close> split a handler at its lock operations. Randomness, clocks,
  results of system calls and datagrams are arguments or events. What is not part of this
  repository or of Go is a parameter: Ed25519, SHA-256, HKDF and X25519 (\<open>crypto\<close>, \<open>curves\<close>), NaCl
  boxes (\<open>box_open\<close>), the scanner of \<^verbatim>\<open>encoding/json\<close> (\<open>json\<close>; the decoding rules of Go are modelled),
  the YAML library (\<open>yaml\<close>), the X.509 parser and the nf_tables virtual machine. Their documented
  behaviour is a named hypothesis of the theorems that need it, and the scenario theories exhibit
  instances.

  \<^bold>\<open>Theories.\<close>
  \<^item> \<open>Prelude\<close>, \<open>Stdlib\<close>, \<open>GoText\<close>, \<open>NetText\<close>: maps, \<^verbatim>\<open>base64\<close>, \<^verbatim>\<open>strings\<close>, \<^verbatim>\<open>bufio\<close>, \<^verbatim>\<open>netip\<close>; the locales
    \<open>stepwise\<close> (a transition system with an invariant), \<open>codec\<close>, and later \<open>admission_gate\<close> (\<open>RateLimit\<close>)
    and \<open>aging_cache\<close> (\<open>AuthzProps\<close>), each interpreted on the definitions of the components.
  \<^item> \<open>RateLimit\<close> (\<^verbatim>\<open>internal/ratelimit\<close>), \<open>Netkey\<close> (\<^verbatim>\<open>internal/netkey\<close>), \<open>Control\<close>
    (\<^verbatim>\<open>internal/tunnel/control.go\<close>): budgets per source. Token buckets never admit more than their
    ceiling, and the counters of the control listener are exact under every order of releases.
  \<^item> \<open>Ticket\<close>, \<open>RelayWire\<close>, \<open>Relay\<close> (\<^verbatim>\<open>internal/ticket\<close>, \<^verbatim>\<open>internal/relay\<close>); \<open>RelayInv\<close>, \<open>RelayRun\<close>,
    \<open>RelayProps\<close>: caps, evidence for every leg, forwarding to the partner only, no reflection.
  \<^item> \<open>Protocol\<close>, \<open>ProtocolProps\<close> (\<^verbatim>\<open>pkg/protocol\<close>), \<open>Keys\<close> (\<^verbatim>\<open>internal/crypto\<close>, invites): messages round
    trip, identities are not invented.
  \<^item> \<open>Authz\<close>, \<open>AuthzProps\<close> (\<^verbatim>\<open>authz.go\<close>): the allowlist and its replay caches.
  \<^item> \<open>Handshake\<close>, \<open>HandshakeProps\<close> (\<^verbatim>\<open>handshake.go\<close>): the registry is bounded, buddies meet, and every
    roster entry is backed by verified registrations. \<open>Shared\<close> has the registry with the pointers of
    the source and shows that each critical section refines the one by value; \<open>Interleave\<close> runs
    requests as threads over it: every schedule is a sequence of critical sections with the same
    results, and the rendering outside the lock races with registrations.
  \<^item> \<open>Register\<close> (\<^verbatim>\<open>register.go\<close>), \<open>Pairing\<close>, \<open>Scenario\<close>: buddy, server and relay together; a concrete run.
  \<^item> \<open>AtomicFile\<close>, \<open>AtomicProps\<close> (\<^verbatim>\<open>internal/atomicfile\<close>): replacement under power cuts, and the refinement
    of whole-file writes by the sequence of system calls.
  \<^item> \<open>TrustStore\<close>, \<open>Manifest\<close>, \<open>TrustText\<close>, \<open>TrustProps\<close>, \<open>Revocation\<close>, \<open>Stores\<close>, \<open>ManifestProps\<close>
    (\<^verbatim>\<open>trustlock.go\<close>, \<^verbatim>\<open>trust.go\<close>, \<^verbatim>\<open>session.go\<close>, \<^verbatim>\<open>peersfile.go\<close>, \<^verbatim>\<open>peerscmd.go\<close>): the trust files; a
    revocation holds until it is lifted, and the stores read back as written.
  \<^item> \<open>Attempts\<close>, \<open>AttemptProps\<close>, \<open>Supervisor\<close>, \<open>Lazy\<close>, \<open>TrustScenario\<close>: the reconnect loop, the workers and
    their shutdown, the tunnel dialled on demand.
  \<^item> \<open>Sas\<close> (\<^verbatim>\<open>sas.go\<close>, channel binding), \<open>PeerCache\<close>, \<open>PeerCacheProps\<close> (\<^verbatim>\<open>internal/peer\<close>, \<^verbatim>\<open>internal/dns\<close>),
    \<open>Paths\<close> (\<^verbatim>\<open>fallback.go\<close>, direct mode), \<open>Connect\<close>, \<open>ConnectProps\<close>, \<open>ConnectScenario\<close> (\<^verbatim>\<open>connect.go\<close>): one
    attempt from registration to the stored session, and what it may store about whom.
  \<^item> \<open>Scope\<close>, \<open>ScopeProps\<close>, \<open>Netlink\<close>, \<open>Nft\<close>, \<open>NftProps\<close>, \<open>NftScopes\<close> (\<^verbatim>\<open>internal/nft\<close>): scopes as text, the
    bytes of the netlink batch, what its messages do to a table of the kernel, and what the kernel
    enforces over any later calls, whatever table was there before. The kernel is assumed to
    acknowledge only batches it has run.

  \<^bold>\<open>Bounds and termination.\<close> Recursive definitions terminate by structure or by a measure; no
  model uses fuel. Loops that wait for input consume an event list, and its end stands for the
  timeout or the closed socket. Widths are kept where the code can wrap around: ticket
  times and the back-off arithmetic (\<open>wrap64\<close>), netlink lengths. \<^verbatim>\<open>float64\<close> token counts are
  exact rationals, so rounding is not covered.

  \<^bold>\<open>Not modelled.\<close> Sockets, tickers, log output and flag parsing (\<^verbatim>\<open>cmd\<close>, \<^verbatim>\<open>relay.go\<close>, \<^verbatim>\<open>probe.go\<close>,
  \<^verbatim>\<open>forward.go\<close>, start-up in \<^verbatim>\<open>buddy.go\<close>) have no state to reason about beyond what the events carry.
  \<^verbatim>\<open>internal/tunnel/quic.go\<close> and \<^verbatim>\<open>transport.go\<close> configure quic-go. \<^verbatim>\<open>internal/wg\<close> is modelled in its
  netlink format only: the outcome of bringing up a device is an input of \<open>Connect\<close>. The platform
  files and \<^verbatim>\<open>internal/vip\<close> are single system calls; \<^verbatim>\<open>safe.go\<close> and \<^verbatim>\<open>wipe.go\<close> act on panics and dead
  memory, which the models do not have. \<^verbatim>\<open>lab\<close> and \<^verbatim>\<open>tools\<close> are not part of the shipped program.
  Concurrent access to Go memory is covered where a theory says so; elsewhere a locked
  method is taken as atomic.
\<close>

end
